(* ===== verification/DF_Prelude.thy ===== *)
theory DF_Prelude
  imports Main "HOL-Library.Word" "HOL-Library.AList" "HOL-Library.Signed_Division"
begin

text \<open>
  Shared vocabulary of the development: the machine integers of the Go code, Go errors as
  values, the decimal printing and parsing of \<open>strconv\<close>, the string helpers of
  \<open>strings\<close>, and the generic lemmas that the component theories use.
\<close>

named_theorems go_str \<open>decimal printing, parsing and string helpers\<close>
named_theorems go_err \<open>wrapping and inspection of Go errors\<close>

type_synonym u64 = "64 word"
type_synonym i64 = "64 word"
type_synonym i32 = "32 word"

section \<open>Decimal numerals (strconv)\<close>

definition digit_char :: "nat \<Rightarrow> char" where
  "digit_char d = char_of (48 + d)"

definition char_digit :: "char \<Rightarrow> nat" where
  "char_digit c = of_char c - 48"

definition is_digit :: "char \<Rightarrow> bool" where
  "is_digit c \<longleftrightarrow> 48 \<le> (of_char c :: nat) \<and> (of_char c :: nat) \<le> 57"

fun nat_str :: "nat \<Rightarrow> string" where
  "nat_str n = (if n < 10 then [digit_char n] else nat_str (n div 10) @ [digit_char (n mod 10)])"

declare nat_str.simps [simp del]

definition int_str :: "int \<Rightarrow> string" where
  "int_str i = (if i < 0 then CHR ''-'' # nat_str (nat (- i)) else nat_str (nat i))"

definition digits_val :: "string \<Rightarrow> nat" where
  "digits_val s = foldl (\<lambda>a c. a * 10 + char_digit c) 0 s"

text \<open>\<open>strconv.FormatUint(v, 10)\<close> and \<open>strconv.ParseUint(s, 10, 64)\<close>.\<close>

definition format_uint :: "u64 \<Rightarrow> string" where
  "format_uint v = nat_str (unat v)"

definition parse_uint64 :: "string \<Rightarrow> u64 option" where
  "parse_uint64 s =
     (if s = [] \<or> \<not> list_all is_digit s then None
      else if 2 ^ 64 \<le> digits_val s then None
      else Some (of_nat (digits_val s)))"

lemma of_char_digit_char: "d < 10 \<Longrightarrow> (of_char (digit_char d) :: nat) = 48 + d"
  by (simp add: digit_char_def)

lemma is_digit_digit_char [go_str]: "d < 10 \<Longrightarrow> is_digit (digit_char d)"
  by (simp add: is_digit_def of_char_digit_char)

lemma char_digit_digit_char [go_str]: "d < 10 \<Longrightarrow> char_digit (digit_char d) = d"
  by (simp add: char_digit_def of_char_digit_char)

lemma nat_str_nonempty [simp, go_str]: "nat_str n \<noteq> []"
  by (subst nat_str.simps) simp

lemma nat_str_digits [go_str]: "list_all is_digit (nat_str n)"
proof (induction n rule: nat_str.induct)
  case (1 n)
  then show ?case by (subst nat_str.simps) (simp add: is_digit_digit_char)
qed

lemma digits_val_snoc: "digits_val (s @ [c]) = digits_val s * 10 + char_digit c"
  by (simp add: digits_val_def)

lemma digits_val_nat_str [simp, go_str]: "digits_val (nat_str n) = n"
proof (induction n rule: nat_str.induct)
  case (1 n)
  show ?case
  proof (cases "n < 10")
    case True
    then show ?thesis
      by (subst nat_str.simps) (simp add: digits_val_def char_digit_digit_char)
  next
    case False
    with 1 show ?thesis
      by (subst nat_str.simps) (simp add: digits_val_snoc char_digit_digit_char)
  qed
qed

lemma nat_str_inj [simp]: "nat_str m = nat_str n \<longleftrightarrow> m = n"
  by (metis digits_val_nat_str)

lemma format_uint_nonempty [simp]: "format_uint v \<noteq> []"
  by (simp add: format_uint_def)

lemma parse_format_uint [simp, go_str]: "parse_uint64 (format_uint v) = Some v"
proof -
  have "unat v < 2 ^ LENGTH(64)" by (rule unsigned_less)
  then show ?thesis by (simp add: parse_uint64_def format_uint_def nat_str_digits)
qed

lemma format_uint_0 [simp]: "format_uint 0 = ''0''"
  by code_simp

section \<open>Go errors\<close>

text \<open>
  An error value is what \<open>errors.New\<close>, \<open>fmt.Errorf\<close> or a typed error of the code
  builds. \<open>ErrWrap p e\<close> is \<open>fmt.Errorf("p: %w", e)\<close> and \<open>ErrComma p e\<close> is
  \<open>fmt.Errorf("p, %w", e)\<close>, the forms every wrapping of the code has, so \<open>errors.Is\<close> and \<open>errors.As\<close> look through it. \<open>ErrJS c ec d\<close> is
  a JetStream API error with its status, error code and description.
\<close>

datatype gerr =
    ErrMsg string
  | ErrWrap string gerr
  | ErrComma string gerr
  | ErrConflict u64 u64
  | ErrNoEvents
  | ErrUnsupportedCheck
  | ErrRootNotFound
  | ErrJS nat nat string

fun gerr_msg :: "gerr \<Rightarrow> string" where
  "gerr_msg (ErrMsg m) = m"
| "gerr_msg (ErrWrap p e) = p @ '': '' @ gerr_msg e"
| "gerr_msg (ErrComma p e) = p @ '', '' @ gerr_msg e"
| "gerr_msg (ErrConflict x a) =
     ''version conflict error: expected log version: '' @ format_uint x @ '', actual: '' @ format_uint a"
| "gerr_msg ErrNoEvents = ''empty events''"
| "gerr_msg ErrUnsupportedCheck = ''unsupported version check type''"
| "gerr_msg ErrRootNotFound = ''root not found''"
| "gerr_msg (ErrJS c ec d) =
     ''nats: API error: code='' @ nat_str c @ '' err_code='' @ nat_str ec @ '' description='' @ d"

text \<open>\<open>errors.As\<close> for \<open>*version.ConflictError\<close> and \<open>errors.Is\<close> for \<open>ErrRootNotFound\<close>.\<close>

fun as_conflict :: "gerr \<Rightarrow> (u64 \<times> u64) option" where
  "as_conflict (ErrConflict x a) = Some (x, a)"
| "as_conflict (ErrWrap p e) = as_conflict e"
| "as_conflict (ErrComma p e) = as_conflict e"
| "as_conflict _ = None"

fun is_not_found :: "gerr \<Rightarrow> bool" where
  "is_not_found ErrRootNotFound = True"
| "is_not_found (ErrWrap p e) = is_not_found e"
| "is_not_found (ErrComma p e) = is_not_found e"
| "is_not_found _ = False"

text \<open>\<open>errors.As\<close> for \<open>*jetstream.APIError\<close>.\<close>

fun as_js :: "gerr \<Rightarrow> (nat \<times> string) option" where
  "as_js (ErrJS c ec d) = Some (ec, d)"
| "as_js (ErrWrap p e) = as_js e"
| "as_js (ErrComma p e) = as_js e"
| "as_js _ = None"

abbreviation wrap :: "string \<Rightarrow> gerr + 'a \<Rightarrow> gerr + 'a" where
  "wrap p r \<equiv> map_sum (ErrWrap p) id r"

fun bind_res :: "gerr + 'a \<Rightarrow> ('a \<Rightarrow> gerr + 'b) \<Rightarrow> gerr + 'b" where
  "bind_res (Inl e) f = Inl e"
| "bind_res (Inr a) f = f a"

lemma bind_res_Inr [go_err]: "bind_res r f = Inr b \<longleftrightarrow> (\<exists>a. r = Inr a \<and> f a = Inr b)"
  by (cases r) auto

text \<open>A loop that stops at the first error, as \<open>for ... { if err != nil { return err } }\<close>.\<close>

fun traverse :: "('a \<Rightarrow> gerr + 'b) \<Rightarrow> 'a list \<Rightarrow> gerr + 'b list" where
  "traverse f [] = Inr []"
| "traverse f (x # xs) =
     (case f x of Inl e \<Rightarrow> Inl e
      | Inr y \<Rightarrow> (case traverse f xs of Inl e \<Rightarrow> Inl e | Inr ys \<Rightarrow> Inr (y # ys)))"

lemma traverse_Inr_iff [go_err]: "traverse f xs = Inr ys \<longleftrightarrow> list_all2 (\<lambda>x y. f x = Inr y) xs ys"
proof (induction xs arbitrary: ys)
  case (Cons x xs)
  show ?case
  proof (cases "f x")
    case (Inr y)
    then show ?thesis
    proof (cases "traverse f xs")
      case (Inl e)
      then have "\<And>zs. \<not> list_all2 (\<lambda>x y. f x = Inr y) xs zs"
        using Cons.IH by (metis sum.distinct(1))
      with Inl Inr show ?thesis by (auto simp: list_all2_Cons1)
    next
      case (Inr zs)
      then have "\<And>us. list_all2 (\<lambda>x y. f x = Inr y) xs us \<longleftrightarrow> us = zs"
        using Cons.IH by (metis sum.inject(2))
      with Inr \<open>f x = Inr y\<close> show ?thesis by (auto simp: list_all2_Cons1)
    qed
  qed (simp add: list_all2_Cons1)
qed auto

lemma traverse_all: "(\<And>x. x \<in> set xs \<Longrightarrow> f x = Inr (g x)) \<Longrightarrow> traverse f xs = Inr (map g xs)"
  by (induction xs) auto

lemma traverse_length: "traverse f xs = Inr ys \<Longrightarrow> length ys = length xs"
  by (auto simp: traverse_Inr_iff dest: list_all2_lengthD)

section \<open>Strings\<close>

text \<open>\<open>strings.Split(s, c)\<close> for a one-byte separator, \<open>strings.Join\<close> and \<open>strings.ReplaceAll\<close>.\<close>

fun go_split :: "char \<Rightarrow> string \<Rightarrow> string list" where
  "go_split c [] = [[]]"
| "go_split c (x # xs) =
     (if x = c then [] # go_split c xs
      else (case go_split c xs of [] \<Rightarrow> [[x]] | p # ps \<Rightarrow> (x # p) # ps))"

fun go_join :: "string \<Rightarrow> string list \<Rightarrow> string" where
  "go_join sep [] = []"
| "go_join sep [p] = p"
| "go_join sep (p # q # ps) = p @ sep @ go_join sep (q # ps)"

definition replace_char :: "char \<Rightarrow> char \<Rightarrow> string \<Rightarrow> string" where
  "replace_char a b s = map (\<lambda>c. if c = a then b else c) s"

lemma go_split_nonempty [simp]: "go_split c s \<noteq> []"
  by (induction s) (auto split: list.splits)

lemma go_split_no_sep [go_str]: "c \<notin> set s \<Longrightarrow> go_split c s = [s]"
  by (induction s) auto

lemma go_split_append [go_str]: "c \<notin> set p \<Longrightarrow> go_split c (p @ c # s) = p # go_split c s"
  by (induction p) auto

lemma go_join_split: "go_join [c] (go_split c s) = s"
proof (induction s)
  case (Cons x xs)
  then show ?case by (cases "go_split c xs"; cases "tl (go_split c xs)") auto
qed simp

section \<open>Words and lists\<close>

lemma of_nat_u64_inj:
  "m < 2 ^ 64 \<Longrightarrow> n < 2 ^ 64 \<Longrightarrow> (of_nat m :: u64) = of_nat n \<longleftrightarrow> m = n"
  by (simp add: word_of_nat_eq_iff take_bit_nat_eq_self)

lemma unat_of_nat_u64: "m < 2 ^ 64 \<Longrightarrow> unat (of_nat m :: u64) = m"
  by (simp add: unat_of_nat take_bit_nat_eq_self)

lemma of_nat_u64_less:
  "m < 2 ^ 64 \<Longrightarrow> n < 2 ^ 64 \<Longrightarrow> (of_nat m :: u64) < of_nat n \<longleftrightarrow> m < n"
  by (simp add: word_less_nat_alt unat_of_nat_u64)

lemma sint_i64_of_int: "- (2 ^ 63) \<le> n \<Longrightarrow> n < 2 ^ 63 \<Longrightarrow> sint (word_of_int n :: i64) = n"
  by (simp add: sint_sbintrunc' signed_take_bit_int_eq_self)

lemma sint_i32_of_int: "- (2 ^ 31) \<le> n \<Longrightarrow> n < 2 ^ 31 \<Longrightarrow> sint (word_of_int n :: i32) = n"
  by (simp add: sint_sbintrunc' signed_take_bit_int_eq_self)

lemma map_nth_upt: "map (\<lambda>i. f (xs ! i)) [0..<length xs] = map f xs"
  by (intro nth_equalityI) auto

lemma map_upt_enumerate: "map (\<lambda>i. f i (xs ! i)) [0..<length xs] = map (\<lambda>(i, x). f i x) (zip [0..<length xs] xs)"
  by (intro nth_equalityI) auto

lemma filter_eq_drop:
  "(\<And>i. i < length xs \<Longrightarrow> P (xs ! i) \<longleftrightarrow> k \<le> i) \<Longrightarrow> filter P xs = drop k xs"
proof (induction xs arbitrary: k)
  case (Cons x xs)
  have here: "P x \<longleftrightarrow> k = 0" using Cons.prems [of 0] by simp
  show ?case
  proof (cases k)
    case 0
    have "filter P xs = drop 0 xs"
      by (rule Cons.IH) (use Cons.prems [of "Suc i" for i] 0 in auto)
    with here 0 show ?thesis by simp
  next
    case (Suc n)
    have "filter P xs = drop n xs"
      by (rule Cons.IH) (use Cons.prems [of "Suc i" for i] Suc in auto)
    with here Suc show ?thesis by simp
  qed
qed simp

end
