(* ===== verification/DF_Records.thy ===== *)
theory DF_Records
  imports DF_Prelude
begin

text \<open>
  Versions and event records of the event-sourcing layer: \<open>version/version.go\<close> (the
  \<open>uint64\<close> version, the selector, the optimistic check) and \<open>event/event_records.go\<close>,
  \<open>event/event_log.go\<close> (raw events, records, record iterators). A \<open>[]byte\<close> is a list
  over an arbitrary byte type \<open>'x\<close>; an iterator \<open>iter.Seq2\<close> is the list of the pairs it
  yields, each an error or a record.
\<close>

section \<open>Versions\<close>

type_synonym version = u64

record selector =
  sel_from :: version
  sel_to :: version

definition select_from_beginning :: selector where
  "select_from_beginning = \<lparr>sel_from = 0, sel_to = 0\<rparr>"

datatype check = CheckExact version | OtherCheck

definition check_exact :: "version \<Rightarrow> version \<Rightarrow> gerr option" where
  "check_exact expected actual =
     (if actual \<noteq> expected then Some (ErrConflict expected actual) else None)"

lemma check_exact_None [simp]: "check_exact x a = None \<longleftrightarrow> a = x"
  by (simp add: check_exact_def)

lemma check_exact_same [simp]: "check_exact x x = None"
  by simp

section \<open>Raw events and records\<close>

record 'x raw =
  raw_name :: string
  raw_data :: "'x list"

record 'x rec =
  rec_log :: string
  rec_raw :: "'x raw"
  rec_version :: version

definition new_record :: "version \<Rightarrow> string \<Rightarrow> string \<Rightarrow> 'x list \<Rightarrow> 'x rec" where
  "new_record v log name data =
     \<lparr>rec_log = log, rec_raw = \<lparr>raw_name = name, raw_data = data\<rparr>, rec_version = v\<rparr>"

record 'x grec =
  grec_log :: string
  grec_raw :: "'x raw"
  grec_version :: version
  grec_global :: version

definition new_global_record ::
    "version \<Rightarrow> version \<Rightarrow> string \<Rightarrow> string \<Rightarrow> 'x list \<Rightarrow> 'x grec" where
  "new_global_record g v log name data =
     \<lparr>grec_log = log, grec_raw = \<lparr>raw_name = name, raw_data = data\<rparr>, grec_version = v,
      grec_global = g\<rparr>"

definition to_records :: "'x raw list \<Rightarrow> string \<Rightarrow> version \<Rightarrow> 'x rec list" where
  "to_records re logID start =
     map (\<lambda>i. new_record (start + of_nat (i + 1)) logID (raw_name (re ! i)) (raw_data (re ! i)))
       [0..<length re]"

type_synonym 'x records = "(gerr + 'x rec) list"

fun collect :: "'x records \<Rightarrow> gerr + 'x rec list" where
  "collect [] = Inr []"
| "collect (Inl e # rs) = Inl (ErrWrap ''records collect'' e)"
| "collect (Inr r # rs) = (case collect rs of Inl e \<Rightarrow> Inl e | Inr ys \<Rightarrow> Inr (r # ys))"

lemma new_record_sel [simp]:
  "rec_log (new_record v l n d) = l"
  "rec_version (new_record v l n d) = v"
  "rec_raw (new_record v l n d) = \<lparr>raw_name = n, raw_data = d\<rparr>"
  by (simp_all add: new_record_def)

lemma length_to_records [simp]: "length (to_records re l s) = length re"
  by (simp add: to_records_def)

lemma to_records_nth:
  "i < length re \<Longrightarrow>
     to_records re l s ! i = new_record (s + of_nat (i + 1)) l (raw_name (re ! i)) (raw_data (re ! i))"
  by (simp add: to_records_def)

lemma to_records_Nil [simp]: "to_records [] l s = []"
  by (simp add: to_records_def)

lemma raw_rebuild [simp]: "\<lparr>raw_name = raw_name r, raw_data = raw_data r\<rparr> = r"
  by (cases r) simp

lemma map_rec_raw_to_records [simp]: "map rec_raw (to_records re l s) = re"
  by (intro nth_equalityI) (auto simp: to_records_nth)

lemma map_rec_version_to_records:
  "map rec_version (to_records re l s) = map (\<lambda>i. s + of_nat (Suc i)) [0..<length re]"
  by (intro nth_equalityI) (auto simp: to_records_nth)

lemma rec_log_to_records: "r \<in> set (to_records re l s) \<Longrightarrow> rec_log r = l"
  by (auto simp: to_records_def)

lemma to_records_append:
  "to_records (xs @ ys) l s = to_records xs l s @ to_records ys l (s + of_nat (length xs))"
proof (intro nth_equalityI)
  fix i assume "i < length (to_records (xs @ ys) l s)"
  then have i: "i < length xs + length ys" by simp
  show "to_records (xs @ ys) l s ! i =
      (to_records xs l s @ to_records ys l (s + of_nat (length xs))) ! i"
  proof (cases "i < length xs")
    case True
    with i show ?thesis by (simp add: to_records_nth nth_append)
  next
    case False
    with i have "i - length xs < length ys" and "i = length xs + (i - length xs)" by auto
    then obtain k where "k < length ys" "i = length xs + k" by blast
    then show ?thesis by (simp add: to_records_nth nth_append algebra_simps)
  qed
qed simp

lemma to_records_Cons:
  "to_records (e # es) lg x = new_record (x + 1) lg (raw_name e) (raw_data e) # to_records es lg (x + 1)"
  using to_records_append [of "[e]" es lg x] by (simp add: to_records_def)

lemma collect_map_Inr [simp]: "collect (map Inr rs) = Inr rs"
  by (induction rs) auto

lemma collect_Inr: "collect rs = Inr ys \<Longrightarrow> rs = map Inr ys"
  by (induction rs arbitrary: ys rule: collect.induct) (auto split: sum.splits)

text \<open>The records a selector lets through; \<open>To = 0\<close> means no upper limit.\<close>

definition in_range :: "selector \<Rightarrow> version \<Rightarrow> bool" where
  "in_range sel v \<longleftrightarrow> sel_from sel \<le> v \<and> (sel_to sel = 0 \<or> v \<le> sel_to sel)"

lemma in_range_beginning [simp]: "in_range select_from_beginning v"
  by (simp add: in_range_def select_from_beginning_def)

end
