(* ===== verification/DF_Event.thy ===== *)
theory DF_Event
  imports DF_Records
begin

text \<open>
  Event registries (\<open>event/registry.go\<close>) and event transformers
  (\<open>event/event_transformer.go\<close>). A factory function is modelled by the kind \<open>'k\<close> of
  event it creates; \<open>kind_name\<close> is the \<open>EventName\<close> of what it creates.
\<close>

section \<open>Registry\<close>

type_synonym 'k registry = "string \<rightharpoonup> 'k"

definition quoted :: "string \<Rightarrow> string" where
  "quoted s = CHR 0x22 # s @ [CHR 0x22]"

fun register_events :: "('k \<Rightarrow> string) \<Rightarrow> 'k registry \<Rightarrow> 'k list \<Rightarrow> 'k registry \<times> gerr option" where
  "register_events kind_name reg [] = (reg, None)"
| "register_events kind_name reg (k # ks) =
     (case reg (kind_name k) of
        Some _ \<Rightarrow> (reg, Some (ErrMsg (''duplicate event '' @ quoted (kind_name k) @ '' in registry'')))
      | None \<Rightarrow> register_events kind_name (reg(kind_name k \<mapsto> k)) ks)"

definition get_func :: "'k registry \<Rightarrow> string \<Rightarrow> 'k option" where
  "get_func reg name = reg name"

definition event_names :: "('k \<Rightarrow> string) \<Rightarrow> 'k list \<Rightarrow> string list" where
  "event_names kind_name ks = map kind_name ks"

text \<open>
  A registry that wraps a shared registry of every aggregate's events: \<open>caches\<close> are the
  factories made so far, \<open>narrow\<close> is the type assertion from the shared kind.
\<close>

record ('a, 'k) concrete_registry =
  cr_any :: "'a registry"
  cr_factories :: "'k registry"

definition concrete_register ::
    "('k \<Rightarrow> string) \<Rightarrow> ('k \<Rightarrow> 'a) \<Rightarrow> ('a \<Rightarrow> string) \<Rightarrow> ('a, 'k) concrete_registry \<Rightarrow> 'k list
      \<Rightarrow> ('a, 'k) concrete_registry \<times> gerr option" where
  "concrete_register kind_name widen any_name r ks =
     (case register_events any_name (cr_any r) (map widen ks) of
        (any', e) \<Rightarrow> (r\<lparr>cr_any := any'\<rparr>, e))"

definition concrete_get_func ::
    "('a \<Rightarrow> 'k) \<Rightarrow> ('a, 'k) concrete_registry \<Rightarrow> string \<Rightarrow> ('a, 'k) concrete_registry \<times> 'k option" where
  "concrete_get_func narrow r name =
     (case get_func (cr_any r) name of
        None \<Rightarrow> (r, None)
      | Some a \<Rightarrow>
         (case cr_factories r name of
            Some k \<Rightarrow> (r, Some k)
          | None \<Rightarrow> (r\<lparr>cr_factories := (cr_factories r)(name \<mapsto> narrow a)\<rparr>, Some (narrow a))))"

lemma register_events_ok_iff:
  "snd (register_events kn reg ks) = None \<longleftrightarrow>
     distinct (map kn ks) \<and> (\<forall>k \<in> set ks. reg (kn k) = None)"
proof (induction ks arbitrary: reg)
  case (Cons k ks)
  have "(\<forall>x \<in> set ks. (reg(kn k \<mapsto> k)) (kn x) = None) \<longleftrightarrow>
      kn k \<notin> kn ` set ks \<and> (\<forall>x \<in> set ks. reg (kn x) = None)"
    by (auto simp: image_iff split: if_splits)
  with Cons show ?case
    by (cases "reg (kn k)") (simp_all add: conj_ac)
qed simp

lemma register_events_lookup:
  "register_events kn reg ks = (reg', None) \<Longrightarrow>
     get_func reg' name = (case map_of (map (\<lambda>k. (kn k, k)) ks) name of Some k \<Rightarrow> Some k | None \<Rightarrow> reg name)"
proof (induction ks arbitrary: reg)
  case (Cons k ks)
  then have none: "reg (kn k) = None" and rest: "register_events kn (reg(kn k \<mapsto> k)) ks = (reg', None)"
    by (auto split: option.splits)
  have "distinct (map kn (k # ks))"
    using register_events_ok_iff [of kn reg "k # ks"] Cons.prems by simp
  then have fresh: "map_of (map (\<lambda>k. (kn k, k)) ks) (kn k) = None"
    by (auto simp: map_of_eq_None_iff)
  show ?case
    using Cons.IH [OF rest] fresh by (auto split: option.split)
qed (simp add: get_func_def)

text \<open>Registered once, every kind is found under its own name.\<close>

lemma registered_kind_found:
  assumes "register_events kn reg ks = (reg', None)" and "k \<in> set ks"
  shows "get_func reg' (kn k) = Some k"
proof -
  have "distinct (map kn ks)"
    using register_events_ok_iff [of kn reg ks] assms(1) by simp
  then have "distinct (map fst (map (\<lambda>k. (kn k, k)) ks))" by (simp add: comp_def)
  moreover have "(kn k, k) \<in> set (map (\<lambda>k. (kn k, k)) ks)" using assms(2) by simp
  ultimately have "map_of (map (\<lambda>k. (kn k, k)) ks) (kn k) = Some k" by (rule map_of_is_SomeI)
  then show ?thesis using register_events_lookup [OF assms(1)] by simp
qed

section \<open>Transformers\<close>

record 'e transformer =
  for_write :: "'e list \<Rightarrow> gerr + 'e list"
  for_read :: "'e list \<Rightarrow> gerr + 'e list"

fun run_transforms :: "('e list \<Rightarrow> gerr + 'e list) list \<Rightarrow> 'e list \<Rightarrow> gerr + 'e list" where
  "run_transforms [] evs = Inr evs"
| "run_transforms (t # ts) evs = (case t evs of Inl e \<Rightarrow> Inl e | Inr evs' \<Rightarrow> run_transforms ts evs')"

definition chain_for_write :: "'e transformer list \<Rightarrow> 'e list \<Rightarrow> gerr + 'e list" where
  "chain_for_write ts evs = run_transforms (map for_write ts) evs"

definition chain_for_read :: "'e transformer list \<Rightarrow> 'e list \<Rightarrow> gerr + 'e list" where
  "chain_for_read ts evs = run_transforms (map for_read (rev ts)) evs"

definition transformer_chain :: "'e transformer list \<Rightarrow> 'e transformer" where
  "transformer_chain ts = \<lparr>for_write = chain_for_write ts, for_read = chain_for_read ts\<rparr>"

text \<open>
  \<open>AnyTransformerToTyped\<close>: the events are widened, the wrapped transformer runs, and every
  result must narrow back to the typed event.
\<close>

fun convert_slice_from_any :: "('a \<Rightarrow> 'e option) \<Rightarrow> nat \<Rightarrow> 'a list \<Rightarrow> gerr + 'e list" where
  "convert_slice_from_any narrow i [] = Inr []"
| "convert_slice_from_any narrow i (a # as) =
     (case narrow a of
        None \<Rightarrow> Inl (ErrMsg (''transformer returned incompatible type at index '' @ nat_str i))
      | Some e \<Rightarrow> (case convert_slice_from_any narrow (Suc i) as of Inl x \<Rightarrow> Inl x | Inr es \<Rightarrow> Inr (e # es)))"

definition any_transformer_to_typed ::
    "('e \<Rightarrow> 'a) \<Rightarrow> ('a \<Rightarrow> 'e option) \<Rightarrow> 'a transformer \<Rightarrow> 'e transformer" where
  "any_transformer_to_typed widen narrow t =
     \<lparr>for_write = (\<lambda>evs. bind_res (for_write t (map widen evs)) (convert_slice_from_any narrow 0)),
      for_read = (\<lambda>evs. bind_res (for_read t (map widen evs)) (convert_slice_from_any narrow 0))\<rparr>"

text \<open>A transformer whose read side undoes its write side, as its documentation asks.\<close>

definition inverts :: "'e transformer \<Rightarrow> bool" where
  "inverts t \<longleftrightarrow> (\<forall>evs out. for_write t evs = Inr out \<longrightarrow> for_read t out = Inr evs)"

lemma run_transforms_append:
  "run_transforms (ts @ us) evs = bind_res (run_transforms ts evs) (run_transforms us)"
  by (induction ts arbitrary: evs) (auto split: sum.split)

lemma chain_inverts: "list_all inverts ts \<Longrightarrow> inverts (transformer_chain ts)"
proof (induction ts)
  case Nil
  show ?case by (simp add: inverts_def transformer_chain_def chain_for_write_def chain_for_read_def)
next
  case (Cons t ts)
  have t: "inverts t" and IH: "inverts (transformer_chain ts)" using Cons by auto
  show ?case
    unfolding inverts_def
  proof (intro allI impI)
    fix evs out
    assume w: "for_write (transformer_chain (t # ts)) evs = Inr out"
    then obtain mid where mid: "for_write t evs = Inr mid" "chain_for_write ts mid = Inr out"
      by (auto simp: transformer_chain_def chain_for_write_def split: sum.splits)
    have "chain_for_read ts out = Inr mid"
      using IH mid(2) by (simp add: inverts_def transformer_chain_def)
    moreover have "for_read t mid = Inr evs"
      using t mid(1) by (simp add: inverts_def)
    ultimately show "for_read (transformer_chain (t # ts)) out = Inr evs"
      by (simp add: transformer_chain_def chain_for_read_def run_transforms_append)
  qed
qed

lemma convert_slice_from_any_map:
  "(\<And>e. narrow (widen e) = Some e) \<Longrightarrow> convert_slice_from_any narrow i (map widen es) = Inr es"
  by (induction es arbitrary: i) auto

end
