(* ===== verification/DF_Log.thy ===== *)
theory DF_Log
  imports DF_Records
begin

text \<open>
  The contract of \<open>event.Log\<close> (\<open>event/event_log.go\<close>): what a repository relies on when
  it appends with an optimistic check and reads the stream of one aggregate back.
  \<open>contents l lg\<close> is the sequence of raw events of the aggregate \<open>lg\<close>, oldest first;
  \<open>total l\<close> counts the events of the log and bounds the \<open>uint64\<close> arithmetic.
\<close>

locale event_log =
  fixes append :: "'l \<Rightarrow> string \<Rightarrow> check \<Rightarrow> 'x raw list \<Rightarrow> 'l \<times> (gerr + version)"
    and read :: "'l \<Rightarrow> string \<Rightarrow> selector \<Rightarrow> 'x records"
    and contents :: "'l \<Rightarrow> string \<Rightarrow> 'x raw list"
    and total :: "'l \<Rightarrow> nat"
    and invar :: "'l \<Rightarrow> bool"
  assumes contents_total: "invar l \<Longrightarrow> length (contents l lg) \<le> total l"
    and total_bound: "invar l \<Longrightarrow> total l < 2 ^ 64"
    and append_result: "invar l \<Longrightarrow> es \<noteq> [] \<Longrightarrow> total l + length es < 2 ^ 64 \<Longrightarrow>
      snd (append l lg (CheckExact (of_nat (length (contents l lg)))) es)
        = Inr (of_nat (length (contents l lg) + length es))"
    and append_contents: "invar l \<Longrightarrow> es \<noteq> [] \<Longrightarrow> total l + length es < 2 ^ 64 \<Longrightarrow>
      contents (fst (append l lg (CheckExact (of_nat (length (contents l lg)))) es))
        = (contents l)(lg := contents l lg @ es)"
    and append_invar: "invar l \<Longrightarrow> es \<noteq> [] \<Longrightarrow> total l + length es < 2 ^ 64 \<Longrightarrow>
      invar (fst (append l lg (CheckExact (of_nat (length (contents l lg)))) es))"
    and append_total: "invar l \<Longrightarrow> es \<noteq> [] \<Longrightarrow> total l + length es < 2 ^ 64 \<Longrightarrow>
      total (fst (append l lg (CheckExact (of_nat (length (contents l lg)))) es)) = total l + length es"
    and append_conflict: "invar l \<Longrightarrow> es \<noteq> [] \<Longrightarrow> v \<noteq> of_nat (length (contents l lg)) \<Longrightarrow>
      \<exists>e. append l lg (CheckExact v) es = (l, Inl e) \<and>
          as_conflict e = Some (v, of_nat (length (contents l lg)))"
    and append_empty: "\<exists>e. append l lg c [] = (l, Inl e)"
    and read_contents: "invar l \<Longrightarrow>
      read l lg sel = map Inr (filter (\<lambda>r. in_range sel (rec_version r)) (to_records (contents l lg) lg 0))"
begin

text \<open>A read from the beginning returns the whole stream, with versions 1, 2, and so on.\<close>

lemma read_beginning: "invar l \<Longrightarrow> read l lg select_from_beginning = map Inr (to_records (contents l lg) lg 0)"
  by (simp add: read_contents)

text \<open>An append succeeds exactly when the expected version is the length of the stream.\<close>

lemma append_succeeds_iff:
  assumes "invar l" "es \<noteq> []" "total l + length es < 2 ^ 64"
  shows "(\<exists>v'. snd (append l lg (CheckExact v) es) = Inr v') \<longleftrightarrow> v = of_nat (length (contents l lg))"
proof (cases "v = of_nat (length (contents l lg))")
  case True
  with assms append_result show ?thesis by auto
next
  case False
  with append_conflict [OF assms(1,2)] show ?thesis by fastforce
qed

text \<open>A failed append leaves the log as it was; a successful one only extends one stream.\<close>

lemma append_extends:
  assumes "invar l" "total l + length es < 2 ^ 64"
    and "append l lg (CheckExact v) es = (l', Inr v')"
  shows "contents l' = (contents l)(lg := contents l lg @ es)"
    and "v' = of_nat (length (contents l lg) + length es)" and "invar l'"
    and "v = of_nat (length (contents l lg))" and "es \<noteq> []" and "total l' = total l + length es"
proof -
  show ne: "es \<noteq> []" using append_empty [of l lg "CheckExact v"] assms(3) by auto
  show v: "v = of_nat (length (contents l lg))"
    using append_succeeds_iff [OF assms(1) ne assms(2), of lg v] assms(3) by auto
  show "contents l' = (contents l)(lg := contents l lg @ es)"
    using append_contents [OF assms(1) ne assms(2), of lg] assms(3) v by simp
  show "v' = of_nat (length (contents l lg) + length es)"
    using append_result [OF assms(1) ne assms(2), of lg] assms(3) v by simp
  show "invar l'"
    using append_invar [OF assms(1) ne assms(2), of lg] assms(3) v by simp
  show "total l' = total l + length es"
    using append_total [OF assms(1) ne assms(2), of lg] assms(3) v by simp
qed

text \<open>
  No lost update: of two writers that read the same version, the one that comes second is
  refused and the log keeps what the first one wrote.
\<close>

lemma second_writer_conflicts:
  assumes inv: "invar l" and bound: "total l + length es < 2 ^ 64"
    and first: "append l lg (CheckExact v) es = (l1, Inr v1)" and ne: "es' \<noteq> []"
  shows "\<exists>e. append l1 lg (CheckExact v) es' = (l1, Inl e) \<and> as_conflict e = Some (v, v1)"
proof -
  note ext = append_extends [OF inv bound first]
  have "length (contents l lg) + length es \<le> total l + length es"
    using contents_total [OF inv] by simp
  with bound ext(5) have "(of_nat (length (contents l lg)) :: u64) \<noteq> of_nat (length (contents l lg) + length es)"
    by (subst of_nat_u64_inj) auto
  then have "v \<noteq> of_nat (length (contents l1 lg))"
    using ext by simp
  from append_conflict [OF ext(3) ne this] ext(1,2) show ?thesis by simp
qed

end

end
