(* ===== verification/DF_Aggregate.thy ===== *)
theory DF_Aggregate
  imports DF_Event DF_Log
begin

text \<open>
  Aggregate roots and their repository: \<open>aggregate/base.go\<close>, \<open>aggregate/aggregate.go\<close>
  and \<open>aggregate/repository.go\<close>. An aggregate is its state \<open>'s\<close> with the embedded
  \<open>Base\<close> (uncommitted events, version). \<open>apply\<close> is its \<open>Apply\<close> method: it
  returns the state it leaves and the error, since a failing method may have changed the state.
\<close>

section \<open>Roots\<close>

record ('s, 'e) root =
  root_state :: 's
  root_uncommitted :: "'e list"
  root_version :: version

type_synonym ('s, 'e) applier = "'e \<Rightarrow> 's \<Rightarrow> 's \<times> gerr option"

definition flush_uncommitted_events :: "('s, 'e) root \<Rightarrow> ('s, 'e) root \<times> 'e list" where
  "flush_uncommitted_events r = (r\<lparr>root_uncommitted := []\<rparr>, root_uncommitted r)"

definition set_version :: "('s, 'e) root \<Rightarrow> version \<Rightarrow> ('s, 'e) root" where
  "set_version r v = r\<lparr>root_version := v\<rparr>"

fun record_that :: "('s, 'e) applier \<Rightarrow> ('s, 'e) root \<Rightarrow> 'e list \<Rightarrow> ('s, 'e) root \<times> gerr option" where
  "record_that apply r [] = (r, None)"
| "record_that apply r (e # es) =
     (case apply e (root_state r) of
        (s', Some err) \<Rightarrow> (r\<lparr>root_state := s'\<rparr>, Some (ErrWrap ''record events: root apply'' err))
      | (s', None) \<Rightarrow>
          record_that apply
            (r\<lparr>root_state := s', root_uncommitted := root_uncommitted r @ [e],
               root_version := root_version r + 1\<rparr>) es)"

section \<open>Loading\<close>

text \<open>The serializer, seen through the events: their name, their bytes, and decoding by kind.\<close>

record ('e, 'k, 'x) codec =
  ev_name :: "'e \<Rightarrow> string"
  ev_ser :: "'e \<Rightarrow> gerr + 'x list"
  ev_de :: "'k \<Rightarrow> 'x list \<Rightarrow> gerr + 'e"

fun decode_records ::
    "'k registry \<Rightarrow> ('e, 'k, 'x) codec \<Rightarrow> 'e list \<Rightarrow> version \<Rightarrow> 'x records \<Rightarrow> gerr + ('e list \<times> version)" where
  "decode_records reg c evs lastv [] = Inr (evs, lastv)"
| "decode_records reg c evs lastv (Inl e # rs) = Inl (ErrWrap ''load from records'' e)"
| "decode_records reg c evs lastv (Inr r # rs) =
     (case get_func reg (raw_name (rec_raw r)) of
        None \<Rightarrow> Inl (ErrMsg (''load from records: factory not registered for event '' @
                    quoted (raw_name (rec_raw r))))
      | Some k \<Rightarrow>
         (case ev_de c k (raw_data (rec_raw r)) of
            Inl e \<Rightarrow> Inl (ErrWrap ''load from records: unmarshal record data'' e)
          | Inr ev \<Rightarrow> decode_records reg c (evs @ [ev]) (rec_version r) rs))"

fun apply_loaded ::
    "('s, 'e) applier \<Rightarrow> ('e \<Rightarrow> string) \<Rightarrow> ('s, 'e) root \<Rightarrow> 'e list \<Rightarrow> ('s, 'e) root \<times> gerr option" where
  "apply_loaded apply name r [] = (r, None)"
| "apply_loaded apply name r (e # es) =
     (case apply e (root_state r) of
        (s', Some err) \<Rightarrow>
          (r\<lparr>root_state := s'\<rparr>, Some (ErrWrap (''load from records: root apply '' @ name e) err))
      | (s', None) \<Rightarrow> apply_loaded apply name (r\<lparr>root_state := s'\<rparr>) es)"

definition load_from_records ::
    "('s, 'e) applier \<Rightarrow> 'k registry \<Rightarrow> ('e, 'k, 'x) codec \<Rightarrow> 'e transformer list
      \<Rightarrow> ('s, 'e) root \<Rightarrow> 'x records \<Rightarrow> ('s, 'e) root \<times> gerr option" where
  "load_from_records apply reg c ts r records =
     (case decode_records reg c [] 0 records of
        Inl e \<Rightarrow> (r, Some e)
      | Inr (evs, lastv) \<Rightarrow>
         (case run_transforms (map for_read (rev ts)) evs of
            Inl e \<Rightarrow> (r, Some (ErrWrap ''load from records: read transform failed'' e))
          | Inr evs' \<Rightarrow>
             (case apply_loaded apply (ev_name c) r evs' of
                (r', Some e) \<Rightarrow> (r', Some e)
              | (r', None) \<Rightarrow> (if evs' = [] then r' else set_version r' lastv, None))))"

definition read_and_load_from_store ::
    "('l \<Rightarrow> string \<Rightarrow> selector \<Rightarrow> 'x records) \<Rightarrow> ('s, 'e) applier \<Rightarrow> 'k registry
      \<Rightarrow> ('e, 'k, 'x) codec \<Rightarrow> 'e transformer list \<Rightarrow> 'l \<Rightarrow> ('s, 'e) root \<Rightarrow> string \<Rightarrow> selector
      \<Rightarrow> ('s, 'e) root \<times> gerr option" where
  "read_and_load_from_store read apply reg c ts l r lg sel =
     (case load_from_records apply reg c ts r (read l lg sel) of
        (r', Some e) \<Rightarrow> (r', Some (ErrWrap ''read and load from store'' e))
      | (r', None) \<Rightarrow>
         (if root_version r' = 0 then (r', Some (ErrWrap ''read and load from store'' ErrRootNotFound))
          else (r', None)))"

section \<open>Committing\<close>

fun serialize_all :: "('e, 'k, 'x) codec \<Rightarrow> 'e list \<Rightarrow> gerr + 'x raw list" where
  "serialize_all c [] = Inr []"
| "serialize_all c (e # es) =
     (case ev_ser c e of
        Inl err \<Rightarrow> Inl (ErrWrap (''raw events from uncommitted '' @ ev_name c e) err)
      | Inr bs \<Rightarrow>
         (case serialize_all c es of Inl err \<Rightarrow> Inl err
          | Inr raws \<Rightarrow> Inr (\<lparr>raw_name = ev_name c e, raw_data = bs\<rparr> # raws)))"

definition raw_events_from_uncommitted ::
    "('e, 'k, 'x) codec \<Rightarrow> 'e transformer list \<Rightarrow> 'e list \<Rightarrow> gerr + 'x raw list" where
  "raw_events_from_uncommitted c ts uncommitted =
     (case run_transforms (map for_write ts) uncommitted of
        Inl e \<Rightarrow> Inl (ErrWrap ''raw events from uncommitted: write transform failed'' e)
      | Inr evs \<Rightarrow> serialize_all c evs)"

definition commit_events ::
    "('l \<Rightarrow> string \<Rightarrow> check \<Rightarrow> 'x raw list \<Rightarrow> 'l \<times> (gerr + version)) \<Rightarrow> ('s \<Rightarrow> string)
      \<Rightarrow> ('e, 'k, 'x) codec \<Rightarrow> 'e transformer list \<Rightarrow> 'l \<Rightarrow> ('s, 'e) root
      \<Rightarrow> 'l \<times> ('s, 'e) root \<times> (gerr + version \<times> 'e list)" where
  "commit_events append_to ident c ts l r =
     (case flush_uncommitted_events r of (r', uncommitted) \<Rightarrow>
        if uncommitted = [] then (l, r', Inr (0, []))
        else (let log_id = ident (root_state r');
                  expected = CheckExact (root_version r' - of_nat (length uncommitted))
              in case raw_events_from_uncommitted c ts uncommitted of
                   Inl e \<Rightarrow> (l, r', Inl (ErrWrap ''aggregate commit: events to raw'' e))
                 | Inr raws \<Rightarrow>
                    (case append_to l log_id expected raws of
                       (l', Inl e) \<Rightarrow> (l', r', Inl (ErrWrap ''aggregate commit: append events'' e))
                     | (l', Inr v) \<Rightarrow> (l', r', Inr (v, uncommitted)))))"

section \<open>The repository\<close>

record ('s, 'e, 'k, 'x) es_repo =
  repo_registry :: "'k registry"
  repo_codec :: "('e, 'k, 'x) codec"
  repo_create :: "('s, 'e) root"
  repo_transformers :: "'e transformer list"

text \<open>
  \<open>NewESRepo\<close> with the option \<open>EventSerializer\<close>; \<open>kinds\<close> is \<open>EventFuncs()\<close> of a
  fresh root, which is registered unless \<open>DontRegisterRoot\<close> was given.
\<close>

definition new_es_repo ::
    "('k \<Rightarrow> string) \<Rightarrow> 'k list \<Rightarrow> bool \<Rightarrow> ('e, 'k, 'x) codec \<Rightarrow> ('s, 'e) root \<Rightarrow> 'e transformer list
      \<Rightarrow> gerr + ('s, 'e, 'k, 'x) es_repo" where
  "new_es_repo kind_name kinds should_register c create ts =
     (if should_register then
        (case register_events kind_name Map.empty kinds of
           (reg, Some e) \<Rightarrow> Inl (ErrWrap ''new aggregate repository'' e)
         | (reg, None) \<Rightarrow> Inr \<lparr>repo_registry = reg, repo_codec = c, repo_create = create, repo_transformers = ts\<rparr>)
      else Inr \<lparr>repo_registry = Map.empty, repo_codec = c, repo_create = create, repo_transformers = ts\<rparr>)"

definition repo_load_aggregate ::
    "('l \<Rightarrow> string \<Rightarrow> selector \<Rightarrow> 'x records) \<Rightarrow> ('s, 'e) applier \<Rightarrow> ('s, 'e, 'k, 'x) es_repo \<Rightarrow> 'l
      \<Rightarrow> ('s, 'e) root \<Rightarrow> string \<Rightarrow> selector \<Rightarrow> ('s, 'e) root \<times> gerr option" where
  "repo_load_aggregate read apply repo l r lg sel =
     read_and_load_from_store read apply (repo_registry repo) (repo_codec repo) (repo_transformers repo)
       l r lg sel"

definition repo_get_version ::
    "('l \<Rightarrow> string \<Rightarrow> selector \<Rightarrow> 'x records) \<Rightarrow> ('s, 'e) applier \<Rightarrow> ('s, 'e, 'k, 'x) es_repo \<Rightarrow> 'l
      \<Rightarrow> string \<Rightarrow> selector \<Rightarrow> gerr + ('s, 'e) root" where
  "repo_get_version read apply repo l lg sel =
     (case repo_load_aggregate read apply repo l (repo_create repo) lg sel of
        (r, Some e) \<Rightarrow> Inl (ErrWrap (''repo get version '' @ format_uint (sel_from sel)) e)
      | (r, None) \<Rightarrow> Inr r)"

definition repo_get ::
    "('l \<Rightarrow> string \<Rightarrow> selector \<Rightarrow> 'x records) \<Rightarrow> ('s, 'e) applier \<Rightarrow> ('s, 'e, 'k, 'x) es_repo \<Rightarrow> 'l
      \<Rightarrow> string \<Rightarrow> gerr + ('s, 'e) root" where
  "repo_get read apply repo l lg = repo_get_version read apply repo l lg select_from_beginning"

definition repo_save ::
    "('l \<Rightarrow> string \<Rightarrow> check \<Rightarrow> 'x raw list \<Rightarrow> 'l \<times> (gerr + version)) \<Rightarrow> ('s \<Rightarrow> string)
      \<Rightarrow> ('s, 'e, 'k, 'x) es_repo \<Rightarrow> 'l \<Rightarrow> ('s, 'e) root
      \<Rightarrow> 'l \<times> ('s, 'e) root \<times> (gerr + version \<times> 'e list)" where
  "repo_save append_to ident repo l r =
     (case commit_events append_to ident (repo_codec repo) (repo_transformers repo) l r of
        (l', r', Inl e) \<Rightarrow> (l', r', Inl (ErrWrap ''repo save'' e))
      | (l', r', Inr res) \<Rightarrow> (l', r', Inr res))"

section \<open>Decoding a stream\<close>

definition decode_raw :: "'k registry \<Rightarrow> ('e, 'k, 'x) codec \<Rightarrow> 'x raw \<Rightarrow> gerr + 'e" where
  "decode_raw reg c re =
     (case get_func reg (raw_name re) of
        None \<Rightarrow> Inl (ErrMsg (''load from records: factory not registered for event '' @ quoted (raw_name re)))
      | Some k \<Rightarrow> wrap ''load from records: unmarshal record data'' (ev_de c k (raw_data re)))"

text \<open>An event that its own bytes, stored under its own name, are decoded to.\<close>

definition survives :: "'k registry \<Rightarrow> ('e, 'k, 'x) codec \<Rightarrow> 'e \<Rightarrow> bool" where
  "survives reg c e =
     (case ev_ser c e of Inl _ \<Rightarrow> False
      | Inr bs \<Rightarrow>
         (case get_func reg (ev_name c e) of None \<Rightarrow> False
          | Some k \<Rightarrow> (case ev_de c k bs of Inl _ \<Rightarrow> False | Inr e' \<Rightarrow> e' = e)))"

lemma survivesE:
  assumes "survives reg c e"
  obtains bs k where "ev_ser c e = Inr bs" "get_func reg (ev_name c e) = Some k" "ev_de c k bs = Inr e"
proof (cases "ev_ser c e")
  case (Inr bs)
  with assms obtain k where k: "get_func reg (ev_name c e) = Some k"
    by (auto simp: survives_def split: option.splits)
  with assms Inr have "ev_de c k bs = Inr e"
    by (cases "ev_de c k bs") (auto simp: survives_def)
  with Inr k that show ?thesis by blast
qed (use assms in \<open>simp add: survives_def\<close>)

lemma decode_records_Inr:
  "traverse (decode_raw reg c) (map rec_raw rs) = Inr es \<Longrightarrow>
     decode_records reg c acc v0 (map Inr rs)
       = Inr (acc @ es, if rs = [] then v0 else rec_version (List.last rs))"
proof (induction rs arbitrary: acc v0 es)
  case (Cons r rs)
  then obtain e es' where e: "decode_raw reg c (rec_raw r) = Inr e"
    and es': "traverse (decode_raw reg c) (map rec_raw rs) = Inr es'" "es = e # es'"
    by (auto split: sum.splits)
  then obtain k where "get_func reg (raw_name (rec_raw r)) = Some k" "ev_de c k (raw_data (rec_raw r)) = Inr e"
    by (cases "ev_de c (the (get_func reg (raw_name (rec_raw r)))) (raw_data (rec_raw r))")
       (auto simp: decode_raw_def split: option.splits)
  with Cons.IH [OF es'(1), of "acc @ [e]" "rec_version r"] es'(2) show ?case by simp
qed simp

lemma decode_records_Inl:
  "traverse (decode_raw reg c) (map rec_raw rs) = Inl e \<Longrightarrow>
     decode_records reg c acc v0 (map Inr rs) = Inl e"
proof (induction rs arbitrary: acc v0)
  case (Cons r rs)
  show ?case
  proof (cases "get_func reg (raw_name (rec_raw r))")
    case None
    with Cons.prems show ?thesis by (simp add: decode_raw_def)
  next
    case (Some k)
    show ?thesis
    proof (cases "ev_de c k (raw_data (rec_raw r))")
      case (Inl x)
      with Some Cons.prems show ?thesis by (simp add: decode_raw_def)
    next
      case (Inr ev)
      with Some have "decode_raw reg c (rec_raw r) = Inr ev" by (simp add: decode_raw_def)
      with Cons.prems have "traverse (decode_raw reg c) (map rec_raw rs) = Inl e"
        by (simp split: sum.splits)
      with Some Inr Cons.IH show ?thesis by simp
    qed
  qed
qed simp

lemma traverse_append:
  "traverse f (xs @ ys) =
     (case traverse f xs of Inl e \<Rightarrow> Inl e
      | Inr us \<Rightarrow> (case traverse f ys of Inl e \<Rightarrow> Inl e | Inr vs \<Rightarrow> Inr (us @ vs)))"
  by (induction xs) (auto split: sum.splits)

lemma survives_serialized:
  "list_all (survives reg c) es \<Longrightarrow>
     \<exists>raws. serialize_all c es = Inr raws \<and> length raws = length es \<and> traverse (decode_raw reg c) raws = Inr es"
proof (induction es)
  case (Cons e es)
  then obtain raws where raws: "serialize_all c es = Inr raws" "length raws = length es"
    "traverse (decode_raw reg c) raws = Inr es" by auto
  from Cons.prems have "survives reg c e" by simp
  then obtain bs k where "ev_ser c e = Inr bs" "get_func reg (ev_name c e) = Some k" "ev_de c k bs = Inr e"
    by (rule survivesE)
  then have "decode_raw reg c \<lparr>raw_name = ev_name c e, raw_data = bs\<rparr> = Inr e" by (simp add: decode_raw_def)
  with raws \<open>ev_ser c e = Inr bs\<close> show ?case by simp
qed simp

lemma serialize_all_length: "serialize_all c es = Inr raws \<Longrightarrow> length raws = length es"
  by (induction es arbitrary: raws) (auto split: sum.splits)

section \<open>Recording and applying with a method that does not fail\<close>

definition step_of :: "('s, 'e) applier \<Rightarrow> 'e \<Rightarrow> 's \<Rightarrow> 's" where
  "step_of apply e s = fst (apply e s)"

lemma record_that_total:
  assumes "\<And>e s. snd (apply e s) = None"
  shows "record_that apply r es =
    (r\<lparr>root_state := fold (step_of apply) es (root_state r), root_uncommitted := root_uncommitted r @ es,
       root_version := root_version r + of_nat (length es)\<rparr>, None)"
proof (induction es arbitrary: r)
  case (Cons e es)
  obtain s' where "apply e (root_state r) = (s', None)"
    using assms [of e "root_state r"] by (cases "apply e (root_state r)") auto
  with Cons show ?case by (simp add: step_of_def algebra_simps)
qed simp

lemma apply_loaded_total:
  assumes "\<And>e s. snd (apply e s) = None"
  shows "apply_loaded apply name r es = (r\<lparr>root_state := fold (step_of apply) es (root_state r)\<rparr>, None)"
proof (induction es arbitrary: r)
  case (Cons e es)
  obtain s' where "apply e (root_state r) = (s', None)"
    using assms [of e "root_state r"] by (cases "apply e (root_state r)") auto
  with Cons show ?case by (simp add: step_of_def)
qed simp

end
