(* ===== verification/DF_Repo.thy ===== *)
theory DF_Repo
  imports DF_Aggregate
begin

text \<open>
  What a repository promises on top of any event log: a locale that extends the contract of
  \<open>event.Log\<close> with an aggregate whose \<open>Apply\<close> does not fail and with no
  transformers, the way the workers and the command handler build it. The lemmas say what
  \<open>Get\<close> and \<open>Save\<close> of \<open>aggregate/repository.go\<close> do to the streams of the log.
\<close>

text \<open>The root that a stream of events leads to.\<close>

definition replayed :: "('s, 'e) applier \<Rightarrow> ('s, 'e, 'k, 'x) es_repo \<Rightarrow> 'e list \<Rightarrow> ('s, 'e) root" where
  "replayed app repo es =
     (repo_create repo)\<lparr>root_state := fold (step_of app) es (root_state (repo_create repo)),
       root_version := of_nat (length es)\<rparr>"

locale event_repository = event_log append read contents total invar
  for append :: "'l \<Rightarrow> string \<Rightarrow> check \<Rightarrow> 'x raw list \<Rightarrow> 'l \<times> (gerr + version)"
    and read :: "'l \<Rightarrow> string \<Rightarrow> selector \<Rightarrow> 'x records"
    and contents :: "'l \<Rightarrow> string \<Rightarrow> 'x raw list"
    and total :: "'l \<Rightarrow> nat"
    and invar :: "'l \<Rightarrow> bool" +
  fixes app :: "('s, 'e) applier"
    and ident :: "'s \<Rightarrow> string"
    and repo :: "('s, 'e, 'k, 'x) es_repo"
  assumes apply_total: "snd (app e s) = None"
    and no_transformers: "repo_transformers repo = []"
    and fresh_root: "root_version (repo_create repo) = 0" "root_uncommitted (repo_create repo) = []"
begin

definition decoded :: "'l \<Rightarrow> string \<Rightarrow> gerr + 'e list" where
  "decoded l lg = traverse (decode_raw (repo_registry repo) (repo_codec repo)) (contents l lg)"

text \<open>A root in memory that continues the stored stream of its aggregate.\<close>

definition synced :: "'l \<Rightarrow> string \<Rightarrow> ('s, 'e) root \<Rightarrow> bool" where
  "synced l lg r \<longleftrightarrow>
     (\<exists>es. decoded l lg = Inr es \<and>
        root_state r = fold (step_of app) (es @ root_uncommitted r) (root_state (repo_create repo)) \<and>
        root_version r = of_nat (length es + length (root_uncommitted r)))"

lemma decoded_length: "decoded l lg = Inr es \<Longrightarrow> length es = length (contents l lg)"
  unfolding decoded_def by (rule traverse_length)

lemma load_decoded:
  assumes inv: "invar l" and dec: "decoded l lg = Inr es"
  shows "repo_load_aggregate read app repo l (repo_create repo) lg select_from_beginning =
    (replayed app repo es, if es = [] then Some (ErrWrap ''read and load from store'' ErrRootNotFound) else None)"
proof -
  let ?rs = "to_records (contents l lg) lg 0"
  have len: "length es = length (contents l lg)" by (rule decoded_length [OF dec])
  have d: "decode_records (repo_registry repo) (repo_codec repo) [] 0 (map Inr ?rs)
      = Inr (es, if ?rs = [] then 0 else rec_version (List.last ?rs))"
    using decode_records_Inr [of "repo_registry repo" "repo_codec repo" ?rs es "[]" 0] dec
    by (simp add: decoded_def)
  have "(if ?rs = [] then 0 else rec_version (List.last ?rs)) = of_nat (length es)"
  proof (cases "contents l lg = []")
    case False
    then have ne: "?rs \<noteq> []" "0 < length (contents l lg)"
      using length_to_records [of "contents l lg" lg 0] by (auto simp del: length_to_records)
    have "List.last ?rs = ?rs ! (length (contents l lg) - 1)"
      using last_conv_nth [OF ne(1)] by simp
    with ne len show ?thesis by (simp add: to_records_nth)
  qed (simp add: len)
  with d have load: "load_from_records app (repo_registry repo) (repo_codec repo) [] (repo_create repo) (map Inr ?rs)
      = (replayed app repo es, None)"
    by (cases "es = []")
      (simp_all add: load_from_records_def apply_loaded_total [OF apply_total] set_version_def replayed_def fresh_root)
  have "root_version (replayed app repo es) = 0 \<longleftrightarrow> es = []"
    using of_nat_u64_inj [of "length es" 0] contents_total [OF inv, of lg] total_bound [OF inv] len
    by (auto simp: replayed_def)
  with load show ?thesis
    by (simp add: repo_load_aggregate_def read_and_load_from_store_def read_beginning [OF inv] no_transformers)
qed

text \<open>\<open>Get\<close> replays the whole stream, and reports a missing aggregate for an empty one.\<close>

lemma get_decoded:
  assumes "invar l" and "decoded l lg = Inr es"
  shows "repo_get read app repo l lg =
    (if es = [] then Inl (ErrWrap ''repo get version 0'' (ErrWrap ''read and load from store'' ErrRootNotFound))
     else Inr (replayed app repo es))"
proof -
  have "format_uint (sel_from select_from_beginning) = ''0''"
    by (simp add: select_from_beginning_def)
  then show ?thesis
    using load_decoded [OF assms] by (simp add: repo_get_def repo_get_version_def)
qed

lemma get_undecodable:
  assumes "invar l" and "decoded l lg = Inl e"
  shows "\<exists>e'. repo_get read app repo l lg = Inl e'"
proof -
  have "decode_records (repo_registry repo) (repo_codec repo) [] 0 (map Inr (to_records (contents l lg) lg 0)) = Inl e"
    using decode_records_Inl [of "repo_registry repo" "repo_codec repo" "to_records (contents l lg) lg 0"] assms(2)
    by (simp add: decoded_def)
  then show ?thesis
    by (simp add: repo_get_def repo_get_version_def repo_load_aggregate_def read_and_load_from_store_def
        read_beginning [OF assms(1)] load_from_records_def no_transformers)
qed

lemma replayed_synced: "decoded l lg = Inr es \<Longrightarrow> synced l lg (replayed app repo es)"
  by (auto simp: synced_def replayed_def fresh_root)

text \<open>Recording never fails and keeps the root in step with its stream.\<close>

lemma record_synced:
  assumes "synced l lg r"
  shows "snd (record_that app r es) = None" and "synced l lg (fst (record_that app r es))"
    and "root_uncommitted (fst (record_that app r es)) = root_uncommitted r @ es"
  using assms by (auto simp: record_that_total [OF apply_total] synced_def algebra_simps)

text \<open>Saving a root at the version of its stream stores exactly its new events.\<close>

lemma save_stores:
  assumes inv: "invar l" and lg: "ident (root_state r) = lg"
    and ver: "root_version r = of_nat (length es + length (root_uncommitted r))"
    and bound: "total l + length (root_uncommitted r) < 2 ^ 64"
    and surv: "list_all (survives (repo_registry repo) (repo_codec repo)) (root_uncommitted r)"
    and ne: "root_uncommitted r \<noteq> []" and dec: "decoded l lg = Inr es"
  obtains l' where "repo_save append ident repo l r =
      (l', r\<lparr>root_uncommitted := []\<rparr>, Inr (root_version r, root_uncommitted r))"
    and "invar l'" and "total l' = total l + length (root_uncommitted r)"
    and "\<And>j. j \<noteq> lg \<Longrightarrow> contents l' j = contents l j"
    and "decoded l' lg = Inr (es @ root_uncommitted r)"
proof -
  let ?us = "root_uncommitted r"
  obtain raws where raws: "serialize_all (repo_codec repo) ?us = Inr raws" "length raws = length ?us"
    "traverse (decode_raw (repo_registry repo) (repo_codec repo)) raws = Inr ?us"
    using survives_serialized [OF surv] by blast
  have raws_ne: "raws \<noteq> []" using raws(2) ne by auto
  have len: "length es = length (contents l lg)" by (rule decoded_length [OF dec])
  from ver have exp: "root_version r - of_nat (length ?us) = of_nat (length (contents l lg))"
    by (simp add: len)
  obtain l' where ap: "append l lg (CheckExact (of_nat (length (contents l lg)))) raws
      = (l', Inr (of_nat (length (contents l lg) + length raws)))"
    using append_result [OF inv, of raws lg] raws_ne raws(2) bound
    by (cases "append l lg (CheckExact (of_nat (length (contents l lg)))) raws") auto
  have b: "total l + length raws < 2 ^ 64" using bound raws(2) by simp
  note ext = append_extends [OF inv b ap]
  have "decoded l' lg = Inr (es @ ?us)"
    using ext(1) dec raws(3) by (simp add: decoded_def traverse_append)
  moreover have "repo_save append ident repo l r = (l', r\<lparr>root_uncommitted := []\<rparr>, Inr (root_version r, ?us))"
    using ne raws(1,2) ap ver exp lg
    by (simp add: repo_save_def commit_events_def flush_uncommitted_events_def Let_def
        raw_events_from_uncommitted_def no_transformers len)
  ultimately show ?thesis
    using that ext raws(2) by simp
qed

text \<open>A round trip: what was saved is what the next \<open>Get\<close> returns.\<close>

lemma save_then_get:
  assumes "invar l" "synced l lg r" "ident (root_state r) = lg"
    "total l + length (root_uncommitted r) < 2 ^ 64"
    "list_all (survives (repo_registry repo) (repo_codec repo)) (root_uncommitted r)"
    "root_uncommitted r \<noteq> []" "repo_save append ident repo l r = (l', r', res)"
  obtains g where "repo_get read app repo l' lg = Inr g" "root_state g = root_state r"
    "root_version g = root_version r" "root_uncommitted g = []" "res = Inr (root_version r, root_uncommitted r)"
proof -
  obtain es where es: "decoded l lg = Inr es"
    "root_state r = fold (step_of app) (es @ root_uncommitted r) (root_state (repo_create repo))"
    "root_version r = of_nat (length es + length (root_uncommitted r))"
    using assms(2) by (auto simp: synced_def)
  obtain l1 where l1: "repo_save append ident repo l r =
      (l1, r\<lparr>root_uncommitted := []\<rparr>, Inr (root_version r, root_uncommitted r))"
    "invar l1" "decoded l1 lg = Inr (es @ root_uncommitted r)"
    using save_stores [OF assms(1,3) es(3) assms(4-6) es(1)] by blast
  with assms(7) have eq: "l' = l1" "res = Inr (root_version r, root_uncommitted r)" by auto
  have "repo_get read app repo l' lg = Inr (replayed app repo (es @ root_uncommitted r))"
    using get_decoded [OF l1(2,3)] assms(6) eq by simp
  then show ?thesis
    by (rule that) (use es eq in \<open>simp_all add: replayed_def fresh_root\<close>)
qed

text \<open>Saving a root that another writer overtook changes nothing in the log.\<close>

lemma save_conflict:
  assumes inv: "invar l" and lg: "ident (root_state r) = lg"
    and ser: "serialize_all (repo_codec repo) (root_uncommitted r) = Inr raws"
    and ne: "root_uncommitted r \<noteq> []"
    and stale: "root_version r - of_nat (length (root_uncommitted r)) \<noteq> of_nat (length (contents l lg))"
  shows "\<exists>e. repo_save append ident repo l r = (l, r\<lparr>root_uncommitted := []\<rparr>, Inl e) \<and>
    as_conflict e = Some (root_version r - of_nat (length (root_uncommitted r)), of_nat (length (contents l lg)))"
proof -
  have "raws \<noteq> []" using ne serialize_all_length [OF ser] by auto
  from append_conflict [OF inv this stale] obtain e where
    "append l lg (CheckExact (root_version r - of_nat (length (root_uncommitted r)))) raws = (l, Inl e)"
    "as_conflict e = Some (root_version r - of_nat (length (root_uncommitted r)), of_nat (length (contents l lg)))"
    by auto
  with ne lg ser show ?thesis
    by (simp add: repo_save_def commit_events_def flush_uncommitted_events_def Let_def
        raw_events_from_uncommitted_def no_transformers)
qed

end

text \<open>
  \<open>CommitEvents\<close> flushes the uncommitted events before it appends them. So after any failed
  save a second save of the same root finds nothing to store and reports success.
\<close>

lemma resave_is_silent:
  assumes "repo_save append_to ident repo l r = (l', r', Inl e)"
  shows "repo_save append_to ident repo l' r' = (l', r', Inr (0, []))"
proof -
  have "r' = r\<lparr>root_uncommitted := []\<rparr>"
    using assms
    by (auto simp: repo_save_def commit_events_def flush_uncommitted_events_def Let_def
        split: if_splits sum.splits prod.splits)
  then show ?thesis
    by (simp add: repo_save_def commit_events_def flush_uncommitted_events_def)
qed

end
