(* ===== verification/DF_MemLog.thy ===== *)
theory DF_MemLog
  imports DF_Log "HOL-Library.Multiset"
begin

text \<open>
  The in-memory event log \<open>eventlog/memory.go\<close>: its state, \<open>AppendEvents\<close>,
  \<open>AppendInTx\<close>, \<open>ReadEvents\<close>, \<open>ReadAllEvents\<close> and
  \<open>DangerouslyDeleteEventsUpTo\<close>. The map of streams is an association list, since
  \<open>ReadAllEvents\<close> ranges over it. \<open>cx\<close> is what \<open>ctx.Err()\<close> returns during the call.
\<close>

section \<open>State and operations\<close>

record 'x memrec =
  mr_log :: string
  mr_name :: string
  mr_data :: "'x list"
  mr_version :: version
  mr_global :: version

record 'x memory =
  mem_events :: "(string \<times> 'x memrec list) list"
  mem_versions :: "string \<rightharpoonup> version"
  mem_global :: version

definition new_memory :: "'x memory" where
  "new_memory = \<lparr>mem_events = [], mem_versions = Map.empty, mem_global = 0\<rparr>"

definition log_version :: "'x memory \<Rightarrow> string \<Rightarrow> version" where
  "log_version mem lg = (case mem_versions mem lg of None \<Rightarrow> 0 | Some v \<Rightarrow> v)"

definition mem_stream :: "'x memory \<Rightarrow> string \<Rightarrow> 'x memrec list" where
  "mem_stream mem lg = (case map_of (mem_events mem) lg of None \<Rightarrow> [] | Some evs \<Rightarrow> evs)"

definition records_to_internal :: "'x rec list \<Rightarrow> version \<Rightarrow> 'x memrec list" where
  "records_to_internal rs g =
     map (\<lambda>i. \<lparr>mr_log = rec_log (rs ! i), mr_name = raw_name (rec_raw (rs ! i)),
               mr_data = raw_data (rec_raw (rs ! i)), mr_version = rec_version (rs ! i),
               mr_global = g + of_nat i + 1\<rparr>) [0..<length rs]"

definition memory_record_to_record :: "'x memrec \<Rightarrow> 'x rec" where
  "memory_record_to_record m = new_record (mr_version m) (mr_log m) (mr_name m) (mr_data m)"

definition mem_append_in_tx ::
    "gerr option \<Rightarrow> 'x memory \<Rightarrow> string \<Rightarrow> check \<Rightarrow> 'x raw list
      \<Rightarrow> 'x memory \<times> (gerr + version \<times> 'x rec list)" where
  "mem_append_in_tx cx mem lg expected events =
     (case cx of Some e \<Rightarrow> (mem, Inl (ErrWrap ''append in tx'' e))
      | None \<Rightarrow>
        if events = [] then (mem, Inl (ErrWrap ''append in tx'' ErrNoEvents))
        else (let actual = log_version mem lg in
          case expected of OtherCheck \<Rightarrow> (mem, Inl (ErrWrap ''append in tx'' ErrUnsupportedCheck))
          | CheckExact x \<Rightarrow>
            (case check_exact x actual of
               Some e \<Rightarrow> (mem, Inl (ErrWrap ''append in tx'' e))
             | None \<Rightarrow>
                (let records = to_records events lg actual;
                     internal = records_to_internal records (mem_global mem);
                     new_version = actual + of_nat (length events)
                 in (mem\<lparr>mem_events := AList.update lg (mem_stream mem lg @ internal) (mem_events mem),
                         mem_versions := (mem_versions mem)(lg \<mapsto> new_version),
                         mem_global := mem_global mem + of_nat (length events)\<rparr>,
                     Inr (new_version, records))))))"

definition mem_append_events ::
    "gerr option \<Rightarrow> 'x memory \<Rightarrow> string \<Rightarrow> check \<Rightarrow> 'x raw list \<Rightarrow> 'x memory \<times> (gerr + version)" where
  "mem_append_events cx mem lg expected events =
     (case mem_append_in_tx cx mem lg expected events of
        (mem', Inl e) \<Rightarrow> (mem', Inl (ErrWrap ''append events'' e))
      | (mem', Inr (v, _)) \<Rightarrow> (mem', Inr v))"

fun mem_read_loop :: "gerr option \<Rightarrow> selector \<Rightarrow> 'x memrec list \<Rightarrow> 'x records" where
  "mem_read_loop cx sel [] = []"
| "mem_read_loop cx sel (m # ms) =
     (let r = memory_record_to_record m in
      if rec_version r < sel_from sel then mem_read_loop cx sel ms
      else if sel_to sel > 0 \<and> rec_version r > sel_to sel then []
      else (case cx of None \<Rightarrow> Inr r # mem_read_loop cx sel ms
            | Some e \<Rightarrow> Inl e # Inr r # mem_read_loop cx sel ms))"

definition mem_read_events :: "gerr option \<Rightarrow> 'x memory \<Rightarrow> string \<Rightarrow> selector \<Rightarrow> 'x records" where
  "mem_read_events cx mem lg sel =
     (case map_of (mem_events mem) lg of None \<Rightarrow> [] | Some evs \<Rightarrow> mem_read_loop cx sel evs)"

fun mem_read_all_loop :: "gerr option \<Rightarrow> selector \<Rightarrow> 'x memrec list \<Rightarrow> (gerr + 'x grec) list" where
  "mem_read_all_loop cx sel [] = []"
| "mem_read_all_loop cx sel (m # ms) =
     (if mr_global m < sel_from sel then mem_read_all_loop cx sel ms
      else if sel_to sel > 0 \<and> mr_global m > sel_to sel then []
      else (case cx of
              Some e \<Rightarrow> [Inl e]
            | None \<Rightarrow> Inr (new_global_record (mr_global m) (mr_version m) (mr_log m) (mr_name m) (mr_data m))
                       # mem_read_all_loop cx sel ms))"

definition mem_read_all_events :: "gerr option \<Rightarrow> 'x memory \<Rightarrow> selector \<Rightarrow> (gerr + 'x grec) list" where
  "mem_read_all_events cx mem sel =
     mem_read_all_loop cx sel (sort_key mr_global (concat (map snd (mem_events mem))))"

definition mem_delete_up_to ::
    "gerr option \<Rightarrow> 'x memory \<Rightarrow> string \<Rightarrow> version \<Rightarrow> 'x memory \<times> gerr option" where
  "mem_delete_up_to cx mem lg v =
     (case cx of Some e \<Rightarrow> (mem, Some e)
      | None \<Rightarrow>
        (case map_of (mem_events mem) lg of
           None \<Rightarrow> (mem, None)
         | Some evs \<Rightarrow>
            (mem\<lparr>mem_events := AList.update lg (filter (\<lambda>m. mr_version m > v) evs) (mem_events mem)\<rparr>,
             None)))"

section \<open>Well-formed stores\<close>

text \<open>
  \<open>lo lg\<close> counts the events of the stream \<open>lg\<close> that were deleted from its front. The
  versions of a stream continue that count without a gap up to the recorded log version, and
  global versions are positive, bounded by the counter, unique and increasing in each stream.
\<close>

definition stream_wf :: "nat \<Rightarrow> 'x memory \<Rightarrow> string \<Rightarrow> bool" where
  "stream_wf lo mem lg \<longleftrightarrow>
     lo + length (mem_stream mem lg) = unat (log_version mem lg) \<and>
     unat (log_version mem lg) \<le> unat (mem_global mem) \<and>
     (\<forall>i < length (mem_stream mem lg).
        mr_version (mem_stream mem lg ! i) = of_nat (lo + i + 1) \<and>
        mr_log (mem_stream mem lg ! i) = lg) \<and>
     sorted_wrt (<) (map mr_global (mem_stream mem lg)) \<and>
     (\<forall>m \<in> set (mem_stream mem lg). 0 < mr_global m \<and> mr_global m \<le> mem_global mem)"

definition mem_wf :: "(string \<Rightarrow> nat) \<Rightarrow> 'x memory \<Rightarrow> bool" where
  "mem_wf lo mem \<longleftrightarrow>
     distinct (map fst (mem_events mem)) \<and>
     (\<forall>lg. stream_wf (lo lg) mem lg) \<and>
     inj_on mr_global (\<Union>lg. set (mem_stream mem lg))"

definition mem_contents :: "'x memory \<Rightarrow> string \<Rightarrow> 'x raw list" where
  "mem_contents mem lg = map (\<lambda>m. rec_raw (memory_record_to_record m)) (mem_stream mem lg)"

definition mem_total :: "'x memory \<Rightarrow> nat" where
  "mem_total mem = unat (mem_global mem)"

lemma unat_u64_bound: "unat (v :: u64) < 2 ^ 64"
  using unsigned_less [of v] by simp

lemma mem_wfD:
  assumes "mem_wf lo mem"
  shows "stream_wf (lo lg) mem lg" "distinct (map fst (mem_events mem))"
    "inj_on mr_global (\<Union>lg. set (mem_stream mem lg))"
  using assms by (auto simp: mem_wf_def)

lemma stream_wf_length: "stream_wf lo mem lg \<Longrightarrow> of_nat (lo + length (mem_stream mem lg)) = log_version mem lg"
  by (simp add: stream_wf_def)

lemma length_mem_contents [simp]: "length (mem_contents mem lg) = length (mem_stream mem lg)"
  by (simp add: mem_contents_def)

lemma new_memory_sel [simp]:
  "log_version new_memory lg = 0" "mem_global new_memory = 0" "mem_stream new_memory lg = []"
  by (simp_all add: log_version_def new_memory_def mem_stream_def)

lemma new_memory_wf: "mem_wf (\<lambda>_. 0) new_memory"
  by (simp add: mem_wf_def stream_wf_def new_memory_def mem_stream_def log_version_def)

lemma mem_log_version_full:
  "mem_wf (\<lambda>_. 0) mem \<Longrightarrow> log_version mem lg = of_nat (length (mem_contents mem lg))"
  using stream_wf_length [of 0 mem lg] by (auto simp: mem_wf_def)

section \<open>Appending\<close>

lemma length_records_to_internal [simp]: "length (records_to_internal rs g) = length rs"
  by (simp add: records_to_internal_def)

lemma records_to_internal_nth:
  "i < length rs \<Longrightarrow> records_to_internal rs g ! i =
     \<lparr>mr_log = rec_log (rs ! i), mr_name = raw_name (rec_raw (rs ! i)),
      mr_data = raw_data (rec_raw (rs ! i)), mr_version = rec_version (rs ! i),
      mr_global = g + of_nat i + 1\<rparr>"
  by (simp add: records_to_internal_def)

definition mem_after :: "'x memory \<Rightarrow> string \<Rightarrow> 'x raw list \<Rightarrow> 'x memory" where
  "mem_after mem lg es =
     mem\<lparr>mem_events := AList.update lg
            (mem_stream mem lg @ records_to_internal (to_records es lg (log_version mem lg)) (mem_global mem))
            (mem_events mem),
         mem_versions := (mem_versions mem)(lg \<mapsto> log_version mem lg + of_nat (length es)),
         mem_global := mem_global mem + of_nat (length es)\<rparr>"

text \<open>Every branch of \<open>AppendEvents\<close>.\<close>

lemma mem_append_cases:
  "mem_append_events cx mem lg c es =
    (case cx of Some e \<Rightarrow> (mem, Inl (ErrWrap ''append events'' (ErrWrap ''append in tx'' e)))
     | None \<Rightarrow>
       if es = [] then (mem, Inl (ErrWrap ''append events'' (ErrWrap ''append in tx'' ErrNoEvents)))
       else (case c of
          OtherCheck \<Rightarrow> (mem, Inl (ErrWrap ''append events'' (ErrWrap ''append in tx'' ErrUnsupportedCheck)))
        | CheckExact x \<Rightarrow>
            if log_version mem lg = x
            then (mem_after mem lg es, Inr (log_version mem lg + of_nat (length es)))
            else (mem, Inl (ErrWrap ''append events'' (ErrWrap ''append in tx''
                   (ErrConflict x (log_version mem lg)))))))"
  by (simp add: mem_append_events_def mem_append_in_tx_def Let_def mem_after_def check_exact_def
      split: option.split check.split)

lemma mem_stream_after:
  "mem_stream (mem_after mem lg es) j =
     (if j = lg then mem_stream mem lg @
        records_to_internal (to_records es lg (log_version mem lg)) (mem_global mem)
      else mem_stream mem j)"
  by (simp add: mem_stream_def mem_after_def update_conv')

lemma log_version_after:
  "log_version (mem_after mem lg es) j =
     (if j = lg then log_version mem lg + of_nat (length es) else log_version mem j)"
  by (simp add: log_version_def mem_after_def)

lemma mem_global_after [simp]: "mem_global (mem_after mem lg es) = mem_global mem + of_nat (length es)"
  by (simp add: mem_after_def)

lemma unat_add_of_nat:
  "unat (v :: u64) + n < 2 ^ 64 \<Longrightarrow> unat (v + of_nat n) = unat v + n"
proof -
  assume "unat v + n < 2 ^ 64"
  then have "unat (of_nat (unat v + n) :: u64) = unat v + n" by (rule unat_of_nat_u64)
  then show ?thesis by simp
qed

lemma mem_contents_after:
  "mem_contents (mem_after mem lg es) = (mem_contents mem)(lg := mem_contents mem lg @ es)"
proof (rule ext)
  fix j
  have "map (\<lambda>m. rec_raw (memory_record_to_record m))
      (records_to_internal (to_records es lg (log_version mem lg)) (mem_global mem)) = es"
    by (intro nth_equalityI)
      (auto simp: records_to_internal_nth to_records_nth memory_record_to_record_def)
  then show "mem_contents (mem_after mem lg es) j = ((mem_contents mem)(lg := mem_contents mem lg @ es)) j"
    by (simp add: mem_contents_def mem_stream_after)
qed

text \<open>An append keeps the store well formed, as long as the counters do not wrap.\<close>

lemma unat_succ_of_nat:
  "unat (g :: u64) + n < 2 ^ 64 \<Longrightarrow> k < n \<Longrightarrow> unat (g + of_nat k + 1) = unat g + Suc k"
  using unat_add_of_nat [of g "Suc k"] by (simp add: ac_simps)

lemma word_add_cancel_less:
  assumes "unat (g :: u64) + n < 2 ^ 64" "i < n"
  shows "g < g + of_nat i + 1" "g + of_nat i + 1 \<le> g + of_nat n"
proof -
  have "unat (g + of_nat i + 1) = unat g + Suc i" "unat (g + of_nat n) = unat g + n"
    using assms by (simp_all only: unat_succ_of_nat unat_add_of_nat)
  then show "g < g + of_nat i + 1" "g + of_nat i + 1 \<le> g + of_nat n"
    using assms(2) by (simp_all only: word_less_nat_alt word_le_nat_alt)
qed

lemma word_add_less_iff:
  assumes "unat (g :: u64) + n < 2 ^ 64" "i < n" "j < n"
  shows "g + of_nat i + 1 < g + of_nat j + 1 \<longleftrightarrow> i < j"
    and "g + of_nat i + 1 = g + of_nat j + 1 \<longleftrightarrow> i = j"
proof -
  have u: "unat (g + of_nat i + 1) = unat g + Suc i" "unat (g + of_nat j + 1) = unat g + Suc j"
    using assms by (simp_all only: unat_succ_of_nat)
  show "g + of_nat i + 1 < g + of_nat j + 1 \<longleftrightarrow> i < j"
    by (simp only: word_less_nat_alt u) simp
  show "g + of_nat i + 1 = g + of_nat j + 1 \<longleftrightarrow> i = j"
    by (simp only: word_unat_eq_iff u) simp
qed

lemma internal_globals:
  assumes "unat g + length rs < 2 ^ 64"
  shows "sorted_wrt (<) (map mr_global (records_to_internal rs g))"
    and "\<forall>m \<in> set (records_to_internal rs g). g < mr_global m \<and> mr_global m \<le> g + of_nat (length rs)"
  using assms
  by (auto simp: sorted_wrt_iff_nth_less records_to_internal_nth in_set_conv_nth
      word_add_less_iff word_add_cancel_less)

lemma stream_wf_after_same:
  assumes wf: "stream_wf lo mem lg" and bound: "unat (mem_global mem) + length es < 2 ^ 64"
  shows "stream_wf lo (mem_after mem lg es) lg"
proof -
  let ?new = "records_to_internal (to_records es lg (log_version mem lg)) (mem_global mem)"
  have v: "unat (log_version mem lg) = lo + length (mem_stream mem lg)"
    and vle: "unat (log_version mem lg) \<le> unat (mem_global mem)"
    using wf by (auto simp: stream_wf_def)
  have vb: "unat (log_version mem lg + of_nat (length es)) = unat (log_version mem lg) + length es"
    and gb: "unat (mem_global mem + of_nat (length es)) = unat (mem_global mem) + length es"
    using bound vle by (auto intro!: unat_add_of_nat)
  have ver: "log_version mem lg = of_nat (lo + length (mem_stream mem lg))"
    using stream_wf_length [OF wf] by simp
  note new = internal_globals [of "mem_global mem" "to_records es lg (log_version mem lg)"]
  have le: "mem_global mem \<le> mem_global mem + of_nat (length es)"
    using gb by (simp add: word_le_nat_alt)
  have old: "\<forall>m \<in> set (mem_stream mem lg). 0 < mr_global m \<and> mr_global m \<le> mem_global mem"
    using wf by (auto simp: stream_wf_def)
  have nth: "mr_version ((mem_stream mem lg @ ?new) ! i) = of_nat (lo + i + 1) \<and>
      mr_log ((mem_stream mem lg @ ?new) ! i) = lg"
    if "i < length (mem_stream mem lg) + length es" for i
    using that wf
    by (cases "i < length (mem_stream mem lg)")
      (auto simp: stream_wf_def nth_append records_to_internal_nth to_records_nth ver of_nat_diff)
  have newr: "\<forall>m \<in> set ?new. mem_global mem < mr_global m \<and>
      mr_global m \<le> mem_global mem + of_nat (length es)"
    using new(2) bound by simp
  have sorted: "sorted_wrt (<) (map mr_global (mem_stream mem lg @ ?new))"
    using wf new(1) bound old newr
    by (auto simp: sorted_wrt_append stream_wf_def intro: le_less_trans)
  have rng: "\<forall>m \<in> set (mem_stream mem lg @ ?new). 0 < mr_global m \<and>
      mr_global m \<le> mem_global mem + of_nat (length es)"
  proof
    fix m assume "m \<in> set (mem_stream mem lg @ ?new)"
    then consider "m \<in> set (mem_stream mem lg)" | "m \<in> set ?new" by auto
    then show "0 < mr_global m \<and> mr_global m \<le> mem_global mem + of_nat (length es)"
    proof cases
      case 1
      with old le show ?thesis using order_trans by blast
    next
      case 2
      with newr have "mem_global mem < mr_global m" by blast
      then have "0 < mr_global m" using word_zero_le le_less_trans by blast
      with 2 newr show ?thesis by blast
    qed
  qed
  show ?thesis
    using v vle vb gb nth sorted rng
    by (simp add: stream_wf_def mem_stream_after log_version_after)
qed

lemma stream_wf_after_other:
  assumes wf: "stream_wf lo mem j" and bound: "unat (mem_global mem) + length es < 2 ^ 64" and "j \<noteq> lg"
  shows "stream_wf lo (mem_after mem lg es) j"
proof -
  have "unat (mem_global mem + of_nat (length es)) = unat (mem_global mem) + length es"
    using bound by (rule unat_add_of_nat)
  then have "mem_global mem \<le> mem_global mem + of_nat (length es)"
    by (simp add: word_le_nat_alt)
  with assms show ?thesis
    by (auto simp: stream_wf_def mem_stream_after log_version_after word_le_nat_alt)
qed

lemma mem_wf_after:
  assumes wf: "mem_wf lo mem" and bound: "unat (mem_global mem) + length es < 2 ^ 64"
  shows "mem_wf lo (mem_after mem lg es)"
proof -
  let ?new = "records_to_internal (to_records es lg (log_version mem lg)) (mem_global mem)"
  let ?old = "\<Union>j. set (mem_stream mem j)"
  have "distinct (map fst (mem_events (mem_after mem lg es)))"
    using mem_wfD(2) [OF wf] by (simp add: mem_after_def distinct_update)
  moreover have "stream_wf (lo j) (mem_after mem lg es) j" for j
    using stream_wf_after_same stream_wf_after_other mem_wfD(1) [OF wf] bound by metis
  moreover have "inj_on mr_global (\<Union>j. set (mem_stream (mem_after mem lg es) j))"
  proof -
    note new = internal_globals [of "mem_global mem" "to_records es lg (log_version mem lg)"]
    have sub: "(\<Union>j. set (mem_stream (mem_after mem lg es) j)) = ?old \<union> set ?new"
      by (auto simp: mem_stream_after split: if_splits)
    have oldb: "mr_global m \<le> mem_global mem" if "m \<in> ?old" for m
      using that mem_wfD(1) [OF wf] by (auto simp: stream_wf_def)
    have newb: "mem_global mem < mr_global m" if "m \<in> set ?new" for m
      using new(2) bound that by auto
    have "inj_on mr_global (set ?new)"
      using new(1) bound strict_sorted_iff
      by (metis distinct_map length_to_records strict_sorted_imp_sorted)
    moreover have "mr_global ` ?old \<inter> mr_global ` set ?new = {}"
      using oldb newb by fastforce
    ultimately show ?thesis
      unfolding sub using mem_wfD(3) [OF wf] by (simp add: inj_on_Un image_Un) blast
  qed
  ultimately show ?thesis by (simp add: mem_wf_def)
qed

section \<open>Reading\<close>

lemma stream_versions_sorted:
  assumes "stream_wf lo mem lg"
  shows "sorted_wrt (<) (map mr_version (mem_stream mem lg))"
proof -
  have bound: "lo + length (mem_stream mem lg) < 2 ^ 64"
    using assms unat_u64_bound [of "log_version mem lg"] by (auto simp: stream_wf_def)
  then have "(of_nat (lo + i + 1) :: u64) < of_nat (lo + j + 1)"
    if "i < j" "j < length (mem_stream mem lg)" for i j
    using that by (subst of_nat_u64_less) auto
  with assms show ?thesis
    by (auto simp: sorted_wrt_iff_nth_less stream_wf_def)
qed

lemma memory_record_to_record_sel [simp]:
  "rec_version (memory_record_to_record m) = mr_version m"
  "rec_log (memory_record_to_record m) = mr_log m"
  "rec_raw (memory_record_to_record m) = \<lparr>raw_name = mr_name m, raw_data = mr_data m\<rparr>"
  by (simp_all add: memory_record_to_record_def)

lemma mem_read_loop_above:
  "\<forall>m \<in> set ms. v < mr_version m \<Longrightarrow> sel_to sel > 0 \<Longrightarrow> sel_to sel \<le> v \<Longrightarrow>
     filter (\<lambda>r. in_range sel (rec_version r)) (map memory_record_to_record ms) = []"
  by (induction ms) (auto simp: in_range_def)

lemma mem_read_loop_eq:
  "sorted_wrt (<) (map mr_version ms) \<Longrightarrow>
     mem_read_loop None sel ms =
       map Inr (filter (\<lambda>r. in_range sel (rec_version r)) (map memory_record_to_record ms))"
proof (induction ms)
  case (Cons m ms)
  then have IH: "mem_read_loop None sel ms =
      map Inr (filter (\<lambda>r. in_range sel (rec_version r)) (map memory_record_to_record ms))"
    and above: "\<forall>k \<in> set ms. mr_version m < mr_version k" by auto
  show ?case
  proof (cases "sel_to sel > 0 \<and> sel_to sel < mr_version m \<and> \<not> mr_version m < sel_from sel")
    case True
    with above have "filter (\<lambda>r. in_range sel (rec_version r)) (map memory_record_to_record ms) = []"
      by (intro mem_read_loop_above [of _ "mr_version m"]) auto
    with True show ?thesis by (auto simp: in_range_def)
  next
    case False
    with IH show ?thesis
      by (auto simp: in_range_def Let_def word_neq_0_conv [symmetric] not_less)
  qed
qed simp

lemma mem_read_events_stream: "mem_read_events cx mem lg sel = mem_read_loop cx sel (mem_stream mem lg)"
  by (simp add: mem_read_events_def mem_stream_def split: option.split)

lemma mem_records_full:
  assumes "stream_wf 0 mem lg"
  shows "map memory_record_to_record (mem_stream mem lg) = to_records (mem_contents mem lg) lg 0"
proof (rule nth_equalityI)
  fix i assume "i < length (map memory_record_to_record (mem_stream mem lg))"
  with assms show "map memory_record_to_record (mem_stream mem lg) ! i = to_records (mem_contents mem lg) lg 0 ! i"
    by (simp add: to_records_nth mem_contents_def stream_wf_def memory_record_to_record_def [of "mem_stream mem lg ! i"])
qed simp

lemma mem_read_full:
  assumes "mem_wf (\<lambda>_. 0) mem"
  shows "mem_read_events None mem lg sel =
    map Inr (filter (\<lambda>r. in_range sel (rec_version r)) (to_records (mem_contents mem lg) lg 0))"
  using mem_wfD(1) [OF assms, of lg]
  by (simp add: mem_read_events_stream mem_read_loop_eq stream_versions_sorted mem_records_full)

text \<open>With a cancelled context the first item of a non-empty read is the context's error.\<close>

lemma mem_read_cancelled:
  "mem_read_loop (Some e) sel ms = [] \<or> hd (mem_read_loop (Some e) sel ms) = Inl e"
  by (induction ms) (auto simp: Let_def)

section \<open>The contract of an event log\<close>

interpretation memlog: event_log "mem_append_events None" "mem_read_events None" mem_contents mem_total
    "mem_wf (\<lambda>_. 0)"
proof (unfold_locales, goal_cases)
  case (1 l lg)
  then show ?case using mem_wfD(1) [OF 1, of lg] by (simp add: stream_wf_def mem_total_def)
next
  case (2 l)
  show ?case using unat_u64_bound [of "mem_global l"] by (simp add: mem_total_def)
next
  case (3 l es lg)
  then show ?case by (simp add: mem_append_cases mem_log_version_full)
next
  case (4 l es lg)
  then show ?case by (simp add: mem_append_cases mem_log_version_full mem_contents_after del: length_mem_contents)
next
  case (5 l es lg)
  then show ?case
    by (simp add: mem_append_cases mem_log_version_full mem_wf_after mem_total_def del: length_mem_contents)
next
  case (6 l es lg)
  then show ?case
    by (simp add: mem_append_cases mem_log_version_full mem_total_def unat_add_of_nat del: length_mem_contents)
next
  case (7 l es v lg)
  then show ?case by (simp add: mem_append_cases mem_log_version_full del: length_mem_contents)
next
  case (8 l lg c)
  show ?case by (simp add: mem_append_cases)
next
  case (9 l lg sel)
  then show ?case by (rule mem_read_full)
qed

section \<open>The global stream\<close>

definition to_global :: "'x memrec \<Rightarrow> 'x grec" where
  "to_global m = new_global_record (mr_global m) (mr_version m) (mr_log m) (mr_name m) (mr_data m)"

definition mem_all :: "'x memory \<Rightarrow> 'x memrec list" where
  "mem_all mem = concat (map snd (mem_events mem))"

lemma mem_read_all_loop_all:
  "mem_read_all_loop None \<lparr>sel_from = 0, sel_to = 0\<rparr> ms = map (\<lambda>m. Inr (to_global m)) ms"
  by (induction ms) (auto simp: to_global_def)

lemma mem_read_all_loop_from_1:
  "\<forall>m \<in> set ms. 0 < mr_global m \<Longrightarrow>
   mem_read_all_loop None \<lparr>sel_from = 1, sel_to = 0\<rparr> ms = map (\<lambda>m. Inr (to_global m)) ms"
  by (induction ms) (auto simp: to_global_def word_less_nat_alt unat_gt_0 simp flip: word_gt_0)

lemma set_mem_all: "mem_wf lo mem \<Longrightarrow> set (mem_all mem) = (\<Union>lg. set (mem_stream mem lg))"
  using mem_wfD(2) [of lo mem]
  by (force simp: mem_all_def mem_stream_def split: option.splits dest: map_of_SomeD)

lemma filter_concat_stream:
  "distinct (map fst al) \<Longrightarrow> (\<And>k evs m. (k, evs) \<in> set al \<Longrightarrow> m \<in> set evs \<Longrightarrow> mr_log m = k) \<Longrightarrow>
   filter (\<lambda>m. mr_log m = lg) (concat (map snd al)) = (case map_of al lg of None \<Rightarrow> [] | Some evs \<Rightarrow> evs)"
proof (induction al)
  case (Cons p al)
  obtain k evs where p: "p = (k, evs)" by (cases p)
  have here: "\<And>m. m \<in> set evs \<Longrightarrow> mr_log m = k" using Cons.prems(2) p by auto
  have none: "map_of al lg = None" if "k = lg"
    using Cons.prems(1) p that by (auto simp: map_of_eq_None_iff)
  have IH: "filter (\<lambda>m. mr_log m = lg) (concat (map snd al)) =
      (case map_of al lg of None \<Rightarrow> [] | Some evs \<Rightarrow> evs)"
    using Cons by auto
  show ?case
  proof (cases "k = lg")
    case True
    then have "filter (\<lambda>m. mr_log m = lg) evs = evs"
      using here by (simp add: filter_id_conv)
    with True none IH show ?thesis by (simp add: p)
  next
    case False
    then have "filter (\<lambda>m. mr_log m = lg) evs = []"
      using here by (auto simp: filter_empty_conv)
    with False IH show ?thesis by (simp add: p)
  qed
qed simp

lemma filter_mem_all:
  assumes "mem_wf lo mem"
  shows "filter (\<lambda>m. mr_log m = lg) (mem_all mem) = mem_stream mem lg"
proof -
  have "mr_log m = k" if "(k, evs) \<in> set (mem_events mem)" "m \<in> set evs" for k evs m
  proof -
    have "mem_stream mem k = evs"
      using that(1) mem_wfD(2) [OF assms] by (simp add: mem_stream_def)
    with that(2) mem_wfD(1) [OF assms, of k] show ?thesis
      by (auto simp: stream_wf_def in_set_conv_nth)
  qed
  then show ?thesis
    using filter_concat_stream [OF mem_wfD(2) [OF assms], of lg]
    by (simp add: mem_all_def mem_stream_def)
qed

section \<open>Deletion\<close>

definition mem_deleted :: "'x memory \<Rightarrow> string \<Rightarrow> version \<Rightarrow> 'x memory" where
  "mem_deleted mem lg v = fst (mem_delete_up_to None mem lg v)"

lemma mem_stream_deleted:
  "mem_stream (mem_deleted mem lg v) j =
     (if j = lg then filter (\<lambda>m. v < mr_version m) (mem_stream mem lg) else mem_stream mem j)"
  by (simp add: mem_stream_def mem_deleted_def mem_delete_up_to_def update_conv' split: option.split)

lemma log_version_deleted [simp]: "log_version (mem_deleted mem lg v) j = log_version mem j"
  by (simp add: log_version_def mem_deleted_def mem_delete_up_to_def split: option.split)

lemma mem_global_deleted [simp]: "mem_global (mem_deleted mem lg v) = mem_global mem"
  by (simp add: mem_deleted_def mem_delete_up_to_def split: option.split)

lemma deleted_is_drop:
  assumes wf: "stream_wf lo mem lg"
  shows "mem_stream (mem_deleted mem lg v) lg = drop (unat v - lo) (mem_stream mem lg)"
proof -
  have bound: "lo + length (mem_stream mem lg) < 2 ^ 64"
    using wf unat_u64_bound [of "log_version mem lg"] by (auto simp: stream_wf_def)
  have "v < mr_version (mem_stream mem lg ! i) \<longleftrightarrow> unat v - lo \<le> i"
    if "i < length (mem_stream mem lg)" for i
  proof -
    have "unat (of_nat (lo + i + 1) :: u64) = lo + i + 1"
      using that bound by (intro unat_of_nat_u64) simp
    with that wf show ?thesis by (auto simp: stream_wf_def word_less_nat_alt)
  qed
  then show ?thesis by (simp add: mem_stream_deleted filter_eq_drop)
qed

lemma mem_wf_deleted:
  assumes wf: "mem_wf lo mem"
  shows "mem_wf (lo(lg := lo lg + min (unat v - lo lg) (length (mem_stream mem lg)))) (mem_deleted mem lg v)"
proof -
  have "stream_wf (lo lg + min (unat v - lo lg) (length (mem_stream mem lg))) (mem_deleted mem lg v) lg"
    using mem_wfD(1) [OF wf, of lg]
    by (auto simp: stream_wf_def deleted_is_drop [OF mem_wfD(1) [OF wf]] drop_map [symmetric]
        sorted_wrt_drop algebra_simps min_def dest: in_set_dropD)
  moreover have "stream_wf (lo j) (mem_deleted mem lg v) j" if "j \<noteq> lg" for j
    using mem_wfD(1) [OF wf, of j] that by (simp add: stream_wf_def mem_stream_deleted)
  moreover have "distinct (map fst (mem_events (mem_deleted mem lg v)))"
    using mem_wfD(2) [OF wf]
    by (simp add: mem_deleted_def mem_delete_up_to_def distinct_update split: option.split)
  moreover have "inj_on mr_global (\<Union>j. set (mem_stream (mem_deleted mem lg v) j))"
    using mem_wfD(3) [OF wf] by (rule inj_on_subset) (auto simp: mem_stream_deleted split: if_splits)
  ultimately show ?thesis by (simp add: mem_wf_def)
qed

lemma distinct_by_stream:
  "(\<And>lg. distinct (filter (\<lambda>m. mr_log m = lg) ms)) \<Longrightarrow> distinct ms"
proof (induction ms)
  case (Cons m ms)
  have "distinct (filter (\<lambda>m. mr_log m = lg) ms)" for lg
    using Cons.prems [of lg] by (simp split: if_splits)
  moreover have "m \<notin> set ms"
    using Cons.prems [of "mr_log m"] by simp
  ultimately show ?case using Cons.IH by simp
qed simp

section \<open>Properties\<close>

text \<open> After a successful append, reading the stream from the beginning gives
  what it gave before followed by the new events under the next consecutive versions, the
  returned version is the last of them, every other stream reads as before and the store
  stays well formed.
\<close>

theorem memory_append_then_read:
  assumes wf: "mem_wf (\<lambda>_. 0) mem" and bound: "unat (mem_global mem) + length es < 2 ^ 64"
    and app: "mem_append_events None mem lg (CheckExact v) es = (mem', Inr v')"
  shows "mem_read_events None mem' lg select_from_beginning =
      mem_read_events None mem lg select_from_beginning @ map Inr (to_records es lg v)
    \<and> v' = v + of_nat (length es)
    \<and> (\<forall>j sel. j \<noteq> lg \<longrightarrow> mem_read_events None mem' j sel = mem_read_events None mem j sel)
    \<and> mem_wf (\<lambda>_. 0) mem'"
proof -
  note ext = memlog.append_extends [OF wf _ app, unfolded mem_total_def, OF bound]
  show ?thesis
    using ext by (simp add: memlog.read_beginning memlog.read_contents wf to_records_append)
qed

theorem memory_append_then_read_witness:
  "\<exists>mem'. mem_append_events None (new_memory :: nat memory) ''w1'' (CheckExact 0)
       [\<lparr>raw_name = ''a'', raw_data = [7]\<rparr>] = (mem', Inr 1) \<and>
     mem_read_events None mem' ''w1'' select_from_beginning =
       [Inr (new_record 1 ''w1'' ''a'' [7])]"
proof -
  let ?es = "[\<lparr>raw_name = ''a'', raw_data = [7 :: nat]\<rparr>]"
  obtain mem' where a: "mem_append_events None (new_memory :: nat memory) ''w1'' (CheckExact 0) ?es = (mem', Inr 1)"
    by (simp add: mem_append_cases log_version_def new_memory_def)
  have "unat (mem_global (new_memory :: nat memory)) + length ?es < 2 ^ 64"
    by (simp add: new_memory_def)
  from memory_append_then_read [OF new_memory_wf this a] a show ?thesis
    by (simp add: mem_read_events_def new_memory_def to_records_def)
qed

text \<open>
  (C13) Of two writers that both read a stream at the same version, the second one to
  append gets a version conflict that names the version the first one left, and the store keeps
  exactly what the first one wrote.
\<close>

theorem memory_no_lost_update:
  assumes "mem_wf (\<lambda>_. 0) mem" and "unat (mem_global mem) + length es < 2 ^ 64"
    and "mem_append_events None mem lg (CheckExact v) es = (mem1, Inr v1)" and "es' \<noteq> []"
  shows "\<exists>e. mem_append_events None mem1 lg (CheckExact v) es' = (mem1, Inl e) \<and>
             as_conflict e = Some (v, v1)"
  using memlog.second_writer_conflicts [OF assms(1) _ assms(3,4)] assms(2)
  by (simp add: mem_total_def)

theorem memory_no_lost_update_witness:
  "\<exists>mem1 e. mem_append_events None (new_memory :: nat memory) ''w1'' (CheckExact 0)
       [\<lparr>raw_name = ''a'', raw_data = [7]\<rparr>] = (mem1, Inr 1) \<and>
     mem_append_events None mem1 ''w1'' (CheckExact 0) [\<lparr>raw_name = ''b'', raw_data = [8]\<rparr>] = (mem1, Inl e) \<and>
     as_conflict e = Some (0, 1)"
proof -
  let ?es = "[\<lparr>raw_name = ''a'', raw_data = [7 :: nat]\<rparr>]"
  let ?es' = "[\<lparr>raw_name = ''b'', raw_data = [8 :: nat]\<rparr>]"
  obtain mem1 where a: "mem_append_events None (new_memory :: nat memory) ''w1'' (CheckExact 0) ?es = (mem1, Inr 1)"
    by (simp add: mem_append_cases log_version_def new_memory_def)
  have b: "unat (mem_global (new_memory :: nat memory)) + length ?es < 2 ^ 64"
    by (simp add: new_memory_def)
  from memory_no_lost_update [OF new_memory_wf b a, of ?es'] a show ?thesis by auto
qed

text \<open>
  Reading the global stream from version 1 yields every stored event in commit order: the
  global versions strictly increase, the part that belongs to one stream is that stream in its
  own order, and the result does not depend on the order in which Go iterates over the map of
  streams.
\<close>

theorem memory_read_all_commit_order:
  assumes wf: "mem_wf lo mem"
  shows "\<exists>rs. mem_read_all_events None mem \<lparr>sel_from = 1, sel_to = 0\<rparr> = map Inr rs
      \<and> sorted_wrt (<) (map grec_global rs)
      \<and> (\<forall>lg. filter (\<lambda>r. grec_log r = lg) rs = map to_global (mem_stream mem lg))
      \<and> (\<forall>al sel. mset al = mset (mem_events mem) \<longrightarrow>
            mem_read_all_events None (mem\<lparr>mem_events := al\<rparr>) sel = mem_read_all_events None mem sel)"
proof -
  let ?ms = "sort_key mr_global (mem_all mem)"
  have inj: "inj_on mr_global (set (mem_all mem))"
    using mem_wfD(3) [OF wf] set_mem_all [OF wf] by simp
  have streams: "distinct (map mr_global (mem_stream mem lg))" for lg
    using mem_wfD(1) [OF wf, of lg] by (auto simp: stream_wf_def strict_sorted_iff)
  have "distinct (mem_all mem)"
  proof (rule distinct_by_stream)
    show "distinct (filter (\<lambda>m. mr_log m = lg) (mem_all mem))" for lg
      using streams [of lg] by (simp add: filter_mem_all [OF wf] distinct_map)
  qed
  then have strict: "sorted_wrt (<) (map mr_global ?ms)"
    using inj by (simp add: strict_sorted_iff distinct_map)
  have pos: "\<forall>m \<in> set ?ms. 0 < mr_global m"
    using mem_wfD(1) [OF wf] by (auto simp: set_mem_all [OF wf] stream_wf_def)
  have log: "grec_log (to_global m) = mr_log m" "grec_global (to_global m) = mr_global m" for m :: "'a memrec"
    by (simp_all add: to_global_def new_global_record_def)
  have part: "filter (\<lambda>m. mr_log m = lg) ?ms = mem_stream mem lg" for lg
    using mem_wfD(1) [OF wf, of lg]
    by (simp add: filter_sort filter_mem_all [OF wf] sort_key_id_if_sorted stream_wf_def strict_sorted_iff)
  have perm: "mem_read_all_events None (mem\<lparr>mem_events := al\<rparr>) sel = mem_read_all_events None mem sel"
    if "mset al = mset (mem_events mem)" for al sel
  proof -
    have "mset (concat (map snd al)) = mset (mem_all mem)"
      using that by (simp add: mem_all_def mset_concat mset_map flip: sum_mset_sum_list)
    moreover from this have "inj_on mr_global (set (concat (map snd al)))"
      using inj by (metis set_mset_mset)
    ultimately have "sort_key mr_global (concat (map snd al)) = ?ms"
      by (intro sort_key_inj_key_eq) auto
    then show ?thesis by (simp add: mem_read_all_events_def mem_all_def)
  qed
  show ?thesis
  proof (intro exI [of _ "map to_global ?ms"] conjI allI impI)
    show "mem_read_all_events None mem \<lparr>sel_from = 1, sel_to = 0\<rparr> = map Inr (map to_global ?ms)"
      using mem_read_all_loop_from_1 [OF pos] by (simp add: mem_read_all_events_def mem_all_def)
    show "sorted_wrt (<) (map grec_global (map to_global ?ms))"
      using strict by (simp add: comp_def log)
    show "filter (\<lambda>r. grec_log r = lg) (map to_global ?ms) = map to_global (mem_stream mem lg)" for lg
      using part [of lg] by (simp add: filter_map comp_def log)
  qed (rule perm)
qed

definition demo_memory :: "nat memory" where
  "demo_memory =
     fst (mem_append_events None
       (fst (mem_append_events None
         (fst (mem_append_events None new_memory ''w1'' (CheckExact 0) [\<lparr>raw_name = ''a'', raw_data = [7]\<rparr>]))
         ''w2'' (CheckExact 0) [\<lparr>raw_name = ''c'', raw_data = [9]\<rparr>]))
       ''w1'' (CheckExact 1) [\<lparr>raw_name = ''b'', raw_data = [8]\<rparr>])"

lemma demo_memory_eq:
  "demo_memory = mem_after (mem_after (mem_after new_memory ''w1'' [\<lparr>raw_name = ''a'', raw_data = [7]\<rparr>])
     ''w2'' [\<lparr>raw_name = ''c'', raw_data = [9]\<rparr>]) ''w1'' [\<lparr>raw_name = ''b'', raw_data = [8]\<rparr>]"
  by (simp add: demo_memory_def mem_append_cases log_version_after)

lemma demo_memory_wf: "mem_wf (\<lambda>_. 0) demo_memory"
  unfolding demo_memory_eq
  by (intro mem_wf_after new_memory_wf) simp_all

theorem memory_read_all_commit_order_witness:
  "\<exists>rs. mem_read_all_events None demo_memory \<lparr>sel_from = 1, sel_to = 0\<rparr> = map Inr rs
     \<and> sorted_wrt (<) (map grec_global rs) \<and> length (filter (\<lambda>r. grec_log r = ''w1'') rs) = 2"
proof -
  have "length (mem_stream demo_memory ''w1'') = 2"
    by (simp add: demo_memory_eq mem_stream_after)
  with memory_read_all_commit_order [OF demo_memory_wf] show ?thesis by fastforce
qed

text \<open>
  Deleting the events of one stream up to a version removes exactly those events from every
  later read of that stream, leaves the other streams alone, and does not free their versions:
  the next append still has to name the old log version and continues the numbering.
\<close>

theorem memory_delete_keeps_versions:
  assumes wf: "mem_wf lo mem" and es: "es \<noteq> []"
    and bound: "unat (mem_global mem) + length es < 2 ^ 64"
  shows "mem_delete_up_to None mem lg v = (mem_deleted mem lg v, None)
    \<and> mem_read_events None (mem_deleted mem lg v) lg sel =
        filter (\<lambda>x. case x of Inl _ \<Rightarrow> True | Inr r \<Rightarrow> v < rec_version r) (mem_read_events None mem lg sel)
    \<and> (\<forall>j. j \<noteq> lg \<longrightarrow> mem_read_events None (mem_deleted mem lg v) j sel = mem_read_events None mem j sel)
    \<and> (\<exists>mem'. mem_append_events None (mem_deleted mem lg v) lg (CheckExact (log_version mem lg)) es
         = (mem', Inr (log_version mem lg + of_nat (length es))))
    \<and> mem_wf (lo(lg := lo lg + min (unat v - lo lg) (length (mem_stream mem lg)))) (mem_deleted mem lg v)"
proof (intro conjI allI impI)
  show "mem_delete_up_to None mem lg v = (mem_deleted mem lg v, None)"
    by (simp add: mem_deleted_def mem_delete_up_to_def split: option.split)
  note sorted = stream_versions_sorted [OF mem_wfD(1) [OF wf, of lg]]
    stream_versions_sorted [OF mem_wfD(1) [OF mem_wf_deleted [OF wf, of lg v], of lg]]
  show "mem_read_events None (mem_deleted mem lg v) lg sel =
      filter (\<lambda>x. case x of Inl _ \<Rightarrow> True | Inr r \<Rightarrow> v < rec_version r) (mem_read_events None mem lg sel)"
    using sorted
    by (simp add: mem_read_events_stream mem_read_loop_eq mem_stream_deleted filter_map comp_def conj_commute)
  show "\<exists>mem'. mem_append_events None (mem_deleted mem lg v) lg (CheckExact (log_version mem lg)) es
      = (mem', Inr (log_version mem lg + of_nat (length es)))"
    using es by (simp add: mem_append_cases)
qed (simp_all add: mem_read_events_stream mem_stream_deleted mem_wf_deleted [OF wf])

theorem memory_delete_keeps_versions_witness:
  "mem_read_events None (mem_deleted demo_memory ''w1'' 1) ''w1'' select_from_beginning
     = [Inr (new_record 2 ''w1'' ''b'' [8])]"
proof -
  have "mem_read_events None demo_memory ''w1'' select_from_beginning =
      [Inr (new_record 1 ''w1'' ''a'' [7]), Inr (new_record 2 ''w1'' ''b'' [8])]"
    by (simp add: mem_read_full [OF demo_memory_wf])
      (simp add: demo_memory_eq mem_contents_after to_records_def mem_contents_def)
  moreover have b: "unat (mem_global demo_memory) + length [\<lparr>raw_name = ''d'', raw_data = [1 :: nat]\<rparr>] < 2 ^ 64"
    by (simp add: demo_memory_eq)
  ultimately show ?thesis
    using memory_delete_keeps_versions [OF demo_memory_wf list.distinct(2) b, of "''w1''" 1 select_from_beginning]
    by simp
qed

end
