(* ===== verification/DF_Float.thy ===== *)
theory DF_Float
  imports Complex_Main DF_Prelude
begin

text \<open>
  The \<open>float64\<close> and \<open>float32\<close> arithmetic the code uses: conversions from and to integers,
  multiplication, \<open>math.Pow\<close> with an integral exponent and comparison. \<open>math.Pow\<close> is taken
  to be correctly rounded, which Go does not promise for every argument. Integers of up to 53
  bits are shown to be exact.
\<close>

section \<open>IEEE floating point\<close>

text \<open>
  A finite double is the rational number it denotes; the sign of zero is not kept.
  \<open>fp_round\<close> rounds to the nearest multiple of the unit in the last place (\<open>prec\<close>
  significant bits, ties to even) and to an infinity beyond the largest number of the format.
\<close>

datatype f64 = Fin rat | PInf | NInf | NaN

fun ilog2_up :: "nat \<Rightarrow> rat \<Rightarrow> int \<Rightarrow> int" where
  "ilog2_up 0 q e = e"
| "ilog2_up (Suc n) q e = (if 2 \<le> q then ilog2_up n (q / 2) (e + 1) else e)"

fun ilog2_down :: "nat \<Rightarrow> rat \<Rightarrow> int \<Rightarrow> int" where
  "ilog2_down 0 q e = e"
| "ilog2_down (Suc n) q e = (if q < 1 then ilog2_down n (q * 2) (e - 1) else e)"

text \<open>The exponent of the leading bit of \<open>q > 0\<close>, between -1074 and 1024.\<close>

definition fp_exponent :: "rat \<Rightarrow> int" where
  "fp_exponent q = (if 1 \<le> q then ilog2_up 1024 q 0 else ilog2_down 1074 q 0)"

definition pow2 :: "int \<Rightarrow> rat" where
  "pow2 e = (if 0 \<le> e then 2 ^ nat e else 1 / 2 ^ nat (- e))"

definition round_half_even :: "rat \<Rightarrow> int" where
  "round_half_even q =
     (let f = floor q; d = q - of_int f in
      if d < 1 / 2 then f else if 1 / 2 < d then f + 1 else if even f then f else f + 1)"

definition fp_round :: "int \<Rightarrow> int \<Rightarrow> int \<Rightarrow> rat \<Rightarrow> f64" where
  "fp_round prec emin emax q =
     (if q = 0 then Fin 0
      else (let ulp = pow2 (max (fp_exponent \<bar>q\<bar> - (prec - 1)) emin);
                r = of_int (round_half_even (\<bar>q\<bar> / ulp)) * ulp
            in if pow2 emax \<le> r then (if 0 < q then PInf else NInf)
               else Fin (if 0 < q then r else - r)))"

definition f64_round :: "rat \<Rightarrow> f64" where
  "f64_round = fp_round 53 (- 1074) 1024"

definition f32_round :: "rat \<Rightarrow> f64" where
  "f32_round = fp_round 24 (- 149) 128"

text \<open>\<open>float64(n)\<close> for an integer, \<open>x * y\<close>, and \<open>math.Pow(x, n)\<close> for an integral \<open>n\<close>.\<close>

definition f64_of_int :: "int \<Rightarrow> f64" where
  "f64_of_int n = f64_round (of_int n)"

text \<open>The integral double \<open>float64(n) - 1\<close>.\<close>

definition f64_int_pred :: "int \<Rightarrow> int" where
  "f64_int_pred n =
     (case f64_of_int n of
        Fin q \<Rightarrow> (case f64_round (q - 1) of Fin r \<Rightarrow> floor r | _ \<Rightarrow> 0)
      | _ \<Rightarrow> 0)"

fun f64_sgn :: "f64 \<Rightarrow> int" where
  "f64_sgn (Fin q) = (if q < 0 then - 1 else if 0 < q then 1 else 0)"
| "f64_sgn PInf = 1"
| "f64_sgn NInf = - 1"
| "f64_sgn NaN = 0"

fun f64_mul :: "f64 \<Rightarrow> f64 \<Rightarrow> f64" where
  "f64_mul (Fin x) (Fin y) = f64_round (x * y)"
| "f64_mul x y =
     (if x = NaN \<or> y = NaN then NaN
      else if f64_sgn x * f64_sgn y > 0 then PInf
      else if f64_sgn x * f64_sgn y < 0 then NInf else NaN)"

fun f64_pow :: "f64 \<Rightarrow> int \<Rightarrow> f64" where
  "f64_pow (Fin x) n =
     (if 0 \<le> n then f64_round (x ^ nat n)
      else if x = 0 then PInf else f64_round (1 / x ^ nat (- n)))"
| "f64_pow PInf n = (if n = 0 then Fin 1 else if 0 < n then PInf else Fin 0)"
| "f64_pow NInf n = (if n = 0 then Fin 1 else if 0 < n then (if even n then PInf else NInf) else Fin 0)"
| "f64_pow NaN n = (if n = 0 then Fin 1 else NaN)"

fun f64_le :: "f64 \<Rightarrow> f64 \<Rightarrow> bool" where
  "f64_le NaN _ = False"
| "f64_le _ NaN = False"
| "f64_le NInf _ = True"
| "f64_le _ PInf = True"
| "f64_le (Fin x) (Fin y) = (x \<le> y)"
| "f64_le _ _ = False"

text \<open>
  The conversion \<open>int64(f)\<close> truncates towards zero. For a value that an \<open>int64\<close> cannot
  hold, the Go specification leaves the result to the implementation: \<open>oor\<close> is what it is.
\<close>

definition rat_trunc :: "rat \<Rightarrow> int" where
  "rat_trunc q = (if 0 \<le> q then floor q else - floor (- q))"

fun f64_to_i64 :: "(f64 \<Rightarrow> i64) \<Rightarrow> f64 \<Rightarrow> i64" where
  "f64_to_i64 oor (Fin q) =
     (if - (2 ^ 63) \<le> rat_trunc q \<and> rat_trunc q < 2 ^ 63 then word_of_int (rat_trunc q) else oor (Fin q))"
| "f64_to_i64 oor f = oor f"

section \<open>Exact integers\<close>

lemma ilog2_up_spec:
  "1 \<le> q \<Longrightarrow> q < 2 ^ n \<Longrightarrow>
     e \<le> ilog2_up n q e \<and> (2 :: rat) ^ nat (ilog2_up n q e - e) \<le> q \<and> q < 2 ^ nat (ilog2_up n q e - e + 1)"
proof (induction n arbitrary: q e)
  case (Suc n)
  show ?case
  proof (cases "2 \<le> q")
    case True
    with Suc.prems have "1 \<le> q / 2" "q / 2 < 2 ^ n" by simp_all
    from Suc.IH [OF this, of "e + 1"] have ih: "e + 1 \<le> ilog2_up n (q / 2) (e + 1)"
      "(2 :: rat) ^ nat (ilog2_up n (q / 2) (e + 1) - (e + 1)) \<le> q / 2"
      "q / 2 < 2 ^ nat (ilog2_up n (q / 2) (e + 1) - (e + 1) + 1)" by blast+
    define d where "d = nat (ilog2_up n (q / 2) (e + 1) - (e + 1))"
    have "nat (ilog2_up n (q / 2) (e + 1) - e) = Suc d"
      "nat (ilog2_up n (q / 2) (e + 1) - (e + 1) + 1) = Suc d"
      "nat (ilog2_up n (q / 2) (e + 1) - e + 1) = Suc (Suc d)"
      using ih(1) by (simp_all add: d_def nat_add_distrib)
    with ih True show ?thesis by (simp add: d_def [symmetric])
  next
    case False
    with Suc.prems show ?thesis by simp
  qed
qed simp

lemma fp_exponent_int:
  assumes "1 \<le> (m :: nat)" and "m < 2 ^ 1024"
  obtains k where "fp_exponent (of_nat m) = int k" "2 ^ k \<le> m" "m < 2 ^ Suc k"
proof -
  have q: "1 \<le> (of_nat m :: rat)" using assms(1) by simp
  have "(of_nat m :: rat) < of_nat (2 ^ 1024)" using assms(2) by (simp only: of_nat_less_iff)
  then have "(of_nat m :: rat) < 2 ^ 1024" by (simp del: power_numeral)
  note spec = ilog2_up_spec [OF q this, of 0]
  define l where "l = ilog2_up 1024 (of_nat m :: rat) 0"
  from spec have l: "0 \<le> l" "(2 :: rat) ^ nat (l - 0) \<le> of_nat m" "(of_nat m :: rat) < 2 ^ nat (l - 0 + 1)"
    unfolding l_def by blast+
  from l(1) obtain j where j: "l = int j" by (rule nonneg_int_cases)
  have "nat (l - 0) = j" "nat (l - 0 + 1) = Suc j" using j by simp_all
  with l j have k: "ilog2_up 1024 (of_nat m :: rat) 0 = int j" "(2 :: rat) ^ j \<le> of_nat m"
    "(of_nat m :: rat) < 2 ^ Suc j"
    by (simp_all only: l_def)
  have "(of_nat (2 ^ j) :: rat) \<le> of_nat m" "(of_nat m :: rat) < of_nat (2 ^ Suc j)" using k(2,3) by simp_all
  then have "2 ^ j \<le> m" "m < 2 ^ Suc j" by (simp_all only: of_nat_le_iff of_nat_less_iff)
  with k(1) q that show ?thesis by (simp add: fp_exponent_def)
qed

lemma round_half_even_int [simp]: "round_half_even (of_int i) = i"
  by (simp add: round_half_even_def Let_def)

lemma pow2_add: "pow2 (a + int n) = pow2 a * 2 ^ n"
proof (induction n)
  case (Suc n)
  have "pow2 (b + 1) = pow2 b * 2" for b
  proof (cases "0 \<le> b")
    case True
    then have "nat (b + 1) = Suc (nat b)" by simp
    with True show ?thesis by (simp add: pow2_def)
  next
    case False
    show ?thesis
    proof (cases "b = - 1")
      case neg: False
      with False have "nat (- b) = Suc (nat (- (b + 1)))" "\<not> 0 \<le> b + 1" by auto
      with False show ?thesis by (simp add: pow2_def)
    qed (simp add: pow2_def)
  qed
  from this [of "a + int n"] Suc show ?case by (simp add: algebra_simps)
qed simp

text \<open>A number of up to 53 bits times a power of two is a double.\<close>

lemma fp_round_scaled:
  assumes m: "1 \<le> (m :: nat)" "m \<le> 2 ^ 53" and n: "m * 2 ^ n < 2 ^ 1024"
  shows "f64_round (of_nat m * 2 ^ n) = Fin (of_nat m * 2 ^ n)"
proof -
  have "m < 2 ^ 1024" by (rule le_less_trans [OF m(2)]) (rule power_strict_increasing; simp)
  then obtain k where k: "fp_exponent (of_nat m) = int k" "2 ^ k \<le> m" "m < 2 ^ Suc k"
    using fp_exponent_int [OF m(1)] by blast
  have "1 \<le> m * 2 ^ n" using m(1) by simp
  then obtain l where l: "fp_exponent (of_nat (m * 2 ^ n)) = int l" "2 ^ l \<le> m * 2 ^ n" "m * 2 ^ n < 2 ^ Suc l"
    using fp_exponent_int [OF _ n] by blast
  have "2 ^ k * 2 ^ n \<le> m * 2 ^ n" "m * 2 ^ n < 2 ^ Suc k * 2 ^ n" using k(2,3) by simp_all
  then have a: "2 ^ (k + n) \<le> m * 2 ^ n" "m * 2 ^ n < 2 ^ (Suc k + n)" by (simp_all add: power_add)
  from le_less_trans [OF a(1) l(3)] have "k + n < Suc l" by (rule power_less_imp_less_exp [rotated]) simp
  moreover from le_less_trans [OF l(2) a(2)] have "l < Suc k + n" by (rule power_less_imp_less_exp [rotated]) simp
  ultimately have ln: "l = k + n" by simp
  have k53: "k \<le> 53"
  proof (rule ccontr)
    assume "\<not> k \<le> 53"
    then have "(2 :: nat) ^ 54 \<le> 2 ^ k" by (intro power_increasing) auto
    with k(2) m(2) show False by simp
  qed
  define ulp where "ulp = pow2 (int k - 52)"
  obtain i where i: "of_nat m / ulp = of_int i" "of_int i * ulp = of_nat m"
  proof (cases "k \<le> 52")
    case True
    have "ulp = 1 / 2 ^ (52 - k)"
    proof (cases "k = 52")
      case False
      with True have "nat (- (int k - 52)) = 52 - k" "\<not> 0 \<le> int k - 52" by auto
      then show ?thesis by (simp only: ulp_def pow2_def if_False)
    qed (simp add: ulp_def pow2_def)
    then show ?thesis by (intro that [of "int m * 2 ^ (52 - k)"]) simp_all
  next
    case False
    with k53 have "k = 53" by simp
    with k(2) m(2) have "m = 2 ^ 53" by simp
    moreover have "ulp = 2" using \<open>k = 53\<close> by (simp add: ulp_def pow2_def)
    ultimately show ?thesis by (intro that [of "2 ^ 52"]) simp_all
  qed
  have e: "fp_exponent (of_nat m * 2 ^ n) = int k + int n" using l(1) ln by simp
  have "max (int k + int n - (53 - 1)) (- 1074) = (int k - 52) + int n" by simp
  then have u: "pow2 (max (fp_exponent (of_nat m * 2 ^ n) - (53 - 1)) (- 1074)) = ulp * 2 ^ n"
    unfolding e by (simp only: pow2_add ulp_def)
  have small: "\<not> pow2 1024 \<le> (of_nat m * 2 ^ n :: rat)"
  proof -
    have "(of_nat (m * 2 ^ n) :: rat) < of_nat (2 ^ 1024)" using n by (simp only: of_nat_less_iff)
    then show ?thesis by (simp add: pow2_def del: power_numeral)
  qed
  have pos: "(0 :: rat) < of_nat m * 2 ^ n" using m(1) by simp
  have q: "\<bar>of_nat m * 2 ^ n :: rat\<bar> = of_nat m * 2 ^ n" using pos by simp
  have "of_nat m * 2 ^ n / (ulp * 2 ^ n) = (of_int i :: rat)" using i(1) by simp
  moreover have bk: "of_int i * (ulp * 2 ^ n) = of_nat m * 2 ^ n" using i(2) by (simp add: mult.assoc [symmetric])
  ultimately show ?thesis
    using pos small unfolding f64_round_def fp_round_def q u Let_def
    by (simp only: round_half_even_int bk if_False if_True) simp
qed

lemma fp_round_nat:
  assumes "1 \<le> (m :: nat)" and "m \<le> 2 ^ 53"
  shows "f64_round (of_nat m) = Fin (of_nat m)"
proof -
  have "m * 2 ^ 0 < 2 ^ 1024"
    unfolding power_0 mult_1_right
    by (rule le_less_trans [OF assms(2)]) (rule power_strict_increasing; simp)
  from fp_round_scaled [OF assms this] show ?thesis by simp
qed

lemma f64_round_uminus: "f64_round (- q) = (case f64_round q of Fin r \<Rightarrow> Fin (- r) | PInf \<Rightarrow> NInf | NInf \<Rightarrow> PInf | NaN \<Rightarrow> NaN)"
  by (simp add: f64_round_def fp_round_def Let_def)

lemma f64_of_int_exact:
  assumes "\<bar>n\<bar> \<le> 2 ^ 53"
  shows "f64_of_int n = Fin (of_int n)"
proof (cases "n = 0")
  case False
  show ?thesis
  proof (cases "0 < n")
    case True
    then have m: "n = int (nat n)" "1 \<le> nat n" by simp_all
    then have "f64_round (of_nat (nat n)) = Fin (of_nat (nat n))"
      by (intro fp_round_nat) (use assms in simp_all)
    with True show ?thesis by (simp add: f64_of_int_def)
  next
    case neg: False
    with False have m: "n = - int (nat (- n))" "1 \<le> nat (- n)" by simp_all
    then have "f64_round (of_nat (nat (- n))) = Fin (of_nat (nat (- n)))"
      by (intro fp_round_nat) (use assms in simp_all)
    then show ?thesis
      using f64_round_uminus [of "of_nat (nat (- n))"] neg by (simp add: f64_of_int_def)
  qed
qed (simp add: f64_of_int_def f64_round_def fp_round_def)

lemma rat_trunc_of_int [simp]: "rat_trunc (of_int n) = n"
  by (simp add: rat_trunc_def)

lemma f64_to_i64_of_int:
  assumes "\<bar>n\<bar> \<le> 2 ^ 53"
  shows "f64_to_i64 oor (f64_of_int n) = word_of_int n"
proof -
  have "- (2 ^ 63) \<le> n" "n < 2 ^ 63" using assms by simp_all
  with assms show ?thesis by (simp add: f64_of_int_exact)
qed

end
