(* ===== verification/DF_Api.thy ===== *)
theory DF_Api
  imports DF_Float
begin

text \<open>
  The data the SDK and the server exchange: \<open>api/events.go\<close>, \<open>api/types.go\<close>,
  \<open>api/constant.go\<close> and \<open>api/workflow_input.go\<close>, together with the dynamic Go
  values (\<open>any\<close>) they carry, IEEE doubles, and the serializer \<open>serde.BinarySerde\<close>. The
  serializer's bodies are third-party code (\<open>encoding/json\<close>, \<open>msgpack\<close>), so it is a
  parameter: a record of one encoder and one decoder per type the code passes to it.
\<close>

section \<open>Dynamic values and their types\<close>

datatype ikind = I8 | I16 | I32 | I64 | IInt | U8 | U16 | U32 | U64 | UInt

datatype gtype =
    TBool | TIntT ikind | TF32 | TF64 | TStr | TAny | TErr | TCtx | TWfCtx
  | TSlice gtype | TMap gtype gtype | TStruct string | TPtr gtype

datatype gval =
    GNil
  | GBool bool
  | GInt ikind int
  | GF32 f64
  | GF64 f64
  | GStr string
  | GErr string
  | GSlice gtype "gval list"
  | GMap gtype gtype "(gval \<times> gval) list"
  | GStruct string "(string \<times> gval) list"
  | GPtr gtype gval

section \<open>Events\<close>

text \<open>
  A nil slice and an empty one are the same list, except in the result of an activity, where
  the code tells them apart: \<open>None\<close> is the nil slice there.
\<close>

record retry_policy =
  rp_initial_interval_ms :: i64
  rp_backoff_coefficient :: f64
  rp_maximum_interval_ms :: i64
  rp_maximum_attempts :: i32
  rp_non_retryable :: "string list"

record workflow_started =
  ws_id :: string
  ws_fn :: string
  ws_input :: "gval list"

record activity_scheduled =
  as_id :: string
  as_wf :: string
  as_fn :: string
  as_input :: "gval list"
  as_schedule_to_close :: i64
  as_start_to_close :: i64
  as_retry :: "retry_policy option"

record activity_started =
  at_id :: string
  at_wf :: string
  at_fn :: string

record activity_completed =
  ac_id :: string
  ac_wf :: string
  ac_fn :: string
  ac_result :: "gval list option"

record activity_failed =
  af_id :: string
  af_wf :: string
  af_fn :: string
  af_error :: string

record activity_retried =
  ar_id :: string
  ar_wf :: string
  ar_fn :: string
  ar_attempt :: i32
  ar_error :: string
  ar_next_delay :: i64

record workflow_failed =
  wf_id :: string
  wf_fn :: string
  wf_error :: string

record workflow_completed =
  wc_id :: string
  wc_fn :: string
  wc_result :: "gval list"

datatype wf_event =
    WorkflowStarted workflow_started
  | ActivityScheduled activity_scheduled
  | ActivityStarted activity_started
  | ActivityCompleted activity_completed
  | ActivityFailed activity_failed
  | ActivityRetried activity_retried
  | WorkflowFailed workflow_failed
  | WorkflowCompleted workflow_completed

datatype wf_kind =
    KWorkflowStarted | KActivityScheduled | KActivityStarted | KActivityCompleted
  | KActivityFailed | KActivityRetried | KWorkflowFailed | KWorkflowCompleted

fun kind_of :: "wf_event \<Rightarrow> wf_kind" where
  "kind_of (WorkflowStarted _) = KWorkflowStarted"
| "kind_of (ActivityScheduled _) = KActivityScheduled"
| "kind_of (ActivityStarted _) = KActivityStarted"
| "kind_of (ActivityCompleted _) = KActivityCompleted"
| "kind_of (ActivityFailed _) = KActivityFailed"
| "kind_of (ActivityRetried _) = KActivityRetried"
| "kind_of (WorkflowFailed _) = KWorkflowFailed"
| "kind_of (WorkflowCompleted _) = KWorkflowCompleted"

fun kind_name :: "wf_kind \<Rightarrow> string" where
  "kind_name KWorkflowStarted = ''workflow/started''"
| "kind_name KActivityScheduled = ''activity/scheduled''"
| "kind_name KActivityStarted = ''activity/started''"
| "kind_name KActivityCompleted = ''activity/completed''"
| "kind_name KActivityFailed = ''activity/failed''"
| "kind_name KActivityRetried = ''activity/retried''"
| "kind_name KWorkflowFailed = ''workflow/failed''"
| "kind_name KWorkflowCompleted = ''workflow/completed''"

definition event_name :: "wf_event \<Rightarrow> string" where
  "event_name e = kind_name (kind_of e)"

fun event_wf_id :: "wf_event \<Rightarrow> string" where
  "event_wf_id (WorkflowStarted e) = ws_id e"
| "event_wf_id (ActivityScheduled e) = as_id e"
| "event_wf_id (ActivityStarted e) = at_id e"
| "event_wf_id (ActivityCompleted e) = ac_id e"
| "event_wf_id (ActivityFailed e) = af_id e"
| "event_wf_id (ActivityRetried e) = ar_id e"
| "event_wf_id (WorkflowFailed e) = wf_id e"
| "event_wf_id (WorkflowCompleted e) = wc_id e"

text \<open>The event kinds are ordered as the source lists them.\<close>

definition all_kinds :: "wf_kind list" where
  "all_kinds = [KWorkflowStarted, KActivityScheduled, KActivityStarted, KActivityCompleted,
     KActivityFailed, KActivityRetried, KWorkflowFailed, KWorkflowCompleted]"

lemma kind_name_inj: "kind_name j = kind_name k \<longleftrightarrow> j = k"
  by (cases j; cases k) simp_all

lemma kind_in_all [simp]: "k \<in> set all_kinds"
  by (cases k) (simp_all add: all_kinds_def)

lemma distinct_all_kinds: "distinct (map kind_name all_kinds)"
  by (simp add: all_kinds_def)

section \<open>Commands and tasks\<close>

definition start_workflow_command :: string where
  "start_workflow_command = ''StartWorkflow''"

record 'x command =
  cmd_type :: string
  cmd_attributes :: "'x list"

record start_attributes =
  sa_fn :: string
  sa_input :: "gval list"

record start_reply =
  sr_error :: string
  sr_workflow_id :: string

record workflow_task =
  wt_id :: string
  wt_fn :: string
  wt_input :: "gval list"

record activity_task =
  tk_wf :: string
  tk_id :: string
  tk_fn :: string
  tk_input :: "gval list"
  tk_last_seq :: i64
  tk_attempt :: i32
  tk_schedule_to_close :: i64
  tk_start_to_close :: i64
  tk_retry :: "retry_policy option"
  tk_scheduled_at_ms :: i64

text \<open>Stream names, subjects, buckets and headers.\<close>

definition workflow_history_stream :: string where "workflow_history_stream = ''WORKFLOW_HISTORY''"
definition workflow_tasks_stream :: string where "workflow_tasks_stream = ''WORKFLOW_TASKS''"
definition activity_tasks_stream :: string where "activity_tasks_stream = ''ACTIVITY_TASKS''"
definition history_subject_prefix :: string where "history_subject_prefix = ''history''"
definition workflow_tasks_pattern :: string where "workflow_tasks_pattern = ''workflow.*.tasks''"
definition activity_tasks_pattern :: string where "activity_tasks_pattern = ''activity.*.tasks''"
definition event_name_header :: string where "event_name_header = ''Chronicle-Event-Name''"
definition aggregate_version_header :: string where "aggregate_version_header = ''Chronicle-Aggregate-Version''"

definition workflow_input_key :: "string \<Rightarrow> string \<Rightarrow> string" where
  "workflow_input_key fn wid = fn @ ''/'' @ wid"

text \<open>Workflow ids contain no slash, so the input key of one run belongs to no other run.\<close>

lemma workflow_input_key_inj:
  assumes "CHR ''/'' \<notin> set w" and "CHR ''/'' \<notin> set w'"
    and "workflow_input_key f w = workflow_input_key f' w'"
  shows "f = f' \<and> w = w'"
proof -
  have "takeWhile (\<lambda>c. c \<noteq> CHR ''/'') (rev (workflow_input_key f w)) = rev w"
    if "CHR ''/'' \<notin> set w" for f w
  proof -
    have "takeWhile (\<lambda>c. c \<noteq> CHR ''/'') (rev w @ CHR ''/'' # rev f)
        = rev w @ takeWhile (\<lambda>c. c \<noteq> CHR ''/'') (CHR ''/'' # rev f)"
      by (rule takeWhile_append2) (use that in auto)
    then show ?thesis by (simp add: workflow_input_key_def)
  qed
  from this [OF assms(1), of f] this [OF assms(2), of f'] assms(3) have "rev w = rev w'" by simp
  then have "w = w'" by simp
  with assms(3) show ?thesis by (simp add: workflow_input_key_def)
qed

section \<open>The serializer\<close>

record 'x serde =
  ser_event :: "wf_event \<Rightarrow> gerr + 'x list"
  de_event :: "wf_kind \<Rightarrow> 'x list \<Rightarrow> gerr + wf_event"
  ser_wtask :: "workflow_task \<Rightarrow> gerr + 'x list"
  de_wtask :: "'x list \<Rightarrow> gerr + workflow_task"
  ser_atask :: "activity_task \<Rightarrow> gerr + 'x list"
  de_atask :: "'x list \<Rightarrow> gerr + activity_task"
  ser_command :: "'x command \<Rightarrow> gerr + 'x list"
  de_command :: "'x list \<Rightarrow> gerr + 'x command"
  ser_attrs :: "start_attributes \<Rightarrow> gerr + 'x list"
  de_attrs :: "'x list \<Rightarrow> gerr + start_attributes"
  ser_reply :: "start_reply \<Rightarrow> gerr + 'x list"
  de_reply :: "'x list \<Rightarrow> gerr + start_reply"
  ser_args :: "gval list \<Rightarrow> gerr + 'x list"
  de_args :: "'x list \<Rightarrow> gerr + gval list"
  ser_val :: "gval \<Rightarrow> gerr + 'x list"
  de_val :: "gtype \<Rightarrow> 'x list \<Rightarrow> gerr + gval"
  de_keys :: "'x list \<Rightarrow> gerr + string list"

end
