(* ===== verification/DF_Context.thy ===== *)
theory DF_Context
  imports DF_Api DF_Aggregate
begin

text \<open>
  The workflow context of the SDK: \<open>sdk/internal/context.go\<close>, \<open>events.go\<close>,
  \<open>activity_replay.go\<close>, \<open>activity_options.go\<close> and the future of an activity,
  \<open>future_blocking.go\<close>. The context is the aggregate root of one workflow: its state is
  rebuilt from the history by \<open>Apply\<close>, and \<open>ExecuteActivity\<close> consumes the replayed
  results of each activity in order before it schedules a new execution.
\<close>

section \<open>Replay state and Apply\<close>

record replay_record =
  rr_result :: "gval list option"
  rr_err :: "gerr option"

record activity_replay =
  replay_history :: "replay_record list"
  replay_consumed :: nat

record wf_state =
  st_id :: string
  st_fn :: string
  st_activities :: "string \<rightharpoonup> activity_replay"

type_synonym workflow_context = "(wf_state, wf_event) root"

definition empty_state :: wf_state where
  "empty_state = \<lparr>st_id = [], st_fn = [], st_activities = Map.empty\<rparr>"

definition new_empty_workflow_context :: workflow_context where
  "new_empty_workflow_context = \<lparr>root_state = empty_state, root_uncommitted = [], root_version = 0\<rparr>"

definition replay_of :: "wf_state \<Rightarrow> string \<Rightarrow> activity_replay" where
  "replay_of s fn = (case st_activities s fn of Some r \<Rightarrow> r | None \<Rightarrow> \<lparr>replay_history = [], replay_consumed = 0\<rparr>)"

definition ensure_activity_replay :: "wf_state \<Rightarrow> string \<Rightarrow> wf_state" where
  "ensure_activity_replay s fn = s\<lparr>st_activities := (st_activities s)(fn \<mapsto> replay_of s fn)\<rparr>"

definition append_replay :: "wf_state \<Rightarrow> string \<Rightarrow> replay_record \<Rightarrow> wf_state" where
  "append_replay s fn rr =
     (let s' = ensure_activity_replay s fn; r = replay_of s' fn in
      s'\<lparr>st_activities := (st_activities s')(fn \<mapsto> r\<lparr>replay_history := replay_history r @ [rr]\<rparr>)\<rparr>)"

definition set_ident :: "string \<Rightarrow> string \<Rightarrow> wf_state \<Rightarrow> wf_state" where
  "set_ident wid fn s = s\<lparr>st_id := wid, st_fn := fn\<rparr>"

fun wf_apply :: "(wf_state, wf_event) applier" where
  "wf_apply (WorkflowStarted e) s = (set_ident (ws_id e) (ws_fn e) s, None)"
| "wf_apply (ActivityScheduled e) s = (set_ident (as_id e) (as_wf e) s, None)"
| "wf_apply (ActivityStarted e) s = (set_ident (at_id e) (at_wf e) s, None)"
| "wf_apply (ActivityCompleted e) s =
     (append_replay (set_ident (ac_id e) (ac_wf e) s) (ac_fn e)
        \<lparr>rr_result = ac_result e, rr_err = None\<rparr>, None)"
| "wf_apply (ActivityFailed e) s =
     (append_replay (set_ident (af_id e) (af_wf e) s) (af_fn e)
        \<lparr>rr_result = None, rr_err = Some (ErrMsg (af_error e))\<rparr>, None)"
| "wf_apply (ActivityRetried e) s = (set_ident (ar_id e) (ar_wf e) s, None)"
| "wf_apply (WorkflowFailed e) s = (set_ident (wf_id e) (wf_fn e) s, None)"
| "wf_apply (WorkflowCompleted e) s = (set_ident (wc_id e) (wc_fn e) s, None)"

definition wf_record_that :: "workflow_context \<Rightarrow> wf_event \<Rightarrow> workflow_context \<times> gerr option" where
  "wf_record_that c e = record_that wf_apply c [e]"

section \<open>Activity options\<close>

record sdk_retry_policy =
  sp_initial_interval :: i64
  sp_backoff_coefficient :: f64
  sp_maximum_interval :: i64
  sp_maximum_attempts :: i32
  sp_non_retryable :: "string list"

record activity_options =
  ao_schedule_to_close :: i64
  ao_start_to_close :: i64
  ao_retry :: "sdk_retry_policy option"

text \<open>\<open>Duration.Milliseconds()\<close>: signed division of nanoseconds, truncating.\<close>

definition duration_ms :: "i64 \<Rightarrow> i64" where
  "duration_ms d = word_of_int (sint d sdiv 1000000)"

definition convert_retry_policy :: "sdk_retry_policy \<Rightarrow> retry_policy" where
  "convert_retry_policy rp =
     \<lparr>rp_initial_interval_ms = duration_ms (sp_initial_interval rp),
      rp_backoff_coefficient = sp_backoff_coefficient rp,
      rp_maximum_interval_ms = duration_ms (sp_maximum_interval rp),
      rp_maximum_attempts = sp_maximum_attempts rp,
      rp_non_retryable = sp_non_retryable rp\<rparr>"

text \<open>The chain of \<open>WithValue\<close> contexts above the worker's own, innermost first.\<close>

datatype ctx_value = CtxOptions activity_options | CtxOther gval

type_synonym value_ctx = "(string \<times> ctx_value) list"

definition activity_options_key :: string where
  "activity_options_key = ''github.com/ngnhng/durablefuture/sdk/workflow.ActivityOptions''"

definition with_value :: "value_ctx \<Rightarrow> string \<Rightarrow> ctx_value \<Rightarrow> value_ctx" where
  "with_value cx k v = (k, v) # cx"

definition with_activity_options :: "value_ctx \<Rightarrow> activity_options \<Rightarrow> value_ctx" where
  "with_activity_options cx opts = with_value cx activity_options_key (CtxOptions opts)"

definition ctx_lookup :: "value_ctx \<Rightarrow> string \<Rightarrow> ctx_value option" where
  "ctx_lookup cx k = map_of cx k"

text \<open>What a \<open>recover\<close> sees: the marker of an unresolved future, or another panic.\<close>

datatype panic = BlockingFuture | OtherPanic string

definition get_activity_options :: "value_ctx \<Rightarrow> panic + activity_options option" where
  "get_activity_options cx =
     (case ctx_lookup cx activity_options_key of
        None \<Rightarrow> Inr None
      | Some (CtxOptions opts) \<Rightarrow> Inr (Some opts)
      | Some (CtxOther v) \<Rightarrow>
          (if v = GNil then Inr None
           else Inl (OtherPanic ''ActivityOptions has wrong type in context.'')))"

definition should_retry :: "sdk_retry_policy \<Rightarrow> int \<Rightarrow> gerr \<Rightarrow> bool" where
  "should_retry r attempt err =
     (0 \<le> sint (sp_maximum_attempts r) \<and> attempt \<le> sint (sp_maximum_attempts r) \<and>
      gerr_msg err \<in> set (sp_non_retryable r))"

definition calculate_next_delay :: "(f64 \<Rightarrow> i64) \<Rightarrow> sdk_retry_policy \<Rightarrow> i64 \<Rightarrow> i64" where
  "calculate_next_delay oor r attempt =
     f64_to_i64 oor (f64_mul (f64_of_int (sint (sp_initial_interval r)))
       (f64_pow (sp_backoff_coefficient r) (f64_int_pred (sint attempt))))"

section \<open>ExecuteActivity\<close>

record blocking =
  bl_resolved :: bool
  bl_value :: "gval list option"
  bl_err :: "gerr option"

definition schedule_event ::
    "i64 \<Rightarrow> wf_state \<Rightarrow> string \<Rightarrow> gval list \<Rightarrow> activity_options option \<Rightarrow> activity_scheduled" where
  "schedule_event now s fn args opts =
     \<lparr>as_id = st_id s, as_wf = st_fn s, as_fn = fn, as_input = args,
      as_schedule_to_close =
        (case opts of None \<Rightarrow> 0 | Some op \<Rightarrow>
           if 0 < sint (ao_schedule_to_close op) then now + duration_ms (ao_schedule_to_close op) else 0),
      as_start_to_close =
        (case opts of None \<Rightarrow> 0 | Some op \<Rightarrow>
           if 0 < sint (ao_start_to_close op) then duration_ms (ao_start_to_close op) else 0),
      as_retry = (case opts of None \<Rightarrow> None | Some op \<Rightarrow> map_option convert_retry_policy (ao_retry op))\<rparr>"

definition consume :: "wf_state \<Rightarrow> string \<Rightarrow> wf_state" where
  "consume s fn =
     (let r = replay_of s fn in
      s\<lparr>st_activities := (st_activities s)(fn \<mapsto> r\<lparr>replay_consumed := Suc (replay_consumed r)\<rparr>)\<rparr>)"

text \<open>
  \<open>now\<close> is \<open>time.Now().Unix()\<close> at the call and \<open>act\<close> the result of
  \<open>ExtractFullFunctionName\<close>. A panic leaves the root as far as the call had changed it.
\<close>

definition execute_activity ::
    "i64 \<Rightarrow> value_ctx \<Rightarrow> gerr + string \<Rightarrow> gval list \<Rightarrow> workflow_context
      \<Rightarrow> workflow_context \<times> (panic + blocking)" where
  "execute_activity now cx act args c =
     (case act of
        Inl err \<Rightarrow> (c, Inl (OtherPanic (gerr_msg err)))
      | Inr fn \<Rightarrow>
         (let s = ensure_activity_replay (root_state c) fn; entry = replay_of s fn;
              c1 = c\<lparr>root_state := consume s fn\<rparr> in
          if replay_consumed entry < length (replay_history entry) then
            (let rr = replay_history entry ! replay_consumed entry in
             case rr_err rr of
               Some e \<Rightarrow> (c1, Inr \<lparr>bl_resolved = True, bl_value = None, bl_err = Some e\<rparr>)
             | None \<Rightarrow> (c1, Inr \<lparr>bl_resolved = True, bl_value = rr_result rr, bl_err = None\<rparr>))
          else
            (case get_activity_options cx of
               Inl p \<Rightarrow> (c1, Inl p)
             | Inr opts \<Rightarrow>
                (case wf_record_that c1 (ActivityScheduled (schedule_event now (root_state c1) fn args opts)) of
                   (c2, Some err) \<Rightarrow> (c2, Inl (OtherPanic (gerr_msg (ErrWrap ''record activity scheduled event'' err))))
                 | (c2, None) \<Rightarrow> (c2, Inr \<lparr>bl_resolved = False, bl_value = None, bl_err = None\<rparr>)))))"

section \<open>The future of an activity\<close>

text \<open>
  \<open>Get\<close> on a pointer to a value of type \<open>ty\<close> (\<open>None\<close>: a nil pointer): it panics, or
  returns an error, or returns nil having stored a value or left the pointer alone.
  \<open>fmt_v\<close> is the rendering \<open>%v\<close> of a value.
\<close>

datatype get_result = GetErr gerr | GetOk "gval option"

definition blocking_get ::
    "(gval \<Rightarrow> string) \<Rightarrow> 'x serde option \<Rightarrow> blocking \<Rightarrow> gtype option \<Rightarrow> panic + get_result" where
  "blocking_get fmt_v conv f ptr =
     (if \<not> bl_resolved f then Inl BlockingFuture
      else Inr (case bl_err f of
        Some e \<Rightarrow> GetErr e
      | None \<Rightarrow>
         (case ptr of None \<Rightarrow> GetOk None | Some ty \<Rightarrow>
         (case bl_value f of None \<Rightarrow> GetOk None | Some vs \<Rightarrow>
            if length vs \<noteq> 2 then
              GetErr (ErrMsg (''invalid workflow result format: expected [result, error], got '' @
                nat_str (length vs) @ '' elements''))
            else if vs ! 1 \<noteq> GNil then
              (case vs ! 1 of
                 GStr m \<Rightarrow> if m \<noteq> [] then GetErr (ErrMsg m)
                   else GetErr (ErrMsg (''[Activity Get] workflow execution failed: '' @ fmt_v (vs ! 1)))
               | _ \<Rightarrow> GetErr (ErrMsg (''[Activity Get] workflow execution failed: '' @ fmt_v (vs ! 1))))
            else if vs ! 0 \<noteq> GNil then
              (case conv of None \<Rightarrow> GetErr (ErrMsg ''no converter available for type conversion'')
               | Some sd \<Rightarrow>
                  (case ser_val sd (vs ! 0) of
                     Inl e \<Rightarrow> GetErr (ErrWrap ''failed to serialize result value'' e)
                   | Inr bs \<Rightarrow>
                      (case de_val sd ty bs of
                         Inl e \<Rightarrow> GetErr (ErrWrap ''failed to deserialize result into target type'' e)
                       | Inr v \<Rightarrow> GetOk (Some v))))
            else GetOk None))))"

section \<open>What Apply builds\<close>

named_theorems wf_ctx \<open>selectors of the replay state after its updates\<close>

lemma wf_apply_total [simp]: "snd (wf_apply e s) = None"
  by (cases e) simp_all

abbreviation wf_step :: "wf_event \<Rightarrow> wf_state \<Rightarrow> wf_state" where
  "wf_step \<equiv> step_of wf_apply"

text \<open>The replay record an event leaves, and for which activity.\<close>

fun outcome_of :: "wf_event \<Rightarrow> (string \<times> replay_record) option" where
  "outcome_of (ActivityCompleted e) = Some (ac_fn e, \<lparr>rr_result = ac_result e, rr_err = None\<rparr>)"
| "outcome_of (ActivityFailed e) = Some (af_fn e, \<lparr>rr_result = None, rr_err = Some (ErrMsg (af_error e))\<rparr>)"
| "outcome_of _ = None"

fun activity_outcomes :: "wf_event list \<Rightarrow> string \<Rightarrow> replay_record list" where
  "activity_outcomes [] fn = []"
| "activity_outcomes (e # es) fn =
     (case outcome_of e of
        Some (f, rr) \<Rightarrow> if f = fn then rr # activity_outcomes es fn else activity_outcomes es fn
      | None \<Rightarrow> activity_outcomes es fn)"

lemma replay_of_set_ident [simp, wf_ctx]: "replay_of (set_ident w f s) fn = replay_of s fn"
  by (simp add: replay_of_def set_ident_def)

lemma replay_of_empty [simp]: "replay_of empty_state fn = \<lparr>replay_history = [], replay_consumed = 0\<rparr>"
  by (simp add: replay_of_def empty_state_def)

lemma replay_of_ensure [simp, wf_ctx]: "replay_of (ensure_activity_replay s f) fn = replay_of s fn"
  by (simp add: replay_of_def ensure_activity_replay_def)

lemma replay_of_append [simp, wf_ctx]:
  "replay_of (append_replay s f rr) fn =
     (if fn = f then (replay_of s f)\<lparr>replay_history := replay_history (replay_of s f) @ [rr]\<rparr>
      else replay_of s fn)"
  by (simp add: append_replay_def Let_def replay_of_def ensure_activity_replay_def)

lemma replay_of_consume [wf_ctx]:
  "replay_of (consume s f) fn =
     (if fn = f then (replay_of s f)\<lparr>replay_consumed := Suc (replay_consumed (replay_of s f))\<rparr>
      else replay_of s fn)"
  by (simp add: consume_def Let_def replay_of_def)

lemma replay_history_consume [simp]:
  "replay_history (replay_of (consume s f) fn) = replay_history (replay_of s fn)"
  by (simp add: replay_of_consume)

lemma replay_consumed_consume [simp]:
  "replay_consumed (replay_of (consume s f) fn) =
     (if fn = f then Suc (replay_consumed (replay_of s fn)) else replay_consumed (replay_of s fn))"
  by (simp add: replay_of_consume)

lemma st_fields_updates [simp, wf_ctx]:
  "st_id (append_replay s f rr) = st_id s" "st_fn (append_replay s f rr) = st_fn s"
  "st_id (consume s f) = st_id s" "st_fn (consume s f) = st_fn s"
  "st_id (set_ident w g s) = w" "st_fn (set_ident w g s) = g"
  by (simp_all add: append_replay_def consume_def ensure_activity_replay_def Let_def set_ident_def)

lemma consume_ensure [simp, wf_ctx]: "consume (ensure_activity_replay s fn) fn = consume s fn"
  unfolding consume_def by (simp add: Let_def) (simp add: ensure_activity_replay_def)

lemma st_id_wf_step [simp]: "st_id (wf_step e s) = event_wf_id e"
  by (cases e) (simp_all add: step_of_def)

lemma replay_of_wf_step:
  "replay_of (wf_step e s) fn =
     (case outcome_of e of
        Some (f, rr) \<Rightarrow>
          if fn = f then (replay_of s f)\<lparr>replay_history := replay_history (replay_of s f) @ [rr]\<rparr> else replay_of s fn
      | None \<Rightarrow> replay_of s fn)"
  by (cases e) (simp_all add: step_of_def)

lemma replay_of_fold:
  "replay_of (fold wf_step es s) fn =
     (replay_of s fn)\<lparr>replay_history := replay_history (replay_of s fn) @ activity_outcomes es fn\<rparr>"
proof (induction es arbitrary: s)
  case (Cons e es)
  then show ?case
    by (cases "outcome_of e") (auto simp: replay_of_wf_step split: prod.split)
qed simp

lemma st_id_fold: "es \<noteq> [] \<Longrightarrow> st_id (fold wf_step es s) = event_wf_id (List.last es)"
  by (induction es arbitrary: s rule: rev_induct) simp_all

section \<open>ExecuteActivity, case by case\<close>

lemma wf_record_that_ok [simp]:
  "wf_record_that c e =
     (c\<lparr>root_state := wf_step e (root_state c), root_uncommitted := root_uncommitted c @ [e],
        root_version := root_version c + 1\<rparr>, None)"
  unfolding wf_record_that_def by (subst record_that_total) (simp_all del: record_that.simps)

text \<open>A call the history has a result for returns that result and records nothing.\<close>

definition future_of :: "replay_record \<Rightarrow> blocking" where
  "future_of rr =
     (case rr_err rr of
        Some e \<Rightarrow> \<lparr>bl_resolved = True, bl_value = None, bl_err = Some e\<rparr>
      | None \<Rightarrow> \<lparr>bl_resolved = True, bl_value = rr_result rr, bl_err = None\<rparr>)"

lemma future_of_resolved [simp]: "bl_resolved (future_of rr)"
  by (cases "rr_err rr") (simp_all add: future_of_def)

lemma execute_replayed:
  assumes "replay_consumed (replay_of (root_state c) fn) < length (replay_history (replay_of (root_state c) fn))"
  shows "execute_activity now cx (Inr fn) args c =
    (c\<lparr>root_state := consume (root_state c) fn\<rparr>,
     Inr (future_of (replay_history (replay_of (root_state c) fn) ! replay_consumed (replay_of (root_state c) fn))))"
  using assms by (simp add: execute_activity_def Let_def future_of_def split: option.split)

abbreviation open_future :: blocking where
  "open_future \<equiv> \<lparr>bl_resolved = False, bl_value = None, bl_err = None\<rparr>"

text \<open>A call beyond the history records one \<open>ActivityScheduled\<close> and returns an open future.\<close>

lemma execute_fresh:
  assumes "length (replay_history (replay_of (root_state c) fn)) \<le> replay_consumed (replay_of (root_state c) fn)"
    and "get_activity_options cx = Inr opts"
  shows "execute_activity now cx (Inr fn) args c =
    (let s = consume (root_state c) fn;
         e = ActivityScheduled (schedule_event now s fn args opts)
     in (c\<lparr>root_state := wf_step e s, root_uncommitted := root_uncommitted c @ [e],
           root_version := root_version c + 1\<rparr>,
         Inr open_future))"
  using assms by (simp add: execute_activity_def Let_def)

lemma wf_step_scheduled [simp]:
  "wf_step (ActivityScheduled (schedule_event now s fn args opts)) s = s"
  by (simp add: step_of_def schedule_event_def set_ident_def)

lemmas execute_simps = execute_replayed execute_fresh

lemma get_unresolved [simp]: "\<not> bl_resolved f \<Longrightarrow> blocking_get fmt_v conv f ptr = Inl BlockingFuture"
  by (simp add: blocking_get_def)

lemma get_resolved: "bl_resolved f \<Longrightarrow> \<exists>r. blocking_get fmt_v conv f ptr = Inr r"
  by (simp add: blocking_get_def)

section \<open>A context rebuilt from a history\<close>

definition context_after :: "wf_event list \<Rightarrow> workflow_context" where
  "context_after es =
     \<lparr>root_state = fold wf_step es empty_state, root_uncommitted = [], root_version = of_nat (length es)\<rparr>"

lemma context_after_history [simp]:
  "replay_history (replay_of (root_state (context_after es)) fn) = activity_outcomes es fn"
  "replay_consumed (replay_of (root_state (context_after es)) fn) = 0"
  "root_uncommitted (context_after es) = []"
  by (simp_all add: context_after_def replay_of_fold)

lemma activity_outcomes_append: "activity_outcomes (es @ fs) fn = activity_outcomes es fn @ activity_outcomes fs fn"
  by (induction es) (auto split: option.splits)

fun event_wf_fn :: "wf_event \<Rightarrow> string" where
  "event_wf_fn (WorkflowStarted e) = ws_fn e"
| "event_wf_fn (ActivityScheduled e) = as_wf e"
| "event_wf_fn (ActivityStarted e) = at_wf e"
| "event_wf_fn (ActivityCompleted e) = ac_wf e"
| "event_wf_fn (ActivityFailed e) = af_wf e"
| "event_wf_fn (ActivityRetried e) = ar_wf e"
| "event_wf_fn (WorkflowFailed e) = wf_fn e"
| "event_wf_fn (WorkflowCompleted e) = wc_fn e"

lemma st_fn_wf_step [simp]: "st_fn (wf_step e s) = event_wf_fn e"
  by (cases e) (simp_all add: step_of_def)

lemma wf_step_no_outcome: "outcome_of e = None \<Longrightarrow> wf_step e s = set_ident (event_wf_id e) (event_wf_fn e) s"
  by (cases e) (simp_all add: step_of_def)

lemma fold_no_outcome:
  assumes "list_all (\<lambda>e. outcome_of e = None \<and> event_wf_id e = st_id s \<and> event_wf_fn e = st_fn s) es"
  shows "fold wf_step es s = s"
  using assms by (induction es) (simp_all add: wf_step_no_outcome set_ident_def)

end
