(* ===== verification/DF_Program.thy ===== *)
theory DF_Program
  imports DF_Context
begin

text \<open>
  User workflow functions, as the SDK sees them, and their replay. The code of a workflow is
  documented to be deterministic: what it does next depends on its arguments and on what its
  futures returned. So it is a tree of the calls it makes: \<open>PExec\<close> calls
  \<open>ExecuteActivity\<close> and goes on with the future's index, \<open>PGet\<close> calls \<open>Get\<close> on a
  future and goes on with what it returned. Running it against a workflow context is
  \<open>run_prog\<close>; it ends with the values returned or with a panic, of which the panic of an
  unresolved future is the way a workflow waits. The tree is well founded, so a function that goes
  on calling or computing for ever is not represented: no theorem takes the end of a workflow from
  the tree alone, those that say that a workflow ends ask for an explicit bound on its calls.
\<close>

datatype prog =
    PReturn "gval list"
  | PPanic string
  | PExec value_ctx "gerr + string" "gval list" "nat \<Rightarrow> prog"
  | PGet nat "gtype option" "get_result \<Rightarrow> prog"

datatype outcome = Returned "gval list" | Panicked panic

text \<open>\<open>clock n\<close> is \<open>time.Now().Unix()\<close> when the \<open>n\<close>-th activity is executed.\<close>

primrec run_prog ::
    "prog \<Rightarrow> (gval \<Rightarrow> string) \<Rightarrow> 'x serde option \<Rightarrow> (nat \<Rightarrow> i64) \<Rightarrow> workflow_context \<Rightarrow> blocking list
      \<Rightarrow> workflow_context \<times> outcome" where
  "run_prog (PReturn vs) fv sd clock c futs = (c, Returned vs)"
| "run_prog (PPanic m) fv sd clock c futs = (c, Panicked (OtherPanic m))"
| "run_prog (PExec cx act args k) fv sd clock c futs =
     (case execute_activity (clock (length futs)) cx act args c of
        (c', Inl p) \<Rightarrow> (c', Panicked p)
      | (c', Inr f) \<Rightarrow> run_prog (k (length futs)) fv sd clock c' (futs @ [f]))"
| "run_prog (PGet h ty k) fv sd clock c futs =
     (if length futs \<le> h then
        (c, Panicked (OtherPanic ''runtime error: invalid memory address or nil pointer dereference''))
      else (case blocking_get fv sd (futs ! h) ty of
              Inl p \<Rightarrow> (c, Panicked p)
            | Inr r \<Rightarrow> run_prog (k r) fv sd clock c futs))"

text \<open>
  \<open>ExecuteActivity(...).Get(...)\<close> in one expression, and the workflows that only do that.
\<close>

definition call_activity ::
    "value_ctx \<Rightarrow> gerr + string \<Rightarrow> gval list \<Rightarrow> gtype option \<Rightarrow> (get_result \<Rightarrow> prog) \<Rightarrow> prog" where
  "call_activity cx act args ty k = PExec cx act args (\<lambda>h. PGet h ty k)"

inductive sequential :: "prog \<Rightarrow> bool" where
  seq_return: "sequential (PReturn vs)"
| seq_panic: "sequential (PPanic m)"
| seq_call: "(\<And>r. sequential (k r)) \<Longrightarrow> sequential (call_activity cx act args ty k)"

inductive_cases sequential_execE: "sequential (PExec cx act args k)"
inductive_cases sequential_getE: "sequential (PGet h ty k)"

lemma prog_induct [case_names PReturn PPanic PExec PGet]:
  assumes "\<And>vs. P (PReturn vs)" and "\<And>m. P (PPanic m)"
    and "\<And>cx act args k. (\<And>n. P (k n)) \<Longrightarrow> P (PExec cx act args k)"
    and "\<And>h ty k. (\<And>r. P (k r)) \<Longrightarrow> P (PGet h ty k)"
  shows "P p"
proof (induction p)
  case (PExec cx act args k)
  then show ?case by (intro assms(3)) simp
next
  case (PGet h ty k)
  then show ?case by (intro assms(4)) simp
qed (rule assms(1) assms(2))+

section \<open>What a run changes\<close>

lemma execute_cases:
  obtains
    (noname) err where "act = Inl err" "execute_activity now cx act args c = (c, Inl (OtherPanic (gerr_msg err)))"
  | (replay) fn f where "act = Inr fn"
      "replay_consumed (replay_of (root_state c) fn) < length (replay_history (replay_of (root_state c) fn))"
      "f = future_of (replay_history (replay_of (root_state c) fn) ! replay_consumed (replay_of (root_state c) fn))"
      "execute_activity now cx act args c = (c\<lparr>root_state := consume (root_state c) fn\<rparr>, Inr f)"
  | (options) fn p where "act = Inr fn"
      "length (replay_history (replay_of (root_state c) fn)) \<le> replay_consumed (replay_of (root_state c) fn)"
      "get_activity_options cx = Inl p"
      "execute_activity now cx act args c = (c\<lparr>root_state := consume (root_state c) fn\<rparr>, Inl p)"
  | (fresh) fn opts where "act = Inr fn"
      "length (replay_history (replay_of (root_state c) fn)) \<le> replay_consumed (replay_of (root_state c) fn)"
      "get_activity_options cx = Inr opts"
      "execute_activity now cx act args c =
        (c\<lparr>root_state := consume (root_state c) fn,
           root_uncommitted := root_uncommitted c @
             [ActivityScheduled (schedule_event now (consume (root_state c) fn) fn args opts)],
           root_version := root_version c + 1\<rparr>, Inr open_future)"
proof (cases act)
  case (Inl err)
  then show ?thesis by (intro noname) (simp_all add: execute_activity_def)
next
  case (Inr fn)
  show ?thesis
  proof (cases "replay_consumed (replay_of (root_state c) fn) < length (replay_history (replay_of (root_state c) fn))")
    case True
    then show ?thesis
      by (intro replay [OF Inr _ refl]) (simp_all add: Inr execute_replayed)
  next
    case False
    then have le: "length (replay_history (replay_of (root_state c) fn)) \<le> replay_consumed (replay_of (root_state c) fn)"
      by simp
    show ?thesis
    proof (cases "get_activity_options cx")
      case (Inl p)
      with le show ?thesis
        by (intro options [OF Inr le]) (simp_all add: Inr execute_activity_def Let_def)
    next
      case (Inr opts)
      with le show ?thesis
        by (intro fresh [OF \<open>act = Inr fn\<close> le Inr]) (simp add: \<open>act = Inr fn\<close> execute_fresh Let_def)
    qed
  qed
qed

definition is_scheduled_for :: "string \<Rightarrow> wf_event \<Rightarrow> bool" where
  "is_scheduled_for fn e = (case e of ActivityScheduled a \<Rightarrow> as_fn a = fn | _ \<Rightarrow> False)"

definition is_scheduled :: "wf_event \<Rightarrow> bool" where
  "is_scheduled e = (case e of ActivityScheduled a \<Rightarrow> True | _ \<Rightarrow> False)"

text \<open>
  The events a run adds are activity schedulings of the workflow itself; the replayed history
  stays as it was, and the version counts the new events.
\<close>

lemma run_adds:
  assumes "run_prog p fv sd clock c futs = (c', oc)"
  shows "\<exists>evs. root_uncommitted c' = root_uncommitted c @ evs \<and>
      root_version c' = root_version c + of_nat (length evs) \<and>
      st_id (root_state c') = st_id (root_state c) \<and> st_fn (root_state c') = st_fn (root_state c) \<and>
      (\<forall>e \<in> set evs. is_scheduled e \<and> event_wf_id e = st_id (root_state c)) \<and>
      (\<forall>fn. replay_history (replay_of (root_state c') fn) = replay_history (replay_of (root_state c) fn))"
  using assms
proof (induction p arbitrary: c futs rule: prog_induct)
  case (PExec cx act args k)
  show ?case
  proof (cases rule: execute_cases [of act "clock (length futs)" cx args c])
    case (noname err)
    with PExec.prems show ?thesis by simp
  next
    case (replay fn f)
    with PExec.prems PExec.IH [of "length futs" "c\<lparr>root_state := consume (root_state c) fn\<rparr>" "futs @ [f]"]
    show ?thesis by simp
  next
    case (options fn p)
    with PExec.prems show ?thesis by (auto intro!: exI [of _ "[]"])
  next
    case (fresh fn opts)
    let ?e = "ActivityScheduled (schedule_event (clock (length futs)) (consume (root_state c) fn) fn args opts)"
    let ?c1 = "c\<lparr>root_state := consume (root_state c) fn, root_uncommitted := root_uncommitted c @ [?e],
           root_version := root_version c + 1\<rparr>"
    have "run_prog (k (length futs)) fv sd clock ?c1 (futs @ [open_future]) = (c', oc)"
      using fresh PExec.prems by simp
    from PExec.IH [OF this] obtain evs where evs: "root_uncommitted c' = root_uncommitted ?c1 @ evs"
      "root_version c' = root_version ?c1 + of_nat (length evs)"
      "st_id (root_state c') = st_id (root_state ?c1)" "st_fn (root_state c') = st_fn (root_state ?c1)"
      "\<forall>e \<in> set evs. is_scheduled e \<and> event_wf_id e = st_id (root_state ?c1)"
      "\<forall>fn. replay_history (replay_of (root_state c') fn) = replay_history (replay_of (root_state ?c1) fn)"
      by blast
    have e: "is_scheduled ?e" "event_wf_id ?e = st_id (root_state c)"
      by (simp_all add: is_scheduled_def schedule_event_def)
    show ?thesis
      by (rule exI [of _ "?e # evs"]) (use evs e in auto)
  qed
next
  case (PGet h ty k)
  from PGet.prems show ?case
    by (cases "blocking_get fv sd (futs ! h) ty") (auto split: if_splits dest: PGet.IH)
qed auto

section \<open>Replaying a longer history\<close>

definition ctx_extends :: "workflow_context \<Rightarrow> workflow_context \<Rightarrow> bool" where
  "ctx_extends c d \<longleftrightarrow>
     (\<forall>fn. replay_consumed (replay_of (root_state d) fn) = replay_consumed (replay_of (root_state c) fn) \<and>
        (\<exists>zs. replay_history (replay_of (root_state d) fn) = replay_history (replay_of (root_state c) fn) @ zs))"

definition futs_extend :: "blocking list \<Rightarrow> blocking list \<Rightarrow> bool" where
  "futs_extend fs gs \<longleftrightarrow> list_all2 (\<lambda>f g. bl_resolved f \<longrightarrow> g = f) fs gs"

lemma ctx_extends_consume:
  "ctx_extends c d \<Longrightarrow> root_state c' = consume (root_state c) fn \<Longrightarrow>
     root_state d' = consume (root_state d) fn \<Longrightarrow> ctx_extends c' d'"
  by (simp add: ctx_extends_def)

lemma futs_extend_snoc: "futs_extend fs gs \<Longrightarrow> (bl_resolved f \<Longrightarrow> g = f) \<Longrightarrow> futs_extend (fs @ [f]) (gs @ [g])"
  by (auto simp: futs_extend_def intro: list_all2_appendI)

lemma futs_extend_length: "futs_extend fs gs \<Longrightarrow> length gs = length fs"
  by (auto simp: futs_extend_def dest: list_all2_lengthD)

text \<open>One call against a longer history: the same result, or an open future that may be resolved now.\<close>

lemma execute_extends:
  assumes ext: "ctx_extends c d" and run: "execute_activity now cx act args c = (c', Inr f)"
  obtains d' g where "execute_activity now' cx act args d = (d', Inr g)" "ctx_extends c' d'"
    "bl_resolved f \<Longrightarrow> g = f"
proof (cases rule: execute_cases [of act now cx args c])
  case (noname err)
  with run that show ?thesis by simp
next
  case (options fn p)
  with run that show ?thesis by simp
next
  case (replay fn f')
  obtain zs where zs: "replay_history (replay_of (root_state d) fn) = replay_history (replay_of (root_state c) fn) @ zs"
    and con: "replay_consumed (replay_of (root_state d) fn) = replay_consumed (replay_of (root_state c) fn)"
    using ext by (auto simp: ctx_extends_def)
  have "execute_activity now' cx act args d = (d\<lparr>root_state := consume (root_state d) fn\<rparr>, Inr f')"
    using replay(1-3) zs con by (simp add: execute_replayed nth_append)
  moreover have "c' = c\<lparr>root_state := consume (root_state c) fn\<rparr>" "f' = f"
    using replay(4) run by auto
  ultimately show ?thesis
    using that ctx_extends_consume [OF ext, of c' fn "d\<lparr>root_state := consume (root_state d) fn\<rparr>"] by simp
next
  case (fresh fn opts)
  have f: "f = open_future" "root_state c' = consume (root_state c) fn" using fresh run by auto
  show ?thesis
  proof (cases rule: execute_cases [of act now' cx args d])
    case (replay fn' g)
    with that f fresh(1) ctx_extends_consume [OF ext f(2)] show ?thesis by simp
  next
    case (fresh fn' opts')
    with that f \<open>act = Inr fn\<close> ctx_extends_consume [OF ext f(2)] show ?thesis by simp
  qed (use fresh in auto)
qed

lemma run_stable:
  assumes "run_prog p fv sd clock c futs = (c', Returned vs)" "ctx_extends c d" "futs_extend futs gs"
  shows "\<exists>d'. run_prog p fv sd clock' d gs = (d', Returned vs)"
  using assms
proof (induction p arbitrary: c d futs gs rule: prog_induct)
  case (PExec cx act args k)
  from PExec.prems(1) obtain c1 f where f: "execute_activity (clock (length futs)) cx act args c = (c1, Inr f)"
    "run_prog (k (length futs)) fv sd clock c1 (futs @ [f]) = (c', Returned vs)"
    by (auto split: prod.splits sum.splits)
  obtain d1 g where g: "execute_activity (clock' (length futs)) cx act args d = (d1, Inr g)"
    "ctx_extends c1 d1" "bl_resolved f \<Longrightarrow> g = f"
    using execute_extends [OF PExec.prems(2) f(1)] by blast
  have "futs_extend (futs @ [f]) (gs @ [g])"
    using futs_extend_snoc [OF PExec.prems(3) g(3)] by simp
  from PExec.IH [OF f(2) g(2) this] g(1) futs_extend_length [OF PExec.prems(3)] show ?case by simp
next
  case (PGet h ty k)
  from PGet.prems(1) obtain r where r: "h < length futs" "blocking_get fv sd (futs ! h) ty = Inr r"
    "run_prog (k r) fv sd clock c futs = (c', Returned vs)"
    by (auto split: if_splits sum.splits)
  have "bl_resolved (futs ! h)" using r(2) get_unresolved [of "futs ! h" fv sd ty] by auto
  then have same: "gs ! h = futs ! h" using PGet.prems(3) r(1) by (auto simp: futs_extend_def list_all2_conv_all_nth)
  from PGet.IH [OF r(3) PGet.prems(2,3)] r same futs_extend_length [OF PGet.prems(3)] show ?case by auto
qed auto

section \<open>How many activities a run schedules\<close>

lemma get_activity_options_panic: "get_activity_options cx = Inl p \<Longrightarrow> p \<noteq> BlockingFuture"
  by (auto simp: get_activity_options_def split: option.splits ctx_value.splits if_splits)

lemma run_counts:
  assumes "run_prog p fv sd clock c futs = (c', oc)" and "oc = Returned vs \<or> oc = Panicked BlockingFuture"
  shows "\<exists>evs. root_uncommitted c' = root_uncommitted c @ evs \<and>
      length (filter (is_scheduled_for fn) evs) =
        max (replay_consumed (replay_of (root_state c') fn)) (length (replay_history (replay_of (root_state c) fn)))
      - max (replay_consumed (replay_of (root_state c) fn)) (length (replay_history (replay_of (root_state c) fn))) \<and>
      replay_consumed (replay_of (root_state c) fn) \<le> replay_consumed (replay_of (root_state c') fn)"
  using assms
proof (induction p arbitrary: c futs rule: prog_induct)
  case (PExec cx act args k)
  show ?case
  proof (cases rule: execute_cases [of act "clock (length futs)" cx args c])
    case (replay f' f)
    with PExec.prems have "run_prog (k (length futs)) fv sd clock
        (c\<lparr>root_state := consume (root_state c) f'\<rparr>) (futs @ [f]) = (c', oc)" by simp
    from PExec.IH [OF this PExec.prems(2)] replay(2) show ?thesis
      by (auto split: if_splits)
  next
    case (fresh f' opts)
    let ?e = "ActivityScheduled (schedule_event (clock (length futs)) (consume (root_state c) f') f' args opts)"
    let ?c1 = "c\<lparr>root_state := consume (root_state c) f', root_uncommitted := root_uncommitted c @ [?e],
           root_version := root_version c + 1\<rparr>"
    have "run_prog (k (length futs)) fv sd clock ?c1 (futs @ [open_future]) = (c', oc)"
      using fresh PExec.prems by simp
    from PExec.IH [OF this PExec.prems(2)] obtain evs where evs: "root_uncommitted c' = root_uncommitted ?c1 @ evs"
      "length (filter (is_scheduled_for fn) evs) =
        max (replay_consumed (replay_of (root_state c') fn)) (length (replay_history (replay_of (root_state ?c1) fn)))
      - max (replay_consumed (replay_of (root_state ?c1) fn)) (length (replay_history (replay_of (root_state ?c1) fn)))"
      "replay_consumed (replay_of (root_state ?c1) fn) \<le> replay_consumed (replay_of (root_state c') fn)"
      by blast
    have e: "is_scheduled_for fn ?e \<longleftrightarrow> fn = f'"
      by (auto simp: is_scheduled_for_def schedule_event_def)
    show ?thesis
      by (rule exI [of _ "?e # evs"]) (use evs e fresh(2) in \<open>auto split: if_splits\<close>)
  qed (use PExec.prems get_activity_options_panic in auto)
next
  case (PGet h ty k)
  show ?case
  proof (cases "blocking_get fv sd (futs ! h) ty")
    case (Inl p)
    with PGet.prems show ?thesis by (auto split: if_splits)
  next
    case (Inr r)
    show ?thesis
    proof (cases "length futs \<le> h")
      case True
      with PGet.prems show ?thesis by auto
    next
      case False
      with Inr PGet.prems(1) have "run_prog (k r) fv sd clock c futs = (c', oc)" by simp
      from PGet.IH [OF this PGet.prems(2)] show ?thesis .
    qed
  qed
qed auto

text \<open>A workflow that waits for each activity before the next one schedules at most one per run.\<close>

lemma run_sequential:
  assumes "sequential p" and "run_prog p fv sd clock c futs = (c', oc)"
  shows "\<exists>evs. root_uncommitted c' = root_uncommitted c @ evs \<and> length evs \<le> 1 \<and>
    (evs \<noteq> [] \<longrightarrow> oc = Panicked BlockingFuture)"
  using assms
proof (induction arbitrary: c futs rule: sequential.induct)
  case (seq_call k cx act args ty)
  show ?case
  proof (cases rule: execute_cases [of act "clock (length futs)" cx args c])
    case (replay fn f)
    from get_resolved [of f fv sd ty] replay(3) obtain r where r: "blocking_get fv sd f ty = Inr r" by auto
    from seq_call.IH [of r "c\<lparr>root_state := consume (root_state c) fn\<rparr>" "futs @ [f]"] replay r seq_call.prems
    show ?thesis by (auto simp: call_activity_def)
  qed (use seq_call.prems in \<open>auto simp: call_activity_def\<close>)
qed auto

text \<open>A run looks at the replayed state only, not at the version or the pending events.\<close>

lemma run_state_only:
  assumes "run_prog p fv sd clock c futs = (c', oc)" and "root_state d = root_state c"
  shows "\<exists>d' evs. run_prog p fv sd clock d futs = (d', oc) \<and> root_state d' = root_state c' \<and>
    root_uncommitted c' = root_uncommitted c @ evs \<and> root_uncommitted d' = root_uncommitted d @ evs"
  using assms
proof (induction p arbitrary: c d futs rule: prog_induct)
  case (PExec cx act args k)
  show ?case
  proof (cases rule: execute_cases [of act "clock (length futs)" cx args c])
    case (noname err)
    with PExec.prems show ?thesis by (auto simp: execute_activity_def)
  next
    case (replay fn f)
    from replay have d: "execute_activity (clock (length futs)) cx act args d
        = (d\<lparr>root_state := consume (root_state c) fn\<rparr>, Inr f)"
      using PExec.prems(2) by (simp add: execute_replayed)
    have "run_prog (k (length futs)) fv sd clock (c\<lparr>root_state := consume (root_state c) fn\<rparr>) (futs @ [f]) = (c', oc)"
      using replay PExec.prems(1) by simp
    from PExec.IH [OF this, of "d\<lparr>root_state := consume (root_state c) fn\<rparr>"] d show ?thesis by simp
  next
    case (options fn p)
    with PExec.prems show ?thesis by (auto simp: execute_activity_def Let_def)
  next
    case (fresh fn opts)
    let ?e = "ActivityScheduled (schedule_event (clock (length futs)) (consume (root_state c) fn) fn args opts)"
    let ?step = "\<lambda>x :: workflow_context. x\<lparr>root_state := consume (root_state c) fn,
        root_uncommitted := root_uncommitted x @ [?e], root_version := root_version x + 1\<rparr>"
    have d: "execute_activity (clock (length futs)) cx act args d = (?step d, Inr open_future)"
      using fresh(1-3) PExec.prems(2) by (simp add: execute_fresh Let_def)
    have "run_prog (k (length futs)) fv sd clock (?step c) (futs @ [open_future]) = (c', oc)"
      using fresh(4) PExec.prems(1) by simp
    from PExec.IH [OF this, of "?step d"] d show ?thesis by auto
  qed
next
  case (PGet h ty k)
  show ?case
  proof (cases "length futs \<le> h")
    case True
    with PGet.prems show ?thesis by auto
  next
    case False
    show ?thesis
    proof (cases "blocking_get fv sd (futs ! h) ty")
      case (Inl p)
      with False PGet.prems show ?thesis by auto
    next
      case (Inr r)
      with False PGet.prems(1) have "run_prog (k r) fv sd clock c futs = (c', oc)" by simp
      from PGet.IH [OF this PGet.prems(2)] False Inr show ?thesis by simp
    qed
  qed
qed auto

section \<open>Properties\<close>

text \<open>
  (C6) Durability of a result. Once replaying a history makes a workflow
  return, replaying any longer history of the same run makes it return the same values,
  whatever the clock reads then.
\<close>

theorem replay_keeps_result:
  assumes "run_prog p fv sd clock (context_after es) [] = (c', Returned vs)"
  shows "\<exists>c''. run_prog p fv sd clock' (context_after (es @ later)) [] = (c'', Returned vs)"
proof (rule run_stable [OF assms])
  show "ctx_extends (context_after es) (context_after (es @ later))"
    by (simp add: ctx_extends_def activity_outcomes_append)
qed (simp add: futs_extend_def)

text \<open>
  A workflow that gets each result before it calls the next activity has
  at most one new activity per run, and when there is one the run ends waiting for it.
\<close>

theorem sequential_schedules_one:
  assumes "sequential p" and "run_prog p fv sd clock (context_after es) [] = (c', oc)"
  shows "length (root_uncommitted c') \<le> 1 \<and>
    (root_uncommitted c' \<noteq> [] \<longrightarrow> oc = Panicked BlockingFuture)"
  using run_sequential [OF assms] by auto

text \<open> Which result a call gets. The \<open>n\<close>-th call of an activity gets
  the \<open>n\<close>-th outcome recorded for that activity name, whatever arguments it passes: two calls
  of one activity that run in parallel are matched by the order in which they finished.
\<close>

theorem calls_matched_by_completion_order:
  assumes "replay_history (replay_of (root_state c) fn) = activity_outcomes es fn"
    and "replay_consumed (replay_of (root_state c) fn) = n" and "n < length (activity_outcomes es fn)"
  shows "execute_activity now cx (Inr fn) args c =
    (c\<lparr>root_state := consume (root_state c) fn\<rparr>, Inr (future_of (activity_outcomes es fn ! n)))"
  using assms by (simp add: execute_replayed)

text \<open> Events without an outcome do not count in a replay. Running
  a workflow again after its activities were only scheduled, started or retried ends the same
  way and schedules the same activities once more, although they are in flight already.
\<close>

theorem in_flight_activities_scheduled_again:
  assumes run: "run_prog p fv sd clock (context_after es) [] = (c', oc)"
    and pend: "list_all (\<lambda>e. outcome_of e = None \<and> event_wf_id e = st_id (root_state (context_after es)) \<and>
      event_wf_fn e = st_fn (root_state (context_after es))) pending"
  shows "\<exists>d'. run_prog p fv sd clock (context_after (es @ pending)) [] = (d', oc) \<and>
    root_uncommitted d' = root_uncommitted c'"
proof -
  have "root_state (context_after (es @ pending)) = root_state (context_after es)"
    using fold_no_outcome [OF pend] by (simp add: context_after_def)
  from run_state_only [OF run this] show ?thesis by auto
qed

section \<open>Witnesses\<close>

text \<open>A workflow that calls one activity and returns its result, and one that starts two at once.\<close>

definition demo_get :: "get_result \<Rightarrow> prog" where
  "demo_get r =
     (case r of GetOk (Some v) \<Rightarrow> PReturn [v, GNil]
      | GetOk None \<Rightarrow> PReturn [GNil, GNil]
      | GetErr e \<Rightarrow> PReturn [GNil, GErr (gerr_msg e)])"

definition demo_workflow :: prog where
  "demo_workflow = call_activity [] (Inr ''greet'') [GStr ''bob''] None demo_get"

definition demo_parallel :: prog where
  "demo_parallel =
     PExec [] (Inr ''greet'') [GStr ''a''] (\<lambda>h. PExec [] (Inr ''greet'') [GStr ''b'']
       (\<lambda>h'. PGet h None (\<lambda>r. PGet h' None (\<lambda>r'. PReturn [GNil, GNil]))))"

definition demo_started :: wf_event where
  "demo_started = WorkflowStarted \<lparr>ws_id = ''w1'', ws_fn = ''main'', ws_input = []\<rparr>"

definition demo_completed :: "string \<Rightarrow> wf_event" where
  "demo_completed m = ActivityCompleted
     \<lparr>ac_id = ''w1'', ac_wf = ''main'', ac_fn = ''greet'', ac_result = Some [GStr m, GNil]\<rparr>"

definition demo_scheduled :: "string \<Rightarrow> wf_event" where
  "demo_scheduled m = ActivityScheduled \<lparr>as_id = ''w1'', as_wf = ''main'', as_fn = ''greet'',
     as_input = [GStr m], as_schedule_to_close = 0, as_start_to_close = 0, as_retry = None\<rparr>"

lemmas demo_defs = demo_workflow_def demo_parallel_def demo_started_def demo_completed_def
  demo_scheduled_def demo_get_def call_activity_def

lemma demo_run_completed:
  "snd (run_prog demo_workflow (\<lambda>_. []) (None :: nat serde option) (\<lambda>_. 0)
     (context_after [demo_started, demo_scheduled ''bob'', demo_completed ''hi'']) []) = Returned [GNil, GNil]"
  by (simp add: demo_defs context_after_def step_of_def execute_activity_def Let_def replay_of_def
      empty_state_def set_ident_def append_replay_def ensure_activity_replay_def consume_def blocking_get_def)

lemma demo_run_blocked:
  "run_prog demo_workflow (\<lambda>_. []) (None :: nat serde option) (\<lambda>_. 0) (context_after [demo_started]) [] =
     ((context_after [demo_started])\<lparr>root_state := consume (root_state (context_after [demo_started])) ''greet'',
        root_uncommitted := [demo_scheduled ''bob''], root_version := 2\<rparr>, Panicked BlockingFuture)"
  by (simp add: demo_defs context_after_def step_of_def execute_fresh Let_def replay_of_def empty_state_def
      set_ident_def get_activity_options_def ctx_lookup_def schedule_event_def consume_def)

lemma demo_parallel_blocked:
  "run_prog demo_parallel (\<lambda>_. []) (None :: nat serde option) (\<lambda>_. 0) (context_after [demo_started]) [] =
     ((context_after [demo_started])\<lparr>root_state := consume (consume (root_state (context_after [demo_started])) ''greet'') ''greet'',
        root_uncommitted := [demo_scheduled ''a'', demo_scheduled ''b''], root_version := 3\<rparr>,
      Panicked BlockingFuture)"
  by (simp add: demo_defs context_after_def step_of_def execute_fresh Let_def replay_of_def empty_state_def
      set_ident_def get_activity_options_def ctx_lookup_def schedule_event_def consume_def)

theorem replay_keeps_result_witness:
  "\<exists>c''. run_prog demo_workflow (\<lambda>_. []) (None :: nat serde option) (\<lambda>_. 7)
     (context_after ([demo_started, demo_scheduled ''bob'', demo_completed ''hi''] @ [demo_completed ''ho''])) []
     = (c'', Returned [GNil, GNil])"
proof -
  let ?es = "[demo_started, demo_scheduled ''bob'', demo_completed ''hi'']"
  have "run_prog demo_workflow (\<lambda>_. []) (None :: nat serde option) (\<lambda>_. 0) (context_after ?es) [] =
      (fst (run_prog demo_workflow (\<lambda>_. []) (None :: nat serde option) (\<lambda>_. 0) (context_after ?es) []), Returned [GNil, GNil])"
    using demo_run_completed by (intro prod_eqI) simp_all
  from replay_keeps_result [OF this] show ?thesis .
qed

theorem sequential_schedules_one_witness:
  "sequential demo_workflow \<and> length [demo_scheduled ''bob''] \<le> 1"
proof
  have "sequential (demo_get r)" for r
    by (cases r rule: get_result.exhaust) (auto simp: demo_get_def intro: sequential.intros split: option.split)
  then show seq: "sequential demo_workflow"
    unfolding demo_workflow_def by (intro sequential.intros)
  show "length [demo_scheduled ''bob''] \<le> 1"
    using sequential_schedules_one [OF seq demo_run_blocked] by simp
qed

theorem calls_matched_by_completion_order_witness:
  "execute_activity 0 [] (Inr ''greet'') [GStr ''x''] (context_after [demo_completed ''hi'']) =
    ((context_after [demo_completed ''hi''])\<lparr>root_state := consume (root_state (context_after [demo_completed ''hi''])) ''greet''\<rparr>,
     Inr (future_of \<lparr>rr_result = Some [GStr ''hi'', GNil], rr_err = None\<rparr>))"
  using calls_matched_by_completion_order [of "context_after [demo_completed ''hi'']" "''greet''"
      "[demo_completed ''hi'']" 0 0 "[]" "[GStr ''x'']"]
  by (simp add: demo_completed_def)

theorem in_flight_activities_scheduled_again_witness:
  "\<exists>d'. run_prog demo_parallel (\<lambda>_. []) (None :: nat serde option) (\<lambda>_. 0)
      (context_after ([demo_started] @ [demo_scheduled ''a'', demo_scheduled ''b''])) []
      = (d', Panicked BlockingFuture) \<and>
    root_uncommitted d' = [demo_scheduled ''a'', demo_scheduled ''b'']"
  using in_flight_activities_scheduled_again [OF demo_parallel_blocked,
      of "[demo_scheduled ''a'', demo_scheduled ''b'']"]
  by (simp add: demo_scheduled_def demo_started_def context_after_def)

end
