(* ===== verification/DF_Replay.thy ===== *)
theory DF_Replay
  imports DF_Repo DF_MemLog DF_Program
begin

text \<open>
  The repository of workflow contexts that a worker builds
  (\<open>chronicle.NewEventSourcedRepository(log, newEmptyWorkflowContext, nil, EventSerializer(serder))\<close>
  in \<open>sdk/internal/worker_runtime.go\<close>), and the contract of \<open>DF_Repo\<close> discharged for it on
  the in-memory event log. What a serializer promises, \<open>normalising\<close>: encoding and decoding gives
  the value in a normal form, which need not be the value, and which it keeps from then on.
\<close>

definition wf_codec :: "'x serde \<Rightarrow> (wf_event, wf_kind, 'x) codec" where
  "wf_codec sd = \<lparr>ev_name = event_name, ev_ser = ser_event sd, ev_de = de_event sd\<rparr>"

definition new_wf_repo :: "'x serde \<Rightarrow> gerr + (wf_state, wf_event, wf_kind, 'x) es_repo" where
  "new_wf_repo sd = new_es_repo kind_name all_kinds True (wf_codec sd) new_empty_workflow_context []"

definition wf_registry :: "wf_kind registry" where
  "wf_registry = fst (register_events kind_name Map.empty all_kinds)"

definition wf_repo :: "'x serde \<Rightarrow> (wf_state, wf_event, wf_kind, 'x) es_repo" where
  "wf_repo sd = \<lparr>repo_registry = wf_registry, repo_codec = wf_codec sd,
     repo_create = new_empty_workflow_context, repo_transformers = []\<rparr>"

lemma register_all_kinds: "register_events kind_name Map.empty all_kinds = (wf_registry, None)"
proof -
  have "snd (register_events kind_name Map.empty all_kinds) = None"
    using distinct_all_kinds by (simp add: register_events_ok_iff)
  then show ?thesis by (simp add: wf_registry_def prod_eq_iff)
qed

lemma new_wf_repo_ok: "new_wf_repo sd = Inr (wf_repo sd)"
  by (simp add: new_wf_repo_def new_es_repo_def register_all_kinds wf_repo_def)

lemma wf_repo_sel [simp]:
  "repo_registry (wf_repo sd) = wf_registry" "repo_codec (wf_repo sd) = wf_codec sd"
  "repo_create (wf_repo sd) = new_empty_workflow_context" "repo_transformers (wf_repo sd) = []"
  by (simp_all add: wf_repo_def)

lemma wf_registry_lookup [simp]: "get_func wf_registry (kind_name k) = Some k"
  using registered_kind_found [OF register_all_kinds] by simp

lemma survives_iff:
  "survives wf_registry (wf_codec sd) e \<longleftrightarrow>
     (\<exists>bs. ser_event sd e = Inr bs \<and> de_event sd (kind_of e) bs = Inr e)"
  by (auto simp: survives_def wf_codec_def event_name_def split: sum.splits)

interpretation wfmem: event_repository "mem_append_events None" "mem_read_events None" mem_contents mem_total
    "mem_wf (\<lambda>_. 0)" wf_apply st_id "wf_repo sd" for sd :: "'x serde"
  by unfold_locales (simp_all add: new_empty_workflow_context_def)

text \<open>The events a stored stream decodes to, and the context they lead to.\<close>

definition stream_events :: "'x serde \<Rightarrow> 'x memory \<Rightarrow> string \<Rightarrow> gerr + wf_event list" where
  "stream_events sd mem wid = traverse (decode_raw wf_registry (wf_codec sd)) (mem_contents mem wid)"

lemma stream_events_decoded: "wfmem.decoded sd mem wid = stream_events sd mem wid"
  by (simp add: wfmem.decoded_def stream_events_def)

lemma replayed_context: "replayed wf_apply (wf_repo sd) es = context_after es"
  by (simp add: replayed_def context_after_def new_empty_workflow_context_def)

abbreviation wf_get :: "'x serde \<Rightarrow> 'x memory \<Rightarrow> string \<Rightarrow> gerr + workflow_context" where
  "wf_get sd mem wid \<equiv> repo_get (mem_read_events None) wf_apply (wf_repo sd) mem wid"

abbreviation wf_save ::
    "'x serde \<Rightarrow> 'x memory \<Rightarrow> workflow_context \<Rightarrow> 'x memory \<times> workflow_context \<times> (gerr + version \<times> wf_event list)" where
  "wf_save sd mem c \<equiv> repo_save (mem_append_events None) st_id (wf_repo sd) mem c"

section \<open>What serialization does to values\<close>

text \<open>
  A serializer changes the dynamic type of the values in an event, for instance to the one number
  type of its format, and changes them no further when they are encoded again. \<open>nv\<close> is that
  normalization; all other fields come back as they were.
\<close>

fun norm_event :: "(gval \<Rightarrow> gval) \<Rightarrow> wf_event \<Rightarrow> wf_event" where
  "norm_event nv (WorkflowStarted e) = WorkflowStarted (e\<lparr>ws_input := map nv (ws_input e)\<rparr>)"
| "norm_event nv (ActivityScheduled e) = ActivityScheduled (e\<lparr>as_input := map nv (as_input e)\<rparr>)"
| "norm_event nv (ActivityCompleted e) = ActivityCompleted (e\<lparr>ac_result := map_option (map nv) (ac_result e)\<rparr>)"
| "norm_event nv (WorkflowCompleted e) = WorkflowCompleted (e\<lparr>wc_result := map nv (wc_result e)\<rparr>)"
| "norm_event nv e = e"

lemma norm_event_sel [simp]:
  "kind_of (norm_event nv e) = kind_of e" "event_wf_id (norm_event nv e) = event_wf_id e"
  "event_wf_fn (norm_event nv e) = event_wf_fn e"
  by (cases e; simp)+

definition normalising :: "(gval \<Rightarrow> gval) \<Rightarrow> 'x serde \<Rightarrow> bool" where
  "normalising nv sd \<longleftrightarrow>
     (\<forall>v. nv (nv v) = nv v) \<and>
     (\<forall>e bs. ser_event sd e = Inr bs \<longrightarrow> de_event sd (kind_of e) bs = Inr (norm_event nv e)) \<and>
     (\<forall>k ev. de_event sd k [] \<noteq> Inr ev) \<and>
     (\<forall>t bs. ser_wtask sd t = Inr bs \<longrightarrow> de_wtask sd bs = Inr (t\<lparr>wt_input := map nv (wt_input t)\<rparr>)) \<and>
     (\<forall>t bs. ser_atask sd t = Inr bs \<longrightarrow> de_atask sd bs = Inr (t\<lparr>tk_input := map nv (tk_input t)\<rparr>)) \<and>
     (\<forall>vs bs. ser_args sd vs = Inr bs \<longrightarrow> de_args sd bs = Inr (map nv vs))"

lemma normalisingD:
  assumes "normalising nv sd"
  shows "nv (nv v) = nv v"
    "ser_event sd e = Inr bs \<Longrightarrow> de_event sd (kind_of e) bs = Inr (norm_event nv e)"
    "de_event sd k [] \<noteq> Inr ev"
    "ser_wtask sd t = Inr bs \<Longrightarrow> de_wtask sd bs = Inr (t\<lparr>wt_input := map nv (wt_input t)\<rparr>)"
    "ser_atask sd ta = Inr bs \<Longrightarrow> de_atask sd bs = Inr (ta\<lparr>tk_input := map nv (tk_input ta)\<rparr>)"
    "ser_args sd vs = Inr bs \<Longrightarrow> de_args sd bs = Inr (map nv vs)"
  using assms by (simp_all add: normalising_def)

section \<open>Properties\<close>

text \<open>
  \<open>Get\<close> rebuilds a workflow from its stored events alone: the context whose
  replay history holds, for each activity, the recorded outcomes in order. Without any event
  it reports that the workflow does not exist.
\<close>

theorem get_replays_history:
  assumes "mem_wf (\<lambda>_. 0) mem" and "stream_events sd mem wid = Inr es"
  shows "wf_get sd mem wid =
    (if es = [] then Inl (ErrWrap ''repo get version 0'' (ErrWrap ''read and load from store'' ErrRootNotFound))
     else Inr (context_after es))"
  using wfmem.get_decoded [OF assms(1), of sd wid es] assms(2)
  by (simp add: stream_events_decoded replayed_context)

text \<open>
  (C8) Record, save, load. A context read from the log, extended with new
  events and saved, is stored under the workflow's id with exactly those events added, no other
  workflow changes, and the next \<open>Get\<close> returns a context in the same state and version with
  nothing pending. Asked of the serializer: the new events survive it.
\<close>

theorem save_then_get_round_trip:
  assumes wf: "mem_wf (\<lambda>_. 0) mem" and es: "stream_events sd mem wid = Inr es" "es \<noteq> []"
    and new: "new \<noteq> []" "st_id (fold wf_step (es @ new) empty_state) = wid"
    and surv: "list_all (survives wf_registry (wf_codec sd)) new"
    and room: "mem_total mem + length new < 2 ^ 64"
    and ctx: "wf_get sd mem wid = Inr c"
    and save: "wf_save sd mem (fst (record_that wf_apply c new)) = (mem', c', res)"
  shows "res = Inr (of_nat (length es + length new), new) \<and>
    wf_get sd mem' wid = Inr (context_after (es @ new)) \<and>
    stream_events sd mem' wid = Inr (es @ new) \<and>
    (\<forall>j. j \<noteq> wid \<longrightarrow> mem_contents mem' j = mem_contents mem j)"
proof -
  have c: "c = context_after es" using get_replays_history [OF wf es(1)] ctx es(2) by simp
  let ?r = "fst (record_that wf_apply c new)"
  have dec: "wfmem.decoded sd mem wid = Inr es" using es(1) by (simp add: stream_events_decoded)
  have unc: "root_uncommitted ?r = new" by (simp add: c record_that_total)
  have st: "st_id (root_state ?r) = wid" and ver: "root_version ?r = of_nat (length es + length new)"
    using new(2) by (simp_all add: record_that_total c context_after_def)
  have ver': "root_version ?r = of_nat (length es + length (root_uncommitted ?r))" using ver by (simp add: unc)
  have room': "mem_total mem + length (root_uncommitted ?r) < 2 ^ 64"
    and surv': "list_all (survives (repo_registry (wf_repo sd)) (repo_codec (wf_repo sd))) (root_uncommitted ?r)"
    and ne: "root_uncommitted ?r \<noteq> []"
    using room surv new(1) by (simp_all add: unc)
  from wfmem.save_stores [OF wf st ver' room' surv' ne dec] obtain l' where l':
    "wf_save sd mem ?r = (l', ?r\<lparr>root_uncommitted := []\<rparr>, Inr (root_version ?r, new))"
    "mem_wf (\<lambda>_. 0) l'" "\<And>j. j \<noteq> wid \<Longrightarrow> mem_contents l' j = mem_contents mem j"
    "wfmem.decoded sd l' wid = Inr (es @ new)"
    by (auto simp: unc)
  with save ver have res: "mem' = l'" "res = Inr (of_nat (length es + length new), new)" by auto
  have s': "stream_events sd mem' wid = Inr (es @ new)" using l'(4) res(1) by (simp add: stream_events_decoded)
  from l'(2) res(1) have "mem_wf (\<lambda>_. 0) mem'" by simp
  from get_replays_history [OF this s'] new(1) have "wf_get sd mem' wid = Inr (context_after (es @ new))" by simp
  with res s' l'(3) show ?thesis by simp
qed

text \<open>
  A failed save empties the pending events of the context before it
  appends, so saving the same context again stores nothing and reports success: an error of
  \<open>Save\<close> must be handled by loading the workflow again.
\<close>

theorem failed_save_loses_events:
  assumes "wf_save sd mem c = (mem', c', Inl e)"
  shows "mem' = mem \<and> wf_save sd mem' c' = (mem', c', Inr (0, []))"
proof -
  have "mem' = mem"
    using assms
    by (auto simp: repo_save_def commit_events_def flush_uncommitted_events_def Let_def mem_append_cases
        split: if_splits sum.splits prod.splits)
  with resave_is_silent [OF assms] show ?thesis by simp
qed

section \<open>Witnesses\<close>

text \<open>A serializer whose bytes are the values themselves, for concrete instances.\<close>

datatype datum =
    DEvent wf_event | DWTask workflow_task | DATask activity_task
  | DCommand string "datum list" | DAttrs start_attributes | DReply start_reply
  | DArgs "gval list" | DVal gval

definition demo_serde :: "datum serde" where
  "demo_serde = \<lparr>
     ser_event = (\<lambda>e. Inr [DEvent e]),
     de_event = (\<lambda>k bs. case bs of [DEvent e] \<Rightarrow> if kind_of e = k then Inr e else Inl (ErrMsg ''bad'') | _ \<Rightarrow> Inl (ErrMsg ''bad'')),
     ser_wtask = (\<lambda>t. Inr [DWTask t]),
     de_wtask = (\<lambda>bs. case bs of [DWTask t] \<Rightarrow> Inr t | _ \<Rightarrow> Inl (ErrMsg ''bad'')),
     ser_atask = (\<lambda>t. Inr [DATask t]),
     de_atask = (\<lambda>bs. case bs of [DATask t] \<Rightarrow> Inr t | _ \<Rightarrow> Inl (ErrMsg ''bad'')),
     ser_command = (\<lambda>c. Inr [DCommand (cmd_type c) (cmd_attributes c)]),
     de_command = (\<lambda>bs. case bs of [DCommand t a] \<Rightarrow> Inr \<lparr>cmd_type = t, cmd_attributes = a\<rparr> | _ \<Rightarrow> Inl (ErrMsg ''bad'')),
     ser_attrs = (\<lambda>a. Inr [DAttrs a]),
     de_attrs = (\<lambda>bs. case bs of [DAttrs a] \<Rightarrow> Inr a | _ \<Rightarrow> Inl (ErrMsg ''bad'')),
     ser_reply = (\<lambda>r. Inr [DReply r]),
     de_reply = (\<lambda>bs. case bs of [DReply r] \<Rightarrow> Inr r | _ \<Rightarrow> Inl (ErrMsg ''bad'')),
     ser_args = (\<lambda>vs. Inr [DArgs vs]),
     de_args = (\<lambda>bs. case bs of [DArgs vs] \<Rightarrow> Inr vs | _ \<Rightarrow> Inl (ErrMsg ''bad'')),
     ser_val = (\<lambda>v. Inr [DVal v]),
     de_val = (\<lambda>ty bs. case bs of [DVal v] \<Rightarrow> Inr v | _ \<Rightarrow> Inl (ErrMsg ''bad'')),
     de_keys = (\<lambda>bs. Inl (ErrMsg ''bad''))\<rparr>"

definition demo_raw :: "wf_event \<Rightarrow> datum raw" where
  "demo_raw e = \<lparr>raw_name = event_name e, raw_data = [DEvent e]\<rparr>"

definition demo_store :: "wf_event list \<Rightarrow> datum memory" where
  "demo_store es = fst (mem_append_events None new_memory ''w1'' (CheckExact 0) (map demo_raw es))"

lemma demo_serde_normal: "normalising (\<lambda>v. v) demo_serde"
proof -
  have "norm_event (\<lambda>v. v) e = e" for e
    by (cases e) (simp_all add: option.map_ident)
  then show ?thesis by (simp add: normalising_def demo_serde_def)
qed

text \<open>A serializer that turns every integer among the values into a double, as a decoder of JSON does.\<close>

fun number_value :: "gval \<Rightarrow> gval" where
  "number_value (GInt k n) = GF64 (f64_of_int n)"
| "number_value v = v"

definition number_serde :: "datum serde" where
  "number_serde = demo_serde\<lparr>
     de_event := (\<lambda>k bs. map_sum id (norm_event number_value) (de_event demo_serde k bs)),
     de_wtask := (\<lambda>bs. map_sum id (\<lambda>t. t\<lparr>wt_input := map number_value (wt_input t)\<rparr>) (de_wtask demo_serde bs)),
     de_atask := (\<lambda>bs. map_sum id (\<lambda>t. t\<lparr>tk_input := map number_value (tk_input t)\<rparr>) (de_atask demo_serde bs)),
     de_args := (\<lambda>bs. map_sum id (map number_value) (de_args demo_serde bs))\<rparr>"

lemma number_serde_normal: "normalising number_value number_serde"
proof -
  have "number_value (number_value v) = number_value v" for v by (cases v) simp_all
  then show ?thesis by (simp add: normalising_def number_serde_def demo_serde_def)
qed

lemma demo_decode [simp]: "decode_raw wf_registry (wf_codec demo_serde) (demo_raw e) = Inr e"
  by (simp add: decode_raw_def demo_raw_def wf_codec_def demo_serde_def event_name_def)

lemma demo_survives [simp]: "survives wf_registry (wf_codec demo_serde) e"
  by (simp add: survives_iff demo_serde_def)

lemma demo_store_facts:
  assumes "es \<noteq> []" and "length es < 2 ^ 64"
  shows "mem_wf (\<lambda>_. 0) (demo_store es)" "stream_events demo_serde (demo_store es) ''w1'' = Inr es"
    "mem_total (demo_store es) = length es"
proof -
  have room: "mem_total (new_memory :: datum memory) + length (map demo_raw es) < 2 ^ 64"
    using assms by (simp add: mem_total_def)
  have z: "mem_contents (new_memory :: datum memory) ''w1'' = []" by (simp add: mem_contents_def)
  have ap: "mem_append_events None (new_memory :: datum memory) ''w1'' (CheckExact 0) (map demo_raw es)
      = (demo_store es, Inr (of_nat (length es)))"
    using memlog.append_result [OF new_memory_wf, of "map demo_raw es" "''w1''"] assms room z
    by (simp add: demo_store_def prod_eq_iff)
  note ext = memlog.append_extends [OF new_memory_wf room ap]
  show "mem_wf (\<lambda>_. 0) (demo_store es)" by (rule ext(3))
  show "mem_total (demo_store es) = length es" using ext(6) by (simp add: mem_total_def)
  have "traverse (decode_raw wf_registry (wf_codec demo_serde)) (map demo_raw es) = Inr es"
    by (induction es) simp_all
  then show "stream_events demo_serde (demo_store es) ''w1'' = Inr es"
    using ext(1) z by (simp add: stream_events_def)
qed

theorem get_replays_history_witness:
  "wf_get demo_serde (demo_store [demo_started, demo_completed ''hi'']) ''w1''
    = Inr (context_after [demo_started, demo_completed ''hi''])"
  using get_replays_history [OF demo_store_facts(1,2), of "[demo_started, demo_completed ''hi'']"] by simp

lemma demo_get_store: "wf_get demo_serde (demo_store [demo_started]) ''w1'' = Inr (context_after [demo_started])"
  using wfmem.get_decoded [OF demo_store_facts(1), of "[demo_started]" demo_serde "''w1''" "[demo_started]"]
    demo_store_facts(2) [of "[demo_started]"]
  by (simp add: stream_events_decoded replayed_context)

theorem save_then_get_round_trip_witness:
  "\<exists>mem' c'. wf_save demo_serde (demo_store [demo_started])
      (fst (record_that wf_apply (context_after [demo_started]) [demo_scheduled ''bob'']))
      = (mem', c', Inr (2, [demo_scheduled ''bob''])) \<and>
    wf_get demo_serde mem' ''w1'' = Inr (context_after [demo_started, demo_scheduled ''bob''])"
proof -
  obtain mem' c' res where save: "wf_save demo_serde (demo_store [demo_started])
      (fst (record_that wf_apply (context_after [demo_started]) [demo_scheduled ''bob''])) = (mem', c', res)"
    using prod_cases3 by blast
  have id1: "st_id (fold wf_step ([demo_started] @ [demo_scheduled ''bob'']) empty_state) = ''w1''"
    by (simp add: demo_scheduled_def)
  have room: "mem_total (demo_store [demo_started]) + length [demo_scheduled ''bob''] < 2 ^ 64"
    using demo_store_facts(3) [of "[demo_started]"] by simp
  have surv: "list_all (survives wf_registry (wf_codec demo_serde)) [demo_scheduled ''bob'']" by simp
  from save_then_get_round_trip [OF demo_store_facts(1,2) _ _ id1 surv room demo_get_store save] save
  show ?thesis by simp
qed

text \<open>A context behind the log: its save is refused, and saving it again reports success.\<close>

definition demo_stale :: workflow_context where
  "demo_stale = (context_after [demo_started, demo_started])\<lparr>root_uncommitted := [demo_started]\<rparr>"

theorem failed_save_loses_events_witness:
  "\<exists>mem' c' e. wf_save demo_serde new_memory demo_stale = (mem', c', Inl e) \<and>
    wf_save demo_serde mem' c' = (mem', c', Inr (0, []))"
proof -
  have "\<exists>e. wf_save demo_serde new_memory demo_stale = (new_memory, demo_stale\<lparr>root_uncommitted := []\<rparr>, Inl e)"
    by (simp add: repo_save_def commit_events_def flush_uncommitted_events_def Let_def demo_stale_def
        raw_events_from_uncommitted_def wf_codec_def demo_serde_def mem_append_cases context_after_def)
  then obtain e where e: "wf_save demo_serde new_memory demo_stale
      = (new_memory, demo_stale\<lparr>root_uncommitted := []\<rparr>, Inl e)" ..
  from failed_save_loses_events [OF e] e show ?thesis by blast
qed

end
