(* ===== verification/DF_Reference.thy ===== *)
theory DF_Reference
  imports DF_Program
begin

text \<open>
  A reference semantics of workflow functions, and that running them against a workflow context
  implements it. The reference knows no replay state: \<open>follow\<close> walks through the calls a
  function makes and gives the \<open>n\<close>-th call of an activity the \<open>n\<close>-th outcome that the
  history has for it, counting the calls in the list of calls itself. The run of the code keeps a
  counter per activity instead, schedules as it goes and answers from the futures it made; it must
  make the same calls, end the same way, and schedule the calls without an outcome, each once and
  with its own arguments and options.
\<close>

section \<open>Calls and their outcomes\<close>

record call =
  call_fn :: string
  call_args :: "gval list"
  call_options :: "activity_options option"

type_synonym outcomes = "string \<Rightarrow> replay_record list"

definition made :: "call list \<Rightarrow> string \<Rightarrow> nat" where
  "made calls fn = length (filter (\<lambda>c. call_fn c = fn) calls)"

definition nth_opt :: "'a list \<Rightarrow> nat \<Rightarrow> 'a option" where
  "nth_opt xs n = (if n < length xs then Some (xs ! n) else None)"

text \<open>The outcome of the \<open>h\<close>-th call, and of the call of \<open>fn\<close> that comes next.\<close>

definition next_outcome :: "outcomes \<Rightarrow> call list \<Rightarrow> string \<Rightarrow> replay_record option" where
  "next_outcome hist calls fn = nth_opt (hist fn) (made calls fn)"

definition outcome_at :: "outcomes \<Rightarrow> call list \<Rightarrow> nat \<Rightarrow> replay_record option" where
  "outcome_at hist calls h = next_outcome hist (take h calls) (call_fn (calls ! h))"

definition options_of :: "value_ctx \<Rightarrow> activity_options option" where
  "options_of cx = (case get_activity_options cx of Inr opts \<Rightarrow> opts | Inl p \<Rightarrow> None)"

text \<open>The calls of a run, in their order, and how it ends.\<close>

primrec follow ::
    "prog \<Rightarrow> (gval \<Rightarrow> string) \<Rightarrow> 'x serde option \<Rightarrow> outcomes \<Rightarrow> call list \<Rightarrow> call list \<times> outcome" where
  "follow (PReturn vs) fv sd hist calls = (calls, Returned vs)"
| "follow (PPanic m) fv sd hist calls = (calls, Panicked (OtherPanic m))"
| "follow (PExec cx act args k) fv sd hist calls =
     (case act of
        Inl err \<Rightarrow> (calls, Panicked (OtherPanic (gerr_msg err)))
      | Inr fn \<Rightarrow>
         (case (next_outcome hist calls fn, get_activity_options cx) of
            (None, Inl p) \<Rightarrow> (calls, Panicked p)
          | _ \<Rightarrow> follow (k (length calls)) fv sd hist
              (calls @ [\<lparr>call_fn = fn, call_args = args, call_options = options_of cx\<rparr>])))"
| "follow (PGet h ty k) fv sd hist calls =
     (if length calls \<le> h then
        (calls, Panicked (OtherPanic ''runtime error: invalid memory address or nil pointer dereference''))
      else
        (case outcome_at hist calls h of
           None \<Rightarrow> (calls, Panicked BlockingFuture)
         | Some rr \<Rightarrow>
            (case blocking_get fv sd (future_of rr) ty of
               Inl p \<Rightarrow> (calls, Panicked p)
             | Inr r \<Rightarrow> follow (k r) fv sd hist calls)))"

text \<open>The calls of a run without an outcome, and the event that schedules a call.\<close>

definition missing_calls :: "outcomes \<Rightarrow> call list \<Rightarrow> nat list" where
  "missing_calls hist calls = filter (\<lambda>i. outcome_at hist calls i = None) [0..<length calls]"

definition call_event :: "(nat \<Rightarrow> i64) \<Rightarrow> wf_state \<Rightarrow> call list \<Rightarrow> nat \<Rightarrow> wf_event" where
  "call_event clock s calls i =
     ActivityScheduled (schedule_event (clock i) s (call_fn (calls ! i)) (call_args (calls ! i))
       (call_options (calls ! i)))"

definition call_future :: "outcomes \<Rightarrow> call list \<Rightarrow> nat \<Rightarrow> blocking" where
  "call_future hist calls i = (case outcome_at hist calls i of Some rr \<Rightarrow> future_of rr | None \<Rightarrow> open_future)"

definition call_futures :: "outcomes \<Rightarrow> call list \<Rightarrow> blocking list" where
  "call_futures hist calls = map (call_future hist calls) [0..<length calls]"

section \<open>One call more\<close>

lemma made_snoc [simp]: "made (calls @ [c]) fn = (if call_fn c = fn then Suc (made calls fn) else made calls fn)"
  by (simp add: made_def)

lemma made_nil [simp]: "made [] fn = 0"
  by (simp add: made_def)

lemma outcome_at_append: "i < length calls \<Longrightarrow> outcome_at hist (calls @ cs) i = outcome_at hist calls i"
  by (simp add: outcome_at_def nth_append)

lemma outcome_at_last: "outcome_at hist (calls @ [c]) (length calls) = next_outcome hist calls (call_fn c)"
  by (simp add: outcome_at_def)

lemma missing_calls_nil [simp]: "missing_calls hist [] = []"
  by (simp add: missing_calls_def)

lemma missing_calls_snoc:
  "missing_calls hist (calls @ [c]) =
     missing_calls hist calls @ (if next_outcome hist calls (call_fn c) = None then [length calls] else [])"
proof -
  have "filter (\<lambda>i. outcome_at hist (calls @ [c]) i = None) [0..<length calls] = missing_calls hist calls"
    unfolding missing_calls_def by (rule filter_cong) (simp_all add: outcome_at_append)
  then show ?thesis by (simp add: missing_calls_def outcome_at_last)
qed

lemma missing_calls_less: "i \<in> set (missing_calls hist calls) \<Longrightarrow> i < length calls"
  by (simp add: missing_calls_def)

lemma call_event_append: "i < length calls \<Longrightarrow> call_event clock s (calls @ cs) i = call_event clock s calls i"
  by (simp add: call_event_def nth_append)

lemma call_events_snoc:
  "map (call_event clock s (calls @ [c])) (missing_calls hist (calls @ [c])) =
     map (call_event clock s calls) (missing_calls hist calls) @
     (if next_outcome hist calls (call_fn c) = None
      then [ActivityScheduled (schedule_event (clock (length calls)) s (call_fn c) (call_args c) (call_options c))] else [])"
proof -
  have "map (call_event clock s (calls @ [c])) (missing_calls hist calls) = map (call_event clock s calls) (missing_calls hist calls)"
    by (rule map_cong) (auto simp: call_event_append dest: missing_calls_less)
  then show ?thesis by (simp add: missing_calls_snoc call_event_def)
qed

lemma call_futures_simps [simp]:
  "call_futures hist [] = []" "length (call_futures hist calls) = length calls"
  "i < length calls \<Longrightarrow> call_futures hist calls ! i = call_future hist calls i"
  by (simp_all add: call_futures_def)

lemma call_futures_snoc [simp]:
  "call_futures hist (calls @ [c]) = call_futures hist calls @
     [case next_outcome hist calls (call_fn c) of Some rr \<Rightarrow> future_of rr | None \<Rightarrow> open_future]"
  by (simp add: call_futures_def call_future_def outcome_at_append outcome_at_last)

section \<open>A run implements the reference\<close>

text \<open>Where a run stands after the calls \<open>calls\<close>, started on the context \<open>c0\<close>.\<close>

definition follows :: "(nat \<Rightarrow> i64) \<Rightarrow> outcomes \<Rightarrow> workflow_context \<Rightarrow> call list \<Rightarrow> workflow_context \<Rightarrow> bool" where
  "follows clock hist c0 calls c \<longleftrightarrow>
     (\<forall>fn. replay_history (replay_of (root_state c) fn) = hist fn) \<and>
     (\<forall>fn. replay_consumed (replay_of (root_state c) fn) = made calls fn) \<and>
     st_id (root_state c) = st_id (root_state c0) \<and> st_fn (root_state c) = st_fn (root_state c0) \<and>
     root_uncommitted c = root_uncommitted c0 @ map (call_event clock (root_state c0) calls) (missing_calls hist calls) \<and>
     root_version c = root_version c0 + of_nat (length (missing_calls hist calls))"

lemma follows_replayed:
  assumes "follows clock hist c0 calls c" and "next_outcome hist calls fn = Some rr" and "call_fn k = fn"
  shows "execute_activity now cx (Inr fn) args c = (c\<lparr>root_state := consume (root_state c) fn\<rparr>, Inr (future_of rr))"
    and "follows clock hist c0 (calls @ [k]) (c\<lparr>root_state := consume (root_state c) fn\<rparr>)"
proof -
  have n: "made calls fn < length (hist fn)" "hist fn ! made calls fn = rr"
    using assms(2) by (auto simp: next_outcome_def nth_opt_def split: if_splits)
  with assms(1) show "execute_activity now cx (Inr fn) args c =
      (c\<lparr>root_state := consume (root_state c) fn\<rparr>, Inr (future_of rr))"
    by (subst execute_replayed) (simp_all add: follows_def)
  show "follows clock hist c0 (calls @ [k]) (c\<lparr>root_state := consume (root_state c) fn\<rparr>)"
    using assms unfolding follows_def call_events_snoc unfolding missing_calls_snoc by auto
qed

lemma follows_fresh:
  assumes "follows clock hist c0 calls c" and "next_outcome hist calls fn = None"
    and "get_activity_options cx = Inr opts" and "k = \<lparr>call_fn = fn, call_args = args, call_options = opts\<rparr>"
  obtains d where "execute_activity (clock (length calls)) cx (Inr fn) args c = (d, Inr open_future)"
    "follows clock hist c0 (calls @ [k]) d"
proof -
  let ?s = "consume (root_state c) fn"
  let ?e = "ActivityScheduled (schedule_event (clock (length calls)) ?s fn args opts)"
  let ?d = "c\<lparr>root_state := ?s, root_uncommitted := root_uncommitted c @ [?e], root_version := root_version c + 1\<rparr>"
  have n: "length (hist fn) \<le> made calls fn"
    using assms(2) by (auto simp: next_outcome_def nth_opt_def split: if_splits)
  have ex: "execute_activity (clock (length calls)) cx (Inr fn) args c = (?d, Inr open_future)"
    using assms(1,3) n by (simp add: execute_fresh follows_def Let_def)
  have "?e = ActivityScheduled (schedule_event (clock (length calls)) (root_state c0) fn args opts)"
    using assms(1) by (simp add: follows_def schedule_event_def)
  then have "follows clock hist c0 (calls @ [k]) ?d"
    using assms unfolding follows_def call_events_snoc unfolding missing_calls_snoc by auto
  from that [OF ex this] show thesis .
qed

lemma run_follows:
  assumes "follows clock hist c0 calls c"
  shows "\<exists>c'. run_prog p fv sd clock c (call_futures hist calls) =
      (c', snd (follow p fv sd hist calls)) \<and>
    root_uncommitted c' = root_uncommitted c0 @
      map (call_event clock (root_state c0) (fst (follow p fv sd hist calls))) (missing_calls hist (fst (follow p fv sd hist calls))) \<and>
    root_version c' = root_version c0 + of_nat (length (missing_calls hist (fst (follow p fv sd hist calls))))"
  using assms
proof (induction p arbitrary: calls c rule: prog_induct)
  case (PExec cx act args k)
  show ?case
  proof (cases act)
    case (Inl err)
    with PExec.prems show ?thesis by (simp add: execute_activity_def follows_def)
  next
    case act: (Inr fn)
    let ?k = "\<lparr>call_fn = fn, call_args = args, call_options = options_of cx\<rparr>"
    note [simp] = act
    show ?thesis
    proof (cases "next_outcome hist calls fn")
      case (Some rr)
      have "call_fn ?k = fn" by simp
      note ex = follows_replayed [OF PExec.prems Some this]
      from PExec.IH [OF ex(2), of "length calls"] ex(1) Some
      show ?thesis by simp
    next
      case None
      show ?thesis
      proof (cases "get_activity_options cx")
        case (Inl pn)
        have "length (hist fn) \<le> made calls fn"
          using None by (auto simp: next_outcome_def nth_opt_def split: if_splits)
        with PExec.prems None Inl show ?thesis by (simp add: execute_activity_def follows_def Let_def)
      next
        case (Inr opts)
        then have "options_of cx = opts" by (simp add: options_of_def)
        then obtain d where d: "execute_activity (clock (length calls)) cx (Inr fn) args c = (d, Inr open_future)"
          "follows clock hist c0 (calls @ [?k]) d"
          using follows_fresh [OF PExec.prems None Inr, of ?k args] by auto
        from PExec.IH [OF d(2), of "length calls"] d(1) None Inr show ?thesis by simp
      qed
    qed
  qed
next
  case (PGet h ty k)
  show ?case
  proof (cases "h < length calls")
    case False
    with PGet.prems show ?thesis by (simp add: follows_def)
  next
    case h: True
    show ?thesis
    proof (cases "outcome_at hist calls h")
      case None
      with h PGet.prems show ?thesis by (simp add: call_future_def follows_def)
    next
      case (Some rr)
      obtain r where r: "blocking_get fv sd (future_of rr) ty = Inr r"
        using get_resolved [OF future_of_resolved] by blast
      from PGet.IH [OF PGet.prems, of r] h Some r show ?thesis by (simp add: call_future_def)
    qed
  qed
qed (simp_all add: follows_def)

lemma follows_start: "follows clock (activity_outcomes es) (context_after es) [] (context_after es)"
  by (simp add: follows_def)

lemma run_implements_follow:
  "\<exists>c'. run_prog p fv sd clock (context_after es) [] = (c', snd (follow p fv sd (activity_outcomes es) [])) \<and>
    root_uncommitted c' = map (call_event clock (root_state (context_after es)) (fst (follow p fv sd (activity_outcomes es) [])))
      (missing_calls (activity_outcomes es) (fst (follow p fv sd (activity_outcomes es) []))) \<and>
    root_version c' = of_nat (length es + length (root_uncommitted c'))"
proof -
  have "root_version (context_after es) = of_nat (length es)" by (simp add: context_after_def)
  with run_follows [OF follows_start [of clock es], where p = p and fv = fv and sd = sd]
  show ?thesis by fastforce
qed

section \<open>Longer histories\<close>

lemma follow_prefix: "\<exists>cs. fst (follow p fv sd hist calls) = calls @ cs"
proof (induction p arbitrary: calls rule: prog_induct)
  case (PExec cx act args k)
  show ?case
  proof (cases act)
    case (Inr fn)
    let ?k = "\<lparr>call_fn = fn, call_args = args, call_options = options_of cx\<rparr>"
    obtain cs where "fst (follow (k (length calls)) fv sd hist (calls @ [?k])) = (calls @ [?k]) @ cs"
      using PExec.IH by blast
    with Inr show ?thesis by (auto split: option.split sum.split)
  qed simp
next
  case (PGet h ty k)
  show ?case
    by (auto split: option.split sum.split simp: PGet.IH)
qed simp_all

lemma next_outcome_longer:
  "\<forall>fn. \<exists>zs. hist' fn = hist fn @ zs \<Longrightarrow> next_outcome hist calls fn = Some rr \<Longrightarrow> next_outcome hist' calls fn = Some rr"
  by (auto simp: next_outcome_def nth_opt_def nth_append split: if_splits)
    (metis nth_append length_append trans_less_add1)+

text \<open>A longer history only adds calls at the end.\<close>

lemma follow_longer:
  assumes "\<forall>fn. \<exists>zs. hist' fn = hist fn @ zs"
  shows "\<exists>cs. fst (follow p fv sd hist' calls) = fst (follow p fv sd hist calls) @ cs"
proof (induction p arbitrary: calls rule: prog_induct)
  case (PExec cx act args k)
  show ?case
  proof (cases act)
    case (Inr fn)
    let ?k = "\<lparr>call_fn = fn, call_args = args, call_options = options_of cx\<rparr>"
    note IH = PExec.IH [of "length calls" "calls @ [?k]"]
    obtain cs where cs: "fst (follow (k (length calls)) fv sd hist' (calls @ [?k])) = (calls @ [?k]) @ cs"
      using follow_prefix by blast
    show ?thesis
    proof (cases "next_outcome hist calls fn")
      case (Some rr)
      with next_outcome_longer [OF assms Some] Inr IH show ?thesis by simp
    next
      case None
      with Inr IH cs show ?thesis
        by (cases "get_activity_options cx"; cases "next_outcome hist' calls fn") auto
    qed
  qed simp
next
  case (PGet h ty k)
  show ?case
  proof (cases "length calls \<le> h \<or> outcome_at hist calls h = None")
    case True
    with follow_prefix [of "PGet h ty k" fv sd hist' calls] show ?thesis by (auto split: if_splits)
  next
    case False
    then obtain rr where "outcome_at hist calls h = Some rr" by blast
    moreover from this have "outcome_at hist' calls h = Some rr"
      unfolding outcome_at_def by (rule next_outcome_longer [OF assms])
    ultimately show ?thesis using False PGet.IH by (auto split: sum.split)
  qed
qed simp_all

text \<open>A run waits only for a call that has no outcome.\<close>

lemma follow_waits:
  assumes "snd (follow p fv sd hist calls) = Panicked BlockingFuture"
  shows "missing_calls hist (fst (follow p fv sd hist calls)) \<noteq> []"
  using assms
proof (induction p arbitrary: calls rule: prog_induct)
  case (PExec cx act args k)
  then show ?case
    using get_activity_options_panic [of cx BlockingFuture]
    by (auto split: option.splits sum.splits)
next
  case (PGet h ty k)
  show ?case
  proof (cases "length calls \<le> h")
    case True
    with PGet.prems show ?thesis by simp
  next
    case h: False
    show ?thesis
    proof (cases "outcome_at hist calls h")
      case None
      then have "h \<in> set (missing_calls hist calls)" using h by (simp add: missing_calls_def)
      then show ?thesis using h None by auto
    next
      case (Some rr)
      obtain r where "blocking_get fv sd (future_of rr) ty = Inr r"
        using get_resolved [OF future_of_resolved] by blast
      with PGet.prems h Some PGet.IH show ?thesis by simp
    qed
  qed
qed simp_all

text \<open>How many calls of an activity have no outcome: as many as there are calls beyond the outcomes.\<close>

lemma missing_count:
  "length (filter (\<lambda>i. call_fn (calls ! i) = fn) (missing_calls hist calls)) = made calls fn - length (hist fn)"
proof (induction calls rule: rev_induct)
  case (snoc c calls)
  have "filter (\<lambda>i. call_fn ((calls @ [c]) ! i) = fn) (missing_calls hist calls) =
      filter (\<lambda>i. call_fn (calls ! i) = fn) (missing_calls hist calls)"
    by (rule filter_cong) (auto simp: nth_append dest: missing_calls_less)
  with snoc show ?case
    by (auto simp: missing_calls_snoc next_outcome_def nth_opt_def Suc_diff_le)
qed simp

lemma outcome_at_enough:
  assumes "h < length calls" and "made calls (call_fn (calls ! h)) \<le> length (hist (call_fn (calls ! h)))"
  shows "outcome_at hist calls h \<noteq> None"
proof -
  have "calls = take h calls @ calls ! h # drop (Suc h) calls" using assms(1) by (rule id_take_nth_drop)
  then have "made calls (call_fn (calls ! h)) = made (take h calls @ calls ! h # drop (Suc h) calls) (call_fn (calls ! h))"
    by simp
  then have "made (take h calls) (call_fn (calls ! h)) < made calls (call_fn (calls ! h))"
    by (simp add: made_def)
  with assms(2) show ?thesis by (simp add: outcome_at_def next_outcome_def nth_opt_def)
qed

lemma missing_append:
  assumes "missing_calls hist calls = []"
  shows "list_all (\<lambda>i. length calls \<le> i) (missing_calls hist (calls @ cs))"
proof -
  have "\<not> i < length calls" if "i \<in> set (missing_calls hist (calls @ cs))" for i
  proof
    assume "i < length calls"
    with that have "i \<in> set (missing_calls hist calls)" by (simp add: missing_calls_def outcome_at_append)
    with assms show False by simp
  qed
  then show ?thesis by (auto simp: list_all_iff not_less)
qed

section \<open>Properties\<close>

text \<open>
  (C9) The run of a workflow function on its history implements the
  reference: it ends as the reference says, and the events it adds are the schedulings of exactly
  the calls that the history has no outcome for, in the order of the calls, each with the
  arguments and the options of its call. In particular a call that has an outcome is not scheduled
  again, and one beyond the recorded outcomes of its activity always is.
\<close>

theorem run_schedules_missing_calls:
  "\<exists>c'. run_prog p fv sd clock (context_after es) [] = (c', snd (follow p fv sd (activity_outcomes es) [])) \<and>
    root_uncommitted c' = map (call_event clock (root_state (context_after es)) (fst (follow p fv sd (activity_outcomes es) [])))
      (missing_calls (activity_outcomes es) (fst (follow p fv sd (activity_outcomes es) []))) \<and>
    root_version c' = of_nat (length es + length (root_uncommitted c'))"
  by (rule run_implements_follow)

text \<open>
  Two calls of one activity, of which the history has one outcome: the second call is scheduled,
  with its own argument.
\<close>

lemma demo_parallel_follow:
  "follow demo_parallel fv sd (activity_outcomes [demo_started, demo_completed ''hi'']) [] =
     ([\<lparr>call_fn = ''greet'', call_args = [GStr ''a''], call_options = None\<rparr>,
       \<lparr>call_fn = ''greet'', call_args = [GStr ''b''], call_options = None\<rparr>], Panicked BlockingFuture)"
  by (simp add: demo_parallel_def demo_started_def demo_completed_def next_outcome_def nth_opt_def outcome_at_def
      made_def get_activity_options_def ctx_lookup_def options_of_def future_of_def blocking_get_def)

theorem run_schedules_missing_calls_witness:
  "\<exists>c'. run_prog demo_parallel (\<lambda>_. []) (None :: nat serde option) (\<lambda>_. 0)
      (context_after [demo_started, demo_completed ''hi'']) [] = (c', Panicked BlockingFuture) \<and>
    root_uncommitted c' = [demo_scheduled ''b''] \<and> root_version c' = 3"
proof -
  let ?es = "[demo_started, demo_completed ''hi'']"
  have "missing_calls (activity_outcomes ?es) (fst (follow demo_parallel (\<lambda>_. []) (None :: nat serde option) (activity_outcomes ?es) [])) = [1]"
    unfolding demo_parallel_follow by (simp add: missing_calls_def outcome_at_def next_outcome_def nth_opt_def made_def
        demo_started_def demo_completed_def upt_rec)
  moreover have "st_id (root_state (context_after ?es)) = ''w1''" "st_fn (root_state (context_after ?es)) = ''main''"
    by (simp_all add: context_after_def demo_completed_def)
  ultimately show ?thesis
    using run_schedules_missing_calls [of demo_parallel "\<lambda>_. []" "None :: nat serde option" "\<lambda>_. 0" ?es]
    by (auto simp: demo_parallel_follow call_event_def schedule_event_def demo_scheduled_def)
qed

end
