(* ===== verification/DF_Serde.thy ===== *)
theory DF_Serde
  imports DF_Api
begin

text \<open>
  The type converter \<open>api/serde/type_converter.go\<close>: what happens to the dynamic values of a
  message before they become the arguments of a user function. The parts of \<open>reflect\<close> it
  uses (zero values, \<open>ConvertibleTo\<close>, \<open>Convert\<close>) are defined for the types of
  \<open>DF_Api\<close>. \<open>oor\<close> is the implementation's choice for a float that an \<open>int64\<close> cannot
  hold and \<open>fmt_v\<close> the rendering of a value in a message.
\<close>

section \<open>reflect\<close>

fun int_bits :: "ikind \<Rightarrow> nat" where
  "int_bits I8 = 8" | "int_bits I16 = 16" | "int_bits I32 = 32" | "int_bits I64 = 64" | "int_bits IInt = 64"
| "int_bits U8 = 8" | "int_bits U16 = 16" | "int_bits U32 = 32" | "int_bits U64 = 64" | "int_bits UInt = 64"

fun int_signed :: "ikind \<Rightarrow> bool" where
  "int_signed I8 = True" | "int_signed I16 = True" | "int_signed I32 = True" | "int_signed I64 = True"
| "int_signed IInt = True" | "int_signed _ = False"

text \<open>Conversion to an integer type keeps the low bits.\<close>

definition wrap_int :: "ikind \<Rightarrow> int \<Rightarrow> int" where
  "wrap_int k i =
     (if int_signed k
      then (i + 2 ^ (int_bits k - 1)) mod 2 ^ int_bits k - 2 ^ (int_bits k - 1)
      else i mod 2 ^ int_bits k)"

definition int_fits :: "ikind \<Rightarrow> int \<Rightarrow> bool" where
  "int_fits k i =
     (if int_signed k then - (2 ^ (int_bits k - 1)) \<le> i \<and> i < 2 ^ (int_bits k - 1)
      else 0 \<le> i \<and> i < 2 ^ int_bits k)"

fun type_of :: "gval \<Rightarrow> gtype" where
  "type_of GNil = TAny"
| "type_of (GBool b) = TBool"
| "type_of (GInt k i) = TIntT k"
| "type_of (GF32 f) = TF32"
| "type_of (GF64 f) = TF64"
| "type_of (GStr s) = TStr"
| "type_of (GErr s) = TPtr (TStruct ''errors.errorString'')"
| "type_of (GSlice t vs) = TSlice t"
| "type_of (GMap k v ps) = TMap k v"
| "type_of (GStruct n fs) = TStruct n"
| "type_of (GPtr t v) = TPtr t"

fun zero_value :: "gtype \<Rightarrow> gval" where
  "zero_value TBool = GBool False"
| "zero_value (TIntT k) = GInt k 0"
| "zero_value TF32 = GF32 (Fin 0)"
| "zero_value TF64 = GF64 (Fin 0)"
| "zero_value TStr = GStr []"
| "zero_value (TSlice t) = GSlice t []"
| "zero_value (TMap k v) = GMap k v []"
| "zero_value (TStruct n) = GStruct n []"
| "zero_value _ = GNil"

fun is_interface :: "gtype \<Rightarrow> bool" where
  "is_interface TAny = True" | "is_interface TErr = True" | "is_interface TCtx = True"
| "is_interface TWfCtx = True" | "is_interface _ = False"

fun is_integer_kind :: "gtype \<Rightarrow> bool" where
  "is_integer_kind (TIntT k) = True"
| "is_integer_kind _ = False"

fun is_float_kind :: "gtype \<Rightarrow> bool" where
  "is_float_kind TF32 = True" | "is_float_kind TF64 = True" | "is_float_kind _ = False"

definition is_numeric_kind :: "gtype \<Rightarrow> bool" where
  "is_numeric_kind t \<longleftrightarrow> is_integer_kind t \<or> is_float_kind t"

definition convertible_to :: "gtype \<Rightarrow> gtype \<Rightarrow> bool" where
  "convertible_to t u \<longleftrightarrow>
     is_numeric_kind t \<and> is_numeric_kind u \<or>
     is_integer_kind t \<and> u = TStr \<or>
     t = TStr \<and> u \<in> {TSlice (TIntT U8), TSlice (TIntT I32)} \<or>
     t \<in> {TSlice (TIntT U8), TSlice (TIntT I32)} \<and> u = TStr \<or>
     u = TAny \<or>
     t = TPtr (TStruct ''errors.errorString'') \<and> u = TErr"

text \<open>UTF-8: \<open>string(rune)\<close> and \<open>[]rune(string)\<close>, with the replacement character for bad input.\<close>

definition byte :: "int \<Rightarrow> char" where
  "byte i = char_of (nat i)"

definition utf8_encode :: "int \<Rightarrow> string" where
  "utf8_encode r0 =
     (let r = (if r0 < 0 \<or> 0x10FFFF < r0 \<or> (0xD800 \<le> r0 \<and> r0 \<le> 0xDFFF) then 0xFFFD else r0) in
      if r < 0x80 then [byte r]
      else if r < 0x800 then [byte (0xC0 + r div 64), byte (0x80 + r mod 64)]
      else if r < 0x10000 then
        [byte (0xE0 + r div 4096), byte (0x80 + r div 64 mod 64), byte (0x80 + r mod 64)]
      else [byte (0xF0 + r div 262144), byte (0x80 + r div 4096 mod 64), byte (0x80 + r div 64 mod 64),
        byte (0x80 + r mod 64)])"

definition byte_val :: "char \<Rightarrow> int" where
  "byte_val c = int (of_char c)"

definition is_cont :: "char \<Rightarrow> bool" where
  "is_cont c \<longleftrightarrow> 0x80 \<le> byte_val c \<and> byte_val c < 0xC0"

text \<open>The rune at the head of a non-empty string and the number of bytes it takes.\<close>

definition utf8_head :: "string \<Rightarrow> int \<times> nat" where
  "utf8_head s =
     (let b0 = byte_val (s ! 0);
          c = (\<lambda>i. byte_val (s ! i) - 0x80);
          ok = (\<lambda>n. n < length s \<and> list_all is_cont (take n (tl s)))
      in if b0 < 0x80 then (b0, 1)
         else if 0xC2 \<le> b0 \<and> b0 < 0xE0 \<and> ok 1 then ((b0 - 0xC0) * 64 + c 1, 2)
         else if 0xE0 \<le> b0 \<and> b0 < 0xF0 \<and> ok 2 then
           (let r = (b0 - 0xE0) * 4096 + c 1 * 64 + c 2 in
            if 0x800 \<le> r \<and> \<not> (0xD800 \<le> r \<and> r \<le> 0xDFFF) then (r, 3) else (0xFFFD, 1))
         else if 0xF0 \<le> b0 \<and> b0 < 0xF5 \<and> ok 3 then
           (let r = (b0 - 0xF0) * 262144 + c 1 * 4096 + c 2 * 64 + c 3 in
            if 0x10000 \<le> r \<and> r \<le> 0x10FFFF then (r, 4) else (0xFFFD, 1))
         else (0xFFFD, 1))"

lemma utf8_head_pos: "0 < snd (utf8_head s)"
  by (simp add: utf8_head_def Let_def)

function utf8_decode :: "string \<Rightarrow> int list" where
  "utf8_decode [] = []"
| "utf8_decode (x # xs) = fst (utf8_head (x # xs)) # utf8_decode (drop (snd (utf8_head (x # xs))) (x # xs))"
  by pat_completeness auto
termination
proof (relation "measure length")
  fix x :: char and xs
  show "(drop (snd (utf8_head (x # xs))) (x # xs), x # xs) \<in> measure length"
    using utf8_head_pos [of "x # xs"] by simp
qed simp

fun int_val :: "gval \<Rightarrow> int" where
  "int_val (GInt k i) = i"
| "int_val _ = 0"

fun to_f32 :: "f64 \<Rightarrow> f64" where
  "to_f32 (Fin q) = f32_round q"
| "to_f32 f = f"

text \<open>\<open>Value.Convert\<close> between convertible types, floats to integers apart.\<close>

definition convert_from_string :: "ikind \<Rightarrow> string \<Rightarrow> gval" where
  "convert_from_string k s =
     (if k = U8 then GSlice (TIntT U8) (map (\<lambda>c. GInt U8 (byte_val c)) s)
      else GSlice (TIntT I32) (map (GInt I32) (utf8_decode s)))"

definition convert_to_string :: "gval \<Rightarrow> gval" where
  "convert_to_string v =
     (case v of
        GInt j i \<Rightarrow> GStr (utf8_encode i)
      | GSlice t vs \<Rightarrow>
          (if t = TIntT U8 then GStr (map (\<lambda>v. byte (int_val v)) vs)
           else GStr (concat (map (\<lambda>v. utf8_encode (int_val v)) vs)))
      | _ \<Rightarrow> v)"

definition go_convert :: "gtype \<Rightarrow> gval \<Rightarrow> gval" where
  "go_convert ty v =
     (case ty of
        TIntT k \<Rightarrow> (case v of GInt j i \<Rightarrow> GInt k (wrap_int k i) | _ \<Rightarrow> v)
      | TF64 \<Rightarrow> (case v of GInt j i \<Rightarrow> GF64 (f64_of_int i) | GF32 f \<Rightarrow> GF64 f | _ \<Rightarrow> v)
      | TF32 \<Rightarrow> (case v of GInt j i \<Rightarrow> GF32 (f32_round (of_int i)) | GF64 f \<Rightarrow> GF32 (to_f32 f) | _ \<Rightarrow> v)
      | TStr \<Rightarrow> convert_to_string v
      | TSlice t \<Rightarrow> (case v of GStr s \<Rightarrow> (case t of TIntT k \<Rightarrow> convert_from_string k s | _ \<Rightarrow> v) | _ \<Rightarrow> v)
      | _ \<Rightarrow> v)"

section \<open>The converter\<close>

fun ikind_str :: "ikind \<Rightarrow> string" where
  "ikind_str I8 = ''int8''" | "ikind_str I16 = ''int16''" | "ikind_str I32 = ''int32''"
| "ikind_str I64 = ''int64''" | "ikind_str IInt = ''int''" | "ikind_str U8 = ''uint8''"
| "ikind_str U16 = ''uint16''" | "ikind_str U32 = ''uint32''" | "ikind_str U64 = ''uint64''"
| "ikind_str UInt = ''uint''"

fun float_of :: "gval \<Rightarrow> f64" where
  "float_of (GF32 f) = f"
| "float_of (GF64 f) = f"
| "float_of _ = Fin 0"

definition f64_ne :: "f64 \<Rightarrow> f64 \<Rightarrow> bool" where
  "f64_ne x y \<longleftrightarrow> x = NaN \<or> y = NaN \<or> x \<noteq> y"

definition convert_numeric ::
    "(f64 \<Rightarrow> i64) \<Rightarrow> (gval \<Rightarrow> string) \<Rightarrow> gval \<Rightarrow> gtype \<Rightarrow> gtype \<Rightarrow> gerr + gval" where
  "convert_numeric oor fmt_v v vt ty =
     (case ty of
        TIntT k \<Rightarrow>
          (if is_float_kind vt then
             (let n = sint (f64_to_i64 oor (float_of v)) in
              if f64_ne (f64_of_int n) (float_of v)
              then Inl (ErrMsg (''cannot convert '' @ fmt_v (GF64 (float_of v)) @ '' to '' @ ikind_str k @
                     '' without losing precision''))
              else Inr (GInt k (wrap_int k n)))
           else Inr (go_convert ty v))
      | _ \<Rightarrow> Inr (go_convert ty v))"

definition convert_via_serializer :: "'x serde \<Rightarrow> gval \<Rightarrow> gtype \<Rightarrow> gerr + gval" where
  "convert_via_serializer sd v ty =
     (case ser_val sd v of
        Inl e \<Rightarrow> Inl (ErrWrap ''failed to serialize value for type conversion'' e)
      | Inr bs \<Rightarrow>
         (case ty of
            TPtr t \<Rightarrow> (case de_val sd t bs of
                Inl e \<Rightarrow> Inl (ErrWrap ''failed to deserialize value to target type'' e)
              | Inr w \<Rightarrow> Inr (GPtr t w))
          | _ \<Rightarrow> (case de_val sd ty bs of
                Inl e \<Rightarrow> Inl (ErrWrap ''failed to deserialize value to target type'' e)
              | Inr w \<Rightarrow> Inr w)))"

definition convert_to_type ::
    "'x serde \<Rightarrow> (f64 \<Rightarrow> i64) \<Rightarrow> (gval \<Rightarrow> string) \<Rightarrow> gval \<Rightarrow> gtype \<Rightarrow> gerr + gval" where
  "convert_to_type sd oor fmt_v v ty =
     (if v = GNil then Inr (zero_value ty)
      else (let vt = type_of v in
        if vt = ty then Inr v
        else if convertible_to vt ty then
          (if is_numeric_kind vt \<and> is_numeric_kind ty then convert_numeric oor fmt_v v vt ty
           else Inr (go_convert ty v))
        else convert_via_serializer sd v ty))"

fun convert_slice ::
    "'x serde \<Rightarrow> (f64 \<Rightarrow> i64) \<Rightarrow> (gval \<Rightarrow> string) \<Rightarrow> nat \<Rightarrow> gval list \<Rightarrow> gtype \<Rightarrow> gerr + gval list" where
  "convert_slice sd oor fmt_v i [] ty = Inr []"
| "convert_slice sd oor fmt_v i (v # vs) ty =
     (case convert_to_type sd oor fmt_v v ty of
        Inl e \<Rightarrow> Inl (ErrWrap (''failed to convert element '' @ nat_str i) e)
      | Inr w \<Rightarrow>
         (case convert_slice sd oor fmt_v (Suc i) vs ty of Inl e \<Rightarrow> Inl e | Inr ws \<Rightarrow> Inr (w # ws)))"

section \<open>Lemmas\<close>

lemma wrap_int_fits: "int_fits k i \<Longrightarrow> wrap_int k i = i"
  by (cases k) (simp_all add: wrap_int_def int_fits_def)

lemma wrap_int_in_range: "int_fits k (wrap_int k i)"
  by (cases k) (simp_all add: wrap_int_def int_fits_def)

lemma wrap_int_cong: "wrap_int k i mod 2 ^ int_bits k = i mod 2 ^ int_bits k"
  by (cases k) (simp_all add: wrap_int_def mod_diff_left_eq)

text \<open>A value a parameter of type \<open>ty\<close> accepts.\<close>

definition assignable :: "gval \<Rightarrow> gtype \<Rightarrow> bool" where
  "assignable v ty \<longleftrightarrow> v = zero_value ty \<or> type_of v = ty \<or> is_interface ty"

definition serde_typed :: "'x serde \<Rightarrow> bool" where
  "serde_typed sd \<longleftrightarrow> (\<forall>ty bs v. de_val sd ty bs = Inr v \<longrightarrow> type_of v = ty \<or> is_interface ty \<or> v = zero_value ty)"

lemma zero_value_type: "zero_value ty = GNil \<or> type_of (zero_value ty) = ty"
  by (cases ty) simp_all

lemma go_convert_type:
  "convertible_to (type_of v) ty \<Longrightarrow> \<not> (is_float_kind (type_of v) \<and> is_integer_kind ty) \<Longrightarrow>
     type_of (go_convert ty v) = ty \<or> is_interface ty"
  by (cases v; cases ty)
    (auto simp: convertible_to_def is_numeric_kind_def go_convert_def convert_to_string_def convert_from_string_def)

lemma convert_numeric_type:
  assumes "convert_numeric oor fmt_v v (type_of v) ty = Inr w" and "is_numeric_kind (type_of v)" "is_numeric_kind ty"
  shows "type_of w = ty"
proof (cases ty)
  case (TIntT k)
  show ?thesis
  proof (cases "is_float_kind (type_of v)")
    case True
    with TIntT assms show ?thesis by (auto simp: convert_numeric_def Let_def split: if_splits)
  next
    case False
    then have "\<not> (is_float_kind (type_of v) \<and> is_integer_kind ty)" by simp
    from go_convert_type [OF _ this] False TIntT assms show ?thesis
      by (auto simp: convert_numeric_def convertible_to_def)
  qed
qed (use assms go_convert_type [of v ty] in \<open>auto simp: convert_numeric_def convertible_to_def is_numeric_kind_def\<close>)

lemma convert_via_serializer_type:
  assumes "serde_typed sd" and "convert_via_serializer sd v ty = Inr w"
  shows "assignable w ty"
proof (cases ty)
  case (TPtr t)
  with assms(2) show ?thesis
    by (auto simp: convert_via_serializer_def assignable_def split: sum.splits)
qed (use assms in \<open>force simp: convert_via_serializer_def assignable_def serde_typed_def split: sum.splits\<close>)+

section \<open>Properties\<close>

text \<open> A conversion that succeeds yields a value the parameter accepts: one of
  the target type, its zero value, or any value if the target is an interface. So the call of a
  user function cannot fail on the type of a converted argument. Asked of the serializer: what
  it decodes for a type has that type.
\<close>

theorem converted_argument_fits:
  assumes "serde_typed sd" and "convert_to_type sd oor fmt_v v ty = Inr w"
  shows "assignable w ty"
proof (cases "v = GNil \<or> type_of v = ty")
  case True
  with assms(2) show ?thesis by (auto simp: convert_to_type_def assignable_def Let_def split: if_splits)
next
  case False
  show ?thesis
  proof (cases "convertible_to (type_of v) ty")
    case conv: True
    show ?thesis
    proof (cases "is_numeric_kind (type_of v) \<and> is_numeric_kind ty")
      case True
      with conv False assms(2) have "convert_numeric oor fmt_v v (type_of v) ty = Inr w"
        by (simp add: convert_to_type_def Let_def)
      from convert_numeric_type [OF this] True show ?thesis by (simp add: assignable_def)
    next
      case nn: False
      then have "\<not> (is_float_kind (type_of v) \<and> is_integer_kind ty)"
        unfolding is_numeric_kind_def by blast
      from go_convert_type [OF conv this] nn conv False assms(2) show ?thesis
        by (auto simp: convert_to_type_def Let_def assignable_def)
    qed
  next
    case nc: False
    with False assms(2) have "convert_via_serializer sd v ty = Inr w"
      by (simp add: convert_to_type_def Let_def)
    from convert_via_serializer_type [OF assms(1) this] show ?thesis .
  qed
qed

text \<open>
  Integers through JSON. An integer of up to 53 bits that a decoder returned
  as a double is converted to an integer parameter without an error and without rounding: the
  result is the integer itself when the parameter type can hold it, and otherwise its low bits,
  silently, although the conversion is documented to check for a loss of precision.
\<close>

theorem json_integer_argument:
  assumes "\<bar>n\<bar> \<le> 2 ^ 53"
  shows "convert_to_type sd oor fmt_v (GF64 (f64_of_int n)) (TIntT k) =
    Inr (GInt k (if int_fits k n then n else wrap_int k n))"
proof -
  have "sint (word_of_int n :: i64) = n"
    using assms by (intro sint_i64_of_int) simp_all
  then have "convert_numeric oor fmt_v (GF64 (f64_of_int n)) TF64 (TIntT k) = Inr (GInt k (wrap_int k n))"
    using f64_to_i64_of_int [OF assms, of oor] f64_of_int_exact [OF assms]
    by (simp add: convert_numeric_def Let_def f64_ne_def)
  then show ?thesis
    by (simp add: convert_to_type_def convertible_to_def is_numeric_kind_def wrap_int_fits)
qed

text \<open>
  \<open>ConvertSlice\<close> converts element by element: it succeeds with as
  many values as it was given, each the conversion of its element, or it stops with an error.
\<close>

theorem convert_slice_elementwise:
  shows "convert_slice sd oor fmt_v i vs ty = Inr ws \<longleftrightarrow>
    list_all2 (\<lambda>v w. convert_to_type sd oor fmt_v v ty = Inr w) vs ws"
proof (induction vs arbitrary: i ws)
  case (Cons v vs)
  show ?case
  proof (cases "convert_to_type sd oor fmt_v v ty")
    case (Inr w)
    note here = this
    show ?thesis
    proof (cases "convert_slice sd oor fmt_v (Suc i) vs ty")
      case (Inl e)
      with Cons.IH [of "Suc i"] here show ?thesis by (auto simp: list_all2_Cons1)
    next
      case (Inr us)
      with Cons.IH [of "Suc i"] here show ?thesis by (auto simp: list_all2_Cons1)
    qed
  qed (simp add: list_all2_Cons1)
qed auto

section \<open>Witnesses\<close>

definition text_serde :: "gval serde" where
  "text_serde = \<lparr>
     ser_event = (\<lambda>_. Inl (ErrMsg ''no'')), de_event = (\<lambda>_ _. Inl (ErrMsg ''no'')),
     ser_wtask = (\<lambda>_. Inl (ErrMsg ''no'')), de_wtask = (\<lambda>_. Inl (ErrMsg ''no'')),
     ser_atask = (\<lambda>_. Inl (ErrMsg ''no'')), de_atask = (\<lambda>_. Inl (ErrMsg ''no'')),
     ser_command = (\<lambda>_. Inl (ErrMsg ''no'')), de_command = (\<lambda>_. Inl (ErrMsg ''no'')),
     ser_attrs = (\<lambda>_. Inl (ErrMsg ''no'')), de_attrs = (\<lambda>_. Inl (ErrMsg ''no'')),
     ser_reply = (\<lambda>_. Inl (ErrMsg ''no'')), de_reply = (\<lambda>_. Inl (ErrMsg ''no'')),
     ser_args = (\<lambda>_. Inl (ErrMsg ''no'')), de_args = (\<lambda>_. Inl (ErrMsg ''no'')),
     ser_val = (\<lambda>v. Inr [v]),
     de_val = (\<lambda>ty bs. case bs of [v] \<Rightarrow> if type_of v = ty then Inr v else Inl (ErrMsg ''type'') | _ \<Rightarrow> Inl (ErrMsg ''len'')),
     de_keys = (\<lambda>_. Inl (ErrMsg ''no''))\<rparr>"

theorem converted_argument_fits_witness:
  "convert_to_type text_serde (\<lambda>_. 0) (\<lambda>_. []) (GStr ''a'') (TSlice (TIntT U8)) = Inr (GSlice (TIntT U8) [GInt U8 97]) \<and>
   assignable (GSlice (TIntT U8) [GInt U8 97]) (TSlice (TIntT U8))"
proof
  show conv: "convert_to_type text_serde (\<lambda>_. 0) (\<lambda>_. []) (GStr ''a'') (TSlice (TIntT U8)) =
      Inr (GSlice (TIntT U8) [GInt U8 97])"
    by (simp add: convert_to_type_def convertible_to_def is_numeric_kind_def go_convert_def
        convert_from_string_def byte_val_def)
  have "serde_typed text_serde"
    by (auto simp: serde_typed_def text_serde_def split: list.splits if_splits)
  from converted_argument_fits [OF this conv] show "assignable (GSlice (TIntT U8) [GInt U8 97]) (TSlice (TIntT U8))" .
qed

theorem json_integer_argument_witness:
  "convert_to_type text_serde (\<lambda>_. 0) (\<lambda>_. []) (GF64 (f64_of_int 42)) (TIntT IInt) = Inr (GInt IInt 42) \<and>
   convert_to_type text_serde (\<lambda>_. 0) (\<lambda>_. []) (GF64 (f64_of_int 300)) (TIntT I8) = Inr (GInt I8 44)"
  using json_integer_argument [of 42 text_serde "\<lambda>_. 0" "\<lambda>_. []" IInt]
    json_integer_argument [of 300 text_serde "\<lambda>_. 0" "\<lambda>_. []" I8]
  by (simp add: int_fits_def wrap_int_def)

end
