(* ===== verification/DF_Retry.thy ===== *)
theory DF_Retry
  imports DF_Context
begin

text \<open>
  Retry decisions and backoff of the worker: \<open>evaluateRetryDecision\<close> and
  \<open>calculateRetryDelay\<close> of \<open>sdk/internal/worker_runtime.go\<close>. Durations are nanoseconds in
  64 bits, attempts 32 bits, all signed; \<open>oor\<close> is the implementation's result for a double
  beyond the range of \<open>int64\<close>.
\<close>

definition second_ns :: i64 where "second_ns = 1000000000"
definition millisecond_ns :: i64 where "millisecond_ns = 1000000"

definition min_i64 :: "i64 \<Rightarrow> i64 \<Rightarrow> i64" where
  "min_i64 a b = (if sint b < sint a then b else a)"

definition policy_initial :: "retry_policy \<Rightarrow> i64" where
  "policy_initial p =
     (let i = rp_initial_interval_ms p * millisecond_ns in if i = 0 then second_ns else i)"

definition policy_coefficient :: "retry_policy \<Rightarrow> f64" where
  "policy_coefficient p =
     (if f64_le (rp_backoff_coefficient p) (Fin 0) then Fin 2 else rp_backoff_coefficient p)"

definition policy_maximum :: "retry_policy \<Rightarrow> i64" where
  "policy_maximum p =
     (let m = rp_maximum_interval_ms p * millisecond_ns in if m = 0 then 100 * policy_initial p else m)"

definition calculate_retry_delay :: "(f64 \<Rightarrow> i64) \<Rightarrow> activity_task \<Rightarrow> i64" where
  "calculate_retry_delay oor task =
     (case tk_retry task of
        None \<Rightarrow> second_ns
      | Some p \<Rightarrow>
         (let next_delay = f64_to_i64 oor (f64_mul (f64_of_int (sint (policy_initial p)))
                (f64_pow (policy_coefficient p) (sint (tk_attempt task - 1))))
          in min_i64 next_delay (policy_maximum p)))"

text \<open>\<open>now_ms\<close> is \<open>time.Now().UnixMilli()\<close> at the decision.\<close>

definition evaluate_retry_decision :: "(f64 \<Rightarrow> i64) \<Rightarrow> i64 \<Rightarrow> activity_task \<Rightarrow> gerr \<Rightarrow> bool" where
  "evaluate_retry_decision oor now_ms task err =
     (case tk_retry task of
        None \<Rightarrow> False
      | Some p \<Rightarrow>
         if 0 < sint (rp_maximum_attempts p) \<and> sint (rp_maximum_attempts p) \<le> sint (tk_attempt task) then False
         else if rp_non_retryable p \<noteq> [] \<and> gerr_msg err \<in> set (rp_non_retryable p) then False
         else if 0 < sint (tk_schedule_to_close task) then
           (let elapsed_ms = now_ms - tk_scheduled_at_ms task; next_delay = calculate_retry_delay oor task in
            \<not> sint (tk_schedule_to_close task) < sint (elapsed_ms + duration_ms next_delay))
         else True)"

section \<open>Lemmas\<close>

lemma sint_min_i64: "sint (min_i64 a b) = min (sint a) (sint b)"
  by (simp add: min_i64_def)


lemma sint_pred_i32: "0 < sint (a :: i32) \<Longrightarrow> sint (a - 1) = sint a - 1"
proof -
  assume "0 < sint a"
  moreover have "sint a < 2 ^ 31" using sint_lt [of a] by simp
  moreover have "a - 1 = word_of_int (sint a - 1)" by simp
  ultimately show ?thesis by (simp only:) (intro sint_i32_of_int; simp)
qed

lemma sint_succ_i32: "sint (a :: i32) < 2 ^ 31 - 1 \<Longrightarrow> sint (a + 1) = sint a + 1"
proof -
  assume "sint a < 2 ^ 31 - 1"
  moreover have "- (2 ^ 31) \<le> sint a" using sint_ge [of a] by simp
  moreover have "a + 1 = word_of_int (sint a + 1)" by simp
  ultimately show ?thesis by (simp only:) (intro sint_i32_of_int; simp)
qed

text \<open>With an integral coefficient and a backoff of up to 53 bits the arithmetic is exact.\<close>

lemma delay_exact:
  assumes p: "tk_retry task = Some p" and a: "0 < sint (tk_attempt task)"
    and i: "0 \<le> sint (policy_initial p)" and c: "policy_coefficient p = Fin (of_nat k)"
    and b: "nat (sint (policy_initial p)) * k ^ nat (sint (tk_attempt task) - 1) \<le> 2 ^ 53"
    and k: "k ^ nat (sint (tk_attempt task) - 1) \<le> 2 ^ 53"
    and i53: "sint (policy_initial p) \<le> 2 ^ 53"
  shows "sint (calculate_retry_delay oor task) =
    min (sint (policy_initial p) * int k ^ nat (sint (tk_attempt task) - 1)) (sint (policy_maximum p))"
proof -
  define n where "n = nat (sint (tk_attempt task) - 1)"
  obtain m where m: "sint (policy_initial p) = int m" using i by (rule nonneg_int_cases)
  have n: "sint (tk_attempt task - 1) = int n" using sint_pred_i32 [OF a] a by (simp add: n_def)
  have "m * k ^ n \<le> 2 ^ 53" using b m by (simp add: n_def)
  then have "int (m * k ^ n) \<le> int (2 ^ 53)" by (simp only: of_nat_le_iff)
  then have le: "int m * int k ^ n \<le> 2 ^ 53" by simp
  have "int (k ^ n) \<le> int (2 ^ 53)" using k by (simp only: of_nat_le_iff n_def)
  then have le': "\<bar>int k ^ n\<bar> \<le> 2 ^ 53" by simp
  have pow: "f64_pow (policy_coefficient p) (int n) = Fin (of_int (int k ^ n))"
    using f64_of_int_exact [OF le'] by (simp add: c f64_of_int_def)
  have init: "f64_of_int (int m) = Fin (of_int (int m))"
    using i53 m by (intro f64_of_int_exact) simp
  have mul: "f64_mul (Fin (of_int (int m))) (Fin (of_int (int k ^ n))) = f64_of_int (int m * int k ^ n)"
    by (simp add: f64_of_int_def)
  have ab: "\<bar>int m * int k ^ n\<bar> \<le> 2 ^ 53" using le by simp
  have "f64_to_i64 oor (f64_mul (f64_of_int (int m)) (f64_pow (policy_coefficient p) (int n)))
      = word_of_int (int m * int k ^ n)"
    unfolding init pow mul by (rule f64_to_i64_of_int [OF ab])
  moreover have "sint (word_of_int (int m * int k ^ n) :: i64) = int m * int k ^ n"
  proof (rule sint_i64_of_int)
    have "0 \<le> int m * int k ^ n" by simp
    then show "- (2 ^ 63) \<le> int m * int k ^ n" by (rule order_trans [rotated]) simp
    show "int m * int k ^ n < 2 ^ 63" by (rule le_less_trans [OF le]) simp
  qed
  ultimately show ?thesis
    by (simp add: calculate_retry_delay_def p Let_def sint_min_i64 m n n_def [symmetric])
qed

text \<open>A coefficient of 2 stays exact far beyond 53 bits, up to the largest double.\<close>

lemma doubling_exact:
  assumes i: "1 \<le> m" "m \<le> 2 ^ 53" and n: "n < 900"
  shows "f64_mul (f64_of_int (int m)) (f64_pow (Fin 2) (int n)) = Fin (of_nat m * 2 ^ n)"
proof -
  have "(1 :: nat) * 2 ^ n < 2 ^ 1024" using n by (simp only: mult_1, intro power_strict_increasing) auto
  from fp_round_scaled [OF _ _ this] have pow: "f64_pow (Fin 2) (int n) = Fin (2 ^ n)" by simp
  have init: "f64_of_int (int m) = Fin (of_nat m)"
    using i fp_round_nat [of m] by (simp add: f64_of_int_def)
  have "m * 2 ^ n \<le> 2 ^ 53 * 2 ^ n" using i by simp
  also have "\<dots> < (2 :: nat) ^ 1024"
    unfolding power_add [symmetric] using n by (intro power_strict_increasing) auto
  finally have "f64_round (of_nat m * 2 ^ n) = Fin (of_nat m * 2 ^ n)" by (rule fp_round_scaled [OF i])
  then show ?thesis unfolding init pow by simp
qed



section \<open>Properties\<close>


text \<open> Exponential backoff. With an integral coefficient \<open>k\<close> and a backoff that a
  double represents exactly, the delay of the \<open>n\<close>-th attempt is the initial interval times
  \<open>k\<close> to the power \<open>n - 1\<close>, cut off at the maximum interval. A policy that leaves its
  intervals and coefficient zero starts at one second, doubles, and stops at 100 seconds.
\<close>

theorem backoff_is_exponential:
  assumes "tk_retry task = Some p" and "0 < sint (tk_attempt task)"
    and "0 \<le> sint (policy_initial p)" and "policy_coefficient p = Fin (of_nat k)"
    and "nat (sint (policy_initial p)) * k ^ nat (sint (tk_attempt task) - 1) \<le> 2 ^ 53"
    and "k ^ nat (sint (tk_attempt task) - 1) \<le> 2 ^ 53" and "sint (policy_initial p) \<le> 2 ^ 53"
  shows "sint (calculate_retry_delay oor task) =
      min (sint (policy_initial p) * int k ^ nat (sint (tk_attempt task) - 1)) (sint (policy_maximum p))
    \<and> (rp_initial_interval_ms p = 0 \<and> rp_maximum_interval_ms p = 0 \<and> rp_backoff_coefficient p = Fin 0
         \<longrightarrow> policy_initial p = second_ns \<and> k = 2 \<and> policy_maximum p = 100 * second_ns)"
proof
  show "sint (calculate_retry_delay oor task) =
      min (sint (policy_initial p) * int k ^ nat (sint (tk_attempt task) - 1)) (sint (policy_maximum p))"
    by (rule delay_exact [OF assms])
  have "k = 2" if "(of_nat k :: rat) = 2" using that by (metis of_nat_eq_iff of_nat_numeral)
  then show "rp_initial_interval_ms p = 0 \<and> rp_maximum_interval_ms p = 0 \<and> rp_backoff_coefficient p = Fin 0
         \<longrightarrow> policy_initial p = second_ns \<and> k = 2 \<and> policy_maximum p = 100 * second_ns"
    using assms(4) by (auto simp: policy_initial_def policy_maximum_def policy_coefficient_def)
qed

text \<open>
  The backoff is converted to an integer before it is cut off. With the default
  coefficient, once the doubled interval leaves the range of \<open>int64\<close> the delay is what the
  implementation makes of it; where that is the smallest integer, as on amd64, the delay is
  negative and the retry is immediate.
\<close>

theorem backoff_overflows:
  assumes p: "tk_retry task = Some p" "policy_coefficient p = Fin 2"
    and a: "0 < sint (tk_attempt task)" "sint (tk_attempt task) \<le> 900"
    and i: "1 \<le> sint (policy_initial p)" "sint (policy_initial p) \<le> 2 ^ 53"
    and large: "2 ^ 63 \<le> sint (policy_initial p) * 2 ^ nat (sint (tk_attempt task) - 1)"
  shows "calculate_retry_delay (\<lambda>_. word_of_int (- (2 ^ 63))) task = word_of_int (- (2 ^ 63))"
proof -
  define n where "n = nat (sint (tk_attempt task) - 1)"
  have n: "sint (tk_attempt task - 1) = int n" "n < 900"
    using sint_pred_i32 [OF a(1)] a by (simp_all add: n_def)
  obtain m where m: "sint (policy_initial p) = int m" "1 \<le> m" "m \<le> 2 ^ 53"
  proof (rule that [of "nat (sint (policy_initial p))"])
    show "nat (sint (policy_initial p)) \<le> 2 ^ 53" using i(2) by simp
  qed (use i(1) in simp_all)
  have dbl: "f64_mul (f64_of_int (int m)) (f64_pow (Fin 2) (int n)) = Fin (of_nat m * 2 ^ n)"
    by (rule doubling_exact) (use m n in simp_all)
  have "rat_trunc (of_nat m * 2 ^ n) = int m * 2 ^ n"
    using rat_trunc_of_int [of "int m * 2 ^ n"] by simp
  moreover have "\<not> int m * 2 ^ n < 2 ^ 63" using large m(1) by (simp add: n_def)
  ultimately have "f64_to_i64 (\<lambda>_. word_of_int (- (2 ^ 63))) (f64_mul (f64_of_int (sint (policy_initial p)))
      (f64_pow (policy_coefficient p) (sint (tk_attempt task - 1)))) = word_of_int (- (2 ^ 63))"
    unfolding m(1) n(1) p(2) dbl by simp
  moreover have "sint (word_of_int (- (2 ^ 63)) :: i64) \<le> sint (policy_maximum p)"
    using sint_ge [of "policy_maximum p"] by (subst sint_i64_of_int) simp_all
  ultimately show ?thesis
    by (simp add: calculate_retry_delay_def p(1) Let_def min_i64_def)
qed

text \<open>
  The schedule-to-close timeout does not bind. \<open>ExecuteActivity\<close>
  stores the current Unix time in seconds plus the timeout in milliseconds, while the worker
  compares the field with milliseconds elapsed since the activity was scheduled: as long as
  less than the Unix time itself, read as milliseconds, has passed with the next delay, the
  decision is the same as without a timeout, however short the timeout is.
\<close>

theorem schedule_to_close_never_expires:
  assumes opts: "0 < sint (ao_schedule_to_close op)"
    and field: "tk_schedule_to_close task = as_schedule_to_close (schedule_event now s fn args (Some op))"
    and now: "0 < sint now" "sint now < 2 ^ 40"
    and elapsed: "sint (now_ms - tk_scheduled_at_ms task + duration_ms (calculate_retry_delay oor task)) \<le> sint now"
  shows "evaluate_retry_decision oor now_ms task err =
    evaluate_retry_decision oor now_ms (task\<lparr>tk_schedule_to_close := 0\<rparr>) err"
proof -
  let ?d = "sint (ao_schedule_to_close op) sdiv 1000000"
  have d: "0 \<le> ?d" "?d \<le> 2 ^ 63 div 1000000"
  proof -
    have lt: "sint (ao_schedule_to_close op) < 2 ^ 63" using sint_lt [of "ao_schedule_to_close op"] by simp
    have "?d = sint (ao_schedule_to_close op) div 1000000"
      using opts by (simp add: signed_divide_int_def)
    with lt opts show "0 \<le> ?d" "?d \<le> 2 ^ 63 div 1000000" by auto
  qed
  have sd: "sint (duration_ms (ao_schedule_to_close op)) = ?d"
    unfolding duration_ms_def using d by (intro sint_i64_of_int) simp_all
  have eq: "now + duration_ms (ao_schedule_to_close op) = word_of_int (sint now + ?d)"
    using sd by (simp add: duration_ms_def)
  have "sint (now + duration_ms (ao_schedule_to_close op)) = sint now + ?d"
    unfolding eq using now d by (intro sint_i64_of_int) simp_all
  then have f: "tk_schedule_to_close task = now + duration_ms (ao_schedule_to_close op)"
    "sint (tk_schedule_to_close task) = sint now + ?d"
    using field opts by (simp_all add: schedule_event_def)
  have "\<not> sint (tk_schedule_to_close task) <
      sint (now_ms - tk_scheduled_at_ms task + duration_ms (calculate_retry_delay oor task))"
    using elapsed f(2) d(1) by simp
  then show ?thesis
    by (simp add: evaluate_retry_decision_def Let_def split: option.split)
qed

section \<open>Witnesses\<close>

definition demo_policy :: retry_policy where
  "demo_policy = \<lparr>rp_initial_interval_ms = 0, rp_backoff_coefficient = Fin 0, rp_maximum_interval_ms = 0,
     rp_maximum_attempts = 3, rp_non_retryable = [''fatal'']\<rparr>"

definition demo_task :: "i32 \<Rightarrow> activity_task" where
  "demo_task a = \<lparr>tk_wf = ''main'', tk_id = ''w1'', tk_fn = ''greet'', tk_input = [], tk_last_seq = 0,
     tk_attempt = a, tk_schedule_to_close = 0, tk_start_to_close = 0, tk_retry = Some demo_policy,
     tk_scheduled_at_ms = 0\<rparr>"

lemma demo_initial: "policy_initial demo_policy = 1000000000" "policy_coefficient demo_policy = Fin (of_nat 2)"
  "policy_maximum demo_policy = 100000000000"
  by (simp_all add: policy_initial_def policy_coefficient_def policy_maximum_def demo_policy_def second_ns_def
      millisecond_ns_def)


theorem backoff_is_exponential_witness:
  "sint (calculate_retry_delay (\<lambda>_. 0) (demo_task 4)) = 8000000000 \<and>
   sint (calculate_retry_delay (\<lambda>_. 0) (demo_task 9)) = 100000000000"
  using backoff_is_exponential [of "demo_task 4" demo_policy 2 "\<lambda>_. 0"]
    backoff_is_exponential [of "demo_task 9" demo_policy 2 "\<lambda>_. 0"]
  by (simp add: demo_initial demo_task_def)

theorem backoff_overflows_witness:
  "calculate_retry_delay (\<lambda>_. word_of_int (- (2 ^ 63))) (demo_task 35) = word_of_int (- (2 ^ 63))"
proof (rule backoff_overflows [where p = demo_policy])
  show "policy_coefficient demo_policy = Fin 2" using demo_initial(2) by simp
qed (simp_all add: demo_initial(1), simp_all add: demo_task_def)

text \<open>A timeout of one second set at Unix time 1700000000 does not stop a retry a day later.\<close>

definition demo_timeout :: activity_options where
  "demo_timeout = \<lparr>ao_schedule_to_close = 1000000000, ao_start_to_close = 0, ao_retry = None\<rparr>"

definition demo_late_task :: activity_task where
  "demo_late_task = (demo_task 1)\<lparr>tk_schedule_to_close :=
     as_schedule_to_close (schedule_event 1700000000 empty_state ''greet'' [] (Some demo_timeout))\<rparr>"

lemma demo_late_delay: "calculate_retry_delay (\<lambda>_. 0) demo_late_task = 1000000000"
proof -
  have "sint (calculate_retry_delay (\<lambda>_. 0) demo_late_task) = sint (1000000000 :: i64)"
    by (subst delay_exact [of demo_late_task demo_policy 2])
      (simp_all add: demo_initial demo_late_task_def demo_task_def)
  then show ?thesis by (rule signed_word_eqI)
qed

theorem schedule_to_close_never_expires_witness:
  "tk_schedule_to_close demo_late_task = 1700001000 \<and>
   evaluate_retry_decision (\<lambda>_. 0) 86400000 demo_late_task (ErrMsg ''net'')"
proof -
  have ms: "duration_ms 1000000000 = 1000" by (simp add: duration_ms_def signed_divide_int_def)
  have "evaluate_retry_decision (\<lambda>_. 0) 86400000 demo_late_task (ErrMsg ''net'') =
      evaluate_retry_decision (\<lambda>_. 0) 86400000 (demo_late_task\<lparr>tk_schedule_to_close := 0\<rparr>) (ErrMsg ''net'')"
    by (rule schedule_to_close_never_expires [where op = demo_timeout and now = 1700000000 and s = empty_state
          and fn = "''greet''" and args = "[]"])
      (simp_all add: demo_late_delay ms demo_timeout_def, simp_all add: demo_late_task_def demo_timeout_def demo_task_def)
  moreover have "evaluate_retry_decision (\<lambda>_. 0) 86400000 (demo_late_task\<lparr>tk_schedule_to_close := 0\<rparr>) (ErrMsg ''net'')"
    by (simp add: evaluate_retry_decision_def demo_late_task_def demo_task_def demo_policy_def)
  ultimately show ?thesis
    by (simp add: demo_late_task_def schedule_event_def demo_timeout_def ms)
qed

end
