(* ===== verification/DF_Worker.thy ===== *)
theory DF_Worker
  imports DF_Replay DF_Reference DF_Serde DF_Retry
begin

text \<open>
  The worker runtime \<open>sdk/internal/worker_runtime.go\<close> with its function registry
  \<open>sdk/internal/registry.go\<close>: how a task becomes a call of a user function, which event the
  outcome is recorded as, and in what order the message is settled and the events are saved.
\<close>

section \<open>Function registry and names\<close>

text \<open>An argument of type \<open>any\<close> that should be a function: \<open>FnValue\<close> carries its full name.\<close>

datatype 'f fn_any = FnValue string 'f | FnNilFunc | FnOther | FnNil

definition extract_full_function_name :: "'f fn_any \<Rightarrow> panic + (gerr + string)" where
  "extract_full_function_name fn =
     (case fn of
        FnValue name f \<Rightarrow> Inr (Inr name)
      | FnNilFunc \<Rightarrow> Inr (Inl (ErrMsg ''could not retrieve function metadata''))
      | FnOther \<Rightarrow> Inr (Inl (ErrMsg ''fn is not of function type''))
      | FnNil \<Rightarrow> Inl (OtherPanic ''runtime error: invalid memory address or nil pointer dereference''))"

type_synonym 'f fn_registry = "string \<rightharpoonup> 'f fn_any"

definition registry_get :: "'f fn_registry \<Rightarrow> string \<Rightarrow> gerr + 'f fn_any" where
  "registry_get m k =
     (case m k of None \<Rightarrow> Inl (ErrMsg (''key '' @ k @ '' have no value'')) | Some v \<Rightarrow> Inr v)"

definition registry_set ::
    "('f fn_any \<Rightarrow> string) \<Rightarrow> 'f fn_registry \<Rightarrow> string \<Rightarrow> 'f fn_any \<Rightarrow> 'f fn_registry \<times> gerr option" where
  "registry_set fmt_f m k v =
     (case m k of
        Some _ \<Rightarrow> (m, Some (ErrMsg (''key '' @ k @ '' have value: '' @ fmt_f v)))
      | None \<Rightarrow>
         (case v of
            FnOther \<Rightarrow> (m, Some (ErrMsg (''entry '' @ [CHR 0x27] @ k @ [CHR 0x27] @ '' is not a function'')))
          | _ \<Rightarrow> (m(k \<mapsto> v), None)))"

text \<open>\<open>RegisterWorkflow\<close> and \<open>RegisterActivity\<close>, which do the same on their registries.\<close>

definition register_fn ::
    "('f fn_any \<Rightarrow> string) \<Rightarrow> 'f fn_registry \<Rightarrow> 'f fn_any \<Rightarrow> panic + ('f fn_registry \<times> gerr option)" where
  "register_fn fmt_f m fn =
     (case extract_full_function_name fn of
        Inl p \<Rightarrow> Inl p
      | Inr (Inl e) \<Rightarrow> Inr (m, Some e)
      | Inr (Inr name) \<Rightarrow> Inr (registry_set fmt_f m name fn))"

record worker_options =
  wo_tenant :: string
  wo_namespace :: string

definition build_history_stream_name :: "worker_options option \<Rightarrow> string" where
  "build_history_stream_name opts =
     (case opts of
        None \<Rightarrow> workflow_history_stream
      | Some op \<Rightarrow> go_join ''_''
          ((if wo_tenant op \<noteq> [] then [wo_tenant op] else []) @
           (if wo_namespace op \<noteq> [] then [wo_namespace op] else []) @ [workflow_history_stream]))"

definition history_subject_prefix_of :: "worker_options \<Rightarrow> string" where
  "history_subject_prefix_of op = (if wo_namespace op = [] then history_subject_prefix else wo_namespace op)"

section \<open>Calling user functions\<close>

text \<open>The parameter types of a workflow function, its context first, and its body.\<close>

record workflow_fn =
  wfn_in :: "gtype list"
  wfn_body :: "gval list \<Rightarrow> prog"

text \<open>
  An activity function is free to do anything; \<open>afn_call\<close> is what its call in this task does:
  panic, or return its results. \<open>afn_errors\<close>: its last result has an error type.
\<close>

record activity_fn =
  afn_in :: "gtype list"
  afn_errors :: bool
  afn_call :: "gval list \<Rightarrow> panic + gval list"

text \<open>What the code knows of its environment: serializer, float conversion, formatting.\<close>

record 'x env =
  env_serde :: "'x serde"
  env_oor :: "f64 \<Rightarrow> i64"
  env_fmt :: "gval \<Rightarrow> string"

definition env_convert :: "'x env \<Rightarrow> gval \<Rightarrow> gtype \<Rightarrow> gerr + gval" where
  "env_convert ev v ty = convert_to_type (env_serde ev) (env_oor ev) (env_fmt ev) v ty"

datatype 'a exec = ExecOk 'a | ExecErr gerr | ExecPanic panic

text \<open>The argument loop of \<open>processWorkflowTask\<close>: \<open>i\<close> is \<open>idx + 1\<close>.\<close>

fun convert_inputs :: "'x env \<Rightarrow> gtype list \<Rightarrow> nat \<Rightarrow> gval list \<Rightarrow> gval list exec" where
  "convert_inputs ev params i [] = ExecOk []"
| "convert_inputs ev params i (v # vs) =
     (if length params \<le> i then
        ExecPanic (OtherPanic (''runtime error: index out of range ['' @ nat_str i @ ''] with length '' @ nat_str (length params)))
      else
        (case env_convert ev v (params ! i) of
           Inl e \<Rightarrow> ExecErr e
         | Inr w \<Rightarrow>
            (case convert_inputs ev params (Suc i) vs of
               ExecOk ws \<Rightarrow> ExecOk (w # ws)
             | ExecErr e \<Rightarrow> ExecErr e
             | ExecPanic p \<Rightarrow> ExecPanic p)))"

definition takes_context :: "gtype list \<Rightarrow> bool" where
  "takes_context params = (params \<noteq> [] \<and> params ! 0 \<in> {TWfCtx, TCtx, TAny})"

text \<open>The inner function of \<open>processWorkflowTask\<close>, with the panic its \<open>recover\<close> would see.\<close>

definition exec_workflow ::
    "'x env \<Rightarrow> workflow_fn fn_registry \<Rightarrow> (nat \<Rightarrow> i64) \<Rightarrow> workflow_context \<Rightarrow> workflow_task
      \<Rightarrow> workflow_context \<times> gval list exec" where
  "exec_workflow ev reg clock c task =
     (case registry_get reg (wt_fn task) of
        Inl e \<Rightarrow> (c, ExecErr e)
      | Inr (FnValue name f) \<Rightarrow>
         (case convert_inputs ev (wfn_in f) 1 (wt_input task) of
            ExecErr e \<Rightarrow> (c, ExecErr e)
          | ExecPanic p \<Rightarrow> (c, ExecPanic p)
          | ExecOk args \<Rightarrow>
              if length (wfn_in f) > Suc (length args) then
                (c, ExecPanic (OtherPanic ''reflect: Call with too few input arguments''))
              else if length (wfn_in f) < Suc (length args) then
                (c, ExecPanic (OtherPanic ''reflect: Call with too many input arguments''))
              else if \<not> takes_context (wfn_in f) then
                (c, ExecPanic (OtherPanic ''reflect: Call using *internal.workflowContext as another type''))
              else
                (case run_prog (wfn_body f args) (env_fmt ev) (Some (env_serde ev)) clock c [] of
                   (c', Returned vs) \<Rightarrow> (c', ExecOk vs)
                 | (c', Panicked p) \<Rightarrow> (c', ExecPanic p)))
      | Inr _ \<Rightarrow> (c, ExecPanic (OtherPanic ''reflect: call of Value.Type on zero Value'')))"

definition fail_workflow :: "workflow_context \<Rightarrow> workflow_task \<Rightarrow> gerr \<Rightarrow> workflow_context \<times> gerr option" where
  "fail_workflow c task err =
     (fst (wf_record_that c (WorkflowFailed \<lparr>wf_id = wt_id task, wf_fn = wt_fn task, wf_error = gerr_msg err\<rparr>)),
      Some err)"

definition process_workflow_task ::
    "'x env \<Rightarrow> workflow_fn fn_registry \<Rightarrow> (nat \<Rightarrow> i64) \<Rightarrow> workflow_context \<Rightarrow> workflow_task
      \<Rightarrow> workflow_context \<times> gerr option" where
  "process_workflow_task ev reg clock c task =
     (case exec_workflow ev reg clock c task of
        (c', ExecPanic BlockingFuture) \<Rightarrow> (c', None)
      | (c', ExecPanic (OtherPanic m)) \<Rightarrow> fail_workflow c' task (ErrMsg (''workflow panic: '' @ m))
      | (c', ExecErr e) \<Rightarrow> fail_workflow c' task e
      | (c', ExecOk vs) \<Rightarrow>
          (fst (wf_record_that c' (WorkflowCompleted \<lparr>wc_id = wt_id task, wc_fn = wt_fn task, wc_result = vs\<rparr>)),
           None))"

section \<open>Activities\<close>

fun convert_activity_inputs :: "'x env \<Rightarrow> gtype list \<Rightarrow> nat \<Rightarrow> gval list \<Rightarrow> gerr + gval list" where
  "convert_activity_inputs ev params i [] = Inr []"
| "convert_activity_inputs ev params i (v # vs) =
     (case env_convert ev v (params ! Suc i) of
        Inl e \<Rightarrow> Inl (ErrMsg (''failed to convert parameter '' @ nat_str i @ '': '' @ gerr_msg e))
      | Inr w \<Rightarrow>
         (case convert_activity_inputs ev params (Suc i) vs of Inl e \<Rightarrow> Inl e | Inr ws \<Rightarrow> Inr (w # ws)))"

text \<open>The error a result value stands for.\<close>

definition error_of :: "gval \<Rightarrow> gerr option" where
  "error_of v = (case v of GErr m \<Rightarrow> Some (ErrMsg m) | _ \<Rightarrow> None)"

definition execute_activity_func ::
    "'x env \<Rightarrow> activity_fn fn_any \<Rightarrow> gval list \<Rightarrow> (gval list \<times> gerr option) exec" where
  "execute_activity_func ev fn inputs =
     (case fn of
        FnValue name f \<Rightarrow>
         (if length (afn_in f) \<noteq> length inputs + 1 then
            ExecErr (ErrMsg (''argument count mismatch: activity expects '' @ int_str (int (length (afn_in f)) - 1) @
              '', got '' @ nat_str (length inputs)))
          else if afn_in f ! 0 \<noteq> TCtx then
            ExecErr (ErrMsg ''activity function must accept context.Context as its first argument'')
          else
            (case convert_activity_inputs ev (afn_in f) 0 inputs of
               Inl e \<Rightarrow> ExecErr e
             | Inr args \<Rightarrow>
                (case afn_call f args of
                   Inl p \<Rightarrow> ExecPanic p
                 | Inr rs \<Rightarrow>
                     ExecOk (rs, if rs \<noteq> [] \<and> afn_errors f then error_of (List.last rs) else None))))
      | _ \<Rightarrow> ExecPanic (OtherPanic ''reflect: call of Value.Type on zero Value''))"

text \<open>
  \<open>now_ms\<close> is the time in milliseconds at the retry decision. A panic of the activity is not
  recovered: the process ends, which the third result says.
\<close>

definition settle_activity_error ::
    "'x env \<Rightarrow> i64 \<Rightarrow> workflow_context \<Rightarrow> activity_task \<Rightarrow> gerr \<Rightarrow> workflow_context" where
  "settle_activity_error ev now_ms c task err =
     (if evaluate_retry_decision (env_oor ev) now_ms task err then
        fst (wf_record_that c (ActivityRetried
          \<lparr>ar_id = tk_id task, ar_wf = tk_wf task, ar_fn = tk_fn task, ar_attempt = tk_attempt task,
           ar_error = gerr_msg err, ar_next_delay = duration_ms (calculate_retry_delay (env_oor ev) task)\<rparr>))
      else
        fst (wf_record_that c (ActivityFailed
          \<lparr>af_id = tk_id task, af_wf = tk_wf task, af_fn = tk_fn task, af_error = gerr_msg err\<rparr>)))"

definition process_activity_task ::
    "'x env \<Rightarrow> activity_fn fn_registry \<Rightarrow> i64 \<Rightarrow> workflow_context \<Rightarrow> activity_task
      \<Rightarrow> workflow_context \<times> gerr option \<times> panic option" where
  "process_activity_task ev reg now_ms c task =
     (case registry_get reg (tk_fn task) of
        Inl e \<Rightarrow> (c, Some e, None)
      | Inr fn \<Rightarrow>
         (case execute_activity_func ev fn (tk_input task) of
            ExecPanic p \<Rightarrow> (c, None, Some p)
          | ExecErr e \<Rightarrow> (settle_activity_error ev now_ms c task e, None, None)
          | ExecOk (rs, Some e) \<Rightarrow> (settle_activity_error ev now_ms c task e, None, None)
          | ExecOk (rs, None) \<Rightarrow>
              (fst (wf_record_that c (ActivityCompleted
                 \<lparr>ac_id = tk_id task, ac_wf = tk_wf task, ac_fn = tk_fn task, ac_result = Some rs\<rparr>)), None, None)))"

section \<open>The processing loop\<close>

datatype disposition = Ack | Nak | Term

text \<open>
  What one task leaves behind: the log, how its message was settled (\<open>None\<close>: not at all), the
  error that ends the worker, and the panic that ends the process.
\<close>

record 'l handled =
  h_log :: 'l
  h_disp :: "disposition option"
  h_err :: "gerr option"
  h_panic :: "panic option"

definition save_after ::
    "('l \<Rightarrow> workflow_context \<Rightarrow> 'l \<times> workflow_context \<times> (gerr + version \<times> wf_event list)) \<Rightarrow> 'l
      \<Rightarrow> disposition \<Rightarrow> workflow_context \<Rightarrow> 'l handled" where
  "save_after save l d c =
     (case save l c of
        (l', _, Inl e) \<Rightarrow> \<lparr>h_log = l', h_disp = Some d, h_err = Some e, h_panic = None\<rparr>
      | (l', _, Inr _) \<Rightarrow> \<lparr>h_log = l', h_disp = Some d, h_err = None, h_panic = None\<rparr>)"

definition handle_workflow_task ::
    "('l \<Rightarrow> string \<Rightarrow> gerr + workflow_context)
      \<Rightarrow> ('l \<Rightarrow> workflow_context \<Rightarrow> 'l \<times> workflow_context \<times> (gerr + version \<times> wf_event list))
      \<Rightarrow> 'x env \<Rightarrow> workflow_fn fn_registry \<Rightarrow> (nat \<Rightarrow> i64) \<Rightarrow> 'l \<Rightarrow> workflow_task \<Rightarrow> 'l handled" where
  "handle_workflow_task get save ev reg clock l task =
     (case get l (wt_id task) of
        Inl e \<Rightarrow> \<lparr>h_log = l, h_disp = Some Term, h_err = Some e, h_panic = None\<rparr>
      | Inr c \<Rightarrow>
         (case process_workflow_task ev reg clock c task of
            (c', Some e) \<Rightarrow> save_after save l Nak c'
          | (c', None) \<Rightarrow> save_after save l Ack c'))"

definition handle_activity_task ::
    "('l \<Rightarrow> string \<Rightarrow> gerr + workflow_context)
      \<Rightarrow> ('l \<Rightarrow> workflow_context \<Rightarrow> 'l \<times> workflow_context \<times> (gerr + version \<times> wf_event list))
      \<Rightarrow> 'x env \<Rightarrow> activity_fn fn_registry \<Rightarrow> i64 \<Rightarrow> 'l \<Rightarrow> activity_task \<Rightarrow> 'l handled" where
  "handle_activity_task get save ev reg now_ms l task =
     (case get l (tk_id task) of
        Inl e \<Rightarrow> \<lparr>h_log = l, h_disp = Some Term, h_err = Some e, h_panic = None\<rparr>
      | Inr c \<Rightarrow>
         (case process_activity_task ev reg now_ms c task of
            (c', _, Some p) \<Rightarrow> \<lparr>h_log = l, h_disp = None, h_err = None, h_panic = Some p\<rparr>
          | (c', Some e, None) \<Rightarrow> save_after save l Nak c'
          | (c', None, None) \<Rightarrow> save_after save l Ack c'))"

section \<open>What a workflow task records\<close>

definition completed_event :: "workflow_task \<Rightarrow> gval list \<Rightarrow> wf_event" where
  "completed_event task vs = WorkflowCompleted \<lparr>wc_id = wt_id task, wc_fn = wt_fn task, wc_result = vs\<rparr>"

definition failed_event :: "workflow_task \<Rightarrow> gerr \<Rightarrow> wf_event" where
  "failed_event task err = WorkflowFailed \<lparr>wf_id = wt_id task, wf_fn = wt_fn task, wf_error = gerr_msg err\<rparr>"

lemma exec_workflow_adds:
  assumes "exec_workflow ev reg clock c task = (c', r)"
  shows "\<exists>evs. root_uncommitted c' = root_uncommitted c @ evs \<and>
      root_version c' = root_version c + of_nat (length evs) \<and>
      st_id (root_state c') = st_id (root_state c) \<and>
      (\<forall>e \<in> set evs. is_scheduled e \<and> event_wf_id e = st_id (root_state c))"
proof (cases "c' = c")
  case False
  then obtain f :: workflow_fn and args oc where "run_prog (wfn_body f args) (env_fmt ev) (Some (env_serde ev)) clock c [] = (c', oc)"
    using assms
    by (auto simp: exec_workflow_def split: sum.splits fn_any.splits exec.splits if_splits prod.splits outcome.splits)
  from run_adds [OF this] show ?thesis by blast
qed (auto intro: exI [of _ "[]"])

lemma process_workflow_cases:
  assumes "process_workflow_task ev reg clock c task = (c', err)"
  obtains
    (waits) evs where "exec_workflow ev reg clock c task = (c', ExecPanic BlockingFuture)" "err = None"
      "root_uncommitted c' = root_uncommitted c @ evs" "list_all is_scheduled evs"
      "root_version c' = root_version c + of_nat (length evs)"
      "\<forall>e \<in> set evs. event_wf_id e = st_id (root_state c)"
      "st_id (root_state c') = st_id (root_state c)"
  | (completes) evs c1 vs where "exec_workflow ev reg clock c task = (c1, ExecOk vs)" "err = None"
      "root_uncommitted c' = root_uncommitted c @ evs @ [completed_event task vs]" "list_all is_scheduled evs"
      "root_version c' = root_version c + of_nat (Suc (length evs))"
      "\<forall>e \<in> set evs. event_wf_id e = st_id (root_state c)"
      "st_id (root_state c') = wt_id task"
  | (fails) evs e where "err = Some e"
      "root_uncommitted c' = root_uncommitted c @ evs @ [failed_event task e]" "list_all is_scheduled evs"
      "root_version c' = root_version c + of_nat (Suc (length evs))"
      "\<forall>e \<in> set evs. event_wf_id e = st_id (root_state c)"
      "st_id (root_state c') = wt_id task"
proof -
  obtain c1 r where ex: "exec_workflow ev reg clock c task = (c1, r)" by fastforce
  obtain evs where evs: "root_uncommitted c1 = root_uncommitted c @ evs"
    "root_version c1 = root_version c + of_nat (length evs)" "list_all is_scheduled evs"
    "\<forall>e \<in> set evs. event_wf_id e = st_id (root_state c)" "st_id (root_state c1) = st_id (root_state c)"
    using exec_workflow_adds [OF ex] by (auto simp: list_all_iff)
  have fail: thesis if "(c', err) = fail_workflow c1 task e" for e
    by (rule fails [of e evs]) (use that evs in \<open>simp_all add: fail_workflow_def failed_event_def\<close>)
  show thesis
  proof (cases r)
    case (ExecOk vs)
    show thesis
      by (rule completes [of c1 vs evs]) (use assms ex ExecOk evs in \<open>auto simp: process_workflow_task_def completed_event_def\<close>)
  next
    case (ExecErr e)
    with assms ex show thesis by (intro fail [of e]) (simp add: process_workflow_task_def)
  next
    case (ExecPanic p)
    show thesis
    proof (cases p)
      case BlockingFuture
      show thesis
        by (rule waits [of evs]) (use assms ex ExecPanic BlockingFuture evs in \<open>auto simp: process_workflow_task_def\<close>)
    next
      case (OtherPanic m)
      with assms ex ExecPanic show thesis
        by (intro fail [of "ErrMsg (''workflow panic: '' @ m)"]) (simp add: process_workflow_task_def)
    qed
  qed
qed

lemma exec_workflow_stable:
  assumes "exec_workflow ev reg clock (context_after es) task = (c', ExecOk vs)"
  shows "\<exists>c''. exec_workflow ev reg clock' (context_after (es @ later)) task = (c'', ExecOk vs)"
proof -
  from assms obtain name and f :: workflow_fn and args where f: "registry_get reg (wt_fn task) = Inr (FnValue name f)"
    "convert_inputs ev (wfn_in f) 1 (wt_input task) = ExecOk args"
    "\<not> Suc (length args) < length (wfn_in f)" "\<not> length (wfn_in f) < Suc (length args)" "takes_context (wfn_in f)"
    and run: "run_prog (wfn_body f args) (env_fmt ev) (Some (env_serde ev)) clock (context_after es) [] = (c', Returned vs)"
    by (auto simp: exec_workflow_def split: sum.splits fn_any.splits exec.splits if_splits prod.splits outcome.splits)
  have "ctx_extends (context_after es) (context_after (es @ later))" "futs_extend [] []"
    by (simp_all add: ctx_extends_def activity_outcomes_append futs_extend_def)
  from run_stable [OF run this] obtain c'' where
    "run_prog (wfn_body f args) (env_fmt ev) (Some (env_serde ev)) clock' (context_after (es @ later)) [] = (c'', Returned vs)"
    by blast
  with f show ?thesis by (simp add: exec_workflow_def)
qed

section \<open>Saving what a task recorded\<close>

lemma save_after_stream:
  assumes wf: "mem_wf (\<lambda>_. 0) mem" and es: "stream_events sd mem wid = Inr es"
    and ver: "root_version c = of_nat (length es + length (root_uncommitted c))"
    and lg: "st_id (root_state c) = wid"
    and room: "mem_total mem + length (root_uncommitted c) < 2 ^ 64"
    and surv: "list_all (survives wf_registry (wf_codec sd)) (root_uncommitted c)"
  shows "h_err (save_after (wf_save sd) mem d c) = None"
    and "h_disp (save_after (wf_save sd) mem d c) = Some d"
    and "stream_events sd (h_log (save_after (wf_save sd) mem d c)) wid = Inr (es @ root_uncommitted c)"
    and "mem_wf (\<lambda>_. 0) (h_log (save_after (wf_save sd) mem d c))"
proof -
  have "h_err (save_after (wf_save sd) mem d c) = None \<and> h_disp (save_after (wf_save sd) mem d c) = Some d \<and>
    stream_events sd (h_log (save_after (wf_save sd) mem d c)) wid = Inr (es @ root_uncommitted c) \<and>
    mem_wf (\<lambda>_. 0) (h_log (save_after (wf_save sd) mem d c))"
  proof (cases "root_uncommitted c = []")
    case True
    then show ?thesis
      using wf es by (simp add: save_after_def repo_save_def commit_events_def flush_uncommitted_events_def)
  next
    case False
    have dec: "wfmem.decoded sd mem wid = Inr es" using es by (simp add: stream_events_decoded)
    have surv': "list_all (survives (repo_registry (wf_repo sd)) (repo_codec (wf_repo sd))) (root_uncommitted c)"
      using surv by simp
    from wfmem.save_stores [OF wf lg ver room surv' False dec] obtain l' where
      "wf_save sd mem c = (l', c\<lparr>root_uncommitted := []\<rparr>, Inr (root_version c, root_uncommitted c))"
      "mem_wf (\<lambda>_. 0) l'" "wfmem.decoded sd l' wid = Inr (es @ root_uncommitted c)" by blast
    then show ?thesis by (simp add: save_after_def stream_events_decoded)
  qed
  then show "h_err (save_after (wf_save sd) mem d c) = None"
    "h_disp (save_after (wf_save sd) mem d c) = Some d"
    "stream_events sd (h_log (save_after (wf_save sd) mem d c)) wid = Inr (es @ root_uncommitted c)"
    "mem_wf (\<lambda>_. 0) (h_log (save_after (wf_save sd) mem d c))" by auto
qed

lemma process_activity_cases:
  assumes "process_activity_task ev reg now_ms c task = (c', err, pn)"
  obtains
    (missing) e where "registry_get reg (tk_fn task) = Inl e" "c' = c" "err = Some e" "pn = None"
  | (crash) p where "c' = c" "err = None" "pn = Some p"
  | (done_) rs where "err = None" "pn = None" "c' = fst (wf_record_that c (ActivityCompleted
        \<lparr>ac_id = tk_id task, ac_wf = tk_wf task, ac_fn = tk_fn task, ac_result = Some rs\<rparr>))"
  | (error) e where "err = None" "pn = None" "c' = settle_activity_error ev now_ms c task e"
proof (cases "registry_get reg (tk_fn task)")
  case (Inl e)
  with assms missing show thesis by (simp add: process_activity_task_def)
next
  case (Inr fn)
  note reg = this
  show thesis
  proof (cases "execute_activity_func ev fn (tk_input task)")
    case (ExecOk r)
    obtain rs e where r: "r = (rs, e)" by (cases r)
    show thesis
    proof (cases e)
      case None
      with assms reg ExecOk r show thesis by (intro done_ [of rs]) (simp_all add: process_activity_task_def)
    next
      case (Some e')
      with assms reg ExecOk r show thesis by (intro error [of e']) (simp_all add: process_activity_task_def)
    qed
  next
    case (ExecErr e)
    with assms reg show thesis by (intro error [of e]) (simp_all add: process_activity_task_def)
  next
    case (ExecPanic p)
    with assms reg show thesis by (intro crash [of p]) (simp_all add: process_activity_task_def)
  qed
qed

section \<open>What an activity task records\<close>

text \<open>
  The specification of the event for an activity \<open>f\<close> that returned \<open>rs\<close>: the text of its
  error, if it has an error result that is not nil, and the event.
\<close>

definition result_error :: "activity_fn \<Rightarrow> gval list \<Rightarrow> string option" where
  "result_error f rs =
     (if afn_errors f \<and> rs \<noteq> [] then (case List.last rs of GErr m \<Rightarrow> Some m | _ \<Rightarrow> None) else None)"

definition activity_verdict :: "'x env \<Rightarrow> i64 \<Rightarrow> activity_task \<Rightarrow> activity_fn \<Rightarrow> gval list \<Rightarrow> wf_event" where
  "activity_verdict ev now_ms task f rs =
     (case result_error f rs of
        None \<Rightarrow> ActivityCompleted \<lparr>ac_id = tk_id task, ac_wf = tk_wf task, ac_fn = tk_fn task, ac_result = Some rs\<rparr>
      | Some m \<Rightarrow>
          if evaluate_retry_decision (env_oor ev) now_ms task (ErrMsg m) then
            ActivityRetried \<lparr>ar_id = tk_id task, ar_wf = tk_wf task, ar_fn = tk_fn task, ar_attempt = tk_attempt task,
              ar_error = m, ar_next_delay = duration_ms (calculate_retry_delay (env_oor ev) task)\<rparr>
          else ActivityFailed \<lparr>af_id = tk_id task, af_wf = tk_wf task, af_fn = tk_fn task, af_error = m\<rparr>)"

lemma convert_activity_inputs_nth:
  "length args = length vs \<Longrightarrow>
    (\<And>j. j < length vs \<Longrightarrow> env_convert ev (vs ! j) (params ! Suc (i + j)) = Inr (args ! j)) \<Longrightarrow>
    convert_activity_inputs ev params i vs = Inr args"
proof (induction vs arbitrary: args i)
  case (Cons v vs)
  then obtain a as where args: "args = a # as" "length as = length vs" by (cases args) auto
  have "convert_activity_inputs ev params (Suc i) vs = Inr as"
  proof (rule Cons.IH [OF args(2)])
    fix j
    assume "j < length vs"
    with Cons.prems(2) [of "Suc j"] show "env_convert ev (vs ! j) (params ! Suc (Suc i + j)) = Inr (as ! j)"
      by (simp add: args(1))
  qed
  with Cons.prems(2) [of 0] show ?case by (simp add: args(1))
qed simp

lemma process_activity_returned:
  assumes "registry_get reg (tk_fn task) = Inr (FnValue name f)"
    and "length (afn_in f) = length (tk_input task) + 1" "afn_in f ! 0 = TCtx"
    and "convert_activity_inputs ev (afn_in f) 0 (tk_input task) = Inr args" and "afn_call f args = Inr rs"
  shows "process_activity_task ev reg now_ms c task =
    (fst (wf_record_that c (activity_verdict ev now_ms task f rs)), None, None)"
proof -
  have err: "(if rs \<noteq> [] \<and> afn_errors f then error_of (List.last rs) else None) = map_option ErrMsg (result_error f rs)"
    by (cases "List.last rs") (simp_all add: result_error_def error_of_def)
  have "execute_activity_func ev (FnValue name f) (tk_input task) = ExecOk (rs, map_option ErrMsg (result_error f rs))"
    unfolding err [symmetric] using assms(2-5) by (simp add: execute_activity_func_def)
  with assms(1) show ?thesis
    by (cases "result_error f rs")
      (simp_all add: process_activity_task_def activity_verdict_def settle_activity_error_def)
qed

section \<open>Properties\<close>

text \<open>
  (C10) What a workflow task does to the history, by the reference semantics of
  its function on the recorded outcomes. For a registered function and converted arguments, the new
  events are the schedulings of the calls without an outcome, and after them: the completion with
  exactly the returned values if the function returns, nothing if it waits, and the failure with
  the text of the panic if it panics. The task fails only in the last case, and with that error. The
  version counts the stored and the new events, so the append that follows expects the version that
  was loaded.
\<close>

theorem workflow_task_outcome:
  assumes "registry_get reg (wt_fn task) = Inr (FnValue name f)"
    and "convert_inputs ev (wfn_in f) 1 (wt_input task) = ExecOk args"
    and "length (wfn_in f) = Suc (length args)" and "takes_context (wfn_in f)"
    and "follow (wfn_body f args) (env_fmt ev) (Some (env_serde ev)) (activity_outcomes es) [] = (calls, oc)"
  shows "\<exists>c'. process_workflow_task ev reg clock (context_after es) task =
      (c', case oc of Panicked (OtherPanic m) \<Rightarrow> Some (ErrMsg (''workflow panic: '' @ m)) | _ \<Rightarrow> None) \<and>
    root_uncommitted c' =
      map (call_event clock (root_state (context_after es)) calls) (missing_calls (activity_outcomes es) calls) @
      (case oc of
         Returned vs \<Rightarrow> [completed_event task vs]
       | Panicked BlockingFuture \<Rightarrow> []
       | Panicked (OtherPanic m) \<Rightarrow> [failed_event task (ErrMsg (''workflow panic: '' @ m))]) \<and>
    root_version c' = of_nat (length es + length (root_uncommitted c'))"
proof -
  let ?p = "wfn_body f args" and ?us = "map (call_event clock (root_state (context_after es)) calls) (missing_calls (activity_outcomes es) calls)"
  obtain c1 where run: "run_prog ?p (env_fmt ev) (Some (env_serde ev)) clock (context_after es) [] = (c1, oc)"
    and c1: "root_uncommitted c1 = ?us" "root_version c1 = of_nat (length es + length (root_uncommitted c1))"
    using run_implements_follow [of ?p "env_fmt ev" "Some (env_serde ev)" clock es] assms(5) by auto
  have ex: "exec_workflow ev reg clock (context_after es) task =
      (c1, case oc of Returned vs \<Rightarrow> ExecOk vs | Panicked p \<Rightarrow> ExecPanic p)"
    using assms(1-4) run by (simp add: exec_workflow_def One_nat_def [symmetric] split: outcome.split del: One_nat_def)
  show ?thesis
  proof (cases oc)
    case (Returned vs)
    with ex c1 show ?thesis by (simp add: process_workflow_task_def completed_event_def)
  next
    case (Panicked pn)
    with ex c1 show ?thesis
      by (cases pn) (simp_all add: process_workflow_task_def fail_workflow_def failed_event_def)
  qed
qed

text \<open>A task whose function or arguments do not fit fails, and the failure is recorded.\<close>

theorem workflow_task_refused:
  assumes "registry_get reg (wt_fn task) = Inl e \<or>
    (\<exists>name f. registry_get reg (wt_fn task) = Inr (FnValue name f) \<and>
       convert_inputs ev (wfn_in f) 1 (wt_input task) = ExecErr e)"
  shows "\<exists>c'. process_workflow_task ev reg clock c task = (c', Some e) \<and>
    root_uncommitted c' = root_uncommitted c @ [failed_event task e]"
  using assms by (auto simp: process_workflow_task_def exec_workflow_def fail_workflow_def failed_event_def)

text \<open>
  Every completion of a workflow carries the same result. When the task of a
  workflow records a completion on some history, any later task of it, on that history with
  more events, records the completion with the same values again.
\<close>

theorem completion_is_stable:
  assumes "process_workflow_task ev reg clock (context_after es) task = (c', err)"
    and "completed_event task vs \<in> set (root_uncommitted c')"
  shows "\<exists>c''. process_workflow_task ev reg clock' (context_after (es @ later)) task = (c'', None) \<and>
    List.last (root_uncommitted c'') = completed_event task vs"
  using assms(1)
proof (cases rule: process_workflow_cases)
  case (waits evs)
  then show ?thesis using assms(2) by (auto simp: list_all_iff is_scheduled_def completed_event_def)
next
  case (fails evs e)
  then show ?thesis using assms(2) by (auto simp: list_all_iff is_scheduled_def completed_event_def failed_event_def)
next
  case (completes evs c1 us)
  then have "us = vs" using assms(2) by (auto simp: list_all_iff is_scheduled_def completed_event_def)
  with exec_workflow_stable [OF completes(1)] obtain c2 where
    "exec_workflow ev reg clock' (context_after (es @ later)) task = (c2, ExecOk vs)" by blast
  then show ?thesis by (simp add: process_workflow_task_def completed_event_def)
qed

text \<open>
  (C16) An activity task end to end, by the result of the activity. A registered
  activity gets the inputs of the task, each converted to the type of its parameter. If it panics,
  nothing is stored and the message is not settled. If it returns, the message is acknowledged and
  the history of its workflow is extended by exactly one event, the verdict on the returned values:
  the completion with exactly those values unless the last one is an error; then a retry with the
  task's attempt and the computed delay if the retry policy decides so, and a failure otherwise, with
  the text of the error. Asked: nobody appends between the load and the save, and the
  event survives the serializer.
\<close>

theorem activity_task_outcome:
  assumes reg: "registry_get reg (tk_fn task) = Inr (FnValue name f)"
    and arity: "length (afn_in f) = length (tk_input task) + 1" "afn_in f ! 0 = TCtx"
    and args: "length args = length (tk_input task)"
      "\<And>i. i < length args \<Longrightarrow> env_convert ev (tk_input task ! i) (afn_in f ! Suc i) = Inr (args ! i)"
    and wf: "mem_wf (\<lambda>_. 0) mem" and es: "stream_events sd mem (tk_id task) = Inr es" "es \<noteq> []"
    and surv: "\<And>rs. afn_call f args = Inr rs \<Longrightarrow> survives wf_registry (wf_codec sd) (activity_verdict ev now_ms task f rs)"
    and room: "mem_total mem + 1 < 2 ^ 64"
  shows "case afn_call f args of
      Inl p \<Rightarrow> handle_activity_task (wf_get sd) (wf_save sd) ev reg now_ms mem task =
        \<lparr>h_log = mem, h_disp = None, h_err = None, h_panic = Some p\<rparr>
    | Inr rs \<Rightarrow> \<exists>mem'. handle_activity_task (wf_get sd) (wf_save sd) ev reg now_ms mem task =
          \<lparr>h_log = mem', h_disp = Some Ack, h_err = None, h_panic = None\<rparr> \<and>
        stream_events sd mem' (tk_id task) = Inr (es @ [activity_verdict ev now_ms task f rs]) \<and>
        mem_wf (\<lambda>_. 0) mem'"
proof -
  have get: "wf_get sd mem (tk_id task) = Inr (context_after es)"
    using wfmem.get_decoded [OF wf, of sd "tk_id task" es] es
    by (simp add: stream_events_decoded replayed_context)
  have conv: "convert_activity_inputs ev (afn_in f) 0 (tk_input task) = Inr args"
    using args by (intro convert_activity_inputs_nth) simp_all
  show ?thesis
  proof (cases "afn_call f args")
    case (Inl p)
    with reg arity conv get show ?thesis
      by (simp add: handle_activity_task_def process_activity_task_def execute_activity_func_def)
  next
    case (Inr rs)
    let ?e = "activity_verdict ev now_ms task f rs"
    define c' where "c' = fst (wf_record_that (context_after es) ?e)"
    have proc: "process_activity_task ev reg now_ms (context_after es) task = (c', None, None)"
      using reg arity conv Inr by (simp add: process_activity_returned c'_def)
    have id: "event_wf_id ?e = tk_id task" by (simp add: activity_verdict_def split: option.split)
    have c': "root_version c' = of_nat (length es + length (root_uncommitted c'))"
      "st_id (root_state c') = tk_id task" "root_uncommitted c' = [?e]"
      using id by (simp_all add: c'_def context_after_def)
    have "handle_activity_task (wf_get sd) (wf_save sd) ev reg now_ms mem task = save_after (wf_save sd) mem Ack c'"
      using get proc by (simp add: handle_activity_task_def)
    moreover have "mem_total mem + length (root_uncommitted c') < 2 ^ 64"
      "list_all (survives wf_registry (wf_codec sd)) (root_uncommitted c')"
      using room surv [OF Inr] by (simp_all add: c'(3))
    note saved = save_after_stream [OF wf es(1) c'(1,2) this, of Ack]
    have "save_after (wf_save sd) mem Ack c' =
        \<lparr>h_log = h_log (save_after (wf_save sd) mem Ack c'), h_disp = Some Ack, h_err = None, h_panic = None\<rparr>"
      using saved(1,2) by (auto simp: save_after_def split: prod.splits sum.splits)
    ultimately show ?thesis using saved(3,4)
      by (simp add: Inr c'(3)) (intro exI [of _ "h_log (save_after (wf_save sd) mem Ack c')"], simp)
  qed
qed

text \<open>
  (C7) A workflow task end to end on the event log. If the stream of the
  task's workflow decodes and nobody appends between the load and the save, the message is
  acknowledged exactly when the task succeeded, and the stream is extended by the events the
  task recorded and nothing else.
\<close>

theorem workflow_task_extends_stream:
  assumes wf: "mem_wf (\<lambda>_. 0) mem" and es: "stream_events sd mem (wt_id task) = Inr es" "es \<noteq> []"
    and owner: "st_id (root_state (context_after es)) = wt_id task"
    and proc: "process_workflow_task ev reg clock (context_after es) task = (c', err)"
    and surv: "list_all (survives wf_registry (wf_codec sd)) (root_uncommitted c')"
    and room: "mem_total mem + length (root_uncommitted c') < 2 ^ 64"
  shows "\<exists>mem'. handle_workflow_task (wf_get sd) (wf_save sd) ev reg clock mem task =
      \<lparr>h_log = mem', h_disp = Some (if err = None then Ack else Nak), h_err = None, h_panic = None\<rparr> \<and>
    stream_events sd mem' (wt_id task) = Inr (es @ root_uncommitted c') \<and> mem_wf (\<lambda>_. 0) mem'"
proof -
  have get: "wf_get sd mem (wt_id task) = Inr (context_after es)"
    using wfmem.get_decoded [OF wf, of sd "wt_id task" es] es
    by (simp add: stream_events_decoded replayed_context)
  have ver: "root_version c' = of_nat (length es + length (root_uncommitted c'))"
    and id: "st_id (root_state c') = wt_id task"
    using proc owner
    by (cases rule: process_workflow_cases; simp add: context_after_def)+
  define d where "d = (if err = None then Ack else Nak)"
  have "handle_workflow_task (wf_get sd) (wf_save sd) ev reg clock mem task = save_after (wf_save sd) mem d c'"
    using get proc by (simp add: handle_workflow_task_def d_def split: option.split)
  moreover have "save_after (wf_save sd) mem d c' =
      \<lparr>h_log = h_log (save_after (wf_save sd) mem d c'), h_disp = Some d, h_err = None, h_panic = None\<rparr>"
    using save_after_stream(1,2) [OF wf es(1) ver id room surv, of d]
    by (auto simp: save_after_def split: prod.splits sum.splits)
  ultimately show ?thesis
    using save_after_stream(3,4) [OF wf es(1) ver id room surv, of d] by (auto simp: d_def)
qed

text \<open>
  The message is settled before the events are saved. When another task
  extended the stream after this activity task loaded it, the task's result is not stored, the
  save reports a conflict that ends the worker, and yet the message was acknowledged, so that
  nobody will run the activity again.
\<close>

theorem acknowledged_result_lost:
  assumes wf: "mem_wf (\<lambda>_. 0) mem"
    and stale: "length es \<noteq> length (mem_contents mem (tk_id task))" "length es < 2 ^ 64"
    and proc: "process_activity_task ev reg now_ms (context_after es) task = (c', None, None)"
    and surv: "list_all (survives wf_registry (wf_codec sd)) (root_uncommitted c')"
  shows "\<exists>e. handle_activity_task (\<lambda>_ _. Inr (context_after es)) (wf_save sd) ev reg now_ms mem task =
      \<lparr>h_log = mem, h_disp = Some Ack, h_err = Some e, h_panic = None\<rparr> \<and>
    as_conflict e = Some (of_nat (length es), of_nat (length (mem_contents mem (tk_id task))))"
proof -
  have one: "root_version c' - of_nat (length (root_uncommitted c')) = of_nat (length es)"
    "root_uncommitted c' \<noteq> []" "st_id (root_state c') = tk_id task"
    using proc
    by (cases rule: process_activity_cases; simp add: settle_activity_error_def context_after_def split: if_splits)+
  obtain raws where raws: "serialize_all (wf_codec sd) (root_uncommitted c') = Inr raws"
    using survives_serialized [OF surv] by blast
  have "length (mem_contents mem (tk_id task)) < 2 ^ 64"
    using memlog.contents_total [OF wf, of "tk_id task"] memlog.total_bound [OF wf] by simp
  then have "(of_nat (length es) :: u64) \<noteq> of_nat (length (mem_contents mem (tk_id task)))"
    using stale of_nat_u64_inj [of "length es" "length (mem_contents mem (tk_id task))"] by blast
  then have "root_version c' - of_nat (length (root_uncommitted c')) \<noteq> of_nat (length (mem_contents mem (tk_id task)))"
    by (simp only: one(1) not_False_eq_True)
  from wfmem.save_conflict [OF wf one(3) _ one(2) this, of sd raws] raws obtain e where
    e: "wf_save sd mem c' = (mem, c'\<lparr>root_uncommitted := []\<rparr>, Inl e)"
    "as_conflict e = Some (root_version c' - of_nat (length (root_uncommitted c')),
       of_nat (length (mem_contents mem (tk_id task))))"
    by auto
  from e(2) one(1) have "as_conflict e = Some (of_nat (length es), of_nat (length (mem_contents mem (tk_id task))))"
    by (simp only:)
  moreover have "handle_activity_task (\<lambda>_ _. Inr (context_after es)) (wf_save sd) ev reg now_ms mem task =
      \<lparr>h_log = mem, h_disp = Some Ack, h_err = Some e, h_panic = None\<rparr>"
    using proc e(1) by (simp add: handle_activity_task_def save_after_def)
  ultimately show ?thesis by blast
qed

section \<open>Witnesses\<close>

definition demo_env :: "datum env" where
  "demo_env = \<lparr>env_serde = demo_serde, env_oor = (\<lambda>_. 0), env_fmt = (\<lambda>_. [])\<rparr>"

definition demo_workflows :: "workflow_fn fn_registry" where
  "demo_workflows = [''main'' \<mapsto> FnValue ''main'' \<lparr>wfn_in = [TWfCtx], wfn_body = (\<lambda>_. demo_workflow)\<rparr>]"

definition demo_activities :: "activity_fn fn_registry" where
  "demo_activities = [''greet'' \<mapsto> FnValue ''greet''
     \<lparr>afn_in = [TCtx], afn_errors = True, afn_call = (\<lambda>_. Inr [GStr ''hi'', GNil])\<rparr>]"

definition demo_wtask :: workflow_task where
  "demo_wtask = \<lparr>wt_id = ''w1'', wt_fn = ''main'', wt_input = []\<rparr>"

lemma demo_process_blocked:
  "process_workflow_task demo_env demo_workflows (\<lambda>_. 0) (context_after [demo_started]) demo_wtask =
    (fst (process_workflow_task demo_env demo_workflows (\<lambda>_. 0) (context_after [demo_started]) demo_wtask), None) \<and>
   root_uncommitted (fst (process_workflow_task demo_env demo_workflows (\<lambda>_. 0) (context_after [demo_started]) demo_wtask))
    = [demo_scheduled ''bob'']"
proof -
  let ?c = "(context_after [demo_started])\<lparr>root_state := consume (root_state (context_after [demo_started])) ''greet'',
        root_uncommitted := [demo_scheduled ''bob''], root_version := 2\<rparr>"
  have "run_prog demo_workflow (\<lambda>_. []) (Some demo_serde) (\<lambda>_. 0) (context_after [demo_started]) [] =
      (?c, Panicked BlockingFuture)"
    by (simp add: demo_defs context_after_def step_of_def execute_fresh Let_def replay_of_def empty_state_def
      set_ident_def get_activity_options_def ctx_lookup_def schedule_event_def consume_def)
  then have "process_workflow_task demo_env demo_workflows (\<lambda>_. 0) (context_after [demo_started]) demo_wtask = (?c, None)"
    by (simp add: process_workflow_task_def exec_workflow_def demo_workflows_def demo_wtask_def registry_get_def
        takes_context_def demo_env_def)
  then show ?thesis by simp
qed

lemma demo_process_completed:
  "process_workflow_task demo_env demo_workflows (\<lambda>_. 0) (context_after [demo_completed ''hi'']) demo_wtask =
    (fst (process_workflow_task demo_env demo_workflows (\<lambda>_. 0) (context_after [demo_completed ''hi'']) demo_wtask), None) \<and>
   root_uncommitted (fst (process_workflow_task demo_env demo_workflows (\<lambda>_. 0) (context_after [demo_completed ''hi'']) demo_wtask))
    = [completed_event demo_wtask [GNil, GNil]]"
  by (simp add: process_workflow_task_def exec_workflow_def demo_workflows_def demo_wtask_def registry_get_def
      takes_context_def demo_env_def demo_workflow_def call_activity_def execute_replayed demo_completed_def
      future_of_def blocking_get_def demo_get_def completed_event_def)

theorem workflow_task_outcome_witness:
  "\<exists>c'. process_workflow_task demo_env demo_workflows (\<lambda>_. 0) (context_after [demo_started, demo_completed ''hi'']) demo_wtask
      = (c', None) \<and>
    root_uncommitted c' = [completed_event demo_wtask [GNil, GNil]] \<and> root_version c' = 3"
proof -
  have "follow demo_workflow (\<lambda>_. []) (Some demo_serde) (activity_outcomes [demo_started, demo_completed ''hi'']) [] =
      ([\<lparr>call_fn = ''greet'', call_args = [GStr ''bob''], call_options = None\<rparr>], Returned [GNil, GNil])"
    by (simp add: demo_workflow_def call_activity_def demo_started_def demo_completed_def next_outcome_def nth_opt_def
        outcome_at_def made_def get_activity_options_def ctx_lookup_def options_of_def future_of_def blocking_get_def
        demo_get_def)
  with workflow_task_outcome [of demo_workflows demo_wtask "''main''" "\<lparr>wfn_in = [TWfCtx], wfn_body = (\<lambda>_. demo_workflow)\<rparr>"
      demo_env "[]" "[demo_started, demo_completed ''hi'']"
      "[\<lparr>call_fn = ''greet'', call_args = [GStr ''bob''], call_options = None\<rparr>]" "Returned [GNil, GNil]" "\<lambda>_. 0"]
  show ?thesis
    by (auto simp: registry_get_def demo_workflows_def demo_wtask_def takes_context_def demo_env_def missing_calls_def
        outcome_at_def next_outcome_def nth_opt_def made_def demo_started_def demo_completed_def)
qed

theorem completion_is_stable_witness:
  "\<exists>c''. process_workflow_task demo_env demo_workflows (\<lambda>_. 5)
      (context_after ([demo_completed ''hi''] @ [demo_completed ''ho''])) demo_wtask = (c'', None) \<and>
    List.last (root_uncommitted c'') = completed_event demo_wtask [GNil, GNil]"
  by (rule completion_is_stable [OF conjunct1 [OF demo_process_completed]])
    (simp add: conjunct2 [OF demo_process_completed])

lemma demo_activity_done:
  "process_activity_task demo_env demo_activities 0 (context_after [demo_started]) (demo_task 1) =
    (fst (wf_record_that (context_after [demo_started]) (demo_completed ''hi'')), None, None)"
  by (simp add: process_activity_task_def execute_activity_func_def demo_activities_def demo_task_def registry_get_def
      error_of_def demo_completed_def)

text \<open>An activity that fails: its second attempt is retried, its third is the last one.\<close>

definition demo_unreliable :: "activity_fn fn_registry" where
  "demo_unreliable = [''greet'' \<mapsto> FnValue ''greet''
     \<lparr>afn_in = [TCtx, TStr], afn_errors = True, afn_call = (\<lambda>_. Inr [GNil, GErr ''net''])\<rparr>]"

theorem activity_task_outcome_witness:
  "\<exists>mem'. handle_activity_task (wf_get demo_serde) (wf_save demo_serde) demo_env demo_unreliable 0 (demo_store [demo_started])
      ((demo_task 3)\<lparr>tk_input := [GStr ''bob'']\<rparr>) = \<lparr>h_log = mem', h_disp = Some Ack, h_err = None, h_panic = None\<rparr> \<and>
    stream_events demo_serde mem' ''w1'' = Inr [demo_started,
      ActivityFailed \<lparr>af_id = ''w1'', af_wf = ''main'', af_fn = ''greet'', af_error = ''net''\<rparr>]"
proof -
  let ?f = "\<lparr>afn_in = [TCtx, TStr], afn_errors = True, afn_call = (\<lambda>_ :: gval list. Inr [GNil, GErr ''net''] :: panic + gval list)\<rparr>"
  let ?t = "(demo_task 3)\<lparr>tk_input := [GStr ''bob'']\<rparr>"
  have conv: "env_convert demo_env (GStr ''bob'') TStr = Inr (GStr ''bob'')"
    by (simp add: env_convert_def convert_to_type_def)
  have room: "mem_total (demo_store [demo_started]) + 1 < 2 ^ 64"
    using demo_store_facts(3) [of "[demo_started]"] by simp
  have verdict: "activity_verdict demo_env 0 ?t ?f [GNil, GErr ''net''] =
      ActivityFailed \<lparr>af_id = ''w1'', af_wf = ''main'', af_fn = ''greet'', af_error = ''net''\<rparr>"
    by (simp add: activity_verdict_def result_error_def evaluate_retry_decision_def demo_task_def demo_policy_def)
  have "registry_get demo_unreliable (tk_fn ?t) = Inr (FnValue ''greet'' ?f)"
    by (simp add: registry_get_def demo_unreliable_def demo_task_def)
  from activity_task_outcome [OF this _ _ _ _ demo_store_facts(1) _ _ _ room, of "[GStr ''bob'']" demo_env demo_serde "[demo_started]" 0]
    demo_store_facts(2) [of "[demo_started]"] conv verdict
  show ?thesis by (auto simp: demo_task_def)
qed

theorem workflow_task_extends_stream_witness:
  "\<exists>mem'. handle_workflow_task (wf_get demo_serde) (wf_save demo_serde) demo_env demo_workflows (\<lambda>_. 0)
      (demo_store [demo_started]) demo_wtask =
      \<lparr>h_log = mem', h_disp = Some Ack, h_err = None, h_panic = None\<rparr> \<and>
    stream_events demo_serde mem' ''w1'' = Inr [demo_started, demo_scheduled ''bob'']"
proof -
  have es: "stream_events demo_serde (demo_store [demo_started]) (wt_id demo_wtask) = Inr [demo_started]"
    using demo_store_facts(2) [of "[demo_started]"] by (simp add: demo_wtask_def)
  have wf: "mem_wf (\<lambda>_. 0) (demo_store [demo_started])" by (rule demo_store_facts(1)) simp_all
  have owner: "st_id (root_state (context_after [demo_started])) = wt_id demo_wtask"
    by (simp add: context_after_def demo_started_def demo_wtask_def)
  note proc = conjunct1 [OF demo_process_blocked] and unc = conjunct2 [OF demo_process_blocked]
  have room: "mem_total (demo_store [demo_started]) + length (root_uncommitted (fst (process_workflow_task demo_env
      demo_workflows (\<lambda>_. 0) (context_after [demo_started]) demo_wtask))) < 2 ^ 64"
    using demo_store_facts(3) [of "[demo_started]"] by (simp add: unc)
  from workflow_task_extends_stream [OF wf es _ owner proc _ room] unc show ?thesis
    by (auto simp: demo_wtask_def)
qed

theorem acknowledged_result_lost_witness:
  "\<exists>e. handle_activity_task (\<lambda>_ _. Inr (context_after [demo_started])) (wf_save demo_serde) demo_env demo_activities 0
      (demo_store [demo_started, demo_completed ''hi'']) (demo_task 1) =
      \<lparr>h_log = demo_store [demo_started, demo_completed ''hi''], h_disp = Some Ack, h_err = Some e, h_panic = None\<rparr>"
proof -
  let ?es = "[demo_started, demo_completed ''hi'']"
  have "mem_contents (demo_store ?es) ''w1'' = map demo_raw ?es"
    using memlog.append_extends(1) [OF new_memory_wf, of "map demo_raw ?es" "''w1''" 0 "demo_store ?es" 2]
    by (simp add: demo_store_def mem_append_cases mem_contents_def mem_total_def)
  then have "length [demo_started] \<noteq> length (mem_contents (demo_store ?es) (tk_id (demo_task 1)))"
    by (simp add: demo_task_def)
  from acknowledged_result_lost [OF demo_store_facts(1) this _ demo_activity_done, of demo_serde] show ?thesis
    by auto
qed

end
