(* ===== verification/DF_Projection.thy ===== *)
theory DF_Projection
  imports DF_Worker
begin

text \<open>
  The server's projectors, \<open>internal/server/projection\<close>: each consumes the history stream and
  reacts to one message at a time. A reaction says how the message is settled and what was
  published or stored; what JetStream answers (the result of a publish, of a KV access, of a
  fetch) is an argument. \<open>None\<close> as settlement means that the callback panicked.
\<close>

record msg_meta =
  meta_consumer_seq :: u64
  meta_timestamp_ms :: i64

record 'x msg =
  msg_subject :: string
  msg_data :: "'x list"
  msg_header :: "(string \<times> string) list"
  msg_meta :: "gerr + msg_meta"

record 'x publish =
  pub_subject :: string
  pub_data :: "'x list"
  pub_header :: "(string \<times> string) list"
  pub_msg_id :: "string option"

record 'x reaction =
  re_disp :: "disposition option"
  re_published :: "'x publish list"
  re_put :: "(string \<times> string \<times> 'x list) list"

definition settle :: "disposition \<Rightarrow> 'x reaction" where
  "settle d = \<lparr>re_disp = Some d, re_published = [], re_put = []\<rparr>"

definition header_get :: "(string \<times> string) list \<Rightarrow> string \<Rightarrow> string" where
  "header_get h k = (case map_of h k of None \<Rightarrow> [] | Some v \<Rightarrow> v)"

section \<open>Decoding history events\<close>

definition event_factories :: "string \<Rightarrow> wf_kind option" where
  "event_factories name = map_of (map (\<lambda>k. (kind_name k, k)) all_kinds) name"

definition has_key :: "string list \<Rightarrow> string \<Rightarrow> bool" where
  "has_key raw k = (k \<in> set raw)"

text \<open>The decision of \<open>inferWorkflowEventType\<close> on the keys of the decoded map.\<close>

definition infer_from_keys :: "string list \<Rightarrow> gerr + string" where
  "infer_from_keys raw =
     (if has_key raw ''wf_name'' then
        (if has_key raw ''result'' then Inr (kind_name KActivityCompleted)
         else if has_key raw ''error'' \<and> has_key raw ''attempt'' then Inr (kind_name KActivityRetried)
         else if has_key raw ''error'' then Inr (kind_name KActivityFailed)
         else if has_key raw ''input'' then Inr (kind_name KActivityScheduled)
         else Inr (kind_name KActivityStarted))
      else
        (if has_key raw ''result'' then Inr (kind_name KWorkflowCompleted)
         else if has_key raw ''error'' then Inr (kind_name KWorkflowFailed)
         else if has_key raw ''input'' then Inr (kind_name KWorkflowStarted)
         else Inl (ErrMsg ''could not infer workflow event type from payload'')))"

definition infer_workflow_event_type :: "'x serde \<Rightarrow> 'x list \<Rightarrow> gerr + string" where
  "infer_workflow_event_type sd payload =
     (case de_keys sd payload of
        Inl e \<Rightarrow> Inl (ErrWrap ''infer workflow event type'' e)
      | Inr raw \<Rightarrow> infer_from_keys raw)"

definition decode_workflow_event :: "'x serde \<Rightarrow> 'x msg \<Rightarrow> gerr + wf_event" where
  "decode_workflow_event sd m =
     (if msg_data m = [] then Inl (ErrMsg ''empty workflow event payload'')
      else
        (let name = header_get (msg_header m) event_name_header in
         case (if name = [] then infer_workflow_event_type sd (msg_data m) else Inr name) of
           Inl e \<Rightarrow> Inl e
         | Inr ty \<Rightarrow>
            (case event_factories ty of
               None \<Rightarrow> Inl (ErrMsg (''unsupported workflow event type '' @ quoted ty))
             | Some k \<Rightarrow>
                (case de_event sd k (msg_data m) of
                   Inl e \<Rightarrow> Inl (ErrWrap (''decode workflow event ('' @ ty @ '')'') e)
                 | Inr ev \<Rightarrow> Inr ev))))"

text \<open>The keys of the JSON object of each event, from the struct tags; optional ones left out.\<close>

fun json_keys :: "wf_kind \<Rightarrow> string list" where
  "json_keys KWorkflowStarted = [''id'', ''name'', ''input'']"
| "json_keys KActivityScheduled = [''id'', ''wf_name'', ''name'', ''input'']"
| "json_keys KActivityStarted = [''id'', ''wf_name'', ''name'']"
| "json_keys KActivityCompleted = [''id'', ''wf_name'', ''name'', ''result'']"
| "json_keys KActivityFailed = [''id'', ''wf_name'', ''name'', ''error'']"
| "json_keys KActivityRetried = [''id'', ''wf_name'', ''name'', ''attempt'', ''error'', ''next_retry_delay_ms'']"
| "json_keys KWorkflowFailed = [''id'', ''name'', ''error'']"
| "json_keys KWorkflowCompleted = [''id'', ''name'', ''result'']"

definition json_optional_keys :: "string list" where
  "json_optional_keys = [''schedule_to_close_timeout_unix'', ''start_to_close_timeout_ms'', ''retry_policy'']"

text \<open>The struct field names, which a serializer that ignores the JSON tags uses as keys.\<close>

fun field_keys :: "wf_kind \<Rightarrow> string list" where
  "field_keys KWorkflowStarted = [''ID'', ''WorkflowFnName'', ''Input'']"
| "field_keys KActivityScheduled = [''ID'', ''WorkflowFnName'', ''ActivityFnName'', ''Input'',
     ''ScheduleToCloseTimeoutUnix'', ''StartToCloseTimeoutUnix'', ''RetryPolicy'']"
| "field_keys KActivityStarted = [''ID'', ''WorkflowFnName'', ''ActivityFnName'']"
| "field_keys KActivityCompleted = [''ID'', ''WorkflowFnName'', ''ActivityFnName'', ''Result'']"
| "field_keys KActivityFailed = [''ID'', ''WorkflowFnName'', ''ActivityFnName'', ''Error'']"
| "field_keys KActivityRetried = [''ID'', ''WorkflowFnName'', ''ActivityFnName'', ''Attempt'', ''Error'', ''NextRetryDelay'']"
| "field_keys KWorkflowFailed = [''ID'', ''WorkflowFnName'', ''Error'']"
| "field_keys KWorkflowCompleted = [''ID'', ''WorkflowFnName'', ''Result'']"

section \<open>Workflow tasks\<close>

text \<open>\<open>bucket\<close>: the input bucket, or the error of opening it.\<close>

definition load_workflow_input_args ::
    "'x serde \<Rightarrow> gerr + (string \<Rightarrow> gerr + 'x list) \<Rightarrow> string \<Rightarrow> string \<Rightarrow> gerr + gval list" where
  "load_workflow_input_args sd bucket fn wid =
     (case bucket of
        Inl e \<Rightarrow> Inl (ErrWrap ''failed to get KV store'' e)
      | Inr kv \<Rightarrow>
         (let key = workflow_input_key fn wid in
          case kv key of
            Inl e \<Rightarrow> Inl (ErrWrap (''failed to get input args from KV for '' @ key) e)
          | Inr bs \<Rightarrow>
             (case de_args sd bs of
                Inl e \<Rightarrow> Inl (ErrWrap ''failed to deserialize input args from KV'' e)
              | Inr args \<Rightarrow> Inr args)))"

definition publish_workflow_task ::
    "'x serde \<Rightarrow> ('x publish \<Rightarrow> gerr option) \<Rightarrow> msg_meta \<Rightarrow> string \<Rightarrow> string \<Rightarrow> gval list \<Rightarrow> 'x reaction" where
  "publish_workflow_task sd publish meta wid fn args =
     (case ser_wtask sd \<lparr>wt_id = wid, wt_fn = fn, wt_input = args\<rparr> of
        Inl e \<Rightarrow> settle Nak
      | Inr bs \<Rightarrow>
         (let m = \<lparr>pub_subject = ''workflow.'' @ wid @ ''.tasks'', pub_data = bs, pub_header = [],
                   pub_msg_id = Some (''wftask-'' @ wid @ ''-'' @ format_uint (meta_consumer_seq meta))\<rparr>
          in case publish m of
               Some e \<Rightarrow> settle Nak
             | None \<Rightarrow> (settle Ack)\<lparr>re_published := [m]\<rparr>))"

definition project_workflow_task ::
    "'x serde \<Rightarrow> gerr + (string \<Rightarrow> gerr + 'x list) \<Rightarrow> ('x publish \<Rightarrow> gerr option) \<Rightarrow> 'x msg \<Rightarrow> 'x reaction" where
  "project_workflow_task sd bucket publish m =
     (case decode_workflow_event sd m of
        Inl e \<Rightarrow> settle Term
      | Inr ev \<Rightarrow>
         (case msg_meta m of
            Inl e \<Rightarrow> settle Term
          | Inr meta \<Rightarrow>
             (case ev of
                WorkflowStarted e \<Rightarrow> publish_workflow_task sd publish meta (ws_id e) (ws_fn e) (ws_input e)
              | ActivityCompleted e \<Rightarrow>
                  (case load_workflow_input_args sd bucket (ac_wf e) (ac_id e) of
                     Inl _ \<Rightarrow> settle Term
                   | Inr args \<Rightarrow> publish_workflow_task sd publish meta (ac_id e) (ac_wf e) args)
              | ActivityFailed e \<Rightarrow>
                  (case load_workflow_input_args sd bucket (af_wf e) (af_id e) of
                     Inl _ \<Rightarrow> settle Term
                   | Inr args \<Rightarrow> publish_workflow_task sd publish meta (af_id e) (af_wf e) args)
              | _ \<Rightarrow> settle Ack)))"

section \<open>Activity tasks\<close>

definition first_attempt :: "i64 \<Rightarrow> activity_scheduled \<Rightarrow> activity_task" where
  "first_attempt now_ms e =
     \<lparr>tk_wf = as_wf e, tk_id = as_id e, tk_fn = as_fn e, tk_input = as_input e, tk_last_seq = 0,
      tk_attempt = 1, tk_schedule_to_close = as_schedule_to_close e, tk_start_to_close = as_start_to_close e,
      tk_retry = as_retry e, tk_scheduled_at_ms = now_ms\<rparr>"

definition project_activity_task ::
    "'x serde \<Rightarrow> i64 \<Rightarrow> ('x publish \<Rightarrow> gerr option) \<Rightarrow> 'x msg \<Rightarrow> 'x reaction" where
  "project_activity_task sd now_ms publish m =
     (case decode_workflow_event sd m of
        Inl e \<Rightarrow> settle Term
      | Inr ev \<Rightarrow>
         (case msg_meta m of
            Inl e \<Rightarrow> settle Term
          | Inr meta \<Rightarrow>
             (case ev of
                ActivityScheduled e \<Rightarrow>
                  (case ser_atask sd (first_attempt now_ms e) of
                     Inl _ \<Rightarrow> settle Term
                   | Inr bs \<Rightarrow>
                      (let parts = go_split (CHR ''.'') (msg_subject m) in
                       if length parts \<le> 1 then \<lparr>re_disp = None, re_published = [], re_put = []\<rparr>
                       else
                         (let p = \<lparr>pub_subject = ''activity.'' @ parts ! 1 @ ''.tasks'', pub_data = bs, pub_header = [],
                               pub_msg_id = Some (''actask-'' @ as_id e @ ''-'' @ format_uint (meta_consumer_seq meta))\<rparr>
                          in case publish p of
                               Some _ \<Rightarrow> settle Nak
                             | None \<Rightarrow> (settle Ack)\<lparr>re_published := [p]\<rparr>)))
              | _ \<Rightarrow> settle Ack)))"

section \<open>Activity retries\<close>

text \<open>
  The callback settles the message and leaves the retry to a goroutine that first sleeps for the
  delay of the event: the second result is the retry it starts, with its delay.
\<close>

definition project_activity_retry :: "'x serde \<Rightarrow> 'x msg \<Rightarrow> 'x reaction \<times> (i64 \<times> activity_retried) option" where
  "project_activity_retry sd m =
     (case decode_workflow_event sd m of
        Inl e \<Rightarrow> (settle Term, None)
      | Inr ev \<Rightarrow>
         (case msg_meta m of
            Inl e \<Rightarrow> (settle Term, None)
          | Inr _ \<Rightarrow>
             (case ev of
                ActivityRetried e \<Rightarrow> (settle Ack, Some (ar_next_delay e * millisecond_ns, e))
              | _ \<Rightarrow> (settle Ack, None))))"

text \<open>The first scheduling of the activity among the fetched messages, with its time.\<close>

definition zero_time_ms :: i64 where
  "zero_time_ms = word_of_int (- 62135596800000)"

fun find_scheduled :: "'x serde \<Rightarrow> string \<Rightarrow> 'x msg list \<Rightarrow> (activity_scheduled \<times> i64) option" where
  "find_scheduled sd fn [] = None"
| "find_scheduled sd fn (m # ms) =
     (case decode_workflow_event sd m of
        Inr (ActivityScheduled e) \<Rightarrow>
          if as_fn e = fn then
            Some (e, case msg_meta m of Inr meta \<Rightarrow> meta_timestamp_ms meta | Inl _ \<Rightarrow> zero_time_ms)
          else find_scheduled sd fn ms
      | _ \<Rightarrow> find_scheduled sd fn ms)"

text \<open>
  \<open>consumer\<close> is the outcome of creating the consumer on \<open>history.<id>\<close> and \<open>fetch n\<close> that of
  fetching at most \<open>n\<close> messages from it, oldest first.
\<close>

definition fetch_activity_task_from_history ::
    "'x serde \<Rightarrow> gerr option \<Rightarrow> (nat \<Rightarrow> gerr + 'x msg list) \<Rightarrow> activity_retried \<Rightarrow> gerr + activity_task" where
  "fetch_activity_task_from_history sd consumer fetch e =
     (case consumer of
        Some err \<Rightarrow> Inl (ErrWrap ''failed to create history consumer'' err)
      | None \<Rightarrow>
         (case fetch 100 of
            Inl err \<Rightarrow> Inl (ErrWrap ''failed to fetch history'' err)
          | Inr ms \<Rightarrow>
             (case find_scheduled sd (ar_fn e) ms of
                None \<Rightarrow> Inl (ErrMsg (''could not find ActivityScheduled event for '' @ ar_fn e @ '' in workflow '' @ ar_id e))
              | Some (s, t) \<Rightarrow>
                  Inr \<lparr>tk_wf = ar_wf e, tk_id = ar_id e, tk_fn = ar_fn e, tk_input = as_input s, tk_last_seq = 0,
                    tk_attempt = ar_attempt e + 1, tk_schedule_to_close = as_schedule_to_close s,
                    tk_start_to_close = as_start_to_close s, tk_retry = as_retry s, tk_scheduled_at_ms = t\<rparr>)))"

text \<open>What the goroutine publishes after the delay; any error ends it without a trace.\<close>

definition publish_retry ::
    "'x serde \<Rightarrow> gerr option \<Rightarrow> (nat \<Rightarrow> gerr + 'x msg list) \<Rightarrow> ('x publish \<Rightarrow> gerr option) \<Rightarrow> i64
      \<Rightarrow> activity_retried \<Rightarrow> 'x publish list" where
  "publish_retry sd consumer fetch publish now_ns e =
     (case fetch_activity_task_from_history sd consumer fetch e of
        Inl _ \<Rightarrow> []
      | Inr task \<Rightarrow>
         (case ser_atask sd (task\<lparr>tk_attempt := ar_attempt e + 1\<rparr>) of
            Inl _ \<Rightarrow> []
          | Inr bs \<Rightarrow>
             (let p = \<lparr>pub_subject = ''activity.'' @ go_split (CHR ''.'') (ar_id e) ! 0 @ ''.tasks'', pub_data = bs,
                       pub_header = [],
                       pub_msg_id = Some (''actask-retry-'' @ ar_id e @ ''-'' @ int_str (sint (ar_attempt e + 1)) @
                         ''-'' @ int_str (sint now_ns))\<rparr>
              in case publish p of Some _ \<Rightarrow> [] | None \<Rightarrow> [p])))"

section \<open>Workflow results\<close>

definition workflow_result_bucket :: string where "workflow_result_bucket = ''workflow-result''"

definition project_workflow_result ::
    "'x serde \<Rightarrow> (string \<Rightarrow> string \<Rightarrow> 'x list \<Rightarrow> gerr option) \<Rightarrow> 'x msg \<Rightarrow> 'x reaction" where
  "project_workflow_result sd put m =
     (case decode_workflow_event sd m of
        Inl e \<Rightarrow> settle Term
      | Inr ev \<Rightarrow>
         (case ev of
            WorkflowCompleted e \<Rightarrow>
              (let bs = (case ser_args sd (wc_result e) of Inl _ \<Rightarrow> [] | Inr bs \<Rightarrow> bs) in
               case put workflow_result_bucket (wc_id e) bs of
                 Some _ \<Rightarrow> settle Nak
               | None \<Rightarrow> (settle Ack)\<lparr>re_put := [(workflow_result_bucket, wc_id e, bs)]\<rparr>)
          | _ \<Rightarrow> settle Ack))"

section \<open>Lemmas\<close>

lemma event_factories_name [simp]: "event_factories (kind_name k) = Some k"
  by (cases k) (simp_all add: event_factories_def all_kinds_def)

lemma kind_name_nonempty [simp]: "kind_name k \<noteq> []"
  by (cases k) simp_all

text \<open>A message with the event name in its header is decoded by that name.\<close>

lemma decode_by_header:
  assumes "msg_data m \<noteq> []" and "header_get (msg_header m) event_name_header = event_name e"
    and "de_event sd (kind_of e) (msg_data m) = Inr e"
  shows "decode_workflow_event sd m = Inr e"
  using assms by (simp add: decode_workflow_event_def event_name_def)

lemma decode_cong:
  "msg_data m' = msg_data m \<Longrightarrow> msg_header m' = msg_header m \<Longrightarrow>
     decode_workflow_event sd m' = decode_workflow_event sd m"
  unfolding decode_workflow_event_def by (simp only:)

definition needs_workflow_task :: "wf_event \<Rightarrow> bool" where
  "needs_workflow_task e = (kind_of e \<in> {KWorkflowStarted, KActivityCompleted, KActivityFailed})"

lemma find_scheduled_first:
  assumes "\<And>x s. x \<in> set pre \<Longrightarrow> decode_workflow_event sd x = Inr (ActivityScheduled s) \<Longrightarrow> as_fn s \<noteq> fn"
    and "decode_workflow_event sd m = Inr (ActivityScheduled s)" and "as_fn s = fn"
  shows "\<exists>t. find_scheduled sd fn (pre @ m # post) = Some (s, t)"
  using assms(1)
proof (induction pre)
  case Nil
  then show ?case using assms(2,3) by simp
next
  case (Cons x pre)
  then have ih: "\<exists>t. find_scheduled sd fn (pre @ m # post) = Some (s, t)"
    by (intro Cons.IH) (use Cons.prems in \<open>simp; blast\<close>)
  show ?case
  proof (cases "decode_workflow_event sd x")
    case (Inl e)
    with ih show ?thesis by simp
  next
    case (Inr ev)
    with ih Cons.prems [of x] show ?thesis by (cases ev) auto
  qed
qed

lemma published_retry:
  assumes "q \<in> set (publish_retry sd consumer fetch publish now_ns e)"
  obtains t where "ser_atask sd t = Inr (pub_data q)" "tk_attempt t = ar_attempt e + 1" "tk_fn t = ar_fn e"
    "tk_id t = ar_id e" "tk_wf t = ar_wf e"
  using assms
  by (auto simp: publish_retry_def fetch_activity_task_from_history_def Let_def
      split: sum.splits option.splits prod.splits)

section \<open>Properties\<close>

text \<open>
  (C12) When JetStream answers without errors, the workflow projector
  publishes exactly one task for each event that a workflow can go on from (it started, an
  activity completed or failed), to the subject of that workflow and with the input stored for
  it, and none for any other event; either way it acknowledges the event.
\<close>

theorem decisions_get_workflow_tasks:
  assumes dec: "decode_workflow_event sd m = Inr ev" and meta: "msg_meta m = Inr meta"
    and pub: "\<And>p. publish p = None"
    and input: "load_workflow_input_args sd bucket (event_wf_fn ev) (event_wf_id ev) = Inr args"
    and started: "\<And>e. ev = WorkflowStarted e \<Longrightarrow> ws_input e = args"
    and ser: "ser_wtask sd \<lparr>wt_id = event_wf_id ev, wt_fn = event_wf_fn ev, wt_input = args\<rparr> = Inr bs"
  shows "re_disp (project_workflow_task sd bucket publish m) = Some Ack \<and>
    re_published (project_workflow_task sd bucket publish m) =
      (if needs_workflow_task ev then
         [\<lparr>pub_subject = ''workflow.'' @ event_wf_id ev @ ''.tasks'', pub_data = bs, pub_header = [],
           pub_msg_id = Some (''wftask-'' @ event_wf_id ev @ ''-'' @ format_uint (meta_consumer_seq meta))\<rparr>]
       else [])"
  using assms
  by (cases ev) (simp_all add: project_workflow_task_def publish_workflow_task_def settle_def needs_workflow_task_def)

text \<open>
  A scheduled activity becomes one task on the subject of its
  workflow: first attempt, same input, timeouts and retry policy as scheduled.
\<close>

theorem scheduled_activity_gets_first_task:
  assumes dec: "decode_workflow_event sd m = Inr (ActivityScheduled e)" and meta: "msg_meta m = Inr meta"
    and pub: "\<And>p. publish p = None" and subj: "msg_subject m = ''history.'' @ as_id e" "CHR ''.'' \<notin> set (as_id e)"
    and ser: "ser_atask sd (first_attempt now_ms e) = Inr bs"
  shows "\<exists>p. project_activity_task sd now_ms publish m = \<lparr>re_disp = Some Ack, re_published = [p], re_put = []\<rparr> \<and>
    pub_subject p = ''activity.'' @ as_id e @ ''.tasks'' \<and> pub_data p = bs \<and>
    tk_attempt (first_attempt now_ms e) = 1 \<and> tk_input (first_attempt now_ms e) = as_input e \<and>
    tk_retry (first_attempt now_ms e) = as_retry e"
proof -
  have "go_split (CHR ''.'') (msg_subject m) = [''history'', as_id e]"
    using go_split_append [of "CHR ''.''" "''history''" "as_id e"] go_split_no_sep [OF subj(2)] subj(1) by simp
  with dec meta pub ser show ?thesis
    by (simp add: project_activity_task_def Let_def settle_def) (simp add: first_attempt_def)
qed

text \<open>
  (C17) Worker and retry projector together never exceed the maximum. If a task
  of a policy with a maximum of \<open>m > 0\<close> attempts ends in a retry event, the task that the retry
  goroutine publishes for that event, as a worker decodes it, is the next attempt of the same
  activity of the same workflow: its number is one more than that of the failed attempt, and at
  most \<open>m\<close>.
\<close>

theorem retries_stop_at_maximum:
  assumes proc: "process_activity_task ev reg now_ms c task = (c', None, None)" "root_uncommitted c = []"
    and retried: "ActivityRetried e \<in> set (root_uncommitted c')"
    and pol: "tk_retry task = Some p" "0 < sint (rp_maximum_attempts p)"
    and law: "normalising nv sd"
    and published: "q \<in> set (publish_retry sd consumer fetch publish now_ns e)"
  shows "\<exists>task'. de_atask sd (pub_data q) = Inr task' \<and>
    sint (tk_attempt task') = sint (tk_attempt task) + 1 \<and>
    sint (tk_attempt task') \<le> sint (rp_maximum_attempts p) \<and>
    tk_fn task' = tk_fn task \<and> tk_id task' = tk_id task \<and> tk_wf task' = tk_wf task"
proof -
  from proc(1) obtain x where x: "evaluate_retry_decision (env_oor ev) now_ms task x"
    "ar_attempt e = tk_attempt task" "ar_fn e = tk_fn task" "ar_id e = tk_id task" "ar_wf e = tk_wf task"
  proof (cases rule: process_activity_cases)
    case (error y)
    then show thesis
      using retried proc(2) that [of y]
      by (cases "evaluate_retry_decision (env_oor ev) now_ms task y") (auto simp: settle_activity_error_def)
  qed (use retried proc(2) in auto)
  have lt: "sint (tk_attempt task) < sint (rp_maximum_attempts p)"
    using x(1) pol by (auto simp: evaluate_retry_decision_def split: if_splits)
  have "sint (rp_maximum_attempts p) < 2 ^ 31" using sint_lt [of "rp_maximum_attempts p"] by simp
  with lt have succ: "sint (tk_attempt task + 1) = sint (tk_attempt task) + 1" by (intro sint_succ_i32) simp
  obtain t where t: "ser_atask sd t = Inr (pub_data q)" "tk_attempt t = ar_attempt e + 1" "tk_fn t = ar_fn e"
    "tk_id t = ar_id e" "tk_wf t = ar_wf e"
    by (rule published_retry [OF published])
  have "de_atask sd (pub_data q) = Inr (t\<lparr>tk_input := map nv (tk_input t)\<rparr>)"
    by (rule normalisingD(5) [OF law t(1)])
  with t(2-) x(2-) succ lt show ?thesis by simp
qed

text \<open>
  A retry is rebuilt from the first scheduling of an activity with its
  name in the fetched history, not from the call that failed: its input and policy are those of
  the first call, whatever was scheduled later.
\<close>

theorem retry_takes_first_scheduling:
  assumes fetch: "fetch 100 = Inr (pre @ m # post)"
    and first: "decode_workflow_event sd m = Inr (ActivityScheduled s)" "as_fn s = ar_fn e"
    and before: "\<And>x a. x \<in> set pre \<Longrightarrow> decode_workflow_event sd x = Inr (ActivityScheduled a) \<Longrightarrow> as_fn a \<noteq> ar_fn e"
  shows "\<exists>task. fetch_activity_task_from_history sd None fetch e = Inr task \<and>
    tk_input task = as_input s \<and> tk_retry task = as_retry s \<and> tk_attempt task = ar_attempt e + 1"
proof -
  obtain t where "find_scheduled sd (ar_fn e) (pre @ m # post) = Some (s, t)"
    using find_scheduled_first [of pre sd "ar_fn e" m s post] assms by blast
  with fetch show ?thesis by (simp add: fetch_activity_task_from_history_def)
qed

text \<open>
  The result projector stores a value exactly for the completions of
  workflows, under the workflow's id. Every other event, a failed workflow among them, is
  acknowledged without storing anything: the client of a failed workflow has nothing to receive.
\<close>

theorem results_only_from_completions:
  assumes "decode_workflow_event sd m = Inr ev" and "\<And>b k v. put b k v = None"
    and "\<And>vs. ser_args sd vs = Inr (enc vs)"
  shows "re_disp (project_workflow_result sd put m) = Some Ack \<and>
    re_put (project_workflow_result sd put m) =
      (case ev of WorkflowCompleted e \<Rightarrow> [(workflow_result_bucket, wc_id e, enc (wc_result e))] | _ \<Rightarrow> [])"
  using assms by (cases ev) (simp_all add: project_workflow_result_def settle_def Let_def)

text \<open>
  Without the header, the type of an event is recovered from the keys
  of its JSON object, for every event and whether or not its optional keys are present. From the
  field names of the structs, which are the keys when the JSON tags are not used, it never is.
\<close>

theorem event_type_inferred_from_json:
  "(\<forall>k. infer_from_keys (json_keys k) = Inr (kind_name k)) \<and>
   infer_from_keys (json_keys KActivityScheduled @ json_optional_keys) = Inr (kind_name KActivityScheduled) \<and>
   (\<forall>k. infer_from_keys (field_keys k) = Inl (ErrMsg ''could not infer workflow event type from payload''))"
proof (intro conjI allI)
  fix k
  show "infer_from_keys (json_keys k) = Inr (kind_name k)"
    by (cases k) (simp_all add: infer_from_keys_def has_key_def)
  show "infer_from_keys (field_keys k) = Inl (ErrMsg ''could not infer workflow event type from payload'')"
    by (cases k) (simp_all add: infer_from_keys_def has_key_def)
qed (simp add: infer_from_keys_def has_key_def json_optional_keys_def)

text \<open>
  The message id of a workflow task names the delivery and not the
  event: it holds the consumer's delivery sequence, which differs when JetStream delivers the
  same event again. So the task published for a redelivered event has another id than the first
  one, and JetStream's duplicate detection keeps both.
\<close>

theorem redelivery_not_deduplicated:
  assumes "msg_meta m = Inr meta" and "meta_consumer_seq meta' \<noteq> meta_consumer_seq meta"
    and "re_published (project_workflow_task sd bucket publish m) = [p]"
    and "re_published (project_workflow_task sd bucket publish (m\<lparr>msg_meta := Inr meta'\<rparr>)) = [p']"
  shows "pub_msg_id p' \<noteq> pub_msg_id p"
proof -
  have dec: "decode_workflow_event sd (m\<lparr>msg_meta := Inr meta'\<rparr>) = decode_workflow_event sd m"
    by (rule decode_cong) simp_all
  have id: "pub_msg_id q = Some (''wftask-'' @ event_wf_id ev @ ''-'' @ format_uint (meta_consumer_seq mt))"
    if "re_published (project_workflow_task sd bucket publish x) = [q]" "msg_meta x = Inr mt"
      "decode_workflow_event sd x = Inr ev" for x q mt ev
    using that
    by (cases ev) (auto simp: project_workflow_task_def publish_workflow_task_def settle_def Let_def
        split: sum.splits option.splits)
  obtain ev where ev: "decode_workflow_event sd m = Inr ev"
    using assms(3) by (cases "decode_workflow_event sd m") (auto simp: project_workflow_task_def settle_def)
  have "format_uint x = format_uint y \<Longrightarrow> x = y" for x y by (metis parse_format_uint option.inject)
  with id [OF assms(3,1) ev] id [OF assms(4) _ ev [folded dec]] assms(2) show ?thesis by auto
qed

section \<open>Witnesses\<close>

definition demo_msg :: "u64 \<Rightarrow> wf_event \<Rightarrow> datum msg" where
  "demo_msg n e = \<lparr>msg_subject = ''history.w1'', msg_data = [DEvent e],
     msg_header = [(event_name_header, event_name e)],
     msg_meta = Inr \<lparr>meta_consumer_seq = n, meta_timestamp_ms = 0\<rparr>\<rparr>"

definition demo_bucket :: "gerr + (string \<Rightarrow> gerr + datum list)" where
  "demo_bucket = Inr (\<lambda>k. if k = ''main/w1'' then Inr [DArgs []] else Inl (ErrMsg ''key not found''))"

lemma demo_msg_decodes [simp]: "decode_workflow_event demo_serde (demo_msg n e) = Inr e"
  by (rule decode_by_header) (simp_all add: demo_msg_def header_get_def demo_serde_def)

lemma demo_msg_meta: "msg_meta (demo_msg n e) = Inr \<lparr>meta_consumer_seq = n, meta_timestamp_ms = 0\<rparr>"
  by (simp add: demo_msg_def)

lemma demo_input: "load_workflow_input_args demo_serde demo_bucket ''main'' ''w1'' = Inr []"
  by (simp add: load_workflow_input_args_def demo_bucket_def workflow_input_key_def demo_serde_def)

lemma demo_published:
  "re_published (project_workflow_task demo_serde demo_bucket (\<lambda>_. None) (demo_msg n (demo_completed ''hi''))) =
    [\<lparr>pub_subject = ''workflow.w1.tasks'', pub_data = [DWTask \<lparr>wt_id = ''w1'', wt_fn = ''main'', wt_input = []\<rparr>],
      pub_header = [], pub_msg_id = Some (''wftask-w1-'' @ format_uint n)\<rparr>]"
  using demo_input
  by (simp add: project_workflow_task_def publish_workflow_task_def demo_msg_meta demo_completed_def settle_def)
    (simp add: demo_serde_def)

theorem decisions_get_workflow_tasks_witness:
  "re_published (project_workflow_task demo_serde demo_bucket (\<lambda>_. None) (demo_msg 3 (demo_completed ''hi''))) =
    [\<lparr>pub_subject = ''workflow.w1.tasks'', pub_data = [DWTask \<lparr>wt_id = ''w1'', wt_fn = ''main'', wt_input = []\<rparr>],
      pub_header = [], pub_msg_id = Some (''wftask-w1-'' @ format_uint 3)\<rparr>]"
  using decisions_get_workflow_tasks [OF demo_msg_decodes demo_msg_meta,
      of "\<lambda>_. None" demo_bucket "demo_completed ''hi''" "[]" "[DWTask \<lparr>wt_id = ''w1'', wt_fn = ''main'', wt_input = []\<rparr>]" 3]
    demo_input
  by (simp add: demo_completed_def needs_workflow_task_def demo_serde_def)

theorem scheduled_activity_gets_first_task_witness:
  "\<exists>p. project_activity_task demo_serde 0 (\<lambda>_. None) (demo_msg 3 (demo_scheduled ''bob'')) =
      \<lparr>re_disp = Some Ack, re_published = [p], re_put = []\<rparr> \<and> pub_subject p = ''activity.w1.tasks''"
proof -
  let ?e = "\<lparr>as_id = ''w1'', as_wf = ''main'', as_fn = ''greet'', as_input = [GStr ''bob''],
     as_schedule_to_close = 0, as_start_to_close = 0, as_retry = None\<rparr>"
  have dec: "decode_workflow_event demo_serde (demo_msg 3 (demo_scheduled ''bob'')) = Inr (ActivityScheduled ?e)"
    by (simp add: demo_scheduled_def)
  have "ser_atask demo_serde (first_attempt 0 ?e) = Inr [DATask (first_attempt 0 ?e)]" by (simp add: demo_serde_def)
  from scheduled_activity_gets_first_task [OF dec demo_msg_meta _ _ _ this, of "\<lambda>_. None"] show ?thesis
    by (auto simp: demo_msg_def)
qed

definition demo_retry_event :: activity_retried where
  "demo_retry_event = \<lparr>ar_id = ''w1'', ar_wf = ''main'', ar_fn = ''greet'', ar_attempt = 2, ar_error = ''net'',
     ar_next_delay = 2000\<rparr>"

definition demo_failing :: "activity_fn fn_registry" where
  "demo_failing = [''greet'' \<mapsto> FnValue ''greet''
     \<lparr>afn_in = [TCtx], afn_errors = True, afn_call = (\<lambda>_. Inr [GNil, GErr ''net''])\<rparr>]"

definition demo_fetch :: "nat \<Rightarrow> gerr + datum msg list" where
  "demo_fetch n = Inr [demo_msg 1 demo_started, demo_msg 2 (demo_scheduled ''a''), demo_msg 3 (demo_scheduled ''b'')]"

lemma demo_fetched:
  "fetch_activity_task_from_history demo_serde None demo_fetch demo_retry_event =
    Inr \<lparr>tk_wf = ''main'', tk_id = ''w1'', tk_fn = ''greet'', tk_input = [GStr ''a''], tk_last_seq = 0,
      tk_attempt = 3, tk_schedule_to_close = 0, tk_start_to_close = 0, tk_retry = None, tk_scheduled_at_ms = 0\<rparr>"
  by (simp add: fetch_activity_task_from_history_def demo_fetch_def demo_started_def demo_retry_event_def)
    (simp add: demo_scheduled_def demo_msg_def)

lemma demo_delay_2: "duration_ms (calculate_retry_delay (\<lambda>_. 0) (demo_task 2)) = 2000"
proof -
  have "sint (calculate_retry_delay (\<lambda>_. 0) (demo_task 2)) = 2000000000"
    by (subst delay_exact [of "demo_task 2" demo_policy 2]) (simp_all add: demo_initial demo_task_def)
  then show ?thesis by (simp add: duration_ms_def signed_divide_int_def)
qed

lemma demo_retries:
  "process_activity_task demo_env demo_failing 0 (context_after [demo_started]) (demo_task 2) =
    (fst (wf_record_that (context_after [demo_started]) (ActivityRetried demo_retry_event)), None, None)"
proof -
  have "evaluate_retry_decision (\<lambda>_. 0) 0 (demo_task 2) (ErrMsg ''net'')"
    by (simp add: evaluate_retry_decision_def demo_task_def demo_policy_def)
  then show ?thesis
    using demo_delay_2
    by (simp add: process_activity_task_def execute_activity_func_def demo_failing_def registry_get_def
      error_of_def settle_activity_error_def demo_env_def demo_retry_event_def) (simp add: demo_task_def)
qed

theorem retries_stop_at_maximum_witness:
  "\<exists>q t. q \<in> set (publish_retry demo_serde None demo_fetch (\<lambda>_. None) 5 demo_retry_event) \<and>
    de_atask demo_serde (pub_data q) = Inr t \<and> tk_attempt t = 3 \<and> sint (tk_attempt t) = sint (tk_attempt (demo_task 2)) + 1 \<and>
    tk_fn t = ''greet''"
proof -
  have pol: "tk_retry (demo_task 2) = Some demo_policy" "0 < sint (rp_maximum_attempts demo_policy)"
    by (simp_all add: demo_task_def demo_policy_def)
  have rec: "ActivityRetried demo_retry_event \<in>
      set (root_uncommitted (fst (wf_record_that (context_after [demo_started]) (ActivityRetried demo_retry_event))))"
    by simp
  obtain q where q: "q \<in> set (publish_retry demo_serde None demo_fetch (\<lambda>_. None) 5 demo_retry_event)"
    "\<exists>t. pub_data q = [DATask t] \<and> tk_attempt t = 3"
    using demo_fetched by (auto simp: publish_retry_def demo_serde_def demo_retry_event_def demo_task_def)
  from retries_stop_at_maximum [OF demo_retries _ rec pol demo_serde_normal q(1)] q show ?thesis
    by (auto simp: demo_task_def demo_serde_def)
qed

theorem retry_takes_first_scheduling_witness:
  "\<exists>task. fetch_activity_task_from_history demo_serde None demo_fetch demo_retry_event = Inr task \<and>
    tk_input task = [GStr ''a'']"
proof -
  let ?s = "\<lparr>as_id = ''w1'', as_wf = ''main'', as_fn = ''greet'', as_input = [GStr ''a''],
     as_schedule_to_close = 0, as_start_to_close = 0, as_retry = None\<rparr>"
  have "demo_fetch 100 = Inr ([demo_msg 1 demo_started] @ demo_msg 2 (demo_scheduled ''a'') # [demo_msg 3 (demo_scheduled ''b'')])"
    by (simp add: demo_fetch_def)
  from retry_takes_first_scheduling [where fetch = demo_fetch and pre = "[demo_msg 1 demo_started]" and m = "demo_msg 2 (demo_scheduled ''a'')"
      and post = "[demo_msg 3 (demo_scheduled ''b'')]", OF this, of demo_serde ?s demo_retry_event] show ?thesis
    by (auto simp: demo_scheduled_def demo_retry_event_def demo_started_def)
qed

theorem results_only_from_completions_witness:
  "re_put (project_workflow_result demo_serde (\<lambda>_ _ _. None)
      (demo_msg 9 (WorkflowFailed \<lparr>wf_id = ''w1'', wf_fn = ''main'', wf_error = ''boom''\<rparr>))) = [] \<and>
   re_put (project_workflow_result demo_serde (\<lambda>_ _ _. None)
      (demo_msg 9 (WorkflowCompleted \<lparr>wc_id = ''w1'', wc_fn = ''main'', wc_result = [GNil, GNil]\<rparr>)))
     = [(''workflow-result'', ''w1'', [DArgs [GNil, GNil]])]"
proof -
  have enc: "ser_args demo_serde vs = Inr [DArgs vs]" for vs by (simp add: demo_serde_def)
  show ?thesis
    using results_only_from_completions [OF demo_msg_decodes _ enc, of "\<lambda>_ _ _. None" 9
        "WorkflowFailed \<lparr>wf_id = ''w1'', wf_fn = ''main'', wf_error = ''boom''\<rparr>"]
      results_only_from_completions [OF demo_msg_decodes _ enc, of "\<lambda>_ _ _. None" 9
        "WorkflowCompleted \<lparr>wc_id = ''w1'', wc_fn = ''main'', wc_result = [GNil, GNil]\<rparr>"]
    by (simp add: workflow_result_bucket_def)
qed

theorem redelivery_not_deduplicated_witness:
  "Some (''wftask-w1-'' @ format_uint 8) \<noteq> Some (''wftask-w1-'' @ format_uint 7)"
proof -
  have again: "(demo_msg 7 (demo_completed ''hi''))\<lparr>msg_meta := Inr \<lparr>meta_consumer_seq = 8, meta_timestamp_ms = 0\<rparr>\<rparr>
      = demo_msg 8 (demo_completed ''hi'')" by (simp add: demo_msg_def)
  from redelivery_not_deduplicated [OF demo_msg_meta _ demo_published,
      of "\<lparr>meta_consumer_seq = 8, meta_timestamp_ms = 0\<rparr>" 7, unfolded again, OF _ demo_published]
  show ?thesis by simp
qed

end
