(* ===== verification/DF_Command.thy ===== *)
theory DF_Command
  imports DF_Projection
begin

text \<open>
  Starting a workflow and waiting for its result: the command handler of the server,
  \<open>internal/server/handler/command/handler.go\<close>, and the client of the SDK,
  \<open>sdk/internal/client.go\<close>, \<open>sdk/internal/protocol/commands/start_workflow.go\<close>,
  \<open>sdk/internal/protocol/nats/result_watcher.go\<close> and \<open>sdk/internal/future_executing.go\<close>.
\<close>

section \<open>The command handler\<close>

text \<open>What a request does to the world, in order. \<open>EPut b k v\<close> stores a key of a bucket.\<close>

datatype 'x effect =
    EPut string string "'x list"
  | EPublish "'x publish"
  | ERespond "'x list"
  | ETerm

definition workflow_input_bucket :: string where "workflow_input_bucket = ''workflow-input''"

text \<open>
  The answers of the environment to one request: the new workflow id, the JetStream context, the
  input bucket, the put and the publish. \<open>ce_text\<close> is the bytes of a string.
\<close>

record 'x command_env =
  ce_uuid :: string
  ce_js :: "gerr option"
  ce_bucket :: "gerr option"
  ce_put :: "string \<Rightarrow> 'x list \<Rightarrow> gerr option"
  ce_publish :: "'x publish \<Rightarrow> gerr option"
  ce_text :: "string \<Rightarrow> 'x list"

definition json_error :: "string \<Rightarrow> string" where
  "json_error m = ''{'' @ quoted ''error'' @ '':'' @ quoted m @ '','' @ quoted ''workflow_id'' @ '':'' @ quoted '''' @ ''}''"

definition send_error_reply :: "'x serde \<Rightarrow> 'x command_env \<Rightarrow> string \<Rightarrow> string \<Rightarrow> 'x effect list" where
  "send_error_reply sd w wid m =
     (case ser_reply sd \<lparr>sr_error = m, sr_workflow_id = wid\<rparr> of
        Inl e \<Rightarrow> [ERespond (ce_text w (json_error (''serialization failed: '' @ gerr_msg e)))]
      | Inr bs \<Rightarrow> [ERespond bs])"

definition start_event :: "string \<Rightarrow> start_attributes \<Rightarrow> wf_event" where
  "start_event wid d = WorkflowStarted \<lparr>ws_id = wid, ws_fn = sa_fn d, ws_input = sa_input d\<rparr>"

definition start_message :: "'x serde \<Rightarrow> string \<Rightarrow> start_attributes \<Rightarrow> 'x publish" where
  "start_message sd wid d =
     \<lparr>pub_subject = history_subject_prefix @ ''.'' @ wid,
      pub_data = (case ser_event sd (start_event wid d) of Inl _ \<Rightarrow> [] | Inr bs \<Rightarrow> bs),
      pub_header = [(event_name_header, event_name (start_event wid d)),
                    (aggregate_version_header, format_uint 1)],
      pub_msg_id = None\<rparr>"

definition handle_start_workflow :: "'x serde \<Rightarrow> 'x command_env \<Rightarrow> start_attributes \<Rightarrow> 'x effect list" where
  "handle_start_workflow sd w d =
     (let wid = ce_uuid w in
      case ce_js w of
        Some e \<Rightarrow> send_error_reply sd w [] (''internal server error: failed to get JetStream context: '' @ gerr_msg e)
      | None \<Rightarrow>
       (case ser_reply sd \<lparr>sr_error = [], sr_workflow_id = wid\<rparr> of
          Inl e \<Rightarrow> [ERespond (ce_text w (json_error (''failed to serialize reply: '' @ gerr_msg e)))]
        | Inr reply \<Rightarrow>
         (case ce_bucket w of
            Some e \<Rightarrow> send_error_reply sd w [] (''internal server error: failed to get KV store: '' @ gerr_msg e)
          | None \<Rightarrow>
           (case ser_args sd (sa_input d) of
              Inl e \<Rightarrow> send_error_reply sd w [] (''internal server error: failed to serialize input args: '' @ gerr_msg e)
            | Inr args \<Rightarrow>
             (let key = workflow_input_key (sa_fn d) wid in
              case ce_put w key args of
                Some e \<Rightarrow> send_error_reply sd w [] (''internal server error: failed to store input args: '' @ gerr_msg e)
              | None \<Rightarrow>
                EPut workflow_input_bucket key args #
                (case ce_publish w (start_message sd wid d) of
                   Some e \<Rightarrow> send_error_reply sd w [] (''internal server error: '' @ gerr_msg e)
                 | None \<Rightarrow> [EPublish (start_message sd wid d), ERespond reply]))))))"

definition handle_request :: "'x serde \<Rightarrow> 'x command_env \<Rightarrow> 'x list \<Rightarrow> 'x effect list" where
  "handle_request sd w data =
     (case de_command sd data of
        Inl e \<Rightarrow> [ETerm]
      | Inr cmd \<Rightarrow>
         (if cmd_type cmd = start_workflow_command then
            (case de_attrs sd (cmd_attributes cmd) of
               Inl e \<Rightarrow> send_error_reply sd w [] (''failed to parse request attributes: '' @ gerr_msg e)
             | Inr d \<Rightarrow> handle_start_workflow sd w d)
          else [ETerm]))"

section \<open>The client\<close>

datatype 'x request_result = RepData "'x list" | RepNoResponders gerr | RepError gerr

definition start_workflow ::
    "'x serde \<Rightarrow> ('x list \<Rightarrow> 'x request_result) \<Rightarrow> start_attributes \<Rightarrow> gerr + start_reply" where
  "start_workflow sd request attrs =
     (case ser_attrs sd attrs of
        Inl e \<Rightarrow> Inl (ErrWrap ''failed to serialize start workflow attributes'' e)
      | Inr ab \<Rightarrow>
         (case ser_command sd \<lparr>cmd_type = start_workflow_command, cmd_attributes = ab\<rparr> of
            Inl e \<Rightarrow> Inl (ErrWrap ''failed to serialize start workflow command'' e)
          | Inr cb \<Rightarrow>
             (case request cb of
                RepNoResponders e \<Rightarrow> Inl (ErrWrap ''no managers available to start workflow'' e)
              | RepError e \<Rightarrow> Inl (ErrWrap ''failed to send start workflow request'' e)
              | RepData rb \<Rightarrow>
                 (case de_reply sd rb of
                    Inl e \<Rightarrow> Inl (ErrWrap ''failed to parse reply of start workflow request'' e)
                  | Inr r \<Rightarrow> Inr r))))"

text \<open>
  \<open>ExecuteWorkflow\<close>: a panic, an error, or the id of the execution to wait for.
  \<open>uuid_of\<close> is the canonical form of the id, \<open>uuid.FromString\<close> with its error dropped.
\<close>

definition execute_workflow ::
    "'x serde \<Rightarrow> (string \<Rightarrow> string) \<Rightarrow> ('x list \<Rightarrow> 'x request_result) \<Rightarrow> 'f fn_any \<Rightarrow> gval list
      \<Rightarrow> panic + (gerr + string)" where
  "execute_workflow sd uuid_of request fn input =
     (case extract_full_function_name fn of
        Inl p \<Rightarrow> Inl p
      | Inr (Inl e) \<Rightarrow> Inr (Inl (ErrWrap ''failed to extract workflow function name'' e))
      | Inr (Inr name) \<Rightarrow>
         (case start_workflow sd request \<lparr>sa_fn = name, sa_input = input\<rparr> of
            Inl e \<Rightarrow> Inl (OtherPanic ''runtime error: invalid memory address or nil pointer dereference'')
          | Inr reply \<Rightarrow>
              if sr_error reply \<noteq> [] then
                Inr (Inl (ErrMsg (''starting workflow failed on server: '' @ sr_error reply)))
              else if sr_workflow_id reply = [] then
                Inr (Inl (ErrMsg (''empty workflowID: %!w(<nil>)'')))
              else Inr (Inr (uuid_of (sr_workflow_id reply)))))"

text \<open>
  An update of a watched key; \<open>None\<close> is the marker that the initial values were sent. The value of
  an entry may be a nil slice, which is \<open>None\<close>.
\<close>

datatype 'x kv_update = KvPut "'x list option" | KvOther

fun first_put :: "'x kv_update option list \<Rightarrow> 'x list option option" where
  "first_put [] = None"
| "first_put (None # us) = first_put us"
| "first_put (Some (KvPut v) # us) = Some v"
| "first_put (Some KvOther # us) = first_put us"

text \<open>
  \<open>watcher\<close>: the updates of the key until the watcher stops, or the error of starting it;
  \<open>ctx_err\<close> is \<open>ctx.Err()\<close> after that.
\<close>

definition watch_result :: "string \<Rightarrow> gerr + 'x kv_update option list \<Rightarrow> gerr \<Rightarrow> gerr + 'x list option" where
  "watch_result wid watcher ctx_err =
     (case watcher of
        Inl e \<Rightarrow> Inl (ErrWrap (''could not start KV watcher for key '' @ [CHR 0x27] @ wid @ [CHR 0x27]) e)
      | Inr us \<Rightarrow>
         (case first_put us of
            Some v \<Rightarrow> Inr v
          | None \<Rightarrow> Inl (ErrWrap ''watcher stopped without receiving a result'' ctx_err)))"

definition executing_get ::
    "(gval \<Rightarrow> string) \<Rightarrow> 'x serde \<Rightarrow> string \<Rightarrow> gerr + 'x list option \<Rightarrow> gtype option \<Rightarrow> get_result" where
  "executing_get fmt_v sd wid watched ptr =
     (case watched of
        Inl e \<Rightarrow> GetErr (ErrWrap ''error waiting for workflow result'' e)
      | Inr None \<Rightarrow> GetErr (ErrMsg (''watcher returned no data for workflow '' @ wid))
      | Inr (Some data) \<Rightarrow>
         (case de_args sd data of
            Inl e \<Rightarrow> GetErr (ErrWrap ''failed to deserialize workflow result container'' e)
          | Inr vs \<Rightarrow>
              if length vs \<noteq> 2 then
                GetErr (ErrMsg (''invalid workflow result format: expected [result, error], got '' @
                  nat_str (length vs) @ '' elements''))
              else if vs ! 1 \<noteq> GNil then
                (case vs ! 1 of
                   GStr m \<Rightarrow> if m \<noteq> [] then GetErr (ErrMsg (''workflow execution failed: '' @ m))
                     else GetErr (ErrMsg (''sdk received an unknown error from workflow: '' @ fmt_v (vs ! 1)))
                 | _ \<Rightarrow> GetErr (ErrMsg (''sdk received an unknown error from workflow: '' @ fmt_v (vs ! 1))))
              else (case ptr of
                  None \<Rightarrow> GetOk None
                | Some ty \<Rightarrow>
                    if vs ! 0 = GNil then GetOk None
                    else
                      (case ser_val sd (vs ! 0) of
                         Inl e \<Rightarrow> GetErr (ErrWrap ''failed to re-serialize workflow result value'' e)
                       | Inr bs \<Rightarrow>
                          (case de_val sd ty bs of
                             Inl e \<Rightarrow> GetErr (ErrWrap ''failed to deserialize result value into provided type'' e)
                           | Inr v \<Rightarrow> GetOk (Some v))))))"

section \<open>Lemmas\<close>

lemma send_error_reply_shape: "\<exists>bs. send_error_reply sd w wid m = [ERespond bs]"
  by (auto simp: send_error_reply_def split: sum.split)

definition is_settlement :: "'x effect \<Rightarrow> bool" where
  "is_settlement e = (case e of ERespond _ \<Rightarrow> True | ETerm \<Rightarrow> True | _ \<Rightarrow> False)"

lemma send_error_reply_settles [simp]:
  "filter is_settlement (send_error_reply sd w wid m) = send_error_reply sd w wid m"
  "length (send_error_reply sd w wid m) = 1"
  "EPublish p \<notin> set (send_error_reply sd w wid m)"
  "EPut b k v \<notin> set (send_error_reply sd w wid m)"
  using send_error_reply_shape [of sd w wid m] by (auto simp: is_settlement_def)

lemma is_settlement_simps [simp]:
  "is_settlement (ERespond b)" "is_settlement ETerm" "\<not> is_settlement (EPut x k v)" "\<not> is_settlement (EPublish p)"
  by (simp_all add: is_settlement_def)

text \<open>The only way a request publishes: everything before succeeded.\<close>

lemma publish_cases:
  assumes "EPublish p \<in> set (handle_request sd w data)"
  obtains cmd d args reply where "de_command sd data = Inr cmd" "de_attrs sd (cmd_attributes cmd) = Inr d"
    "cmd_type cmd = start_workflow_command" "ser_args sd (sa_input d) = Inr args"
    "ser_reply sd \<lparr>sr_error = [], sr_workflow_id = ce_uuid w\<rparr> = Inr reply"
    "p = start_message sd (ce_uuid w) d"
    "handle_request sd w data =
      [EPut workflow_input_bucket (workflow_input_key (sa_fn d) (ce_uuid w)) args, EPublish p, ERespond reply]"
proof -
  from assms obtain cmd d where cd: "de_command sd data = Inr cmd" "de_attrs sd (cmd_attributes cmd) = Inr d"
    "cmd_type cmd = start_workflow_command" "EPublish p \<in> set (handle_start_workflow sd w d)"
    by (auto simp: handle_request_def split: sum.splits if_splits)
  from cd(4) obtain args reply where ar: "ser_args sd (sa_input d) = Inr args"
    "ser_reply sd \<lparr>sr_error = [], sr_workflow_id = ce_uuid w\<rparr> = Inr reply"
    "p = start_message sd (ce_uuid w) d"
    "handle_start_workflow sd w d =
      [EPut workflow_input_bucket (workflow_input_key (sa_fn d) (ce_uuid w)) args, EPublish p, ERespond reply]"
    by (auto simp: handle_start_workflow_def Let_def split: option.splits sum.splits)
  with cd that show thesis by (simp add: handle_request_def)
qed

text \<open>What JetStream delivers of a published message.\<close>

definition delivered :: "u64 \<Rightarrow> i64 \<Rightarrow> 'x publish \<Rightarrow> 'x msg" where
  "delivered n t p = \<lparr>msg_subject = pub_subject p, msg_data = pub_data p, msg_header = pub_header p,
     msg_meta = Inr \<lparr>meta_consumer_seq = n, meta_timestamp_ms = t\<rparr>\<rparr>"

lemma start_message_decodes:
  assumes law: "normalising nv sd"
  shows "decode_workflow_event sd (delivered n t (start_message sd wid d)) = Inr ev \<longleftrightarrow>
    (\<exists>bs. ser_event sd (start_event wid d) = Inr bs) \<and> ev = norm_event nv (start_event wid d)"
proof (cases "ser_event sd (start_event wid d)")
  case (Inl e)
  then show ?thesis by (simp add: decode_workflow_event_def delivered_def start_message_def)
next
  case (Inr bs)
  have de: "de_event sd KWorkflowStarted bs = Inr (norm_event nv (start_event wid d))"
    using normalisingD(2) [OF law Inr] by (simp add: start_event_def)
  then have "bs \<noteq> []" using normalisingD(3) [OF law] by auto
  have "decode_workflow_event sd (delivered n t (start_message sd wid d)) = Inr (norm_event nv (start_event wid d))"
    by (rule decode_by_header)
      (use Inr de \<open>bs \<noteq> []\<close> in \<open>simp_all add: delivered_def start_message_def header_get_def start_event_def event_name_def\<close>)
  with Inr show ?thesis by auto
qed

section \<open>Properties\<close>

text \<open>
  Every request is settled exactly once, by one response or by one
  termination, whatever fails on the way; and the settlement is the last thing that happens.
\<close>

theorem request_settled_once:
  "length (filter is_settlement (handle_request sd w data)) = 1 \<and>
   is_settlement (List.last (handle_request sd w data))"
proof -
  have one: "\<exists>bs. send_error_reply sd w a m = [ERespond bs]" for a m by (rule send_error_reply_shape)
  have err: "length (filter is_settlement (send_error_reply sd w a m)) = 1 \<and>
      is_settlement (List.last (send_error_reply sd w a m)) \<and> send_error_reply sd w a m \<noteq> []" for a m
    using one [of a m] by auto
  have "length (filter is_settlement (handle_start_workflow sd w d)) = 1 \<and>
      is_settlement (List.last (handle_start_workflow sd w d))" for d
    using err by (simp add: handle_start_workflow_def Let_def split: option.split sum.split)
  with err show ?thesis by (simp add: handle_request_def split: sum.split)
qed

text \<open>
  (C14) A workflow never starts without its input. If a request publishes a
  message, the request was a start command with attributes \<open>d\<close>, the input was stored before the
  message, and the message goes to the history of the new workflow with version 1. It decodes
  exactly if the start event was serialized, and then to the start event of the new workflow and the
  requested function. From then on the projector loads, for this workflow, the very input that the
  event carries: that of the request, up to what the serializer does to values.
\<close>

theorem started_workflow_has_input:
  assumes pub: "EPublish p \<in> set (handle_request sd w data)" and law: "normalising nv sd"
  shows "\<exists>cmd d bs reply. de_command sd data = Inr cmd \<and> cmd_type cmd = start_workflow_command \<and>
    de_attrs sd (cmd_attributes cmd) = Inr d \<and>
    handle_request sd w data =
      [EPut workflow_input_bucket (workflow_input_key (sa_fn d) (ce_uuid w)) bs, EPublish p, ERespond reply] \<and>
    pub_subject p = ''history.'' @ ce_uuid w \<and>
    header_get (pub_header p) aggregate_version_header = format_uint 1 \<and>
    (\<forall>ev. decode_workflow_event sd (delivered n t p) = Inr ev \<longleftrightarrow>
      (\<exists>eb. ser_event sd (start_event (ce_uuid w) d) = Inr eb) \<and>
      ev = WorkflowStarted \<lparr>ws_id = ce_uuid w, ws_fn = sa_fn d, ws_input = map nv (sa_input d)\<rparr>) \<and>
    (\<forall>kv. kv (workflow_input_key (sa_fn d) (ce_uuid w)) = Inr bs \<longrightarrow>
      load_workflow_input_args sd (Inr kv) (sa_fn d) (ce_uuid w) = Inr (map nv (sa_input d)))"
  using pub
proof (cases rule: publish_cases)
  case (1 cmd d bs reply)
  have "decode_workflow_event sd (delivered n t p) = Inr ev \<longleftrightarrow>
      (\<exists>eb. ser_event sd (start_event (ce_uuid w) d) = Inr eb) \<and>
      ev = WorkflowStarted \<lparr>ws_id = ce_uuid w, ws_fn = sa_fn d, ws_input = map nv (sa_input d)\<rparr>" for ev
    unfolding 1(6) start_message_decodes [OF law] by (simp add: start_event_def)
  moreover have "\<forall>kv. kv (workflow_input_key (sa_fn d) (ce_uuid w)) = Inr bs \<longrightarrow>
      load_workflow_input_args sd (Inr kv) (sa_fn d) (ce_uuid w) = Inr (map nv (sa_input d))"
    using normalisingD(6) [OF law 1(4)] by (simp add: load_workflow_input_args_def Let_def)
  moreover have "pub_subject p = ''history.'' @ ce_uuid w"
    "header_get (pub_header p) aggregate_version_header = format_uint 1"
    by (simp_all add: 1(6) start_message_def history_subject_prefix_def header_get_def event_name_header_def
        aggregate_version_header_def)
  ultimately show ?thesis using 1(1-3,7) by blast
qed

text \<open>
  \<open>ExecuteWorkflow\<close> reads the reply before it looks at the error.
  Whenever the request itself fails (no manager answers, a timeout, a reply that does not
  parse) the reply is a nil pointer and the call panics instead of returning the error.
\<close>

theorem client_panics_on_start_error:
  assumes "start_workflow sd request \<lparr>sa_fn = name, sa_input = input\<rparr> = Inl e"
  shows "\<exists>m. execute_workflow sd uuid_of request (FnValue name f) input = Inl (OtherPanic m)"
  using assms by (simp add: execute_workflow_def extract_full_function_name_def)

text \<open>
  From the completion of a workflow to its client. What the result
  projector stores for a completion with result \<open>v\<close> and no error is what \<open>Get\<close> on the execution
  returns, once the watcher reports the stored value, after any number of other updates; a
  completion with an error text is returned as an error with that text.
\<close>

theorem client_receives_completion:
  assumes dec: "decode_workflow_event sd m = Inr (WorkflowCompleted \<lparr>wc_id = wid, wc_fn = fn, wc_result = [v, err]\<rparr>)"
    and put: "\<And>b k x. put b k x = None"
    and ser: "ser_args sd [v, err] = Inr bs" "de_args sd bs = Inr [v, err]"
    and val: "v \<noteq> GNil" "ser_val sd v = Inr vb" "de_val sd ty vb = Inr v'"
    and before: "list_all (\<lambda>u. u = None \<or> u = Some KvOther) pre"
  shows "\<exists>x. re_put (project_workflow_result sd put m) = [(workflow_result_bucket, wid, x)] \<and>
    executing_get fmt_v sd wid (watch_result wid (Inr (pre @ Some (KvPut (Some x)) # post)) ctx_err) (Some ty) =
      (if err = GNil then GetOk (Some v')
       else case err of
              GStr t \<Rightarrow> if t \<noteq> [] then GetErr (ErrMsg (''workflow execution failed: '' @ t))
                else GetErr (ErrMsg (''sdk received an unknown error from workflow: '' @ fmt_v err))
            | _ \<Rightarrow> GetErr (ErrMsg (''sdk received an unknown error from workflow: '' @ fmt_v err)))"
proof -
  have "first_put (pre @ Some (KvPut (Some bs)) # post) = Some (Some bs)"
    using before by (induction pre) auto
  moreover have "re_put (project_workflow_result sd put m) = [(workflow_result_bucket, wid, bs)]"
    using dec put ser(1) by (simp add: project_workflow_result_def Let_def settle_def)
  ultimately show ?thesis
    using ser(2) val by (cases err) (simp_all add: executing_get_def watch_result_def)
qed

section \<open>Witnesses\<close>

definition demo_command_env :: "datum command_env" where
  "demo_command_env = \<lparr>ce_uuid = ''w1'', ce_js = None, ce_bucket = None, ce_put = (\<lambda>_ _. None),
     ce_publish = (\<lambda>_. None), ce_text = (\<lambda>_. [])\<rparr>"

definition demo_request :: "datum list" where
  "demo_request = [DCommand ''StartWorkflow'' [DAttrs \<lparr>sa_fn = ''main'', sa_input = [GStr ''x'']\<rparr>]]"

lemma demo_serde_simps:
  "ser_event demo_serde e = Inr [DEvent e]" "ser_args demo_serde vs = Inr [DArgs vs]"
  "ser_reply demo_serde r = Inr [DReply r]" "ser_val demo_serde v = Inr [DVal v]"
  "ser_attrs demo_serde a = Inr [DAttrs a]"
  "ser_command demo_serde c = Inr [DCommand (cmd_type c) (cmd_attributes c)]"
  "de_event demo_serde k [DEvent e] = (if kind_of e = k then Inr e else Inl (ErrMsg ''bad''))"
  "de_args demo_serde [DArgs vs] = Inr vs" "de_reply demo_serde [DReply r] = Inr r"
  "de_val demo_serde ty [DVal v] = Inr v" "de_attrs demo_serde [DAttrs a] = Inr a"
  "de_command demo_serde [DCommand t b] = Inr \<lparr>cmd_type = t, cmd_attributes = b\<rparr>"
  by (simp_all add: demo_serde_def)

lemma demo_handles:
  "handle_request demo_serde demo_command_env demo_request =
    [EPut ''workflow-input'' ''main/w1'' [DArgs [GStr ''x'']],
     EPublish (start_message demo_serde ''w1'' \<lparr>sa_fn = ''main'', sa_input = [GStr ''x'']\<rparr>),
     ERespond [DReply \<lparr>sr_error = [], sr_workflow_id = ''w1''\<rparr>]]"
  by (simp add: handle_request_def demo_request_def demo_serde_simps start_workflow_command_def
      handle_start_workflow_def demo_command_env_def workflow_input_bucket_def workflow_input_key_def Let_def)

text \<open>With the serializer that turns integers into doubles, the event and the stored input still agree.\<close>

definition demo_number_request :: "datum list" where
  "demo_number_request = [DCommand ''StartWorkflow'' [DAttrs \<lparr>sa_fn = ''main'', sa_input = [GInt IInt 3]\<rparr>]]"

lemma demo_number_handles:
  "handle_request number_serde demo_command_env demo_number_request =
    [EPut ''workflow-input'' ''main/w1'' [DArgs [GInt IInt 3]],
     EPublish (start_message number_serde ''w1'' \<lparr>sa_fn = ''main'', sa_input = [GInt IInt 3]\<rparr>),
     ERespond [DReply \<lparr>sr_error = [], sr_workflow_id = ''w1''\<rparr>]]"
  by (simp add: handle_request_def demo_number_request_def number_serde_def demo_serde_simps start_workflow_command_def
      handle_start_workflow_def demo_command_env_def workflow_input_bucket_def workflow_input_key_def Let_def)

theorem started_workflow_has_input_witness:
  "decode_workflow_event number_serde
      (delivered 1 0 (start_message number_serde ''w1'' \<lparr>sa_fn = ''main'', sa_input = [GInt IInt 3]\<rparr>)) =
      Inr (WorkflowStarted \<lparr>ws_id = ''w1'', ws_fn = ''main'', ws_input = [GF64 (f64_of_int 3)]\<rparr>)"
proof -
  let ?d = "\<lparr>sa_fn = ''main'', sa_input = [GInt IInt 3]\<rparr>"
  have pub: "EPublish (start_message number_serde ''w1'' ?d) \<in> set (handle_request number_serde demo_command_env demo_number_request)"
    by (simp add: demo_number_handles)
  have cmd: "de_command number_serde demo_number_request = Inr \<lparr>cmd_type = ''StartWorkflow'', cmd_attributes = [DAttrs ?d]\<rparr>"
    "de_attrs number_serde [DAttrs ?d] = Inr ?d" "ce_uuid demo_command_env = ''w1''"
    "ser_event number_serde (start_event ''w1'' ?d) = Inr [DEvent (start_event ''w1'' ?d)]"
    by (simp_all add: demo_number_request_def number_serde_def demo_serde_simps demo_command_env_def)
  from started_workflow_has_input [OF pub number_serde_normal, of 1 0] show ?thesis
    by (auto simp: cmd)
qed

theorem client_panics_on_start_error_witness:
  "\<exists>m. execute_workflow demo_serde (\<lambda>s. s) (\<lambda>_. RepNoResponders (ErrMsg ''nats: no responders available for request''))
    (FnValue ''main'' ()) [] = Inl (OtherPanic m)"
proof -
  have "start_workflow demo_serde (\<lambda>_. RepNoResponders (ErrMsg ''nats: no responders available for request''))
      \<lparr>sa_fn = ''main'', sa_input = []\<rparr> =
    Inl (ErrWrap ''no managers available to start workflow'' (ErrMsg ''nats: no responders available for request''))"
    by (simp add: start_workflow_def demo_serde_simps)
  from client_panics_on_start_error [OF this] show ?thesis .
qed

theorem client_receives_completion_witness:
  "\<exists>x. re_put (project_workflow_result demo_serde (\<lambda>_ _ _. None)
      (demo_msg 9 (WorkflowCompleted \<lparr>wc_id = ''w1'', wc_fn = ''main'', wc_result = [GStr ''ok'', GNil]\<rparr>)))
      = [(''workflow-result'', ''w1'', x)] \<and>
    executing_get (\<lambda>_. []) demo_serde ''w1'' (watch_result ''w1'' (Inr [None, Some (KvPut (Some x))]) (ErrMsg ''ctx'')) (Some TStr)
      = GetOk (Some (GStr ''ok''))"
  using client_receives_completion [OF demo_msg_decodes, of "\<lambda>_ _ _. None" "GStr ''ok''" GNil "[DArgs [GStr ''ok'', GNil]]"
      "[DVal (GStr ''ok'')]" TStr "GStr ''ok''" "[None]" 9 "''w1''" "''main''" "\<lambda>_. []" "[]" "ErrMsg ''ctx''"]
  by (simp add: workflow_result_bucket_def demo_serde_simps)

end
