(* ===== verification/DF_System.thy ===== *)
theory DF_System
  imports DF_Command
begin

text \<open>
  The engine as one state machine. Its state is the history, the input and result buckets, the
  published tasks, and the tasks that workers have loaded a workflow for but not yet settled.
  Its steps are the modelled operations: a start request, one callback of a projector, the load
  and the completion of a task. Steps interleave freely; a published task stays available, so
  that every step includes redelivery, duplicate tasks and concurrent workers on one workflow.
  The invariants hold in every state these steps reach.
\<close>

section \<open>State and steps\<close>

record 'x system =
  sy_log :: "'x memory"
  sy_ids :: "string set"
  sy_inputs :: "string \<rightharpoonup> 'x list"
  sy_wtasks :: "'x list set"
  sy_atasks :: "'x list set"
  sy_wruns :: "(workflow_task \<times> workflow_context) multiset"
  sy_aruns :: "(activity_task \<times> workflow_context) multiset"
  sy_results :: "string \<rightharpoonup> 'x list"

definition initial_system :: "'x system" where
  "initial_system = \<lparr>sy_log = new_memory, sy_ids = {}, sy_inputs = Map.empty, sy_wtasks = {}, sy_atasks = {},
     sy_wruns = {#}, sy_aruns = {#}, sy_results = Map.empty\<rparr>"

text \<open>A stored event as the message a consumer gets, in any delivery.\<close>

definition history_msg :: "string \<Rightarrow> 'x raw \<Rightarrow> u64 \<Rightarrow> gerr + msg_meta \<Rightarrow> 'x msg" where
  "history_msg wid r v meta =
     \<lparr>msg_subject = history_subject_prefix @ ''.'' @ wid, msg_data = raw_data r,
      msg_header = [(event_name_header, raw_name r), (aggregate_version_header, format_uint v)], msg_meta = meta\<rparr>"

definition bucket_of :: "(string \<rightharpoonup> 'x list) \<Rightarrow> gerr + (string \<Rightarrow> gerr + 'x list)" where
  "bucket_of m = Inr (\<lambda>k. case m k of None \<Rightarrow> Inl (ErrMsg ''nats: key not found'') | Some v \<Rightarrow> Inr v)"

text \<open>The effects of a request; a publish to \<open>history.<id>\<close> carries no expected version.\<close>

definition append_published :: "'x memory \<Rightarrow> 'x publish \<Rightarrow> 'x memory" where
  "append_published mem p =
     (let wid = drop (Suc (length history_subject_prefix)) (pub_subject p) in
      fst (mem_append_events None mem wid (CheckExact (of_nat (length (mem_contents mem wid))))
        [\<lparr>raw_name = header_get (pub_header p) event_name_header, raw_data = pub_data p\<rparr>]))"

fun apply_effect :: "'x effect \<Rightarrow> 'x system \<Rightarrow> 'x system" where
  "apply_effect (EPut b k v) s = (if b = workflow_input_bucket then s\<lparr>sy_inputs := (sy_inputs s)(k \<mapsto> v)\<rparr> else s)"
| "apply_effect (EPublish p) s = s\<lparr>sy_log := append_published (sy_log s) p\<rparr>"
| "apply_effect (ERespond b) s = s"
| "apply_effect ETerm s = s"

text \<open>The payloads a reaction publishes, and the results it stores.\<close>

definition payloads :: "'x publish list \<Rightarrow> 'x list set" where
  "payloads ps = pub_data ` set ps"

definition store_results :: "(string \<times> string \<times> 'x list) list \<Rightarrow> (string \<rightharpoonup> 'x list) \<Rightarrow> (string \<rightharpoonup> 'x list)" where
  "store_results ps m = fold (\<lambda>(b, k, v) m. if b = workflow_result_bucket then m(k \<mapsto> v) else m) ps m"

text \<open>
  The step relation. The environment chooses the request and the answers of the server, the
  delivered event, the time, what an activity does, and which loaded task continues. An append is
  only considered while the log has fewer than \<open>2 ^ 64\<close> events.
\<close>

inductive sys_step :: "'x env \<Rightarrow> workflow_fn fn_registry \<Rightarrow> 'x system \<Rightarrow> 'x system \<Rightarrow> bool"
  for ev :: "'x env" and reg :: "workflow_fn fn_registry" where
  request: "ce_uuid w \<notin> sy_ids s \<Longrightarrow> CHR ''/'' \<notin> set (ce_uuid w) \<Longrightarrow> mem_total (sy_log s) + 1 < 2 ^ 64 \<Longrightarrow>
    sys_step ev reg s
      (fold apply_effect (handle_request (env_serde ev) w data) (s\<lparr>sy_ids := insert (ce_uuid w) (sy_ids s)\<rparr>))"
| project_workflow: "r \<in> set (mem_contents (sy_log s) wid) \<Longrightarrow>
    sys_step ev reg s (s\<lparr>sy_wtasks := sy_wtasks s \<union> payloads (re_published
      (project_workflow_task (env_serde ev) (bucket_of (sy_inputs s)) publish (history_msg wid r v meta)))\<rparr>)"
| project_activity: "r \<in> set (mem_contents (sy_log s) wid) \<Longrightarrow>
    sys_step ev reg s (s\<lparr>sy_atasks := sy_atasks s \<union> payloads (re_published
      (project_activity_task (env_serde ev) now_ms publish (history_msg wid r v meta)))\<rparr>)"
| project_retry: "r \<in> set (mem_contents (sy_log s) wid) \<Longrightarrow>
    snd (project_activity_retry (env_serde ev) (history_msg wid r v meta)) = Some (delay, e) \<Longrightarrow>
    sys_step ev reg s (s\<lparr>sy_atasks := sy_atasks s \<union>
      payloads (publish_retry (env_serde ev) consumer fetch publish now_ns e)\<rparr>)"
| project_result: "r \<in> set (mem_contents (sy_log s) wid) \<Longrightarrow>
    sys_step ev reg s (s\<lparr>sy_results := store_results (re_put
      (project_workflow_result (env_serde ev) put (history_msg wid r v meta))) (sy_results s)\<rparr>)"
| load_workflow: "bs \<in> sy_wtasks s \<Longrightarrow> de_wtask (env_serde ev) bs = Inr task \<Longrightarrow>
    wf_get (env_serde ev) (sy_log s) (wt_id task) = Inr c \<Longrightarrow>
    sys_step ev reg s (s\<lparr>sy_wruns := add_mset (task, c) (sy_wruns s)\<rparr>)"
| finish_workflow: "(task, c) \<in># sy_wruns s \<Longrightarrow>
    mem_total (sy_log s) + length (root_uncommitted (fst (process_workflow_task ev reg clock c task))) < 2 ^ 64 \<Longrightarrow>
    sys_step ev reg s (s\<lparr>sy_log := h_log (handle_workflow_task (\<lambda>_ _. Inr c) (wf_save (env_serde ev)) ev reg clock (sy_log s) task),
      sy_wruns := sy_wruns s - {#(task, c)#}\<rparr>)"
| load_activity: "bs \<in> sy_atasks s \<Longrightarrow> de_atask (env_serde ev) bs = Inr task \<Longrightarrow>
    wf_get (env_serde ev) (sy_log s) (tk_id task) = Inr c \<Longrightarrow>
    sys_step ev reg s (s\<lparr>sy_aruns := add_mset (task, c) (sy_aruns s)\<rparr>)"
| finish_activity: "(task, c) \<in># sy_aruns s \<Longrightarrow> mem_total (sy_log s) + 1 < 2 ^ 64 \<Longrightarrow>
    sys_step ev reg s (s\<lparr>sy_log := h_log (handle_activity_task (\<lambda>_ _. Inr c) (wf_save (env_serde ev)) ev areg now_ms (sy_log s) task),
      sy_aruns := sy_aruns s - {#(task, c)#}\<rparr>)"

inductive reachable :: "'x env \<Rightarrow> workflow_fn fn_registry \<Rightarrow> 'x system \<Rightarrow> bool"
  for ev :: "'x env" and reg :: "workflow_fn fn_registry" where
  start: "reachable ev reg initial_system"
| step: "reachable ev reg s \<Longrightarrow> sys_step ev reg s s' \<Longrightarrow> reachable ev reg s'"

section \<open>The save of a loaded workflow\<close>

lemma serialized_decodes:
  assumes "serialize_all c us = Inr raws"
    and "\<And>e bs. e \<in> set us \<Longrightarrow> ev_ser c e = Inr bs \<Longrightarrow>
      decode_raw rg c \<lparr>raw_name = ev_name c e, raw_data = bs\<rparr> = Inr (nf e)"
  shows "traverse (decode_raw rg c) raws = Inr (map nf us)"
  using assms by (induction us arbitrary: raws) (auto split: sum.splits)

context event_repository
begin

text \<open>
  Saving a root that was loaded at the \<open>n\<close>-th event either leaves the log as it was or, if
  nothing was stored since, extends the stream by what its new events decode to.
\<close>

lemma save_outcome:
  assumes inv: "invar l" and lg: "ident (root_state r) = lg"
    and ver: "root_version r = of_nat (n + length (root_uncommitted r))" and n: "n \<le> length es"
    and bound: "total l + length (root_uncommitted r) < 2 ^ 64" and dec: "decoded l lg = Inr es"
    and ser: "\<And>e bs. e \<in> set (root_uncommitted r) \<Longrightarrow> ev_ser (repo_codec repo) e = Inr bs \<Longrightarrow>
      decode_raw (repo_registry repo) (repo_codec repo) \<lparr>raw_name = ev_name (repo_codec repo) e, raw_data = bs\<rparr>
        = Inr (nf e)"
  shows "fst (repo_save append ident repo l r) = l \<or>
    (n = length es \<and> invar (fst (repo_save append ident repo l r)) \<and>
     total (fst (repo_save append ident repo l r)) = total l + length (root_uncommitted r) \<and>
     decoded (fst (repo_save append ident repo l r)) lg = Inr (es @ map nf (root_uncommitted r)) \<and>
     (\<forall>j. j \<noteq> lg \<longrightarrow> contents (fst (repo_save append ident repo l r)) j = contents l j))"
proof (cases "root_uncommitted r = []")
  case True
  then show ?thesis by (simp add: repo_save_def commit_events_def flush_uncommitted_events_def)
next
  case False
  let ?us = "root_uncommitted r"
  show ?thesis
  proof (cases "serialize_all (repo_codec repo) ?us")
    case (Inl e)
    with False show ?thesis
      by (simp add: repo_save_def commit_events_def flush_uncommitted_events_def Let_def
          raw_events_from_uncommitted_def no_transformers)
  next
    case (Inr raws)
    have raws: "length raws = length ?us" "raws \<noteq> []"
      using serialize_all_length [OF Inr] False by auto
    have len: "length es = length (contents l lg)" by (rule decoded_length [OF dec])
    have small: "length (contents l lg) < 2 ^ 64"
      using contents_total [OF inv, of lg] total_bound [OF inv] by simp
    from ver have exp: "root_version r - of_nat (length ?us) = of_nat n" by simp
    show ?thesis
    proof (cases "n = length es")
      case False
      have "(of_nat n :: u64) \<noteq> of_nat (length (contents l lg))"
        using False n len small by (subst of_nat_u64_inj) auto
      with save_conflict [OF inv lg Inr \<open>?us \<noteq> []\<close>] exp show ?thesis by auto
    next
      case True
      obtain l' where ap: "append l lg (CheckExact (of_nat (length (contents l lg)))) raws
          = (l', Inr (of_nat (length (contents l lg) + length raws)))"
        using append_result [OF inv raws(2), of lg] raws(1) bound
        by (cases "append l lg (CheckExact (of_nat (length (contents l lg)))) raws") auto
      have b: "total l + length raws < 2 ^ 64" using bound raws(1) by simp
      note ext = append_extends [OF inv b ap]
      have "decoded l' lg = Inr (es @ map nf ?us)"
        using ext(1) dec serialized_decodes [OF Inr ser] by (simp add: decoded_def traverse_append)
      moreover have "fst (repo_save append ident repo l r) = l'"
        using \<open>?us \<noteq> []\<close> Inr ap exp True lg len
        by (simp add: repo_save_def commit_events_def flush_uncommitted_events_def Let_def
            raw_events_from_uncommitted_def no_transformers)
      ultimately show ?thesis using True ext raws(1) by simp
    qed
  qed
qed

end


section \<open>What a task adds to a history\<close>

lemma run_keeps_fn:
  assumes "run_prog p fv sd clock c futs = (c', oc)"
  shows "\<exists>evs. root_uncommitted c' = root_uncommitted c @ evs \<and> (\<forall>e \<in> set evs. event_wf_fn e = st_fn (root_state c))"
  using assms
proof (induction p arbitrary: c futs rule: prog_induct)
  case (PExec cx act args k)
  show ?case
  proof (cases rule: execute_cases [of act "clock (length futs)" cx args c])
    case (replay fn f)
    with PExec.prems PExec.IH [of "length futs" "c\<lparr>root_state := consume (root_state c) fn\<rparr>" "futs @ [f]"]
    show ?thesis by simp
  next
    case (fresh fn opts)
    let ?e = "ActivityScheduled (schedule_event (clock (length futs)) (consume (root_state c) fn) fn args opts)"
    have "run_prog (k (length futs)) fv sd clock (c\<lparr>root_state := consume (root_state c) fn,
        root_uncommitted := root_uncommitted c @ [?e], root_version := root_version c + 1\<rparr>) (futs @ [open_future]) = (c', oc)"
      using fresh PExec.prems by simp
    from PExec.IH [OF this] obtain evs where "root_uncommitted c' = root_uncommitted c @ [?e] @ evs"
      "\<forall>e \<in> set evs. event_wf_fn e = st_fn (root_state c)" by auto
    then show ?thesis by (intro exI [of _ "?e # evs"]) (simp add: schedule_event_def)
  qed (use PExec.prems in auto)
next
  case (PGet h ty k)
  from PGet.prems show ?case
    by (cases "blocking_get fv sd (futs ! h) ty") (auto split: if_splits dest: PGet.IH)
qed auto

lemma exec_keeps_fn:
  assumes "exec_workflow ev reg clock c task = (c', r)"
  shows "\<exists>evs. root_uncommitted c' = root_uncommitted c @ evs \<and> (\<forall>e \<in> set evs. event_wf_fn e = st_fn (root_state c))"
proof (cases "c' = c")
  case False
  then obtain f :: workflow_fn and args oc where "run_prog (wfn_body f args) (env_fmt ev) (Some (env_serde ev)) clock c [] = (c', oc)"
    using assms
    by (auto simp: exec_workflow_def split: sum.splits fn_any.splits exec.splits if_splits prod.splits outcome.splits)
  from run_keeps_fn [OF this] show ?thesis by blast
qed (auto intro: exI [of _ "[]"])

text \<open>An event that a workflow task adds to the stream of its workflow.\<close>

definition task_event :: "'x env \<Rightarrow> workflow_fn fn_registry \<Rightarrow> (nat \<Rightarrow> i64) \<Rightarrow> workflow_context \<Rightarrow> workflow_task
    \<Rightarrow> wf_event \<Rightarrow> bool" where
  "task_event ev reg clock c task e \<longleftrightarrow>
     event_wf_id e = wt_id task \<and> event_wf_fn e = wt_fn task \<and> kind_of e \<noteq> KWorkflowStarted \<and>
     (\<forall>x. e = WorkflowCompleted x \<longrightarrow> (\<exists>c1. exec_workflow ev reg clock c task = (c1, ExecOk (wc_result x))))"

lemma scheduled_kind: "is_scheduled e \<Longrightarrow> kind_of e = KActivityScheduled"
  by (cases e) (simp_all add: is_scheduled_def)

lemma process_adds:
  assumes "process_workflow_task ev reg clock c task = (c', err)" and "root_uncommitted c = []"
    and "st_id (root_state c) = wt_id task" and "st_fn (root_state c) = wt_fn task"
  shows "\<forall>e \<in> set (root_uncommitted c'). task_event ev reg clock c task e"
    and "root_version c' = root_version c + of_nat (length (root_uncommitted c'))"
    and "st_id (root_state c') = wt_id task"
proof -
  obtain c1 r where ex: "exec_workflow ev reg clock c task = (c1, r)" by fastforce
  have fns: "\<forall>e \<in> set (root_uncommitted c1). event_wf_fn e = wt_fn task"
    using exec_keeps_fn [OF ex] assms(2,4) by auto
  have "\<exists>es. root_uncommitted c' = root_uncommitted c1 @ es \<and> (\<forall>e \<in> set es. event_wf_fn e = wt_fn task)"
    using assms(1) ex
    by (auto simp: process_workflow_task_def fail_workflow_def split: exec.splits panic.splits)
  with fns have fns': "\<forall>e \<in> set (root_uncommitted c'). event_wf_fn e = wt_fn task" by auto
  have sched: "task_event ev reg clock c task e"
    if "e \<in> set (root_uncommitted c')" "is_scheduled e" "event_wf_id e = st_id (root_state c)" for e
    using that fns' assms(3) scheduled_kind [OF that(2)] by (auto simp: task_event_def)
  have "(\<forall>e \<in> set (root_uncommitted c'). task_event ev reg clock c task e) \<and>
    root_version c' = root_version c + of_nat (length (root_uncommitted c')) \<and> st_id (root_state c') = wt_id task"
    using assms(1)
  proof (cases rule: process_workflow_cases)
    case (waits evs)
    with sched assms(2,3) show ?thesis by (auto simp: list_all_iff)
  next
    case (completes evs c2 vs)
    moreover have "task_event ev reg clock c task (completed_event task vs)"
      using completes(1) by (auto simp: task_event_def completed_event_def)
    ultimately show ?thesis using sched assms(2) by (auto simp: list_all_iff)
  next
    case (fails evs e)
    moreover have "task_event ev reg clock c task (failed_event task e)"
      by (simp add: task_event_def failed_event_def)
    ultimately show ?thesis using sched assms(2) by (auto simp: list_all_iff)
  qed
  then show "\<forall>e \<in> set (root_uncommitted c'). task_event ev reg clock c task e"
    "root_version c' = root_version c + of_nat (length (root_uncommitted c'))"
    "st_id (root_state c') = wt_id task" by auto
qed

section \<open>Well-formed histories\<close>

text \<open>The task that every projection of a history publishes for its workflow.\<close>

definition start_input :: "wf_event \<Rightarrow> gval list" where
  "start_input e = (case e of WorkflowStarted w \<Rightarrow> ws_input w | _ \<Rightarrow> [])"

definition task_for :: "wf_event list \<Rightarrow> workflow_task" where
  "task_for es = \<lparr>wt_id = event_wf_id (hd es), wt_fn = event_wf_fn (hd es), wt_input = start_input (hd es)\<rparr>"

lemma task_for_append [simp]: "es \<noteq> [] \<Longrightarrow> task_for (es @ fs) = task_for es"
  by (simp add: task_for_def)

text \<open>A run of the workflow's function on a prefix of its history returned these values.\<close>

definition result_of_run :: "'x env \<Rightarrow> workflow_fn fn_registry \<Rightarrow> wf_event list \<Rightarrow> gval list \<Rightarrow> bool" where
  "result_of_run ev reg es vs \<longleftrightarrow>
     (\<exists>n clock c. n \<le> length es \<and> exec_workflow ev reg clock (context_after (take n es)) (task_for es) = (c, ExecOk vs))"

lemma result_of_run_append: "result_of_run ev reg es vs \<Longrightarrow> es \<noteq> [] \<Longrightarrow> result_of_run ev reg (es @ fs) vs"
  unfolding result_of_run_def
proof (elim exE conjE)
  fix n clock c
  assume "es \<noteq> []" "n \<le> length es"
    "exec_workflow ev reg clock (context_after (take n es)) (task_for es) = (c, ExecOk vs)"
  then show "\<exists>n clock c. n \<le> length (es @ fs) \<and>
      exec_workflow ev reg clock (context_after (take n (es @ fs))) (task_for (es @ fs)) = (c, ExecOk vs)"
    by (intro exI [of _ n] exI [of _ clock] exI [of _ c]) simp
qed

lemma result_of_run_unique:
  assumes "result_of_run ev reg es vs" and "result_of_run ev reg es us"
  shows "us = vs"
proof -
  have later: "us = vs"
    if "exec_workflow ev reg k (context_after (take n es)) (task_for es) = (c, ExecOk vs)"
      "exec_workflow ev reg k' (context_after (take m es)) (task_for es) = (c', ExecOk us)" "n \<le> m"
    for n m k k' c c' and vs us
  proof -
    have "take m es = take n es @ drop n (take m es)" using that(3) by (metis append_take_drop_id min.absorb1 take_take)
    with exec_workflow_stable [OF that(1), of k' "drop n (take m es)"] that(2) show ?thesis by auto
  qed
  from assms obtain n k c m k' c' where
    "exec_workflow ev reg k (context_after (take n es)) (task_for es) = (c, ExecOk vs)"
    "exec_workflow ev reg k' (context_after (take m es)) (task_for es) = (c', ExecOk us)"
    unfolding result_of_run_def by blast
  with later [of k n c vs k' m c' us] later [of k' m c' us k n c vs] show ?thesis by (cases "n \<le> m") auto
qed

definition good_stream :: "(gval \<Rightarrow> gval) \<Rightarrow> 'x env \<Rightarrow> workflow_fn fn_registry \<Rightarrow> string \<Rightarrow> wf_event list \<Rightarrow> bool" where
  "good_stream nv ev reg wid es \<longleftrightarrow>
     es \<noteq> [] \<and> kind_of (hd es) = KWorkflowStarted \<and> (\<forall>e \<in> set (tl es). kind_of e \<noteq> KWorkflowStarted) \<and>
     (\<forall>e \<in> set es. event_wf_id e = wid \<and> event_wf_fn e = wt_fn (task_for es)) \<and>
     map nv (wt_input (task_for es)) = wt_input (task_for es) \<and>
     (\<forall>x. WorkflowCompleted x \<in> set es \<longrightarrow> (\<exists>vs. result_of_run ev reg es vs \<and> wc_result x = map nv vs))"

lemma good_task_id:
  assumes "good_stream nv ev reg wid es"
  shows "wt_id (task_for es) = wid"
proof -
  have "event_wf_id (hd es) = wid" using assms hd_in_set [of es] unfolding good_stream_def by blast
  then show ?thesis by (simp add: task_for_def)
qed

lemma good_stream_context:
  assumes "good_stream nv ev reg wid es" and "0 < n" and "n \<le> length es"
  shows "st_id (root_state (context_after (take n es))) = wid"
    "st_fn (root_state (context_after (take n es))) = wt_fn (task_for es)"
proof -
  have "take n es \<noteq> []" using assms by auto
  then obtain us u where us: "take n es = us @ [u]" by (cases "take n es" rule: rev_cases) auto
  then have "u \<in> set es" by (metis in_set_takeD in_set_conv_decomp)
  with assms(1) us show "st_id (root_state (context_after (take n es))) = wid"
    "st_fn (root_state (context_after (take n es))) = wt_fn (task_for es)"
    by (simp_all add: context_after_def good_stream_def)
qed

lemma good_stream_append:
  assumes good: "good_stream nv ev reg wid es"
    and new: "\<And>e. e \<in> set new \<Longrightarrow> event_wf_id e = wid \<and> event_wf_fn e = wt_fn (task_for es) \<and> kind_of e \<noteq> KWorkflowStarted"
    and results: "\<And>x. WorkflowCompleted x \<in> set new \<Longrightarrow> \<exists>vs. result_of_run ev reg (es @ new) vs \<and> wc_result x = map nv vs"
  shows "good_stream nv ev reg wid (es @ new)"
proof -
  have es: "es \<noteq> []" using good by (simp add: good_stream_def)
  have old: "\<exists>vs. result_of_run ev reg (es @ new) vs \<and> wc_result x = map nv vs" if "WorkflowCompleted x \<in> set es" for x
    using that good result_of_run_append [of ev reg es _ new] by (force simp: good_stream_def)
  show ?thesis
    unfolding good_stream_def using es good new old results by (auto simp: good_stream_def)
qed


section \<open>The invariant\<close>

definition log_inv :: "(gval \<Rightarrow> gval) \<Rightarrow> 'x env \<Rightarrow> workflow_fn fn_registry \<Rightarrow> 'x memory \<Rightarrow> bool" where
  "log_inv nv ev reg mem \<longleftrightarrow>
     mem_wf (\<lambda>_. 0) mem \<and>
     (\<forall>wid. mem_contents mem wid = [] \<or> (\<exists>r. mem_contents mem wid = [r] \<and> raw_data r = []) \<or>
       (\<exists>es. stream_events (env_serde ev) mem wid = Inr es \<and> good_stream nv ev reg wid es))"

definition wtask_ok :: "'x serde \<Rightarrow> 'x memory \<Rightarrow> workflow_task \<Rightarrow> bool" where
  "wtask_ok sd mem t \<longleftrightarrow> (\<exists>es. stream_events sd mem (wt_id t) = Inr es \<and> es \<noteq> [] \<and> t = task_for es)"

definition atask_ok :: "'x serde \<Rightarrow> 'x memory \<Rightarrow> activity_task \<Rightarrow> bool" where
  "atask_ok sd mem t \<longleftrightarrow>
     (\<exists>es. stream_events sd mem (tk_id t) = Inr es \<and> es \<noteq> [] \<and> tk_wf t = wt_fn (task_for es))"

definition loaded_ok :: "'x serde \<Rightarrow> 'x memory \<Rightarrow> string \<Rightarrow> workflow_context \<Rightarrow> bool" where
  "loaded_ok sd mem wid c \<longleftrightarrow>
     (\<exists>es n. stream_events sd mem wid = Inr es \<and> 0 < n \<and> n \<le> length es \<and> c = context_after (take n es))"

definition inputs_ok :: "'x serde \<Rightarrow> 'x memory \<Rightarrow> (string \<rightharpoonup> 'x list) \<Rightarrow> bool" where
  "inputs_ok sd mem inp \<longleftrightarrow>
     (\<forall>wid es. stream_events sd mem wid = Inr es \<longrightarrow> es \<noteq> [] \<longrightarrow>
       (\<exists>b. inp (workflow_input_key (wt_fn (task_for es)) wid) = Some b \<and> de_args sd b = Inr (wt_input (task_for es))))"

definition result_bytes :: "'x serde \<Rightarrow> gval list \<Rightarrow> 'x list" where
  "result_bytes sd vs = (case ser_args sd vs of Inl _ \<Rightarrow> [] | Inr bs \<Rightarrow> bs)"

definition results_ok :: "'x serde \<Rightarrow> 'x memory \<Rightarrow> (string \<rightharpoonup> 'x list) \<Rightarrow> bool" where
  "results_ok sd mem res \<longleftrightarrow>
     (\<forall>wid b. res wid = Some b \<longrightarrow>
       (\<exists>es x. stream_events sd mem wid = Inr es \<and> WorkflowCompleted x \<in> set es \<and> b = result_bytes sd (wc_result x)))"

definition sys_inv :: "(gval \<Rightarrow> gval) \<Rightarrow> 'x env \<Rightarrow> workflow_fn fn_registry \<Rightarrow> 'x system \<Rightarrow> bool" where
  "sys_inv nv ev reg s \<longleftrightarrow>
     log_inv nv ev reg (sy_log s) \<and>
     (\<forall>wid. mem_contents (sy_log s) wid \<noteq> [] \<longrightarrow> wid \<in> sy_ids s) \<and>
     (\<forall>wid \<in> sy_ids s. CHR ''/'' \<notin> set wid) \<and>
     inputs_ok (env_serde ev) (sy_log s) (sy_inputs s) \<and>
     (\<forall>b \<in> sy_wtasks s. \<forall>t. de_wtask (env_serde ev) b = Inr t \<longrightarrow> wtask_ok (env_serde ev) (sy_log s) t) \<and>
     (\<forall>b \<in> sy_atasks s. \<forall>t. de_atask (env_serde ev) b = Inr t \<longrightarrow> atask_ok (env_serde ev) (sy_log s) t) \<and>
     (\<forall>(t, c) \<in># sy_wruns s. wtask_ok (env_serde ev) (sy_log s) t \<and> loaded_ok (env_serde ev) (sy_log s) (wt_id t) c) \<and>
     (\<forall>(t, c) \<in># sy_aruns s. atask_ok (env_serde ev) (sy_log s) t \<and> loaded_ok (env_serde ev) (sy_log s) (tk_id t) c) \<and>
     results_ok (env_serde ev) (sy_log s) (sy_results s)"

text \<open>Streams only grow, and what holds of the tasks of a log holds when its streams have grown.\<close>

definition log_le :: "'x serde \<Rightarrow> 'x memory \<Rightarrow> 'x memory \<Rightarrow> bool" where
  "log_le sd mem mem' \<longleftrightarrow>
     (\<forall>wid es. stream_events sd mem wid = Inr es \<longrightarrow> es \<noteq> [] \<longrightarrow> (\<exists>new. stream_events sd mem' wid = Inr (es @ new)))"

lemma log_leD: "log_le sd mem mem' \<Longrightarrow> stream_events sd mem wid = Inr es \<Longrightarrow> es \<noteq> [] \<Longrightarrow>
    \<exists>new. stream_events sd mem' wid = Inr (es @ new)"
  by (auto simp: log_le_def)

lemma log_le_refl [simp]: "log_le sd mem mem"
  by (auto simp: log_le_def)

lemma wtask_ok_mono: "log_le sd mem mem' \<Longrightarrow> wtask_ok sd mem t \<Longrightarrow> wtask_ok sd mem' t"
  unfolding wtask_ok_def using log_leD [of sd mem mem'] by (metis append_is_Nil_conv task_for_append)

lemma atask_ok_mono: "log_le sd mem mem' \<Longrightarrow> atask_ok sd mem t \<Longrightarrow> atask_ok sd mem' t"
  unfolding atask_ok_def using log_leD [of sd mem mem'] by (metis append_is_Nil_conv task_for_append)

lemma loaded_ok_mono:
  assumes "log_le sd mem mem'" and "loaded_ok sd mem wid c"
  shows "loaded_ok sd mem' wid c"
proof -
  from assms(2) obtain es n where es: "stream_events sd mem wid = Inr es" "0 < n" "n \<le> length es"
    "c = context_after (take n es)" by (auto simp: loaded_ok_def)
  then have "es \<noteq> []" by auto
  with log_leD [OF assms(1) es(1)] obtain new where "stream_events sd mem' wid = Inr (es @ new)" by blast
  with es show ?thesis unfolding loaded_ok_def by (intro exI [of _ "es @ new"] exI [of _ n]) simp
qed

lemma results_ok_mono:
  assumes "log_le sd mem mem'" and "results_ok sd mem res"
  shows "results_ok sd mem' res"
  unfolding results_ok_def
proof (intro allI impI)
  fix wid b
  assume "res wid = Some b"
  with assms(2) obtain es x where es: "stream_events sd mem wid = Inr es" "WorkflowCompleted x \<in> set es"
    "b = result_bytes sd (wc_result x)" unfolding results_ok_def by blast
  then have "es \<noteq> []" by auto
  with log_leD [OF assms(1) es(1)] es
  show "\<exists>es x. stream_events sd mem' wid = Inr es \<and> WorkflowCompleted x \<in> set es \<and> b = result_bytes sd (wc_result x)"
    by (metis UnI1 set_append)
qed

lemma stream_events_same: "mem_contents mem' wid = mem_contents mem wid \<Longrightarrow> stream_events sd mem' wid = stream_events sd mem wid"
  by (simp add: stream_events_def)

text \<open>A log in which one stream has grown.\<close>

lemma one_stream_grows:
  assumes others: "\<And>j. j \<noteq> wid \<Longrightarrow> mem_contents mem' j = mem_contents mem j"
    and es: "stream_events sd mem wid = Inr es" "stream_events sd mem' wid = Inr (es @ new)"
  shows "log_le sd mem mem'"
  unfolding log_le_def
proof (intro allI impI)
  fix j us
  assume us: "stream_events sd mem j = Inr us"
  show "\<exists>new. stream_events sd mem' j = Inr (us @ new)"
  proof (cases "j = wid")
    case False
    with us stream_events_same [OF others [OF False], of sd] show ?thesis by (intro exI [of _ "[]"]) simp
  qed (use us es in auto)
qed

lemma inputs_ok_grows:
  assumes inp: "inputs_ok sd mem inp"
    and others: "\<And>j. j \<noteq> wid \<Longrightarrow> mem_contents mem' j = mem_contents mem j"
    and es: "stream_events sd mem wid = Inr es" "stream_events sd mem' wid = Inr (es @ new)" "es \<noteq> []"
  shows "inputs_ok sd mem' inp"
  unfolding inputs_ok_def
proof (intro allI impI)
  fix j us
  assume us: "stream_events sd mem' j = Inr us" "us \<noteq> []"
  show "\<exists>b. inp (workflow_input_key (wt_fn (task_for us)) j) = Some b \<and> de_args sd b = Inr (wt_input (task_for us))"
  proof (cases "j = wid")
    case True
    with es us have "us = es @ new" by simp
    with inp es True show ?thesis by (simp add: inputs_ok_def)
  next
    case False
    with us stream_events_same [OF others [OF False], of sd] inp show ?thesis by (simp add: inputs_ok_def)
  qed
qed

section \<open>Finishing a task\<close>

lemma empty_undecodable:
  assumes "normalising nv sd" and "raw_data r = []"
  shows "decode_raw wf_registry (wf_codec sd) r \<noteq> Inr e"
proof (cases "get_func wf_registry (raw_name r)")
  case (Some k)
  show ?thesis
    using Some assms(2) normalisingD(3) [OF assms(1), of k e]
    by (cases "de_event sd k []") (simp_all add: decode_raw_def wf_codec_def)
qed (simp add: decode_raw_def)

lemma log_invD:
  assumes "log_inv nv ev reg mem" and "stream_events (env_serde ev) mem wid = Inr es" and "es \<noteq> []"
    and "normalising nv (env_serde ev)"
  shows "good_stream nv ev reg wid es"
proof -
  from assms(2,3) have "mem_contents mem wid \<noteq> []" by (auto simp: stream_events_def)
  moreover have "\<nexists>r. mem_contents mem wid = [r] \<and> raw_data r = []"
    using assms(2) empty_undecodable [OF assms(4)] by (auto simp: stream_events_def split: sum.splits)
  ultimately have "\<exists>us. stream_events (env_serde ev) mem wid = Inr us \<and> good_stream nv ev reg wid us"
    using assms(1) by (auto simp: log_inv_def)
  with assms(2) show ?thesis by simp
qed

lemma normal_decode:
  assumes "normalising nv sd" and "ser_event sd e = Inr bs"
  shows "decode_raw wf_registry (wf_codec sd) \<lparr>raw_name = event_name e, raw_data = bs\<rparr> = Inr (norm_event nv e)"
  using normalisingD(2) [OF assms] by (simp add: decode_raw_def wf_codec_def event_name_def)

lemma h_log_save_after: "h_log (save_after save l d c) = fst (save l c)"
  by (auto simp: save_after_def split: prod.splits sum.splits)

lemma finish_saves:
  assumes law: "normalising nv sd" and wf: "mem_wf (\<lambda>_. 0) mem" and es: "stream_events sd mem wid = Inr es"
    and n: "n \<le> length es" and ver: "root_version c = of_nat (n + length (root_uncommitted c))"
    and id: "st_id (root_state c) = wid" and room: "mem_total mem + length (root_uncommitted c) < 2 ^ 64"
  shows "fst (wf_save sd mem c) = mem \<or>
    (n = length es \<and> mem_wf (\<lambda>_. 0) (fst (wf_save sd mem c)) \<and>
     stream_events sd (fst (wf_save sd mem c)) wid = Inr (es @ map (norm_event nv) (root_uncommitted c)) \<and>
     (\<forall>j. j \<noteq> wid \<longrightarrow> mem_contents (fst (wf_save sd mem c)) j = mem_contents mem j))"
proof -
  have ser: "decode_raw (repo_registry (wf_repo sd)) (repo_codec (wf_repo sd))
      \<lparr>raw_name = ev_name (repo_codec (wf_repo sd)) e, raw_data = bs\<rparr> = Inr (norm_event nv e)"
    if "ev_ser (repo_codec (wf_repo sd)) e = Inr bs" for e bs
    using normal_decode [OF law, of e bs] that by (simp add: wf_codec_def)
  have dec: "wfmem.decoded sd mem wid = Inr es" using es by (simp add: stream_events_decoded)
  show ?thesis
    using wfmem.save_outcome [OF wf id ver n room dec ser] by (auto simp: stream_events_decoded)
qed


section \<open>Delivering events\<close>

lemma wf_registry_name: "get_func wf_registry nm = Some k \<Longrightarrow> nm = kind_name k"
  by (simp add: wf_registry_def all_kinds_def get_func_def split: if_splits)

text \<open>A stored event that a projector decodes is an event of the stream it was stored in.\<close>

lemma delivered_event:
  assumes law: "normalising nv (env_serde ev)" and inv: "log_inv nv ev reg mem" and r: "r \<in> set (mem_contents mem wid)"
    and dec: "decode_workflow_event (env_serde ev) (history_msg wid r v meta) = Inr e"
  obtains es where "stream_events (env_serde ev) mem wid = Inr es" "good_stream nv ev reg wid es" "e \<in> set es"
proof -
  have "raw_data r \<noteq> []" using dec by (auto simp: decode_workflow_event_def history_msg_def)
  with inv r obtain es where es: "stream_events (env_serde ev) mem wid = Inr es" "good_stream nv ev reg wid es"
    unfolding log_inv_def by (metis empty_iff empty_set set_ConsD)
  from es(1) have "list_all2 (\<lambda>x y. decode_raw wf_registry (wf_codec (env_serde ev)) x = Inr y) (mem_contents mem wid) es"
    by (simp add: stream_events_def traverse_Inr_iff)
  note all = this
  obtain i where i: "i < length (mem_contents mem wid)" "mem_contents mem wid ! i = r"
    using r unfolding in_set_conv_nth by blast
  obtain e' where e': "e' \<in> set es" "decode_raw wf_registry (wf_codec (env_serde ev)) r = Inr e'"
    using list_all2_nthD [OF all i(1)] list_all2_lengthD [OF all] i by (intro that [of "es ! i"]) (simp_all del: length_mem_contents)
  then obtain k where k: "get_func wf_registry (raw_name r) = Some k" "de_event (env_serde ev) k (raw_data r) = Inr e'"
    by (cases "get_func wf_registry (raw_name r)"; cases "de_event (env_serde ev) (the (get_func wf_registry (raw_name r))) (raw_data r)")
      (auto simp: decode_raw_def wf_codec_def)
  have "decode_workflow_event (env_serde ev) (history_msg wid r v meta) = Inr e'"
    using k wf_registry_name [OF k(1)] \<open>raw_data r \<noteq> []\<close>
    by (simp add: decode_workflow_event_def history_msg_def header_get_def)
  with dec e'(1) es that show thesis by simp
qed

lemma good_started: "good_stream nv ev reg wid es \<Longrightarrow> WorkflowStarted w \<in> set es \<Longrightarrow> hd es = WorkflowStarted w"
  by (cases es) (auto simp: good_stream_def)

lemma good_event:
  "good_stream nv ev reg wid es \<Longrightarrow> e \<in> set es \<Longrightarrow> event_wf_id e = wid \<and> event_wf_fn e = wt_fn (task_for es)"
  by (simp add: good_stream_def)

text \<open>Every workflow task that is published is the task of its history.\<close>

lemma workflow_task_published:
  assumes law: "normalising nv (env_serde ev)" and inv: "log_inv nv ev reg mem" and inp: "inputs_ok (env_serde ev) mem inp"
    and r: "r \<in> set (mem_contents mem wid)"
    and b: "b \<in> payloads (re_published
      (project_workflow_task (env_serde ev) (bucket_of inp) publish (history_msg wid r v meta)))"
    and t: "de_wtask (env_serde ev) b = Inr t"
  shows "wtask_ok (env_serde ev) mem t"
proof -
  let ?sd = "env_serde ev" and ?m = "history_msg wid r v meta"
  obtain e where dec: "decode_workflow_event ?sd ?m = Inr e"
    using b by (cases "decode_workflow_event ?sd ?m") (simp_all add: project_workflow_task_def settle_def payloads_def)
  obtain es where es: "stream_events ?sd mem wid = Inr es" "good_stream nv ev reg wid es" "e \<in> set es"
    by (rule delivered_event [OF law inv r dec])
  have ne: "es \<noteq> []" using es(2) by (simp add: good_stream_def)
  have eid: "event_wf_id e = wid" "event_wf_fn e = wt_fn (task_for es)" using good_event [OF es(2,3)] by auto
  have args: "load_workflow_input_args ?sd (bucket_of inp) (wt_fn (task_for es)) wid = Inr (wt_input (task_for es))"
    using inp es(1) ne by (fastforce simp: inputs_ok_def load_workflow_input_args_def bucket_of_def)
  have tf: "\<lparr>wt_id = wid, wt_fn = wt_fn (task_for es), wt_input = wt_input (task_for es)\<rparr> = task_for es"
    using good_task_id [OF es(2)] by simp
  have start: "ws_input w = wt_input (task_for es)" if "e = WorkflowStarted w" for w
    using good_started [OF es(2)] es(3) that by (simp add: task_for_def start_input_def)
  have pub: "ser_wtask ?sd (task_for es) = Inr b"
    if "b \<in> payloads (re_published (publish_workflow_task ?sd publish mt wid (wt_fn (task_for es)) (wt_input (task_for es))))" for mt
    using that by (auto simp: publish_workflow_task_def settle_def payloads_def Let_def tf split: sum.splits option.splits)
  obtain mt where mt: "meta = Inr mt"
    using b dec by (cases meta) (simp_all add: project_workflow_task_def settle_def payloads_def history_msg_def)
  have "ser_wtask ?sd (task_for es) = Inr b"
  proof (cases e)
    case (WorkflowStarted w)
    with b dec mt eid start show ?thesis
      by (intro pub [of mt]) (simp add: project_workflow_task_def history_msg_def)
  next
    case (ActivityCompleted a)
    with b dec mt eid args show ?thesis
      by (intro pub [of mt]) (simp add: project_workflow_task_def history_msg_def)
  next
    case (ActivityFailed a)
    with b dec mt eid args show ?thesis
      by (intro pub [of mt]) (simp add: project_workflow_task_def history_msg_def)
  qed (use b dec mt in \<open>simp_all add: project_workflow_task_def history_msg_def settle_def payloads_def\<close>)
  from normalisingD(4) [OF law this] t es(2) have "t = task_for es" by (simp add: good_stream_def)
  with es(1) ne good_task_id [OF es(2)] show ?thesis by (auto simp: wtask_ok_def)
qed

lemma activity_task_published:
  assumes law: "normalising nv (env_serde ev)" and inv: "log_inv nv ev reg mem" and r: "r \<in> set (mem_contents mem wid)"
    and b: "b \<in> payloads (re_published (project_activity_task (env_serde ev) now_ms publish (history_msg wid r v meta)))"
    and t: "de_atask (env_serde ev) b = Inr t"
  shows "atask_ok (env_serde ev) mem t"
proof -
  let ?sd = "env_serde ev" and ?m = "history_msg wid r v meta"
  from b obtain e where dec: "decode_workflow_event ?sd ?m = Inr (ActivityScheduled e)"
    and ser: "ser_atask ?sd (first_attempt now_ms e) = Inr b"
    by (auto simp: project_activity_task_def settle_def payloads_def Let_def
        split: sum.splits wf_event.splits if_splits option.splits)
  obtain es where es: "stream_events ?sd mem wid = Inr es" "good_stream nv ev reg wid es" "ActivityScheduled e \<in> set es"
    by (rule delivered_event [OF law inv r dec])
  from normalisingD(5) [OF law ser] t have "tk_id t = as_id e" "tk_wf t = as_wf e" by (auto simp: first_attempt_def)
  with es good_event [OF es(2,3)] show ?thesis by (auto simp: atask_ok_def good_stream_def)
qed

lemma retry_task_published:
  assumes law: "normalising nv (env_serde ev)" and inv: "log_inv nv ev reg mem" and r: "r \<in> set (mem_contents mem wid)"
    and e: "snd (project_activity_retry (env_serde ev) (history_msg wid r v meta)) = Some (delay, e)"
    and b: "b \<in> payloads (publish_retry (env_serde ev) consumer fetch publish now_ns e)"
    and t: "de_atask (env_serde ev) b = Inr t"
  shows "atask_ok (env_serde ev) mem t"
proof -
  let ?sd = "env_serde ev"
  from e have dec: "decode_workflow_event ?sd (history_msg wid r v meta) = Inr (ActivityRetried e)"
    by (auto simp: project_activity_retry_def split: sum.splits wf_event.splits)
  obtain es where es: "stream_events ?sd mem wid = Inr es" "good_stream nv ev reg wid es" "ActivityRetried e \<in> set es"
    by (rule delivered_event [OF law inv r dec])
  obtain task where task: "fetch_activity_task_from_history ?sd consumer fetch e = Inr task"
    "ser_atask ?sd (task\<lparr>tk_attempt := ar_attempt e + 1\<rparr>) = Inr b"
  proof (cases "fetch_activity_task_from_history ?sd consumer fetch e")
    case (Inl x)
    with b show ?thesis by (simp add: publish_retry_def payloads_def)
  next
    case (Inr task)
    with b show ?thesis
      by (intro that [of task]) (auto simp: publish_retry_def payloads_def Let_def split: sum.splits option.splits)
  qed
  then have "tk_id task = ar_id e" "tk_wf task = ar_wf e"
    by (auto simp: fetch_activity_task_from_history_def split: option.splits sum.splits)
  with normalisingD(5) [OF law task(2)] t have "tk_id t = ar_id e" "tk_wf t = ar_wf e" by auto
  with es good_event [OF es(2,3)] show ?thesis by (auto simp: atask_ok_def good_stream_def)
qed


section \<open>Steps keep the invariant\<close>

lemma sys_invD:
  assumes "sys_inv nv ev reg s"
  shows "log_inv nv ev reg (sy_log s)" "mem_contents (sy_log s) wid \<noteq> [] \<Longrightarrow> wid \<in> sy_ids s"
    "wid \<in> sy_ids s \<Longrightarrow> CHR ''/'' \<notin> set wid" "inputs_ok (env_serde ev) (sy_log s) (sy_inputs s)"
    "b \<in> sy_wtasks s \<Longrightarrow> de_wtask (env_serde ev) b = Inr wt \<Longrightarrow> wtask_ok (env_serde ev) (sy_log s) wt"
    "b \<in> sy_atasks s \<Longrightarrow> de_atask (env_serde ev) b = Inr tk \<Longrightarrow> atask_ok (env_serde ev) (sy_log s) tk"
    "(wt, c) \<in># sy_wruns s \<Longrightarrow> wtask_ok (env_serde ev) (sy_log s) wt \<and> loaded_ok (env_serde ev) (sy_log s) (wt_id wt) c"
    "(tk, c) \<in># sy_aruns s \<Longrightarrow> atask_ok (env_serde ev) (sy_log s) tk \<and> loaded_ok (env_serde ev) (sy_log s) (tk_id tk) c"
    "results_ok (env_serde ev) (sy_log s) (sy_results s)"
  using assms unfolding sys_inv_def by fast+

text \<open>A new log in which the streams have grown keeps the rest of the invariant.\<close>

lemma sys_inv_log:
  assumes inv: "sys_inv nv ev reg s" and le: "log_le (env_serde ev) (sy_log s) mem" and log: "log_inv nv ev reg mem"
    and ids: "\<And>wid. mem_contents mem wid \<noteq> [] \<Longrightarrow> wid \<in> ids" "\<And>wid. wid \<in> ids \<Longrightarrow> CHR ''/'' \<notin> set wid"
    and inp: "inputs_ok (env_serde ev) mem inp" and runs: "wr \<subseteq># sy_wruns s" "ar \<subseteq># sy_aruns s"
  shows "sys_inv nv ev reg (s\<lparr>sy_log := mem, sy_ids := ids, sy_inputs := inp, sy_wruns := wr, sy_aruns := ar\<rparr>)"
proof -
  note I = sys_invD [OF inv] and M = wtask_ok_mono [OF le] atask_ok_mono [OF le] loaded_ok_mono [OF le]
  have "\<forall>b \<in> sy_wtasks s. \<forall>t. de_wtask (env_serde ev) b = Inr t \<longrightarrow> wtask_ok (env_serde ev) mem t"
    using I(5) M(1) by blast
  moreover have "\<forall>b \<in> sy_atasks s. \<forall>t. de_atask (env_serde ev) b = Inr t \<longrightarrow> atask_ok (env_serde ev) mem t"
    using I(6) M(2) by blast
  moreover have "\<forall>(t, c) \<in># wr. wtask_ok (env_serde ev) mem t \<and> loaded_ok (env_serde ev) mem (wt_id t) c"
    using I(7) M(1,3) mset_subset_eqD [OF runs(1)] by fast
  moreover have "\<forall>(t, c) \<in># ar. atask_ok (env_serde ev) mem t \<and> loaded_ok (env_serde ev) mem (tk_id t) c"
    using I(8) M(2,3) mset_subset_eqD [OF runs(2)] by fast
  ultimately show ?thesis
    using log ids inp results_ok_mono [OF le I(9)] by (simp add: sys_inv_def)
qed

text \<open>A finished task: the log is as it was, or one history is extended by good events.\<close>

lemma finish_keeps_inv:
  assumes law: "normalising nv (env_serde ev)" and inv: "sys_inv nv ev reg s"
    and es: "stream_events (env_serde ev) (sy_log s) wid = Inr es" and n: "0 < n" "n \<le> length es"
    and ver: "root_version c' = of_nat (n + length (root_uncommitted c'))" and id: "st_id (root_state c') = wid"
    and room: "mem_total (sy_log s) + length (root_uncommitted c') < 2 ^ 64"
    and new: "\<And>e. e \<in> set (root_uncommitted c') \<Longrightarrow>
      event_wf_id e = wid \<and> event_wf_fn e = wt_fn (task_for es) \<and> kind_of e \<noteq> KWorkflowStarted"
    and results: "\<And>x. n = length es \<Longrightarrow> WorkflowCompleted x \<in> set (root_uncommitted c') \<Longrightarrow>
      result_of_run ev reg es (wc_result x)"
    and runs: "wr \<subseteq># sy_wruns s" "ar \<subseteq># sy_aruns s"
  shows "sys_inv nv ev reg (s\<lparr>sy_log := fst (wf_save (env_serde ev) (sy_log s) c'), sy_wruns := wr, sy_aruns := ar\<rparr>)"
proof -
  let ?sd = "env_serde ev" and ?new = "map (norm_event nv) (root_uncommitted c')"
  define mem where "mem = fst (wf_save (env_serde ev) (sy_log s) c')"
  note I = sys_invD [OF inv]
  have ne: "es \<noteq> []" using n by auto
  have good: "good_stream nv ev reg wid es" by (rule log_invD [OF I(1) es ne law])
  have "sys_inv nv ev reg (s\<lparr>sy_log := mem, sy_ids := sy_ids s, sy_inputs := sy_inputs s, sy_wruns := wr, sy_aruns := ar\<rparr>)"
  proof (cases "mem = sy_log s")
    case True
    show ?thesis by (rule sys_inv_log [OF inv]) (use True I runs in auto)
  next
    case False
    have wf: "mem_wf (\<lambda>_. 0) (sy_log s)" using I(1) by (simp add: log_inv_def)
    from finish_saves [OF law wf es n(2) ver id room] False have
      grown: "n = length es" "mem_wf (\<lambda>_. 0) mem" "stream_events ?sd mem wid = Inr (es @ ?new)"
        "\<And>j. j \<noteq> wid \<Longrightarrow> mem_contents mem j = mem_contents (sy_log s) j"
      unfolding mem_def by blast+
    have good': "good_stream nv ev reg wid (es @ ?new)"
    proof (rule good_stream_append [OF good])
      fix e
      assume "e \<in> set ?new"
      with new show "event_wf_id e = wid \<and> event_wf_fn e = wt_fn (task_for es) \<and> kind_of e \<noteq> KWorkflowStarted" by auto
    next
      fix x
      assume "WorkflowCompleted x \<in> set ?new"
      then obtain y where y: "y \<in> set (root_uncommitted c')" "norm_event nv y = WorkflowCompleted x" by auto
      from y(2) obtain z where "y = WorkflowCompleted z" "x = z\<lparr>wc_result := map nv (wc_result z)\<rparr>" by (cases y) auto
      with results [OF grown(1), of z] y(1) result_of_run_append [OF _ ne]
      show "\<exists>vs. result_of_run ev reg (es @ ?new) vs \<and> wc_result x = map nv vs"
        by (intro exI [of _ "wc_result z"]) simp
    qed
    have log: "log_inv nv ev reg mem"
      unfolding log_inv_def
    proof (intro conjI allI)
      fix j
      show "mem_contents mem j = [] \<or> (\<exists>r. mem_contents mem j = [r] \<and> raw_data r = []) \<or>
        (\<exists>es. stream_events ?sd mem j = Inr es \<and> good_stream nv ev reg j es)"
      proof (cases "j = wid")
        case True
        with good' grown(3) show ?thesis by blast
      next
        case False
        with I(1) grown(4) [OF False] stream_events_same [OF grown(4) [OF False], of ?sd]
        show ?thesis by (simp add: log_inv_def)
      qed
    qed (rule grown(2))
    have le: "log_le ?sd (sy_log s) mem" by (rule one_stream_grows [OF grown(4) es grown(3)])
    have inp: "inputs_ok ?sd mem (sy_inputs s)" by (rule inputs_ok_grows [OF I(4) grown(4) es grown(3) ne])
    have ids: "j \<in> sy_ids s" if "mem_contents mem j \<noteq> []" for j
    proof (cases "j = wid")
      case True
      from es ne have "mem_contents (sy_log s) wid \<noteq> []" by (auto simp: stream_events_def)
      with True I(2) show ?thesis by blast
    qed (use that grown(4) I(2) in auto)
    show ?thesis by (rule sys_inv_log [OF inv le log ids I(3) inp runs])
  qed
  then show ?thesis by (simp add: mem_def)
qed

lemma finish_workflow_inv:
  assumes law: "normalising nv (env_serde ev)" and inv: "sys_inv nv ev reg s" and run: "(task, c) \<in># sy_wruns s"
    and room: "mem_total (sy_log s) + length (root_uncommitted (fst (process_workflow_task ev reg clock c task))) < 2 ^ 64"
  shows "sys_inv nv ev reg (s\<lparr>sy_log := h_log (handle_workflow_task (\<lambda>_ _. Inr c) (wf_save (env_serde ev)) ev reg clock (sy_log s) task),
      sy_wruns := sy_wruns s - {#(task, c)#}\<rparr>)"
proof -
  let ?sd = "env_serde ev"
  note I = sys_invD [OF inv]
  from I(7) [OF run] obtain es n where es: "stream_events ?sd (sy_log s) (wt_id task) = Inr es" "0 < n" "n \<le> length es"
    and c: "c = context_after (take n es)" and task: "task = task_for es"
    unfolding wtask_ok_def loaded_ok_def by auto
  have ne: "es \<noteq> []" using es by auto
  have good: "good_stream nv ev reg (wt_id task) es" by (rule log_invD [OF I(1) es(1) ne law])
  obtain c' err where proc: "process_workflow_task ev reg clock c task = (c', err)" by fastforce
  have ctx: "root_uncommitted c = []" "st_id (root_state c) = wt_id task" "st_fn (root_state c) = wt_fn task"
    using good_stream_context [OF good es(2,3)] c task by simp_all
  note adds = process_adds [OF proc ctx]
  have log: "h_log (handle_workflow_task (\<lambda>_ _. Inr c) (wf_save ?sd) ev reg clock (sy_log s) task)
      = fst (wf_save ?sd (sy_log s) c')"
    using proc by (simp add: handle_workflow_task_def h_log_save_after split: option.split)
  have ver: "root_version c' = of_nat (n + length (root_uncommitted c'))"
    using adds(2) c es(3) by (simp add: context_after_def)
  have "sys_inv nv ev reg (s\<lparr>sy_log := fst (wf_save ?sd (sy_log s) c'), sy_wruns := sy_wruns s - {#(task, c)#},
      sy_aruns := sy_aruns s\<rparr>)"
  proof (rule finish_keeps_inv [OF law inv es(1-3) ver adds(3)])
    show "mem_total (sy_log s) + length (root_uncommitted c') < 2 ^ 64" using room proc by simp
  next
    fix e
    assume "e \<in> set (root_uncommitted c')"
    with adds(1) task show "event_wf_id e = wt_id task \<and> event_wf_fn e = wt_fn (task_for es) \<and> kind_of e \<noteq> KWorkflowStarted"
      by (auto simp: task_event_def)
  next
    fix x
    assume "n = length es" "WorkflowCompleted x \<in> set (root_uncommitted c')"
    with adds(1) c task have "\<exists>c1. exec_workflow ev reg clock (context_after (take n es)) (task_for es) = (c1, ExecOk (wc_result x))"
      by (auto simp: task_event_def)
    then show "result_of_run ev reg es (wc_result x)" using es(3) unfolding result_of_run_def by blast
  qed auto
  with log show ?thesis by simp
qed

lemma finish_activity_inv:
  assumes law: "normalising nv (env_serde ev)" and inv: "sys_inv nv ev reg s" and run: "(task, c) \<in># sy_aruns s"
    and room: "mem_total (sy_log s) + 1 < 2 ^ 64"
  shows "sys_inv nv ev reg (s\<lparr>sy_log := h_log (handle_activity_task (\<lambda>_ _. Inr c) (wf_save (env_serde ev)) ev areg now_ms (sy_log s) task),
      sy_aruns := sy_aruns s - {#(task, c)#}\<rparr>)"
proof -
  let ?sd = "env_serde ev"
  note I = sys_invD [OF inv]
  from I(8) [OF run] obtain es n where es: "stream_events ?sd (sy_log s) (tk_id task) = Inr es" "0 < n" "n \<le> length es"
    and c: "c = context_after (take n es)" and task: "tk_wf task = wt_fn (task_for es)"
    unfolding atask_ok_def loaded_ok_def by auto
  have ne: "es \<noteq> []" using es by auto
  have good: "good_stream nv ev reg (tk_id task) es" by (rule log_invD [OF I(1) es(1) ne law])
  obtain c' err pn where proc: "process_activity_task ev areg now_ms c task = (c', err, pn)" using prod_cases3 by blast
  have unc: "root_uncommitted c = []" "st_id (root_state c) = tk_id task"
    using good_stream_context [OF good es(2,3)] c by simp_all
  have adds: "(\<forall>e \<in> set (root_uncommitted c'). event_wf_id e = tk_id task \<and> event_wf_fn e = tk_wf task \<and>
        kind_of e \<notin> {KWorkflowStarted, KWorkflowCompleted}) \<and> length (root_uncommitted c') \<le> 1 \<and>
      root_version c' = of_nat (n + length (root_uncommitted c')) \<and> st_id (root_state c') = tk_id task"
    using proc unc c es(3)
    by (cases rule: process_activity_cases)
      (auto simp: settle_activity_error_def context_after_def algebra_simps)
  define mem where "mem = h_log (handle_activity_task (\<lambda>_ _. Inr c) (wf_save ?sd) ev areg now_ms (sy_log s) task)"
  have log: "mem = (if pn = None then fst (wf_save ?sd (sy_log s) c') else sy_log s)"
    using proc by (auto simp: mem_def handle_activity_task_def h_log_save_after split: option.split)
  have "sys_inv nv ev reg (s\<lparr>sy_log := mem, sy_wruns := sy_wruns s, sy_aruns := sy_aruns s - {#(task, c)#}\<rparr>)"
  proof (cases "pn = None")
    case True
    have "sys_inv nv ev reg (s\<lparr>sy_log := fst (wf_save ?sd (sy_log s) c'), sy_wruns := sy_wruns s,
        sy_aruns := sy_aruns s - {#(task, c)#}\<rparr>)"
    proof (rule finish_keeps_inv [OF law inv es])
      fix x
      assume "WorkflowCompleted x \<in> set (root_uncommitted c')"
      with adds show "result_of_run ev reg es (wc_result x)" by fastforce
    qed (use adds room task in auto)
    with True log show ?thesis by simp
  next
    case False
    have "sys_inv nv ev reg (s\<lparr>sy_log := sy_log s, sy_ids := sy_ids s, sy_inputs := sy_inputs s, sy_wruns := sy_wruns s,
        sy_aruns := sy_aruns s - {#(task, c)#}\<rparr>)"
      by (rule sys_inv_log [OF inv]) (use I in auto)
    moreover have "mem = sy_log s" using log False by simp
    ultimately show ?thesis by simp
  qed
  then show ?thesis by (simp add: mem_def)
qed


lemma start_message_appended:
  assumes "mem_wf (\<lambda>_. 0) mem" and "mem_contents mem wid = []" and "mem_total mem + 1 < 2 ^ 64"
  shows "mem_wf (\<lambda>_. 0) (append_published mem (start_message sd wid d))"
    and "mem_contents (append_published mem (start_message sd wid d)) = (mem_contents mem)(wid :=
      [\<lparr>raw_name = event_name (start_event wid d), raw_data = pub_data (start_message sd wid d)\<rparr>])"
proof -
  let ?r = "\<lparr>raw_name = event_name (start_event wid d), raw_data = pub_data (start_message sd wid d)\<rparr>"
  have ap: "append_published mem (start_message sd wid d)
      = fst (mem_append_events None mem wid (CheckExact (of_nat (length (mem_contents mem wid)))) [?r])"
    by (simp add: append_published_def start_message_def history_subject_prefix_def header_get_def)
  show "mem_wf (\<lambda>_. 0) (append_published mem (start_message sd wid d))"
    unfolding ap by (rule memlog.append_invar) (use assms in simp_all)
  show "mem_contents (append_published mem (start_message sd wid d)) = (mem_contents mem)(wid := [?r])"
    unfolding ap using memlog.append_contents [OF assms(1), of "[?r]" wid] assms(2,3) by simp
qed

text \<open>What a request does to the state: it starts a workflow, stores an input, or nothing.\<close>

lemma system_update_order:
  "s\<lparr>sy_ids := i, sy_inputs := a, sy_log := m\<rparr> = s\<lparr>sy_log := m, sy_ids := i, sy_inputs := a\<rparr>"
  by (cases s) simp

lemma request_shapes:
  "(\<exists>b. handle_request sd w data = [ERespond b]) \<or> handle_request sd w data = [ETerm] \<or>
   (\<exists>fn args b. handle_request sd w data = [EPut workflow_input_bucket (workflow_input_key fn (ce_uuid w)) args, ERespond b]) \<or>
   (\<exists>d args b. handle_request sd w data = [EPut workflow_input_bucket (workflow_input_key (sa_fn d) (ce_uuid w)) args,
      EPublish (start_message sd (ce_uuid w) d), ERespond b] \<and> ser_args sd (sa_input d) = Inr args)"
proof -
  obtain f where f: "\<And>wid m. send_error_reply sd w wid m = [ERespond (f wid m)]"
    using send_error_reply_shape [of sd w] by metis
  show ?thesis
    by (simp add: handle_request_def handle_start_workflow_def Let_def f split: sum.split option.split) blast?
qed

lemma request_effects:
  obtains
    (started) d args where "fold apply_effect (handle_request sd w data) s =
      s\<lparr>sy_inputs := (sy_inputs s)(workflow_input_key (sa_fn d) (ce_uuid w) \<mapsto> args),
        sy_log := append_published (sy_log s) (start_message sd (ce_uuid w) d)\<rparr>"
      "ser_args sd (sa_input d) = Inr args"
  | (stored) fn args where "fold apply_effect (handle_request sd w data) s =
      s\<lparr>sy_inputs := (sy_inputs s)(workflow_input_key fn (ce_uuid w) \<mapsto> args)\<rparr>"
  | (nothing) "fold apply_effect (handle_request sd w data) s = s"
  using request_shapes [of sd w data]
  by (elim disjE exE conjE) (simp_all add: started stored nothing)

text \<open>A key of a new workflow is the key of no other.\<close>

lemma inputs_ok_new_key:
  assumes inv: "sys_inv nv ev reg s" and wid: "wid \<notin> sy_ids s" "CHR ''/'' \<notin> set wid"
  shows "inputs_ok (env_serde ev) (sy_log s) ((sy_inputs s)(workflow_input_key fn wid \<mapsto> args))"
  unfolding inputs_ok_def
proof (intro allI impI)
  fix j es
  assume es: "stream_events (env_serde ev) (sy_log s) j = Inr es" "es \<noteq> []"
  then have "mem_contents (sy_log s) j \<noteq> []" by (auto simp: stream_events_def)
  then have j: "j \<in> sy_ids s" "CHR ''/'' \<notin> set j" using sys_invD(2,3) [OF inv] by blast+
  then have "workflow_input_key (wt_fn (task_for es)) j \<noteq> workflow_input_key fn wid"
    using workflow_input_key_inj [OF j(2) wid(2)] wid(1) by blast
  with sys_invD(4) [OF inv] es
  show "\<exists>b. ((sy_inputs s)(workflow_input_key fn wid \<mapsto> args)) (workflow_input_key (wt_fn (task_for es)) j) = Some b \<and>
      de_args (env_serde ev) b = Inr (wt_input (task_for es))"
    by (simp add: inputs_ok_def)
qed

lemma request_inv:
  assumes law: "normalising nv (env_serde ev)" and inv: "sys_inv nv ev reg s"
    and wid: "ce_uuid w \<notin> sy_ids s" "CHR ''/'' \<notin> set (ce_uuid w)" and room: "mem_total (sy_log s) + 1 < 2 ^ 64"
  shows "sys_inv nv ev reg
    (fold apply_effect (handle_request (env_serde ev) w data) (s\<lparr>sy_ids := insert (ce_uuid w) (sy_ids s)\<rparr>))"
proof -
  let ?sd = "env_serde ev" and ?wid = "ce_uuid w" and ?ids = "insert (ce_uuid w) (sy_ids s)"
  note I = sys_invD [OF inv]
  have ids: "j \<in> ?ids \<Longrightarrow> CHR ''/'' \<notin> set j" for j using I(3) wid(2) by blast
  have same: "sys_inv nv ev reg (s\<lparr>sy_log := sy_log s, sy_ids := ?ids, sy_inputs := inp, sy_wruns := sy_wruns s,
      sy_aruns := sy_aruns s\<rparr>)" if "inputs_ok ?sd (sy_log s) inp" for inp
    by (rule sys_inv_log [OF inv]) (use I ids that in auto)
  show ?thesis
  proof (cases rule: request_effects [of ?sd w data "s\<lparr>sy_ids := ?ids\<rparr>"])
    case (stored fn args)
    with same [OF inputs_ok_new_key [OF inv wid]] show ?thesis by simp
  next
    case nothing
    with same [OF I(4)] show ?thesis by simp
  next
    case (started d args)
    have empty: "mem_contents (sy_log s) ?wid = []" using I(2) wid(1) by blast
    have wf: "mem_wf (\<lambda>_. 0) (sy_log s)" using I(1) by (simp add: log_inv_def)
    define mem where "mem = append_published (sy_log s) (start_message ?sd ?wid d)"
    let ?inp = "(sy_inputs s)(workflow_input_key (sa_fn d) ?wid \<mapsto> args)"
    let ?r = "\<lparr>raw_name = event_name (start_event ?wid d), raw_data = pub_data (start_message ?sd ?wid d)\<rparr>"
    note ap = start_message_appended [OF wf empty room, of ?sd d, folded mem_def]
    have others: "j \<noteq> ?wid \<Longrightarrow> mem_contents mem j = mem_contents (sy_log s) j" for j by (simp add: ap(2))
    note keep = stream_events_same [OF others, of _ ?sd]
    have le: "log_le ?sd (sy_log s) mem"
      unfolding log_le_def
    proof (intro allI impI)
      fix j es
      assume es: "stream_events ?sd (sy_log s) j = Inr es" "es \<noteq> []"
      with empty have "j \<noteq> ?wid" by (auto simp: stream_events_def)
      with es keep show "\<exists>new. stream_events ?sd mem j = Inr (es @ new)" by (intro exI [of _ "[]"]) simp
    qed
    have new: "(\<exists>r. mem_contents mem ?wid = [r] \<and> raw_data r = []) \<or>
      (stream_events ?sd mem ?wid = Inr [norm_event nv (start_event ?wid d)])"
    proof (cases "ser_event ?sd (start_event ?wid d)")
      case (Inl e)
      then show ?thesis by (simp add: ap(2) start_message_def)
    next
      case (Inr bs)
      with normal_decode [OF law Inr] show ?thesis by (simp add: ap(2) start_message_def stream_events_def)
    qed
    have single: "us = [norm_event nv (start_event ?wid d)]"
      if "stream_events ?sd mem ?wid = Inr us" for us
      using new that empty_undecodable [OF law] by (auto simp: stream_events_def split: sum.splits)
    have good: "good_stream nv ev reg ?wid [norm_event nv (start_event ?wid d)]"
      using normalisingD(1) [OF law] by (simp add: good_stream_def start_event_def task_for_def start_input_def)
    have log: "log_inv nv ev reg mem"
      unfolding log_inv_def
    proof (intro conjI allI)
      fix j
      show "mem_contents mem j = [] \<or> (\<exists>r. mem_contents mem j = [r] \<and> raw_data r = []) \<or>
        (\<exists>es. stream_events ?sd mem j = Inr es \<and> good_stream nv ev reg j es)"
      proof (cases "j = ?wid")
        case True
        with new good show ?thesis by blast
      next
        case False
        with I(1) others [OF False] keep [OF False] show ?thesis by (simp add: log_inv_def)
      qed
    qed (rule ap(1))
    have inp: "inputs_ok ?sd mem ?inp"
      unfolding inputs_ok_def
    proof (intro allI impI)
      fix j us
      assume us: "stream_events ?sd mem j = Inr us" "us \<noteq> []"
      show "\<exists>b. ?inp (workflow_input_key (wt_fn (task_for us)) j) = Some b \<and> de_args ?sd b = Inr (wt_input (task_for us))"
      proof (cases "j = ?wid")
        case True
        with us single normalisingD(6) [OF law started(2)] show ?thesis
          by (simp add: task_for_def start_event_def start_input_def)
      next
        case False
        with us keep [OF False] inputs_ok_new_key [OF inv wid, of "sa_fn d" args] show ?thesis by (simp add: inputs_ok_def)
      qed
    qed
    have nonempty: "j \<in> ?ids" if "mem_contents mem j \<noteq> []" for j
      using that others [of j] I(2) by (cases "j = ?wid") auto
    from sys_inv_log [OF inv le log nonempty ids inp subset_mset.order_refl subset_mset.order_refl] started(1)
    show ?thesis by (simp add: mem_def system_update_order)
  qed
qed


lemma store_results_project:
  assumes "\<And>e. decode_workflow_event sd m \<noteq> Inr (WorkflowCompleted e)"
  shows "store_results (re_put (project_workflow_result sd put m)) res = res"
  using assms
  by (auto simp: project_workflow_result_def settle_def store_results_def split: sum.splits wf_event.splits)

lemma store_results_completed:
  assumes "decode_workflow_event sd m = Inr (WorkflowCompleted e)"
  shows "store_results (re_put (project_workflow_result sd put m)) res \<in>
    {res, res(wc_id e \<mapsto> result_bytes sd (wc_result e))}"
  using assms
  by (auto simp: project_workflow_result_def settle_def store_results_def result_bytes_def Let_def
      split: sum.splits option.splits)

text \<open>A result projector only writes the result of a completion of the stream it reads.\<close>

lemma result_projected:
  assumes law: "normalising nv (env_serde ev)" and inv: "log_inv nv ev reg mem" and r: "r \<in> set (mem_contents mem wid)"
  obtains (kept) "store_results (re_put (project_workflow_result (env_serde ev) put (history_msg wid r v meta))) res = res"
  | (stored) es e where "stream_events (env_serde ev) mem wid = Inr es" "good_stream nv ev reg wid es"
      "WorkflowCompleted e \<in> set es"
      "store_results (re_put (project_workflow_result (env_serde ev) put (history_msg wid r v meta))) res
        = res(wid \<mapsto> result_bytes (env_serde ev) (wc_result e))"
proof (cases "\<exists>e. decode_workflow_event (env_serde ev) (history_msg wid r v meta) = Inr (WorkflowCompleted e)")
  case False
  then show thesis by (intro kept store_results_project) auto
next
  case True
  then obtain e where dec: "decode_workflow_event (env_serde ev) (history_msg wid r v meta) = Inr (WorkflowCompleted e)" ..
  obtain es where es: "stream_events (env_serde ev) mem wid = Inr es" "good_stream nv ev reg wid es"
    "WorkflowCompleted e \<in> set es"
    by (rule delivered_event [OF law inv r dec])
  have "wc_id e = wid" using good_event [OF es(2,3)] by simp
  with store_results_completed [OF dec, of put res] kept stored [OF es] show thesis by auto
qed

lemma step_inv:
  assumes "sys_step ev reg s s'" and law: "normalising nv (env_serde ev)" and inv: "sys_inv nv ev reg s"
  shows "sys_inv nv ev reg s'"
  using assms(1)
proof cases
  case (request w data)
  then show ?thesis using request_inv [OF law inv] by simp
next
  case (project_workflow r wid publish v meta)
  note W = workflow_task_published [OF law sys_invD(1) [OF inv] sys_invD(4) [OF inv] project_workflow(2)]
  show ?thesis using inv W unfolding project_workflow(1) sys_inv_def by fastforce
next
  case (project_activity r wid now_ms publish v meta)
  note A = activity_task_published [OF law sys_invD(1) [OF inv] project_activity(2)]
  show ?thesis using inv A unfolding project_activity(1) sys_inv_def by fastforce
next
  case (project_retry r wid v meta delay e consumer fetch publish now_ns)
  note R = retry_task_published [OF law sys_invD(1) [OF inv] project_retry(2,3)]
  show ?thesis using inv R unfolding project_retry(1) sys_inv_def by fastforce
next
  case (project_result r wid put v meta)
  have "results_ok (env_serde ev) (sy_log s) (store_results (re_put
      (project_workflow_result (env_serde ev) put (history_msg wid r v meta))) (sy_results s))"
    using sys_invD(9) [OF inv]
    by (cases rule: result_projected [OF law sys_invD(1) [OF inv] project_result(2), of put v meta "sy_results s"])
      (auto simp: results_ok_def)
  with inv show ?thesis unfolding project_result(1) by (simp add: sys_inv_def)
next
  case (load_workflow bs task c)
  have ok: "wtask_ok (env_serde ev) (sy_log s) task" by (rule sys_invD(5) [OF inv load_workflow(2,3)])
  then obtain es where es: "stream_events (env_serde ev) (sy_log s) (wt_id task) = Inr es" "es \<noteq> []"
    by (auto simp: wtask_ok_def)
  have wf: "mem_wf (\<lambda>_. 0) (sy_log s)" using sys_invD(1) [OF inv] by (simp add: log_inv_def)
  have "c = context_after es"
    using wfmem.get_decoded [OF wf, of "env_serde ev" "wt_id task" es] es load_workflow(4)
    by (simp add: stream_events_decoded replayed_context)
  with es have "loaded_ok (env_serde ev) (sy_log s) (wt_id task) c"
    unfolding loaded_ok_def by (intro exI [of _ es] exI [of _ "length es"]) simp
  with ok inv show ?thesis unfolding load_workflow(1) by (simp add: sys_inv_def)
next
  case (finish_workflow task c clock)
  then show ?thesis using finish_workflow_inv [OF law inv] by simp
next
  case (load_activity bs task c)
  have ok: "atask_ok (env_serde ev) (sy_log s) task" by (rule sys_invD(6) [OF inv load_activity(2,3)])
  then obtain es where es: "stream_events (env_serde ev) (sy_log s) (tk_id task) = Inr es" "es \<noteq> []"
    by (auto simp: atask_ok_def)
  have wf: "mem_wf (\<lambda>_. 0) (sy_log s)" using sys_invD(1) [OF inv] by (simp add: log_inv_def)
  have "c = context_after es"
    using wfmem.get_decoded [OF wf, of "env_serde ev" "tk_id task" es] es load_activity(4)
    by (simp add: stream_events_decoded replayed_context)
  with es have "loaded_ok (env_serde ev) (sy_log s) (tk_id task) c"
    unfolding loaded_ok_def by (intro exI [of _ es] exI [of _ "length es"]) simp
  with ok inv show ?thesis unfolding load_activity(1) by (simp add: sys_inv_def)
next
  case (finish_activity task c areg now_ms)
  then show ?thesis using finish_activity_inv [OF law inv] by simp
qed

lemma initial_inv: "sys_inv nv (ev :: 'x env) reg initial_system"
proof -
  have none: "mem_contents (new_memory :: 'x memory) wid = []" for wid :: string by (simp add: mem_contents_def)
  then have "stream_events (env_serde ev) (new_memory :: 'x memory) wid = Inr []" for wid by (simp add: stream_events_def)
  with none new_memory_wf show ?thesis
    by (simp add: sys_inv_def initial_system_def log_inv_def inputs_ok_def results_ok_def)
qed

lemma reachable_inv:
  assumes "reachable ev reg s" and "normalising nv (env_serde ev)"
  shows "sys_inv nv ev reg s"
  using assms(1)
proof induction
  case start
  show ?case by (rule initial_inv)
next
  case (step s s')
  then show ?case using step_inv [OF step.hyps(2) assms(2)] by blast
qed

end
