(* ===== verification/DF_Engine.thy ===== *)
theory DF_Engine
  imports DF_System
begin

text \<open>
  What holds in every reachable state of the engine: well-formed histories, one result per
  workflow and final stored results, with a workflow that runs from its request to its result.
\<close>

section \<open>Properties\<close>

text \<open>
  (C1) In every reachable state the history of a workflow is well formed:
  it starts with the event of its start request and contains no other start, every event is of
  this workflow and of its function, and every pending or repeated task for it carries the function and
  the input of the start.
\<close>

theorem histories_well_formed:
  assumes "reachable ev reg s" and "normalising nv (env_serde ev)"
    and "stream_events (env_serde ev) (sy_log s) wid = Inr es" and "es \<noteq> []"
  shows "(\<exists>w. hd es = WorkflowStarted w \<and> ws_id w = wid \<and>
      (\<forall>e \<in> set (tl es). \<forall>w'. e \<noteq> WorkflowStarted w') \<and>
      (\<forall>e \<in> set es. event_wf_id e = wid \<and> event_wf_fn e = ws_fn w) \<and>
      (\<forall>b \<in> sy_wtasks s. \<forall>t. de_wtask (env_serde ev) b = Inr t \<longrightarrow> wt_id t = wid \<longrightarrow>
        t = \<lparr>wt_id = wid, wt_fn = ws_fn w, wt_input = ws_input w\<rparr>))"
proof -
  note inv = reachable_inv [OF assms(1,2)]
  have good: "good_stream nv ev reg wid es" by (rule log_invD [OF sys_invD(1) [OF inv] assms(3,4,2)])
  then obtain w where w: "hd es = WorkflowStarted w" by (cases "hd es") (simp_all add: good_stream_def)
  then have wid: "ws_id w = wid" using good_task_id [OF good] by (simp add: task_for_def)
  have task: "t = task_for es" if "b \<in> sy_wtasks s" "de_wtask (env_serde ev) b = Inr t" "wt_id t = wid" for b t
    using sys_invD(5) [OF inv that(1,2)] that(3) assms(3) by (auto simp: wtask_ok_def)
  have "\<forall>e \<in> set (tl es). \<forall>w'. e \<noteq> WorkflowStarted w'" using good by (auto simp: good_stream_def)
  moreover have tf: "task_for es = \<lparr>wt_id = wid, wt_fn = ws_fn w, wt_input = ws_input w\<rparr>"
    using w wid by (simp add: task_for_def start_input_def)
  moreover have "\<forall>e \<in> set es. event_wf_id e = wid \<and> event_wf_fn e = ws_fn w"
    using good_event [OF good] by (simp add: tf)
  ultimately show ?thesis
    using w wid task by (intro exI [of _ w] conjI ballI allI impI) metis+
qed

text \<open>
  (C2) One result. However tasks are repeated, retried and interleaved, every
  completion recorded for a workflow carries the same values, and they are what a run of the
  registered function on a prefix of the workflow's own history returned.
\<close>

theorem completions_agree:
  assumes "reachable ev reg s" and "normalising nv (env_serde ev)"
    and "stream_events (env_serde ev) (sy_log s) wid = Inr es" and "WorkflowCompleted x \<in> set es"
  shows "(\<exists>n clock c vs. n \<le> length es \<and>
      exec_workflow ev reg clock (context_after (take n es)) (task_for es) = (c, ExecOk vs) \<and>
      wc_result x = map nv vs) \<and>
    (\<forall>y. WorkflowCompleted y \<in> set es \<longrightarrow> wc_result y = wc_result x)"
proof -
  note inv = reachable_inv [OF assms(1,2)]
  have "es \<noteq> []" using assms(4) by auto
  then have good: "good_stream nv ev reg wid es" by (rule log_invD [OF sys_invD(1) [OF inv] assms(3) _ assms(2)])
  have run: "\<exists>vs. result_of_run ev reg es vs \<and> wc_result y = map nv vs" if "WorkflowCompleted y \<in> set es" for y
    using good that unfolding good_stream_def by blast
  obtain vs where vs: "result_of_run ev reg es vs" "wc_result x = map nv vs" using run [OF assms(4)] by blast
  have "wc_result y = wc_result x" if "WorkflowCompleted y \<in> set es" for y
  proof -
    from run [OF that] obtain us where us: "result_of_run ev reg es us" "wc_result y = map nv us" by blast
    from result_of_run_unique [OF vs(1) us(1)] us(2) vs(2) show ?thesis by simp
  qed
  with vs show ?thesis unfolding result_of_run_def by blast
qed

text \<open>
  (C3) A stored result is final. Once the result bucket holds a value for a
  workflow, no step of any worker, projector or client changes it, and it is the encoding of a
  completion in the workflow's history.
\<close>

theorem stored_result_is_final:
  assumes "reachable ev reg s" and law: "normalising nv (env_serde ev)"
    and "sy_results s wid = Some b" and "(sys_step ev reg)\<^sup>*\<^sup>* s s'"
  shows "sy_results s' wid = Some b \<and>
    (\<exists>es x. stream_events (env_serde ev) (sy_log s) wid = Inr es \<and> WorkflowCompleted x \<in> set es \<and>
       b = result_bytes (env_serde ev) (wc_result x))"
proof -
  have one: "sy_results s2 wid = Some b"
    if inv: "sys_inv nv ev reg s1" and res: "sy_results s1 wid = Some b" and st: "sys_step ev reg s1 s2" for s1 s2
    using st
  proof cases
    case (request w data)
    then show ?thesis
      using res by (cases rule: request_effects [of "env_serde ev" w data "s1\<lparr>sy_ids := insert (ce_uuid w) (sy_ids s1)\<rparr>"]) simp_all
  next
    case (project_result r j put v meta)
    show ?thesis
      using law sys_invD(1) [OF inv] project_result(2)
    proof (cases rule: result_projected [where put = put and v = v and meta = meta and res = "sy_results s1"])
      case (stored es e)
      show ?thesis
      proof (cases "j = wid")
        case True
        from sys_invD(9) [OF inv] res obtain x where x: "WorkflowCompleted x \<in> set es"
          "b = result_bytes (env_serde ev) (wc_result x)"
          using stored(1) True unfolding results_ok_def by fastforce
        obtain vs us where vs: "result_of_run ev reg es vs" "wc_result x = map nv vs"
          "result_of_run ev reg es us" "wc_result e = map nv us"
          using stored(2,3) x(1) unfolding good_stream_def by blast
        with result_of_run_unique [OF vs(1,3)] x(2) stored(4) True project_result(1) show ?thesis by simp
      qed (use res stored(4) project_result(1) in simp)
    qed (use res project_result(1) in simp)
  qed (use res in simp_all)
  have "sys_inv nv ev reg s' \<and> sy_results s' wid = Some b"
    using assms(4)
  proof (induction rule: rtranclp_induct)
    case base
    show ?case using reachable_inv [OF assms(1) law] assms(3) by simp
  next
    case (step s1 s2)
    then show ?case using one step_inv [OF step.hyps(2) law] by blast
  qed
  moreover note sys_invD(9) [OF reachable_inv [OF assms(1) law]]
  ultimately show ?thesis using assms(3) unfolding results_ok_def by blast
qed


section \<open>Witnesses\<close>

text \<open>A workflow that returns its argument: requested, projected, loaded, finished, its result stored.\<close>

definition demo_echo :: "workflow_fn fn_registry" where
  "demo_echo = [''main'' \<mapsto> FnValue ''main'' \<lparr>wfn_in = [TWfCtx, TStr], wfn_body = (\<lambda>args. PReturn [args ! 0, GNil])\<rparr>]"

definition echo_attrs :: start_attributes where
  "echo_attrs = \<lparr>sa_fn = ''main'', sa_input = [GStr ''x'']\<rparr>"

definition echo_task :: workflow_task where
  "echo_task = \<lparr>wt_id = ''w1'', wt_fn = ''main'', wt_input = [GStr ''x'']\<rparr>"

definition echo_completed :: wf_event where
  "echo_completed = WorkflowCompleted \<lparr>wc_id = ''w1'', wc_fn = ''main'', wc_result = [GStr ''x'', GNil]\<rparr>"

definition echo_meta :: "gerr + msg_meta" where
  "echo_meta = Inr \<lparr>meta_consumer_seq = 1, meta_timestamp_ms = 0\<rparr>"

lemma demo_env_serde [simp]: "env_serde demo_env = demo_serde"
  by (simp add: demo_env_def)

lemma echo_message:
  "start_message demo_serde ''w1'' echo_attrs = \<lparr>pub_subject = ''history.w1'',
     pub_data = [DEvent (start_event ''w1'' echo_attrs)],
     pub_header = [(event_name_header, ''workflow/started''), (aggregate_version_header, format_uint 1)], pub_msg_id = None\<rparr>"
  by (simp add: start_message_def demo_serde_simps history_subject_prefix_def start_event_def event_name_def)

definition echo_started :: "datum system" where
  "echo_started = initial_system\<lparr>sy_ids := {''w1''}, sy_inputs := [''main/w1'' \<mapsto> [DArgs [GStr ''x'']]],
     sy_log := append_published new_memory (start_message demo_serde ''w1'' echo_attrs)\<rparr>"

lemma echo_started_step: "sys_step demo_env reg initial_system echo_started"
proof -
  have env: "ce_uuid demo_command_env = ''w1''" by (simp add: demo_command_env_def)
  have "sys_step demo_env reg initial_system
      (fold apply_effect (handle_request (env_serde demo_env) demo_command_env demo_request)
        (initial_system\<lparr>sy_ids := insert (ce_uuid demo_command_env) (sy_ids initial_system)\<rparr>))"
    using sys_step.request [where ev = demo_env and reg = reg and w = demo_command_env and data = demo_request and s = initial_system]
    by (simp add: env initial_system_def mem_total_def)
  moreover have "fold apply_effect (handle_request (env_serde demo_env) demo_command_env demo_request)
        (initial_system\<lparr>sy_ids := insert (ce_uuid demo_command_env) (sy_ids initial_system)\<rparr>) = echo_started"
    by (simp add: demo_handles echo_started_def env workflow_input_bucket_def echo_attrs_def initial_system_def)
  ultimately show ?thesis by metis
qed

lemma echo_started_reachable: "reachable demo_env reg echo_started"
  using reachable.start echo_started_step by (rule reachable.step)

lemma echo_started_log:
  "mem_wf (\<lambda>_. 0) (sy_log echo_started)"
  "mem_contents (sy_log echo_started) ''w1'' = [\<lparr>raw_name = ''workflow/started'', raw_data = [DEvent (start_event ''w1'' echo_attrs)]\<rparr>]"
  "stream_events demo_serde (sy_log echo_started) ''w1'' = Inr [start_event ''w1'' echo_attrs]"
proof -
  have z: "mem_contents (new_memory :: datum memory) ''w1'' = []" "mem_total (new_memory :: datum memory) + 1 < 2 ^ 64"
    by (simp_all add: mem_contents_def mem_total_def)
  note ap = start_message_appended [OF new_memory_wf z, of demo_serde echo_attrs]
  show "mem_wf (\<lambda>_. 0) (sy_log echo_started)" using ap(1) by (simp add: echo_started_def)
  show c: "mem_contents (sy_log echo_started) ''w1'' = [\<lparr>raw_name = ''workflow/started'', raw_data = [DEvent (start_event ''w1'' echo_attrs)]\<rparr>]"
    using ap(2) by (simp add: echo_started_def event_name_def start_event_def echo_message)
  have "decode_raw wf_registry (wf_codec demo_serde) (demo_raw (start_event ''w1'' echo_attrs)) = Inr (start_event ''w1'' echo_attrs)"
    by simp
  then show "stream_events demo_serde (sy_log echo_started) ''w1'' = Inr [start_event ''w1'' echo_attrs]"
    by (simp add: stream_events_def c demo_raw_def event_name_def start_event_def)
qed

text \<open>The start is projected to a task, which a worker loads and finishes.\<close>

definition echo_history :: "wf_event list" where
  "echo_history = [start_event ''w1'' echo_attrs]"

definition echo_loaded :: "datum system" where
  "echo_loaded = echo_started\<lparr>sy_wtasks := {[DWTask echo_task]},
     sy_wruns := {#(echo_task, context_after echo_history)#}\<rparr>"

lemma echo_delivered: "decode_workflow_event demo_serde (history_msg wid (demo_raw e) v meta) = Inr e"
  by (rule decode_by_header) (simp_all add: history_msg_def demo_raw_def header_get_def demo_serde_def)

lemma echo_start: "start_event ''w1'' echo_attrs = WorkflowStarted \<lparr>ws_id = ''w1'', ws_fn = ''main'', ws_input = [GStr ''x'']\<rparr>"
  by (simp add: start_event_def echo_attrs_def)

lemma echo_projects:
  "re_published (project_workflow_task demo_serde (bucket_of m) (\<lambda>_. None)
     (history_msg ''w1'' (demo_raw (start_event ''w1'' echo_attrs)) 1 echo_meta))
   = [\<lparr>pub_subject = ''workflow.w1.tasks'', pub_data = [DWTask echo_task], pub_header = [],
       pub_msg_id = Some (''wftask-w1-'' @ format_uint 1)\<rparr>]"
proof -
  have "ser_wtask demo_serde t = Inr [DWTask t]" for t by (simp add: demo_serde_def)
  moreover have "msg_meta (history_msg wid r v echo_meta) = echo_meta" for wid v and r :: "datum raw"
    by (simp add: history_msg_def)
  ultimately show ?thesis
    by (simp add: project_workflow_task_def echo_delivered echo_start echo_meta_def publish_workflow_task_def
        echo_task_def settle_def)
qed

lemma echo_finishes:
  "process_workflow_task demo_env demo_echo clock (context_after echo_history) echo_task =
     (fst (wf_record_that (context_after echo_history) echo_completed), None)"
proof -
  have "env_convert demo_env (GStr ''x'') TStr = Inr (GStr ''x'')" by (simp add: env_convert_def convert_to_type_def)
  then show ?thesis
    by (simp add: process_workflow_task_def exec_workflow_def demo_echo_def echo_task_def registry_get_def
      takes_context_def completed_event_def echo_completed_def)
qed

lemma echo_log_facts:
  "mem_wf (\<lambda>_. 0) (sy_log echo_started)" "stream_events demo_serde (sy_log echo_started) ''w1'' = Inr echo_history"
  "mem_total (sy_log echo_started) = 1"
proof -
  let ?p = "start_message demo_serde ''w1'' echo_attrs"
  let ?r = "\<lparr>raw_name = ''workflow/started'', raw_data = pub_data ?p\<rparr>"
  have room: "mem_total (new_memory :: datum memory) + length [?r] < 2 ^ 64" by (simp add: mem_total_def)
  obtain mem v where ap: "mem_append_events None (new_memory :: datum memory) ''w1'' (CheckExact 0) [?r] = (mem, Inr v)"
    using memlog.append_result [OF new_memory_wf, of "[?r]" "''w1''"]
    by (cases "mem_append_events None (new_memory :: datum memory) ''w1'' (CheckExact 0) [?r]")
      (auto simp: mem_contents_def mem_total_def)
  have "sy_log echo_started = mem"
    using ap by (simp add: echo_started_def append_published_def echo_message header_get_def mem_contents_def
        history_subject_prefix_def)
  then show "mem_total (sy_log echo_started) = 1"
    using memlog.append_extends(6) [OF new_memory_wf room ap] by (simp add: mem_total_def)
qed (use echo_started_log in \<open>simp_all add: echo_history_def\<close>)

definition echo_tasked :: "datum system" where
  "echo_tasked = echo_started\<lparr>sy_wtasks := {[DWTask echo_task]}\<rparr>"

lemma echo_tasked_step: "sys_step demo_env demo_echo echo_started echo_tasked"
proof -
  let ?r = "demo_raw (start_event ''w1'' echo_attrs)"
  have "?r \<in> set (mem_contents (sy_log echo_started) ''w1'')"
    by (simp add: echo_started_log(2) demo_raw_def event_name_def start_event_def)
  from sys_step.project_workflow [OF this, where ev = demo_env and reg = demo_echo and publish = "\<lambda>_. None" and v = 1 and meta = echo_meta]
  show ?thesis by (simp add: echo_projects payloads_def echo_started_def initial_system_def echo_tasked_def)
qed

lemma echo_gets: "wf_get demo_serde (sy_log echo_started) ''w1'' = Inr (context_after echo_history)"
  using wfmem.get_decoded [OF echo_log_facts(1), of demo_serde "''w1''" echo_history] echo_log_facts(2)
  by (simp add: stream_events_decoded replayed_context echo_history_def)

lemma echo_loaded_reachable: "reachable demo_env demo_echo echo_loaded"
proof -
  have tasked: "reachable demo_env demo_echo echo_tasked"
    using echo_started_reachable echo_tasked_step by (rule reachable.step)
  have "sys_step demo_env demo_echo echo_tasked
      (echo_tasked\<lparr>sy_wruns := add_mset (echo_task, context_after echo_history) (sy_wruns echo_tasked)\<rparr>)"
    using echo_gets
    by (intro sys_step.load_workflow [where bs = "[DWTask echo_task]"]) (simp_all add: echo_tasked_def echo_task_def demo_serde_def)
  with tasked have "reachable demo_env demo_echo
      (echo_tasked\<lparr>sy_wruns := add_mset (echo_task, context_after echo_history) (sy_wruns echo_tasked)\<rparr>)"
    by (rule reachable.step)
  then show ?thesis by (simp add: echo_loaded_def echo_tasked_def echo_started_def initial_system_def)
qed

definition echo_done :: "datum system" where
  "echo_done = echo_loaded\<lparr>sy_log := h_log (handle_workflow_task (\<lambda>_ _. Inr (context_after echo_history)) (wf_save demo_serde)
       demo_env demo_echo (\<lambda>_. 0) (sy_log echo_started) echo_task), sy_wruns := {#}\<rparr>"

lemma echo_done_facts:
  "reachable demo_env demo_echo echo_done"
  "stream_events demo_serde (sy_log echo_done) ''w1'' = Inr (echo_history @ [echo_completed])"
proof -
  let ?c = "fst (wf_record_that (context_after echo_history) echo_completed)"
  have room: "mem_total (sy_log echo_loaded) + length (root_uncommitted (fst (process_workflow_task demo_env demo_echo
      (\<lambda>_. 0) (context_after echo_history) echo_task))) < 2 ^ 64"
    using echo_log_facts(3) by (simp add: echo_finishes echo_loaded_def)
  from sys_step.finish_workflow [OF _ room] have "sys_step demo_env demo_echo echo_loaded echo_done"
    by (simp add: echo_done_def echo_loaded_def)
  with echo_loaded_reachable show "reachable demo_env demo_echo echo_done" by (rule reachable.step)
  have log: "sy_log echo_done = h_log (save_after (wf_save demo_serde) (sy_log echo_started) Ack ?c)"
    by (simp add: echo_done_def handle_workflow_task_def echo_finishes)
  have "root_version ?c = of_nat (length echo_history + length (root_uncommitted ?c))"
    "st_id (root_state ?c) = ''w1''" "mem_total (sy_log echo_started) + length (root_uncommitted ?c) < 2 ^ 64"
    by (simp_all add: echo_history_def context_after_def echo_completed_def echo_log_facts(3))
  from save_after_stream(3) [OF echo_log_facts(1,2) this]
  show "stream_events demo_serde (sy_log echo_done) ''w1'' = Inr (echo_history @ [echo_completed])"
    unfolding log by (simp add: context_after_def)
qed

lemma demo_decoded_raw: "decode_raw wf_registry (wf_codec demo_serde) r = Inr e \<Longrightarrow> r = demo_raw e"
  by (cases r)
    (auto simp: decode_raw_def wf_codec_def demo_serde_def demo_raw_def event_name_def dest: wf_registry_name
      split: option.splits list.splits datum.splits if_splits)

lemma demo_stream_raws:
  assumes "stream_events demo_serde mem wid = Inr es"
  shows "mem_contents mem wid = map demo_raw es"
proof -
  have "traverse (decode_raw wf_registry (wf_codec demo_serde)) rs = Inr es \<Longrightarrow> rs = map demo_raw es" for rs
    by (induction rs arbitrary: es) (auto split: sum.splits dest: demo_decoded_raw)
  with assms show ?thesis by (simp add: stream_events_def)
qed

definition echo_stored :: "datum system" where
  "echo_stored = echo_done\<lparr>sy_results := [''w1'' \<mapsto> [DArgs [GStr ''x'', GNil]]]\<rparr>"

lemma echo_stored_reachable: "reachable demo_env demo_echo echo_stored"
proof -
  have "demo_raw echo_completed \<in> set (mem_contents (sy_log echo_done) ''w1'')"
    using demo_stream_raws [OF echo_done_facts(2)] by simp
  from sys_step.project_result [OF this, where ev = demo_env and reg = demo_echo and put = "\<lambda>_ _ _. None" and v = 2 and meta = echo_meta]
  have "sys_step demo_env demo_echo echo_done echo_stored"
    by (simp add: project_workflow_result_def echo_delivered echo_completed_def demo_serde_simps store_results_def
      echo_stored_def settle_def) (simp add: echo_done_def echo_loaded_def echo_started_def initial_system_def)
  with echo_done_facts(1) show ?thesis by (rule reachable.step)
qed

theorem histories_well_formed_witness:
  "hd (echo_history @ [echo_completed]) = WorkflowStarted \<lparr>ws_id = ''w1'', ws_fn = ''main'', ws_input = [GStr ''x'']\<rparr> \<and>
   event_wf_fn echo_completed = ''main''"
  using histories_well_formed [OF echo_done_facts(1), of "\<lambda>v. v" "''w1''" "echo_history @ [echo_completed]"]
    demo_serde_normal echo_done_facts(2) by (auto simp: echo_history_def echo_start)

theorem completions_agree_witness:
  "\<exists>clock c n. exec_workflow demo_env demo_echo clock (context_after (take n (echo_history @ [echo_completed])))
     (task_for (echo_history @ [echo_completed])) = (c, ExecOk [GStr ''x'', GNil])"
proof -
  let ?x = "\<lparr>wc_id = ''w1'', wc_fn = ''main'', wc_result = [GStr ''x'', GNil]\<rparr>"
  have "WorkflowCompleted ?x \<in> set (echo_history @ [echo_completed])" by (simp add: echo_completed_def)
  with completions_agree [OF echo_done_facts(1), of "\<lambda>v. v" "''w1''" "echo_history @ [echo_completed]" ?x]
    demo_serde_normal echo_done_facts(2) show ?thesis by auto
qed

theorem stored_result_is_final_witness: "sy_results echo_stored ''w1'' = Some [DArgs [GStr ''x'', GNil]]"
  using stored_result_is_final [OF echo_stored_reachable, of "\<lambda>v. v" "''w1''" "[DArgs [GStr ''x'', GNil]]" echo_stored]
  by (simp add: demo_serde_normal) (simp add: echo_stored_def)

end
