(* ===== verification/DF_Text.thy ===== *)
theory DF_Text
  imports DF_Prelude
begin

text \<open>
  The string functions of the Go library that configuration and connections use:
  \<open>strings.TrimSpace\<close>, \<open>strings.ToLower\<close>, \<open>strings.HasPrefix\<close>,
  \<open>strings.TrimPrefix\<close>, \<open>strings.SplitN(s, c, 2)\<close> and \<open>strconv.Atoi\<close>, on strings
  as lists of bytes.
\<close>

section \<open>Spaces\<close>

text \<open>The UTF-8 encodings of the characters that \<open>unicode.IsSpace\<close> accepts.\<close>

definition space_codes :: "string list" where
  "space_codes =
     [[CHR 0x09], [CHR 0x0A], [CHR 0x0B], [CHR 0x0C], [CHR 0x0D], [CHR 0x20],
      [CHR 0xC2, CHR 0x85], [CHR 0xC2, CHR 0xA0], [CHR 0xE1, CHR 0x9A, CHR 0x80]] @
     map (\<lambda>b. [CHR 0xE2, CHR 0x80, b])
       [CHR 0x80, CHR 0x81, CHR 0x82, CHR 0x83, CHR 0x84, CHR 0x85, CHR 0x86, CHR 0x87, CHR 0x88, CHR 0x89,
        CHR 0x8A, CHR 0xA8, CHR 0xA9, CHR 0xAF] @
     [[CHR 0xE2, CHR 0x81, CHR 0x9F], [CHR 0xE3, CHR 0x80, CHR 0x80]]"

fun starts_with :: "string \<Rightarrow> string \<Rightarrow> bool" where
  "starts_with [] s = True"
| "starts_with (p # ps) [] = False"
| "starts_with (p # ps) (c # cs) = (p = c \<and> starts_with ps cs)"

text \<open>Drops codes from the front; \<open>n\<close> bounds the number of rounds by the length.\<close>

fun drop_codes :: "string list \<Rightarrow> nat \<Rightarrow> string \<Rightarrow> string" where
  "drop_codes codes 0 s = s"
| "drop_codes codes (Suc n) s =
     (case find (\<lambda>c. starts_with c s) codes of
        None \<Rightarrow> s
      | Some c \<Rightarrow> drop_codes codes n (drop (length c) s))"

definition trim_left :: "string \<Rightarrow> string" where
  "trim_left s = drop_codes space_codes (length s) s"

definition trim_right :: "string \<Rightarrow> string" where
  "trim_right s = rev (drop_codes (map rev space_codes) (length s) (rev s))"

definition trim_space :: "string \<Rightarrow> string" where
  "trim_space s = trim_right (trim_left s)"

section \<open>Letters and prefixes\<close>

text \<open>
  Lower case. Of the characters outside ASCII only the Kelvin sign and the dotted capital I have
  a lower case letter in ASCII; the others are left as they are, which no comparison with an
  ASCII text can tell.
\<close>

definition lower_char :: "char \<Rightarrow> char" where
  "lower_char c = (if 65 \<le> (of_char c :: nat) \<and> (of_char c :: nat) \<le> 90 then char_of ((of_char c :: nat) + 32) else c)"

fun to_lower :: "string \<Rightarrow> string" where
  "to_lower (a # b # c # s) =
     (if [a, b, c] = [CHR 0xE2, CHR 0x84, CHR 0xAA] then CHR ''k'' # to_lower s
      else if [a, b] = [CHR 0xC4, CHR 0xB0] then CHR ''i'' # to_lower (c # s)
      else lower_char a # to_lower (b # c # s))"
| "to_lower [a, b] = (if [a, b] = [CHR 0xC4, CHR 0xB0] then ''i'' else [lower_char a, lower_char b])"
| "to_lower s = map lower_char s"

definition trim_prefix :: "string \<Rightarrow> string \<Rightarrow> string" where
  "trim_prefix p s = (if starts_with p s then drop (length p) s else s)"

text \<open>\<open>SplitN(s, "c", 2)\<close>: the text before the first \<open>c\<close> and what follows it.\<close>

definition split_first :: "char \<Rightarrow> string \<Rightarrow> string list" where
  "split_first c s =
     (if c \<in> set s then [takeWhile (\<lambda>x. x \<noteq> c) s, tl (dropWhile (\<lambda>x. x \<noteq> c) s)] else [s])"

section \<open>Numbers\<close>

text \<open>What \<open>strconv.Atoi\<close> accepts: an optional sign, digits, a value of 64 bits.\<close>

definition atoi_ok :: "string \<Rightarrow> bool" where
  "atoi_ok s =
     (let ds = (if s \<noteq> [] \<and> (hd s = CHR ''-'' \<or> hd s = CHR ''+'') then tl s else s);
          v = (if s \<noteq> [] \<and> hd s = CHR ''-'' then - int (digits_val ds) else int (digits_val ds))
      in ds \<noteq> [] \<and> list_all is_digit ds \<and> - (2 ^ 63) \<le> v \<and> v < 2 ^ 63)"

section \<open>Lemmas\<close>

lemma starts_with_iff [go_str]: "starts_with p s \<longleftrightarrow> (\<exists>t. s = p @ t)"
  by (induction p s rule: starts_with.induct) auto

lemma drop_codes_length: "length (drop_codes codes n s) \<le> length s"
proof (induction codes n s rule: drop_codes.induct)
  case (2 codes n s)
  show ?case
  proof (cases "find (\<lambda>c. starts_with c s) codes")
    case (Some c)
    from 2 [OF Some] have "length (drop_codes codes n (drop (length c) s)) \<le> length s" by simp
    with Some show ?thesis by simp
  qed simp
qed simp

lemma trim_space_length: "length (trim_space s) \<le> length s"
  using drop_codes_length [of "map rev space_codes" "length (trim_left s)" "rev (trim_left s)"]
    drop_codes_length [of space_codes "length s" s]
  by (simp add: trim_space_def trim_right_def trim_left_def)

text \<open>The fuel of \<open>drop_codes\<close> is enough: no code is left at the front.\<close>

lemma drop_codes_done:
  assumes "[] \<notin> set codes" and "length s \<le> n" and "c \<in> set codes"
  shows "\<not> starts_with c (drop_codes codes n s)"
  using assms
proof (induction codes n s rule: drop_codes.induct)
  case (1 codes s)
  have "c \<noteq> []" using 1(1,3) by auto
  with 1 show ?case by (cases c) simp_all
next
  case (2 codes n s)
  show ?case
  proof (cases "find (\<lambda>c. starts_with c s) codes")
    case None
    then have "\<not> starts_with c s" using 2(4) by (auto simp: find_None_iff)
    with None show ?thesis by simp
  next
    case (Some d)
    then have "d \<in> set codes" by (metis find_Some_iff nth_mem)
    then have "0 < length d" using 2(2) by auto
    then have "length (drop (length d) s) \<le> n" using 2(3) by (simp del: length_greater_0_conv)
    from 2(1) [OF Some 2(2) this 2(4)] Some show ?thesis by simp
  qed
qed

lemma trim_space_nil [simp]: "trim_space [] = []"
  by (simp add: trim_space_def trim_left_def trim_right_def)

lemma space_codes_heads: "c \<in> set space_codes \<Longrightarrow> c \<noteq> [] \<and> \<not> (33 \<le> (of_char (hd c) :: nat) \<and> (of_char (hd c) :: nat) \<le> 126)"
  by (auto simp: space_codes_def)

lemma space_codes_lasts: "c \<in> set space_codes \<Longrightarrow> \<not> (33 \<le> (of_char (last c) :: nat) \<and> (of_char (last c) :: nat) \<le> 126)"
  by (auto simp: space_codes_def)

definition printable :: "char \<Rightarrow> bool" where
  "printable c \<longleftrightarrow> 33 \<le> (of_char c :: nat) \<and> (of_char c :: nat) \<le> 126"

lemma drop_codes_keeps:
  assumes "\<And>c. c \<in> set codes \<Longrightarrow> c \<noteq> [] \<and> \<not> printable (hd c)" and "s = [] \<or> printable (hd s)"
  shows "drop_codes codes n s = s"
proof (cases n)
  case (Suc m)
  have "\<not> starts_with c s" if "c \<in> set codes" for c
    using assms(1) [OF that] assms(2) by (cases c; cases s) auto
  then have "find (\<lambda>c. starts_with c s) codes = None" by (auto simp: find_None_iff)
  with Suc show ?thesis by simp
qed simp

text \<open>A text whose ends are printable ASCII has nothing to trim.\<close>

lemma trim_space_printable [go_str]:
  assumes "s = [] \<or> printable (hd s) \<and> printable (last s)"
  shows "trim_space s = s"
proof -
  have "trim_left s = s"
    unfolding trim_left_def by (rule drop_codes_keeps) (use assms space_codes_heads in \<open>auto simp: printable_def\<close>)
  moreover have "drop_codes (map rev space_codes) (length s) (rev s) = rev s"
  proof (rule drop_codes_keeps)
    fix c
    assume "c \<in> set (map rev space_codes)"
    then obtain d where "d \<in> set space_codes" "c = rev d" by auto
    with space_codes_heads [of d] space_codes_lasts [of d] show "c \<noteq> [] \<and> \<not> printable (hd c)"
      by (simp add: printable_def hd_rev)
  qed (use assms in \<open>auto simp: hd_rev\<close>)
  ultimately show ?thesis by (simp add: trim_space_def trim_right_def)
qed

lemma to_lower_ascii:
  "c \<noteq> CHR 0xE2 \<Longrightarrow> c \<noteq> CHR 0xC4 \<Longrightarrow> to_lower (c # s) = lower_char c # to_lower s"
proof (cases s)
  case (Cons b u)
  assume "c \<noteq> CHR 0xE2" "c \<noteq> CHR 0xC4"
  with Cons show ?thesis by (cases u) simp_all
qed simp

end
