(* ===== verification/DF_Conn.thy ===== *)
theory DF_Conn
  imports DF_Command DF_Text
begin

text \<open>
  The connections to JetStream: \<open>sdk/internal/protocol/nats/nats.go\<close> of the SDK and
  \<open>internal/server/infra/jetstream/nats_conn.go\<close> of the server, two copies of one set of
  operations, and \<open>internal/server/app/bootstrap.go\<close>, which creates the streams and buckets.
  The client library is third-party code: what it answers are the fields of
  \<open>js_client\<close>, over an abstract state \<open>'s\<close> of the server.
\<close>

section \<open>The client library\<close>

text \<open>The answer of a lookup, with \<open>errors.Is(err, ErrStreamNotFound)\<close> told apart.\<close>

datatype lookup = Found | Missing gerr | Unreachable gerr

datatype retention = LimitsPolicy | InterestPolicy | WorkQueuePolicy
datatype storage = FileStorage | MemoryStorage

record stream_setup =
  st_name :: string
  st_subjects :: "string list"
  st_retention :: retention
  st_storage :: storage

record consumer_setup =
  cn_name :: string
  cn_durable :: string
  cn_filter :: string

text \<open>A bucket configuration is its name: no other field is set.\<close>

record ('s, 'x) js_client =
  jk_find :: "'s \<Rightarrow> string \<Rightarrow> lookup"
  jk_create :: "'s \<Rightarrow> string \<Rightarrow> 's \<times> gerr option"
  jk_update :: "'s \<Rightarrow> string \<Rightarrow> 's \<times> gerr option"
  jk_put :: "'s \<Rightarrow> string \<Rightarrow> string \<Rightarrow> 'x list \<Rightarrow> 's \<times> (gerr + u64)"
  jk_get :: "'s \<Rightarrow> string \<Rightarrow> string \<Rightarrow> gerr + 'x list"
  jk_watch :: "'s \<Rightarrow> string \<Rightarrow> string \<Rightarrow> gerr option"
  jm_find :: "'s \<Rightarrow> string \<Rightarrow> lookup"
  jm_create :: "'s \<Rightarrow> stream_setup \<Rightarrow> 's \<times> gerr option"
  jm_info :: "'s \<Rightarrow> string \<Rightarrow> gerr + stream_setup"
  jm_update :: "'s \<Rightarrow> stream_setup \<Rightarrow> 's \<times> gerr option"
  jm_publish :: "'s \<Rightarrow> string \<Rightarrow> 'x list \<Rightarrow> 's \<times> gerr option"
  jc_find :: "'s \<Rightarrow> string \<Rightarrow> string \<Rightarrow> gerr option"
  jc_upsert :: "'s \<Rightarrow> string \<Rightarrow> consumer_setup \<Rightarrow> 's \<times> gerr option"
  jc_fetch :: "'s \<Rightarrow> string \<Rightarrow> int \<Rightarrow> gerr + 'x list list"
  nc_publish :: "'s \<Rightarrow> string \<Rightarrow> 'x list \<Rightarrow> 's \<times> gerr option"
  nc_subscribe :: "'s \<Rightarrow> string \<Rightarrow> string option \<Rightarrow> 's \<times> gerr option"

definition quote1 :: "string \<Rightarrow> string" where
  "quote1 s = [CHR 0x27] @ s @ [CHR 0x27]"

section \<open>The connection of the server\<close>

definition ensure_kv :: "('s, 'x) js_client \<Rightarrow> 's \<Rightarrow> string \<Rightarrow> 's \<times> gerr option" where
  "ensure_kv js s bucket =
     (case jk_find js s bucket of
        Missing e \<Rightarrow>
          (case jk_create js s bucket of
             (s', Some e) \<Rightarrow> (s', Some (ErrComma (''failed to create new KV: '' @ bucket) e))
           | (s', None) \<Rightarrow> (s', None))
      | Unreachable e \<Rightarrow> (s, Some (ErrComma (''failed to ensure KV: '' @ bucket) e))
      | Found \<Rightarrow>
          (case jk_update js s bucket of
             (s', Some e) \<Rightarrow> (s', Some (ErrComma (''failed to update KV: '' @ bucket) e))
           | (s', None) \<Rightarrow> (s', None)))"

definition ensure_js_stream :: "('s, 'x) js_client \<Rightarrow> 's \<Rightarrow> stream_setup \<Rightarrow> 's \<times> gerr option" where
  "ensure_js_stream js s cfg =
     (case jm_find js s (st_name cfg) of
        Missing e \<Rightarrow>
          (case jm_create js s cfg of
             (s', Some e) \<Rightarrow> (s', Some (ErrWrap (''failed to create stream '' @ st_name cfg) e))
           | (s', None) \<Rightarrow> (s', None))
      | Unreachable e \<Rightarrow> (s, Some (ErrWrap (''failed to get stream '' @ st_name cfg @ '' info'') e))
      | Found \<Rightarrow>
          (case jm_info js s (st_name cfg) of
             Inl e \<Rightarrow> (s, Some (ErrWrap (''failed to get stream info '' @ st_name cfg) e))
           | Inr info \<Rightarrow>
              (let cfg' = (if st_retention info = WorkQueuePolicy then cfg\<lparr>st_retention := WorkQueuePolicy\<rparr>
                           else cfg\<lparr>st_retention := st_retention info\<rparr>)
               in case jm_update js s cfg' of
                    (s', Some e) \<Rightarrow> (s', Some (ErrWrap (''failed to update stream '' @ st_name cfg) e))
                  | (s', None) \<Rightarrow> (s', None))))"

definition ensure_consumer :: "('s, 'x) js_client \<Rightarrow> 's \<Rightarrow> string \<Rightarrow> consumer_setup \<Rightarrow> 's \<times> gerr option" where
  "ensure_consumer js s stream cfg =
     (let missing = (\<lambda>e. (s, Some (ErrWrap (''failed to get stream '' @ stream @ '' for consumer creation'') e))) in
      case jm_find js s stream of
        Missing e \<Rightarrow> missing e
      | Unreachable e \<Rightarrow> missing e
      | Found \<Rightarrow>
          (case jc_find js s stream (cn_name cfg) of
             None \<Rightarrow> (s, None)
           | Some _ \<Rightarrow>
              (case jc_upsert js s stream cfg of
                 (s', Some e) \<Rightarrow>
                   (s', Some (ErrWrap (''failed to create/update consumer '' @ cn_name cfg @ '' on stream '' @ stream) e))
               | (s', None) \<Rightarrow> (s', None))))"

definition kv_error :: "string \<Rightarrow> gerr \<Rightarrow> gerr" where
  "kv_error bucket e = ErrWrap (''failed to get KV bucket '' @ quote1 bucket) e"

definition watch_kv :: "('s, 'x) js_client \<Rightarrow> 's \<Rightarrow> string \<Rightarrow> string \<Rightarrow> gerr option" where
  "watch_kv js s bucket key =
     (case jk_find js s bucket of
        Missing e \<Rightarrow> Some (kv_error bucket e)
      | Unreachable e \<Rightarrow> Some (kv_error bucket e)
      | Found \<Rightarrow>
          (case jk_watch js s bucket key of
             Some e \<Rightarrow> Some (ErrWrap (''failed to create watcher for key '' @ quote1 key @ '' in bucket '' @ quote1 bucket) e)
           | None \<Rightarrow> None))"

definition kv_set :: "('s, 'x) js_client \<Rightarrow> 's \<Rightarrow> string \<Rightarrow> string \<Rightarrow> 'x list \<Rightarrow> 's \<times> u64 \<times> gerr option" where
  "kv_set js s bucket key val =
     (case jk_find js s bucket of
        Missing e \<Rightarrow> (s, 0, Some (kv_error bucket e))
      | Unreachable e \<Rightarrow> (s, 0, Some (kv_error bucket e))
      | Found \<Rightarrow>
          (case jk_put js s bucket key val of
             (s', Inl e) \<Rightarrow> (s', 0, Some (ErrWrap (''failed to put key '' @ quote1 key @ '' in bucket '' @ quote1 bucket) e))
           | (s', Inr rv) \<Rightarrow> (s', rv, None)))"

definition kv_get :: "('s, 'x) js_client \<Rightarrow> 's \<Rightarrow> string \<Rightarrow> string \<Rightarrow> gerr + 'x list" where
  "kv_get js s bucket key =
     (case jk_find js s bucket of
        Missing e \<Rightarrow> Inl (kv_error bucket e)
      | Unreachable e \<Rightarrow> Inl (kv_error bucket e)
      | Found \<Rightarrow> (case jk_get js s bucket key of Inl e \<Rightarrow> Inl e | Inr v \<Rightarrow> Inr v))"

definition publish_js :: "('s, 'x) js_client \<Rightarrow> 's \<Rightarrow> string \<Rightarrow> 'x list \<Rightarrow> 's \<times> gerr option" where
  "publish_js js s subj data =
     (case jm_publish js s subj data of
        (s', Some e) \<Rightarrow> (s', Some (ErrWrap (''failed to publish JetStream message to subject '' @ subj) e))
      | (s', None) \<Rightarrow> (s', None))"

definition publish_core :: "('s, 'x) js_client \<Rightarrow> 's \<Rightarrow> string \<Rightarrow> 'x list \<Rightarrow> 's \<times> gerr option" where
  "publish_core js s subj data =
     (case nc_publish js s subj data of
        (s', Some e) \<Rightarrow> (s', Some (ErrWrap (''failed to publish message to subject '' @ subj) e))
      | (s', None) \<Rightarrow> (s', None))"

definition subscribe_async :: "('s, 'x) js_client \<Rightarrow> 's \<Rightarrow> string \<Rightarrow> 's \<times> gerr option" where
  "subscribe_async js s subj =
     (case nc_subscribe js s subj None of
        (s', Some e) \<Rightarrow> (s', Some (ErrWrap (''failed to subscribe to subject '' @ subj) e))
      | (s', None) \<Rightarrow> (s', None))"

definition subscribe_sync :: "('s, 'x) js_client \<Rightarrow> 's \<Rightarrow> string \<Rightarrow> 's \<times> gerr option" where
  "subscribe_sync js s subj =
     (case nc_subscribe js s subj None of
        (s', Some e) \<Rightarrow> (s', Some (ErrWrap (''failed to subscribe to subject '' @ subj) e))
      | (s', None) \<Rightarrow> (s', None))"

definition queue_subscribe :: "('s, 'x) js_client \<Rightarrow> 's \<Rightarrow> string \<Rightarrow> string \<Rightarrow> 's \<times> gerr option" where
  "queue_subscribe js s subj queue =
     (case nc_subscribe js s subj (Some queue) of
        (s', Some e) \<Rightarrow>
          (s', Some (ErrWrap (''failed to queue subscribe to subject '' @ subj @ '' with queue '' @ queue) e))
      | (s', None) \<Rightarrow> (s', None))"

definition fetch_messages :: "('s, 'x) js_client \<Rightarrow> 's \<Rightarrow> string \<Rightarrow> int \<Rightarrow> gerr + 'x list list" where
  "fetch_messages js s consumer batch =
     (case jc_fetch js s consumer batch of
        Inl e \<Rightarrow> Inl (ErrWrap (''failed to fetch '' @ int_str batch @ '' messages'') e)
      | Inr ms \<Rightarrow> Inr ms)"

section \<open>Connecting\<close>

record conn_config =
  cf_endpoint :: string
  cf_max_reconnects :: i64
  cf_reconnect_wait :: i64
  cf_drain_timeout :: i64
  cf_ping_interval :: i64
  cf_max_pings_out :: i64
  cf_client_name :: string

text \<open>
  What a connection attempt does: it dials with the options of the configuration, the client name
  filled in, and closes the connection again when no JetStream context can be created. The reconnect
  and close handlers only print.
\<close>

datatype conn_effect = Dial conn_config | CloseConn

definition connect ::
    "(conn_config \<Rightarrow> gerr option) \<Rightarrow> gerr option \<Rightarrow> conn_config option \<Rightarrow> conn_effect list \<times> gerr option" where
  "connect dial js_new cfg =
     (case cfg of
        None \<Rightarrow> ([], Some (ErrMsg ''natz: nil config provided''))
      | Some c \<Rightarrow>
         (let c' = c\<lparr>cf_client_name := (if cf_client_name c = [] then ''durablefuture'' else cf_client_name c)\<rparr> in
          case dial c' of
            Some e \<Rightarrow> ([Dial c'], Some (ErrWrap (''failed to connect to NATS at '' @ cf_endpoint c) e))
          | None \<Rightarrow>
             (case js_new of
                Some e \<Rightarrow> ([Dial c', CloseConn], Some (ErrWrap ''failed to create JetStream context'' e))
              | None \<Rightarrow> ([Dial c'], None))))"

text \<open>\<open>Wrap\<close>: \<open>nc\<close> tells whether a connection was given.\<close>

definition wrap_conn :: "gerr option \<Rightarrow> bool \<Rightarrow> conn_effect list \<times> gerr option" where
  "wrap_conn js_new nc =
     (if \<not> nc then ([], Some (ErrMsg ''natz: nil connection provided''))
      else (case js_new of
        Some e \<Rightarrow> ([CloseConn], Some (ErrWrap ''failed to create JetStream context'' e))
      | None \<Rightarrow> ([], None)))"

section \<open>The connection of the SDK\<close>

definition workflow_task_stream_name :: "string \<Rightarrow> string" where
  "workflow_task_stream_name ns = (if ns = [] then workflow_tasks_stream else ns @ ''_'' @ workflow_tasks_stream)"

definition activity_task_stream_name :: "string \<Rightarrow> string" where
  "activity_task_stream_name ns = (if ns = [] then activity_tasks_stream else ns @ ''_'' @ activity_tasks_stream)"

definition workflow_task_filter_subject :: "string \<Rightarrow> string" where
  "workflow_task_filter_subject ns =
     (if ns = [] then workflow_tasks_pattern else ns @ ''.'' @ ''tasks.workflow'')"

definition activity_task_filter_subject :: "string \<Rightarrow> string" where
  "activity_task_filter_subject ns =
     (if ns = [] then activity_tasks_pattern else ns @ ''.'' @ ''tasks'' @ ''.*.'' @ ''activity'')"

text \<open>\<open>from\<close>: the namespace of the new connection, an error, or the panic without a serializer.\<close>

datatype from_result = FromOk string | FromErr gerr | FromPanic string

definition conn_from :: "gerr option \<Rightarrow> string \<Rightarrow> bool \<Rightarrow> conn_effect list \<times> from_result" where
  "conn_from js_new ns serde =
     (case js_new of
        Some e \<Rightarrow> ([CloseConn], FromErr (ErrWrap ''failed to create JetStream context'' e))
      | None \<Rightarrow> ([], if serde then FromOk (trim_space ns) else FromPanic ''must specify serde''))"

definition sdk_connect ::
    "(conn_config \<Rightarrow> gerr option) \<Rightarrow> gerr option \<Rightarrow> conn_config option \<Rightarrow> string \<Rightarrow> bool
      \<Rightarrow> conn_effect list \<times> from_result" where
  "sdk_connect dial js_new cfg ns serde =
     (case cfg of
        None \<Rightarrow> ([], FromErr (ErrMsg ''natz: nil config provided''))
      | Some c \<Rightarrow>
         (let c' = c\<lparr>cf_client_name := (if cf_client_name c = [] then ''durablefuture-sdk'' else cf_client_name c)\<rparr> in
          case dial c' of
            Some e \<Rightarrow> ([Dial c'], FromErr (ErrWrap (''failed to connect to NATS at '' @ cf_endpoint c) e))
          | None \<Rightarrow> (case conn_from js_new ns serde of (fx, r) \<Rightarrow> (Dial c' # fx, r))))"

definition wrap_existing :: "gerr option \<Rightarrow> bool \<Rightarrow> string \<Rightarrow> bool \<Rightarrow> conn_effect list \<times> from_result" where
  "wrap_existing js_new nc ns serde =
     (if \<not> nc then ([], FromErr (ErrMsg ''natz: nil connection provided'')) else conn_from js_new ns serde)"

text \<open>The operations of the SDK's connection, which repeat those of the server's.\<close>

definition sdk_ensure_kv :: "('s, 'x) js_client \<Rightarrow> 's \<Rightarrow> string \<Rightarrow> 's \<times> gerr option" where
  "sdk_ensure_kv js s bucket =
     (case jk_find js s bucket of
        Missing e \<Rightarrow>
          (case jk_create js s bucket of
             (s', Some e) \<Rightarrow> (s', Some (ErrComma (''failed to create new KV: '' @ bucket) e))
           | (s', None) \<Rightarrow> (s', None))
      | Unreachable e \<Rightarrow> (s, Some (ErrComma (''failed to ensure KV: '' @ bucket) e))
      | Found \<Rightarrow>
          (case jk_update js s bucket of
             (s', Some e) \<Rightarrow> (s', Some (ErrComma (''failed to update KV: '' @ bucket) e))
           | (s', None) \<Rightarrow> (s', None)))"

definition sdk_ensure_js_stream :: "('s, 'x) js_client \<Rightarrow> 's \<Rightarrow> stream_setup \<Rightarrow> 's \<times> gerr option" where
  "sdk_ensure_js_stream js s cfg =
     (case jm_find js s (st_name cfg) of
        Missing e \<Rightarrow>
          (case jm_create js s cfg of
             (s', Some e) \<Rightarrow> (s', Some (ErrWrap (''failed to create stream '' @ st_name cfg) e))
           | (s', None) \<Rightarrow> (s', None))
      | Unreachable e \<Rightarrow> (s, Some (ErrWrap (''failed to get stream '' @ st_name cfg @ '' info'') e))
      | Found \<Rightarrow>
          (case jm_info js s (st_name cfg) of
             Inl e \<Rightarrow> (s, Some (ErrWrap (''failed to get stream info '' @ st_name cfg) e))
           | Inr info \<Rightarrow>
              (let cfg' = (if st_retention info = WorkQueuePolicy then cfg\<lparr>st_retention := WorkQueuePolicy\<rparr>
                           else cfg\<lparr>st_retention := st_retention info\<rparr>)
               in case jm_update js s cfg' of
                    (s', Some e) \<Rightarrow> (s', Some (ErrWrap (''failed to update stream '' @ st_name cfg) e))
                  | (s', None) \<Rightarrow> (s', None))))"

definition sdk_ensure_consumer :: "('s, 'x) js_client \<Rightarrow> 's \<Rightarrow> string \<Rightarrow> consumer_setup \<Rightarrow> 's \<times> gerr option" where
  "sdk_ensure_consumer js s stream cfg =
     (let missing = (\<lambda>e. (s, Some (ErrWrap (''failed to get stream '' @ stream @ '' for consumer creation'') e))) in
      case jm_find js s stream of
        Missing e \<Rightarrow> missing e
      | Unreachable e \<Rightarrow> missing e
      | Found \<Rightarrow>
          (case jc_find js s stream (cn_name cfg) of
             None \<Rightarrow> (s, None)
           | Some _ \<Rightarrow>
              (case jc_upsert js s stream cfg of
                 (s', Some e) \<Rightarrow>
                   (s', Some (ErrWrap (''failed to create/update consumer '' @ cn_name cfg @ '' on stream '' @ stream) e))
               | (s', None) \<Rightarrow> (s', None))))"

definition sdk_watch_kv :: "('s, 'x) js_client \<Rightarrow> 's \<Rightarrow> string \<Rightarrow> string \<Rightarrow> gerr option" where
  "sdk_watch_kv js s bucket key =
     (case jk_find js s bucket of
        Missing e \<Rightarrow> Some (kv_error bucket e)
      | Unreachable e \<Rightarrow> Some (kv_error bucket e)
      | Found \<Rightarrow>
          (case jk_watch js s bucket key of
             Some e \<Rightarrow> Some (ErrWrap (''failed to create watcher for key '' @ quote1 key @ '' in bucket '' @ quote1 bucket) e)
           | None \<Rightarrow> None))"

definition sdk_kv_set :: "('s, 'x) js_client \<Rightarrow> 's \<Rightarrow> string \<Rightarrow> string \<Rightarrow> 'x list \<Rightarrow> 's \<times> u64 \<times> gerr option" where
  "sdk_kv_set js s bucket key val =
     (case jk_find js s bucket of
        Missing e \<Rightarrow> (s, 0, Some (kv_error bucket e))
      | Unreachable e \<Rightarrow> (s, 0, Some (kv_error bucket e))
      | Found \<Rightarrow>
          (case jk_put js s bucket key val of
             (s', Inl e) \<Rightarrow> (s', 0, Some (ErrWrap (''failed to put key '' @ quote1 key @ '' in bucket '' @ quote1 bucket) e))
           | (s', Inr rv) \<Rightarrow> (s', rv, None)))"

definition sdk_kv_get :: "('s, 'x) js_client \<Rightarrow> 's \<Rightarrow> string \<Rightarrow> string \<Rightarrow> gerr + 'x list" where
  "sdk_kv_get js s bucket key =
     (case jk_find js s bucket of
        Missing e \<Rightarrow> Inl (kv_error bucket e)
      | Unreachable e \<Rightarrow> Inl (kv_error bucket e)
      | Found \<Rightarrow> (case jk_get js s bucket key of Inl e \<Rightarrow> Inl e | Inr v \<Rightarrow> Inr v))"

definition sdk_publish_js :: "('s, 'x) js_client \<Rightarrow> 's \<Rightarrow> string \<Rightarrow> 'x list \<Rightarrow> 's \<times> gerr option" where
  "sdk_publish_js js s subj data =
     (case jm_publish js s subj data of
        (s', Some e) \<Rightarrow> (s', Some (ErrWrap (''failed to publish JetStream message to subject '' @ subj) e))
      | (s', None) \<Rightarrow> (s', None))"

definition sdk_publish_core :: "('s, 'x) js_client \<Rightarrow> 's \<Rightarrow> string \<Rightarrow> 'x list \<Rightarrow> 's \<times> gerr option" where
  "sdk_publish_core js s subj data =
     (case nc_publish js s subj data of
        (s', Some e) \<Rightarrow> (s', Some (ErrWrap (''failed to publish message to subject '' @ subj) e))
      | (s', None) \<Rightarrow> (s', None))"

definition sdk_queue_subscribe :: "('s, 'x) js_client \<Rightarrow> 's \<Rightarrow> string \<Rightarrow> string \<Rightarrow> 's \<times> gerr option" where
  "sdk_queue_subscribe js s subj queue =
     (case nc_subscribe js s subj (Some queue) of
        (s', Some e) \<Rightarrow>
          (s', Some (ErrWrap (''failed to queue subscribe to subject '' @ subj @ '' with queue '' @ queue) e))
      | (s', None) \<Rightarrow> (s', None))"

definition sdk_fetch_messages :: "('s, 'x) js_client \<Rightarrow> 's \<Rightarrow> string \<Rightarrow> int \<Rightarrow> gerr + 'x list list" where
  "sdk_fetch_messages js s consumer batch =
     (case jc_fetch js s consumer batch of
        Inl e \<Rightarrow> Inl (ErrWrap (''failed to fetch '' @ int_str batch @ '' messages'') e)
      | Inr ms \<Rightarrow> Inr ms)"

lemma sdk_operations_agree [simp]:
  "sdk_ensure_kv = ensure_kv" "sdk_ensure_js_stream = ensure_js_stream" "sdk_ensure_consumer = ensure_consumer"
  "sdk_watch_kv = watch_kv" "sdk_kv_set = kv_set" "sdk_kv_get = kv_get" "sdk_publish_js = publish_js"
  "sdk_publish_core = publish_core" "sdk_queue_subscribe = queue_subscribe" "sdk_fetch_messages = fetch_messages"
  by (intro ext; simp add: sdk_ensure_kv_def ensure_kv_def sdk_ensure_js_stream_def ensure_js_stream_def sdk_ensure_consumer_def ensure_consumer_def sdk_watch_kv_def watch_kv_def sdk_kv_set_def kv_set_def sdk_kv_get_def kv_get_def sdk_publish_js_def publish_js_def sdk_publish_core_def publish_core_def sdk_queue_subscribe_def queue_subscribe_def sdk_fetch_messages_def fetch_messages_def)+

section \<open>Starting the server\<close>

definition history_pattern :: string where
  "history_pattern = history_subject_prefix @ ''.>''"

definition history_setup :: stream_setup where
  "history_setup = \<lparr>st_name = workflow_history_stream, st_subjects = [history_pattern],
     st_retention = LimitsPolicy, st_storage = FileStorage\<rparr>"

definition workflow_tasks_setup :: stream_setup where
  "workflow_tasks_setup = \<lparr>st_name = workflow_tasks_stream, st_subjects = [workflow_tasks_pattern],
     st_retention = WorkQueuePolicy, st_storage = FileStorage\<rparr>"

definition activity_tasks_setup :: stream_setup where
  "activity_tasks_setup = \<lparr>st_name = activity_tasks_stream, st_subjects = [activity_tasks_pattern],
     st_retention = WorkQueuePolicy, st_storage = FileStorage\<rparr>"

definition ensure_streams :: "('s, 'x) js_client \<Rightarrow> 's \<Rightarrow> 's \<times> gerr option" where
  "ensure_streams js s =
     (case ensure_js_stream js s history_setup of
        (s1, Some e) \<Rightarrow> (s1, Some (ErrWrap ''failed to ensure workflow history stream'' e))
      | (s1, None) \<Rightarrow>
         (case ensure_js_stream js s1 workflow_tasks_setup of
            (s2, Some e) \<Rightarrow> (s2, Some (ErrWrap ''failed to ensure workflow tasks stream'' e))
          | (s2, None) \<Rightarrow>
             (case ensure_js_stream js s2 activity_tasks_setup of
                (s3, Some e) \<Rightarrow> (s3, Some (ErrWrap ''failed to ensure activity tasks stream'' e))
              | (s3, None) \<Rightarrow> (s3, None))))"

definition ensure_buckets :: "('s, 'x) js_client \<Rightarrow> 's \<Rightarrow> 's \<times> gerr option" where
  "ensure_buckets js s =
     (case ensure_kv js s workflow_result_bucket of
        (s1, Some e) \<Rightarrow> (s1, Some (ErrWrap ''failed to ensure workflow result KV bucket'' e))
      | (s1, None) \<Rightarrow>
         (case ensure_kv js s1 workflow_input_bucket of
            (s2, Some e) \<Rightarrow> (s2, Some (ErrWrap ''failed to ensure workflow input KV bucket'' e))
          | (s2, None) \<Rightarrow> (s2, None)))"

text \<open>
  \<open>NewManager\<close>: \<open>online\<close> is what \<open>IsConnected\<close> answers. The effects on the
  connection come with the state of the server and the error.
\<close>

definition new_manager ::
    "(conn_config \<Rightarrow> gerr option) \<Rightarrow> gerr option \<Rightarrow> bool \<Rightarrow> ('s, 'x) js_client \<Rightarrow> conn_config option \<Rightarrow> 's
      \<Rightarrow> 's \<times> conn_effect list \<times> gerr option" where
  "new_manager dial js_new online js cfg s =
     (case connect dial js_new cfg of
        (fx, Some e) \<Rightarrow> (s, fx, Some (ErrWrap ''failed to connect to NATS'' e))
      | (fx, None) \<Rightarrow>
         (if \<not> online then (s, fx, Some (ErrMsg ''cannot connect to NATS instance''))
          else (case ensure_streams js s of
            (s1, Some e) \<Rightarrow> (s1, fx @ [CloseConn], Some (ErrWrap ''failed to ensure NATS streams'' e))
          | (s1, None) \<Rightarrow>
             (case ensure_buckets js s1 of
                (s2, Some e) \<Rightarrow> (s2, fx @ [CloseConn], Some (ErrWrap ''failed to ensure NATS KV buckets'' e))
              | (s2, None) \<Rightarrow> (s2, fx, None)))))"

text \<open>
  \<open>Run\<close> of the manager: the errors its components return, in the order they return, with
  \<open>None\<close> for success. The group keeps the first error; \<open>context.Canceled\<close> is no
  failure. The connection is closed in any case.
\<close>

datatype run_error = Canceled | RunError gerr

definition manager_run :: "run_error option list \<Rightarrow> conn_effect list \<times> gerr option" where
  "manager_run results =
     ([CloseConn],
      (case find (\<lambda>r. r \<noteq> None) results of
         Some (Some (RunError e)) \<Rightarrow> Some e
       | _ \<Rightarrow> None))"

section \<open>What the server keeps\<close>

text \<open>
  The documented behaviour of a JetStream server, over its streams and buckets: a lookup finds what
  exists, creating and updating store the configuration they are given and nothing else, the
  information of a stream is its configuration, and a refused request changes nothing.
\<close>

definition conforming ::
    "('s, 'x) js_client \<Rightarrow> ('s \<Rightarrow> string \<Rightarrow> stream_setup option) \<Rightarrow> ('s \<Rightarrow> string set) \<Rightarrow> bool" where
  "conforming js streams buckets \<longleftrightarrow>
     (\<forall>s n. jm_find js s n = Found \<longrightarrow> streams s n \<noteq> None) \<and>
     (\<forall>s n e. jm_find js s n = Missing e \<longrightarrow> streams s n = None) \<and>
     (\<forall>s n i. jm_info js s n = Inr i \<longrightarrow> streams s n = Some i) \<and>
     (\<forall>s cfg s' r. jm_create js s cfg = (s', r) \<or> jm_update js s cfg = (s', r) \<longrightarrow>
        streams s' = (if r = None then (streams s)(st_name cfg \<mapsto> cfg) else streams s) \<and> buckets s' = buckets s) \<and>
     (\<forall>s b. jk_find js s b = Found \<longrightarrow> b \<in> buckets s) \<and>
     (\<forall>s b s' r. jk_create js s b = (s', r) \<or> jk_update js s b = (s', r) \<longrightarrow>
        buckets s' = (if r = None then insert b (buckets s) else buckets s) \<and> streams s' = streams s)"

text \<open>The specification: a stream is set up with its subjects, the retention of an existing one kept.\<close>

definition set_up :: "stream_setup \<Rightarrow> (string \<rightharpoonup> stream_setup) \<Rightarrow> (string \<rightharpoonup> stream_setup)" where
  "set_up cfg m = m(st_name cfg \<mapsto>
     (case m (st_name cfg) of None \<Rightarrow> cfg | Some old \<Rightarrow> cfg\<lparr>st_retention := st_retention old\<rparr>))"

definition engine_setup :: "(string \<rightharpoonup> stream_setup) \<Rightarrow> (string \<rightharpoonup> stream_setup)" where
  "engine_setup m = set_up activity_tasks_setup (set_up workflow_tasks_setup (set_up history_setup m))"

lemma set_up_other [simp]: "n \<noteq> st_name cfg \<Longrightarrow> set_up cfg m n = m n"
  by (simp add: set_up_def)

lemma set_up_same: "set_up cfg m (st_name cfg) = Some (case m (st_name cfg) of None \<Rightarrow> cfg | Some old \<Rightarrow> cfg\<lparr>st_retention := st_retention old\<rparr>)"
  by (simp add: set_up_def)

lemma setup_names [simp]:
  "st_name history_setup = workflow_history_stream" "st_name workflow_tasks_setup = workflow_tasks_stream"
  "st_name activity_tasks_setup = activity_tasks_stream"
  by (simp_all add: history_setup_def workflow_tasks_setup_def activity_tasks_setup_def)

lemma stream_names_differ [simp]:
  "workflow_history_stream \<noteq> workflow_tasks_stream" "workflow_history_stream \<noteq> activity_tasks_stream"
  "workflow_tasks_stream \<noteq> activity_tasks_stream" "workflow_tasks_stream \<noteq> workflow_history_stream"
  "activity_tasks_stream \<noteq> workflow_history_stream" "activity_tasks_stream \<noteq> workflow_tasks_stream"
  by (simp_all add: workflow_history_stream_def workflow_tasks_stream_def activity_tasks_stream_def)

lemma engine_setup_idem: "engine_setup (engine_setup m) = engine_setup m"
  by (rule ext) (auto simp: engine_setup_def set_up_def split: option.split)

lemma ensure_stream_refines:
  assumes conf: "conforming js streams buckets" and run: "ensure_js_stream js s cfg = (s', r)"
  shows "streams s' = (if r = None then set_up cfg (streams s) else streams s) \<and> buckets s' = buckets s"
proof (cases "jm_find js s (st_name cfg)")
  case (Missing e)
  obtain s1 r1 where c: "jm_create js s cfg = (s1, r1)" by fastforce
  from conf Missing have none: "streams s (st_name cfg) = None" by (auto simp: conforming_def)
  have "streams s1 = (if r1 = None then (streams s)(st_name cfg \<mapsto> cfg) else streams s) \<and> buckets s1 = buckets s"
    using conf c unfolding conforming_def by blast
  with run Missing c none show ?thesis
    by (cases r1) (auto simp: ensure_js_stream_def set_up_def)
next
  case (Unreachable e)
  with run show ?thesis by (auto simp: ensure_js_stream_def)
next
  case Found
  show ?thesis
  proof (cases "jm_info js s (st_name cfg)")
    case (Inl e)
    with run Found show ?thesis by (auto simp: ensure_js_stream_def)
  next
    case (Inr i)
    let ?cfg = "cfg\<lparr>st_retention := st_retention i\<rparr>"
    obtain s1 r1 where u: "jm_update js s ?cfg = (s1, r1)" by fastforce
    from conf Inr have old: "streams s (st_name cfg) = Some i" by (auto simp: conforming_def)
    have same: "(if st_retention i = WorkQueuePolicy then cfg\<lparr>st_retention := WorkQueuePolicy\<rparr> else ?cfg) = ?cfg" by simp
    have "streams s1 = (if r1 = None then (streams s)(st_name ?cfg \<mapsto> ?cfg) else streams s) \<and> buckets s1 = buckets s"
      using conf u unfolding conforming_def by blast
    with run Found Inr u old same show ?thesis
      by (cases r1) (auto simp: ensure_js_stream_def set_up_def Let_def)
  qed
qed

lemma ensure_kv_refines:
  assumes conf: "conforming js streams buckets" and run: "ensure_kv js s b = (s', r)"
  shows "buckets s' = (if r = None then insert b (buckets s) else buckets s) \<and> streams s' = streams s"
proof -
  obtain s1 r1 s2 r2 where ops: "jk_create js s b = (s1, r1)" "jk_update js s b = (s2, r2)" by (meson surj_pair)
  have "buckets s1 = (if r1 = None then insert b (buckets s) else buckets s) \<and> streams s1 = streams s"
    "buckets s2 = (if r2 = None then insert b (buckets s) else buckets s) \<and> streams s2 = streams s"
    using conf ops unfolding conforming_def by blast+
  with run ops show ?thesis by (cases "jk_find js s b"; cases r1; cases r2) (auto simp: ensure_kv_def)
qed

lemma ensure_streams_refines:
  assumes conf: "conforming js streams buckets" and run: "ensure_streams js s = (s', r)"
  shows "(r = None \<longrightarrow> streams s' = engine_setup (streams s)) \<and> buckets s' = buckets s \<and>
    (\<forall>n. n \<notin> {workflow_history_stream, workflow_tasks_stream, activity_tasks_stream} \<longrightarrow> streams s' n = streams s n)"
proof -
  obtain s1 r1 where a: "ensure_js_stream js s history_setup = (s1, r1)" by fastforce
  obtain s2 r2 where b: "ensure_js_stream js s1 workflow_tasks_setup = (s2, r2)" by fastforce
  obtain s3 r3 where c: "ensure_js_stream js s2 activity_tasks_setup = (s3, r3)" by fastforce
  note refines = ensure_stream_refines [OF conf a] ensure_stream_refines [OF conf b] ensure_stream_refines [OF conf c]
  from run a b c refines show ?thesis
    by (cases r1; cases r2; cases r3) (auto simp: ensure_streams_def engine_setup_def)
qed

lemma ensure_buckets_refines:
  assumes conf: "conforming js streams buckets" and run: "ensure_buckets js s = (s', r)"
  shows "(r = None \<longrightarrow> buckets s' = buckets s \<union> {workflow_result_bucket, workflow_input_bucket}) \<and>
    streams s' = streams s"
proof -
  obtain s1 r1 where a: "ensure_kv js s workflow_result_bucket = (s1, r1)" by fastforce
  obtain s2 r2 where b: "ensure_kv js s1 workflow_input_bucket = (s2, r2)" by fastforce
  note refines = ensure_kv_refines [OF conf a] ensure_kv_refines [OF conf b]
  from run a b refines show ?thesis by (cases r1; cases r2) (auto simp: ensure_buckets_def)
qed

section \<open>Properties\<close>

text \<open>
  (C21) Starting the server. On a server that does what JetStream documents,
  a bootstrap that succeeds leaves exactly the three streams of the engine set up on top of what
  there was, with the retention of streams that existed kept, and the two buckets; a bootstrap that
  fails touches no other stream. Doing it again changes nothing.
\<close>

theorem bootstrap_refines_setup:
  assumes conf: "conforming js streams buckets"
    and run: "new_manager dial js_new True js cfg s = (s', fx, r)"
  shows "(r = None \<longrightarrow> streams s' = engine_setup (streams s) \<and>
      buckets s' = buckets s \<union> {workflow_result_bucket, workflow_input_bucket} \<and>
      engine_setup (streams s') = streams s') \<and>
    (\<forall>n. n \<notin> {workflow_history_stream, workflow_tasks_stream, activity_tasks_stream} \<longrightarrow> streams s' n = streams s n)"
proof -
  obtain fx1 r1 where a: "connect dial js_new cfg = (fx1, r1)" by fastforce
  obtain s1 r2 where b: "ensure_streams js s = (s1, r2)" by fastforce
  obtain s2 r3 where c: "ensure_buckets js s1 = (s2, r3)" by fastforce
  note refines = ensure_streams_refines [OF conf b] ensure_buckets_refines [OF conf c]
  from run a b c refines show ?thesis
    by (cases r1; cases r2; cases r3) (auto simp: new_manager_def engine_setup_idem)
qed

section \<open>Witnesses\<close>

text \<open>A server that keeps its streams and buckets in maps.\<close>

definition demo_js :: "((string \<rightharpoonup> stream_setup) \<times> string set, nat) js_client" where
  "demo_js = \<lparr>
     jk_find = (\<lambda>(m, b) n. if n \<in> b then Found else Missing (ErrMsg ''nats: bucket not found'')),
     jk_create = (\<lambda>(m, b) n. ((m, insert n b), None)), jk_update = (\<lambda>(m, b) n. ((m, insert n b), None)),
     jk_put = (\<lambda>s _ _ _. (s, Inr 1)), jk_get = (\<lambda>_ _ _. Inr []), jk_watch = (\<lambda>_ _ _. None),
     jm_find = (\<lambda>(m, b) n. if m n = None then Missing (ErrMsg ''nats: stream not found'') else Found),
     jm_create = (\<lambda>(m, b) c. ((m(st_name c \<mapsto> c), b), None)),
     jm_info = (\<lambda>(m, b) n. case m n of None \<Rightarrow> Inl (ErrMsg ''nats: stream not found'') | Some c \<Rightarrow> Inr c),
     jm_update = (\<lambda>(m, b) c. ((m(st_name c \<mapsto> c), b), None)), jm_publish = (\<lambda>s _ _. (s, None)),
     jc_find = (\<lambda>_ _ _. Some (ErrMsg ''nats: consumer not found'')), jc_upsert = (\<lambda>s _ _. (s, None)),
     jc_fetch = (\<lambda>_ _ _. Inr []), nc_publish = (\<lambda>s _ _. (s, None)), nc_subscribe = (\<lambda>s _ _. (s, None))\<rparr>"

lemma demo_js_conforming: "conforming demo_js fst snd"
  by (auto simp: conforming_def demo_js_def split: if_splits option.splits)

definition demo_conn_config :: conn_config where
  "demo_conn_config = \<lparr>cf_endpoint = ''nats://localhost:4222'', cf_max_reconnects = - 1, cf_reconnect_wait = 2000000000,
     cf_drain_timeout = 30000000000, cf_ping_interval = 120000000000, cf_max_pings_out = 2, cf_client_name = []\<rparr>"

lemma demo_bootstrap_ok:
  "new_manager (\<lambda>_. None) None True demo_js (Some demo_conn_config) (Map.empty, {}) =
    (fst (new_manager (\<lambda>_. None) None True demo_js (Some demo_conn_config) (Map.empty, {})),
     [Dial (demo_conn_config\<lparr>cf_client_name := ''durablefuture''\<rparr>)], None)"
  by (simp add: new_manager_def connect_def Let_def demo_js_def ensure_streams_def ensure_js_stream_def
      ensure_buckets_def ensure_kv_def demo_conn_config_def workflow_result_bucket_def workflow_input_bucket_def)

theorem bootstrap_refines_setup_witness:
  "fst (fst (new_manager (\<lambda>_. None) None True demo_js (Some demo_conn_config) (Map.empty, {}))) ''WORKFLOW_TASKS''
    = Some workflow_tasks_setup"
  using bootstrap_refines_setup [OF demo_js_conforming demo_bootstrap_ok]
  by (simp add: engine_setup_def set_up_def workflow_tasks_stream_def [symmetric])

end
