(* ===== verification/DF_NatsLog.thy ===== *)
theory DF_NatsLog
  imports DF_Log
begin

text \<open>
  The JetStream event log \<open>eventlog/nats.go\<close> that workers append workflow events to, and the
  parser of database conflicts \<open>eventlog/conflict_parser.go\<close>. The JetStream server is
  third-party code: its operations are the fields of \<open>jetstream\<close>, over an abstract state
  \<open>'s\<close> of the server, and what its documentation says of them is a hypothesis where a
  property needs it.
\<close>

section \<open>Messages and server operations\<close>

type_synonym header = "(string \<times> string) list"

record 'x nats_msg =
  nm_subject :: string
  nm_data :: "'x list"
  nm_header :: header

definition hdr_get :: "header \<Rightarrow> string \<Rightarrow> string" where
  "hdr_get h k = (case map_of h k of None \<Rightarrow> [] | Some v \<Rightarrow> v)"

definition hdr_set :: "string \<Rightarrow> string \<Rightarrow> header \<Rightarrow> header" where
  "hdr_set k v h = AList.update k v h"

record stream_config =
  sc_name :: string
  sc_subjects :: "string list"
  sc_storage :: nat
  sc_retention :: nat
  sc_atomic :: bool

datatype stream_lookup = StreamFound | StreamNotFound gerr | StreamUnreachable gerr

text \<open>The commit reply of a batch: empty data, undecodable data, or a \<open>pubAck\<close> with its error.\<close>

datatype batch_reply = EmptyReply | BadReply gerr | PubAck nat nat string

datatype 'x fetched = FetchMsg "'x nats_msg" "gerr option" | FetchEnd | FetchErr gerr

record ('s, 'x) jetstream =
  js_stream :: "'s \<Rightarrow> string \<Rightarrow> stream_lookup"
  js_create :: "'s \<Rightarrow> stream_config \<Rightarrow> 's \<times> gerr option"
  js_info :: "'s \<Rightarrow> string \<Rightarrow> gerr + nat"
  js_update :: "'s \<Rightarrow> stream_config \<Rightarrow> 's \<times> gerr option"
  js_publish :: "'s \<Rightarrow> 'x nats_msg \<Rightarrow> u64 \<Rightarrow> 's \<times> gerr option"
  js_request :: "'s \<Rightarrow> 'x nats_msg \<Rightarrow> 's \<times> (gerr + batch_reply)"
  js_send :: "'s \<Rightarrow> 'x nats_msg \<Rightarrow> 's \<times> gerr option"
  js_consumer :: "'s \<Rightarrow> string \<Rightarrow> string \<Rightarrow> u64 option \<Rightarrow> gerr option"
  js_messages :: "'s \<Rightarrow> string \<Rightarrow> string \<Rightarrow> u64 option \<Rightarrow> gerr + 'x fetched list"

definition batch_id_header :: string where "batch_id_header = ''Nats-Batch-Id''"
definition batch_seq_header :: string where "batch_seq_header = ''Nats-Batch-Sequence''"
definition batch_commit_header :: string where "batch_commit_header = ''Nats-Batch-Commit''"
definition version_header :: string where "version_header = ''Chronicle-Aggregate-Version''"
definition name_header :: string where "name_header = ''Chronicle-Event-Name''"
definition expected_seq_header :: string where "expected_seq_header = ''Nats-Expected-Last-Subject-Sequence''"

lemmas header_defs = batch_id_header_def batch_seq_header_def batch_commit_header_def version_header_def
  name_header_def expected_seq_header_def

section \<open>Construction\<close>

record nats_log =
  nl_storage :: nat
  nl_retention :: nat
  nl_stream :: string
  nl_prefix :: string
  nl_read_timeout :: i64

datatype nats_option =
    WithStreamName string | WithSubjectPrefix string | WithStorage nat | WithRetention nat | WithReadTimeout i64

fun apply_nats_option :: "nats_option \<Rightarrow> nats_log \<Rightarrow> nats_log" where
  "apply_nats_option (WithStreamName n) c = c\<lparr>nl_stream := n\<rparr>"
| "apply_nats_option (WithSubjectPrefix p) c = c\<lparr>nl_prefix := p\<rparr>"
| "apply_nats_option (WithStorage s) c = c\<lparr>nl_storage := s\<rparr>"
| "apply_nats_option (WithRetention r) c = c\<lparr>nl_retention := r\<rparr>"
| "apply_nats_option (WithReadTimeout t) c = c\<lparr>nl_read_timeout := t\<rparr>"

text \<open>\<open>conn\<close>: a connection was given; \<open>js_err\<close>: the error of \<open>jetstream.New\<close>.\<close>

definition new_nats_jetstream :: "bool \<Rightarrow> gerr option \<Rightarrow> nats_option list \<Rightarrow> gerr + nats_log" where
  "new_nats_jetstream conn js_err opts =
     (if \<not> conn then Inl (ErrMsg ''nats connection cannot be nil'')
      else (case js_err of
        Some e \<Rightarrow> Inl (ErrWrap ''failed to create jetstream context'' e)
      | None \<Rightarrow> Inr (fold apply_nats_option opts
          \<lparr>nl_storage = 0, nl_retention = 0, nl_stream = ''chronicle_events'',
           nl_prefix = ''chronicle.events'', nl_read_timeout = 500 * 1000000\<rparr>)))"

section \<open>Helpers\<close>

definition log_id_to_subject :: "nats_log \<Rightarrow> string \<Rightarrow> string" where
  "log_id_to_subject c lg =
     nl_prefix c @ ''.'' @ replace_char (CHR '' '') (CHR ''_'') (replace_char (CHR ''/'') (CHR ''.'') lg)"

text \<open>The longest run of digits at the end of a string, what \<open>(\d+)$\<close> matches.\<close>

definition trailing_digits :: "string \<Rightarrow> string" where
  "trailing_digits s = rev (takeWhile is_digit (rev s))"

definition wrong_last_sequence :: nat where "wrong_last_sequence = 10071"

definition parse_actual_version :: "gerr \<Rightarrow> version option" where
  "parse_actual_version err =
     (case as_js err of
        Some (ec, desc) \<Rightarrow>
          (if ec = wrong_last_sequence \<and> trailing_digits desc \<noteq> [] then parse_uint64 (trailing_digits desc)
           else None)
      | None \<Rightarrow> None)"

definition event_headers :: "string \<Rightarrow> version \<Rightarrow> header" where
  "event_headers name v = [(name_header, name), (version_header, format_uint v)]"

definition convert_raw_events :: "string \<Rightarrow> 'x raw list \<Rightarrow> version \<Rightarrow> 'x nats_msg list" where
  "convert_raw_events subject es start =
     map (\<lambda>i. \<lparr>nm_subject = subject, nm_data = raw_data (es ! i),
               nm_header = event_headers (raw_name (es ! i)) (start + of_nat (i + 1))\<rparr>) [0..<length es]"

definition nats_msg_to_record :: "string \<Rightarrow> 'x nats_msg \<Rightarrow> gerr + 'x rec" where
  "nats_msg_to_record lg m =
     (let name = hdr_get (nm_header m) name_header; vs = hdr_get (nm_header m) version_header in
      if name = [] then Inl (ErrMsg ''message is missing event name header'')
      else if vs = [] then Inl (ErrMsg ''message is missing aggregate version header'')
      else (case parse_uint64 vs of
              None \<Rightarrow> Inl (ErrWrap ''failed to parse event version''
                 (ErrMsg (''strconv.ParseUint: parsing '' @ [CHR 0x22] @ vs @ [CHR 0x22] @ '': invalid syntax'')))
            | Some v \<Rightarrow> Inr (new_record v lg name (nm_data m))))"

definition ensure_stream :: "('s, 'x) jetstream \<Rightarrow> nats_log \<Rightarrow> 's \<Rightarrow> string \<Rightarrow> 's \<times> gerr option" where
  "ensure_stream js c s subject =
     (let cfg = \<lparr>sc_name = nl_stream c, sc_subjects = [subject], sc_storage = nl_storage c,
                 sc_retention = nl_retention c, sc_atomic = True\<rparr>
      in case js_stream js s (nl_stream c) of
           StreamNotFound _ \<Rightarrow>
             (case js_create js s cfg of
                (s', Some e) \<Rightarrow> (s', Some (ErrWrap (''failed to create stream '' @ nl_stream c) e))
              | (s', None) \<Rightarrow> (s', None))
         | StreamUnreachable e \<Rightarrow> (s, Some (ErrWrap (''failed to get stream '' @ nl_stream c @ '' info'') e))
         | StreamFound \<Rightarrow>
             (case js_info js s (nl_stream c) of
                Inl e \<Rightarrow> (s, Some (ErrWrap (''failed to get stream info '' @ nl_stream c) e))
              | Inr ret \<Rightarrow>
                 (case js_update js s (cfg\<lparr>sc_retention := ret\<rparr>) of
                    (s', Some e) \<Rightarrow> (s', Some (ErrWrap (''failed to update stream '' @ nl_stream c) e))
                  | (s', None) \<Rightarrow> (s', None))))"

section \<open>Appending\<close>

definition append_single_event ::
    "('s, 'x) jetstream \<Rightarrow> nats_log \<Rightarrow> 's \<Rightarrow> string \<Rightarrow> version \<Rightarrow> 'x raw \<Rightarrow> 's \<times> (gerr + version)" where
  "append_single_event js c s lg expected e =
     (let subject = log_id_to_subject c lg in
      case ensure_stream js c s subject of
        (s1, Some err) \<Rightarrow>
          (s1, Inl (ErrWrap (''could not ensure stream '' @ [CHR 0x27] @ nl_stream c @ [CHR 0x27]) err))
      | (s1, None) \<Rightarrow>
         (let m = \<lparr>nm_subject = subject, nm_data = raw_data e, nm_header = event_headers (raw_name e) (expected + 1)\<rparr>
          in case js_publish js s1 m expected of
               (s2, Some err) \<Rightarrow>
                 (case parse_actual_version err of
                    Some v \<Rightarrow> (s2, Inl (ErrConflict expected v))
                  | None \<Rightarrow> (s2, Inl (ErrWrap ''append single event'' err)))
             | (s2, None) \<Rightarrow> (s2, Inr (expected + 1))))"

definition prepare_batch_message ::
    "'x nats_msg \<Rightarrow> string \<Rightarrow> nat \<Rightarrow> nat \<Rightarrow> u64 option \<Rightarrow> 'x nats_msg" where
  "prepare_batch_message m batch_id seq tot expected =
     (let h1 = hdr_set batch_seq_header (nat_str seq) (hdr_set batch_id_header batch_id (nm_header m));
          h2 = (case expected of Some x \<Rightarrow> if seq = 1 then hdr_set expected_seq_header (format_uint x) h1 else h1
                | None \<Rightarrow> h1);
          h3 = (if seq = tot then hdr_set batch_commit_header ''1'' h2 else h2)
      in m\<lparr>nm_header := h3\<rparr>)"

text \<open>What the reply to the commit message and to the first message of a batch report.\<close>

fun commit_error :: "batch_reply \<Rightarrow> gerr option" where
  "commit_error EmptyReply =
     Some (ErrWrap ''could not unmarshal commit response'' (ErrMsg ''unexpected end of JSON input''))"
| "commit_error (BadReply e) = Some (ErrWrap ''could not unmarshal commit response'' e)"
| "commit_error (PubAck code ec d) = (if code \<noteq> 0 then Some (ErrJS code ec d) else None)"

fun initiate_error :: "batch_reply \<Rightarrow> gerr option" where
  "initiate_error (PubAck code ec d) =
     (if ec \<noteq> 0 then Some (ErrWrap ''received error initiating batch'' (ErrJS code ec d)) else None)"
| "initiate_error _ = None"

text \<open>
  The publishing loop from message \<open>seq\<close> on; \<open>ctx n\<close> is \<open>ctx.Err()\<close> before the \<open>n\<close>-th
  message. The second result is the messages sent, the last one the outcome.
\<close>

fun publish_loop ::
    "('s, 'x) jetstream \<Rightarrow> (nat \<Rightarrow> gerr option) \<Rightarrow> string \<Rightarrow> nat \<Rightarrow> u64 option \<Rightarrow> nat \<Rightarrow> 's \<Rightarrow> 'x nats_msg list
      \<Rightarrow> 's \<times> 'x nats_msg list \<times> gerr option" where
  "publish_loop js ctx bid tot expected seq s [] =
     (s, [], Some (ErrMsg ''batch publishing loop finished without a commit message''))"
| "publish_loop js ctx bid tot expected seq s (m # ms) =
     (case ctx seq of
        Some e \<Rightarrow> (s, [], Some e)
      | None \<Rightarrow>
         (let msg = prepare_batch_message m bid seq tot expected;
              (s', stop) =
                (if seq = 1 \<or> seq = tot then
                   (case js_request js s msg of
                      (s', Inl e) \<Rightarrow> (s', Some (Some (ErrWrap (''request for batch message '' @ nat_str seq @ '' failed'') e)))
                    | (s', Inr reply) \<Rightarrow>
                        (s', if seq = tot then Some (commit_error reply)
                             else (case initiate_error reply of None \<Rightarrow> None | Some e \<Rightarrow> Some (Some e))))
                 else
                   (case js_send js s msg of
                      (s', Some e) \<Rightarrow> (s', Some (Some e))
                    | (s', None) \<Rightarrow> (s', None)))
          in case stop of
               Some r \<Rightarrow> (s', [msg], r)
             | None \<Rightarrow>
                (case publish_loop js ctx bid tot expected (Suc seq) s' ms of
                   (s'', sent, r) \<Rightarrow> (s'', msg # sent, r))))"

text \<open>\<open>uuid\<close>: the batch id, or the error of generating it.\<close>

definition publish_batch ::
    "('s, 'x) jetstream \<Rightarrow> (nat \<Rightarrow> gerr option) \<Rightarrow> gerr + string \<Rightarrow> 's \<Rightarrow> 'x nats_msg list \<Rightarrow> u64 option
      \<Rightarrow> 's \<times> 'x nats_msg list \<times> gerr option" where
  "publish_batch js ctx uuid s ms expected =
     (if ms = [] then (s, [], Some (ErrMsg ''cannot publish an empty batch''))
      else (case ctx 0 of
        Some e \<Rightarrow> (s, [], Some e)
      | None \<Rightarrow>
         (case uuid of
            Inl e \<Rightarrow> (s, [], Some (ErrWrap ''failed to generate batch ID'' e))
          | Inr bid \<Rightarrow> publish_loop js ctx bid (length ms) expected 1 s ms)))"

definition nats_append_in_tx ::
    "('s, 'x) jetstream \<Rightarrow> (nat \<Rightarrow> gerr option) \<Rightarrow> gerr + string \<Rightarrow> nats_log \<Rightarrow> 's \<Rightarrow> string \<Rightarrow> check
      \<Rightarrow> 'x raw list \<Rightarrow> 's \<times> (gerr + version \<times> 'x rec list)" where
  "nats_append_in_tx js ctx uuid c s lg expected es =
     (case expected of
        OtherCheck \<Rightarrow> (s, Inl (ErrWrap ''append in tx'' ErrUnsupportedCheck))
      | CheckExact x \<Rightarrow>
         (let subject = log_id_to_subject c lg; ms = convert_raw_events subject es x in
          case ensure_stream js c s subject of
            (s1, Some e) \<Rightarrow> (s1, Inl (ErrWrap ''cannot create stream'' e))
          | (s1, None) \<Rightarrow>
             (case publish_batch js ctx uuid s1 ms (Some x) of
                (s2, _, Some e) \<Rightarrow>
                  (case parse_actual_version e of
                     Some v \<Rightarrow> (s2, Inl (ErrConflict x v))
                   | None \<Rightarrow> (s2, Inl (ErrWrap ''append events: publish batch to jetstream'' e)))
              | (s2, _, None) \<Rightarrow>
                  (s2, Inr (x + of_nat (length es), to_records es lg x)))))"

definition nats_append_events ::
    "('s, 'x) jetstream \<Rightarrow> (nat \<Rightarrow> gerr option) \<Rightarrow> gerr + string \<Rightarrow> nats_log \<Rightarrow> 's \<Rightarrow> string \<Rightarrow> check
      \<Rightarrow> 'x raw list \<Rightarrow> 's \<times> (gerr + version)" where
  "nats_append_events js ctx uuid c s lg expected es =
     (if es = [] then (s, Inl ErrNoEvents)
      else (case expected of
        OtherCheck \<Rightarrow> (s, Inl ErrUnsupportedCheck)
      | CheckExact x \<Rightarrow>
         (if length es = 1 then append_single_event js c s lg x (es ! 0)
          else (case nats_append_in_tx js ctx uuid c s lg expected es of
                  (s', Inl e) \<Rightarrow> (s', Inl e)
                | (s', Inr (v, _)) \<Rightarrow> (s', Inr v)))))"

section \<open>Reading\<close>

text \<open>A fetched message comes with the error of acknowledging it, if any.\<close>

fun nats_read_loop :: "string \<Rightarrow> selector \<Rightarrow> 'x fetched list \<Rightarrow> 'x records" where
  "nats_read_loop lg sel [] = []"
| "nats_read_loop lg sel (FetchEnd # fs) = []"
| "nats_read_loop lg sel (FetchErr e # fs) = [Inl (ErrWrap ''read events: iterate messages'' e)]"
| "nats_read_loop lg sel (FetchMsg m ack # fs) =
     (case nats_msg_to_record lg m of
        Inl e \<Rightarrow> [Inl (ErrWrap ''read events: failed to convert message'' e)]
      | Inr r \<Rightarrow>
          if sel_to sel \<noteq> 0 \<and> rec_version r > sel_to sel then []
          else Inr r # (case ack of
                          Some e \<Rightarrow> [Inl (ErrWrap ''read events: acknowledge message'' e)]
                        | None \<Rightarrow> nats_read_loop lg sel fs))"

definition nats_read_events :: "('s, 'x) jetstream \<Rightarrow> nats_log \<Rightarrow> 's \<Rightarrow> string \<Rightarrow> selector \<Rightarrow> 'x records" where
  "nats_read_events js c s lg sel =
     (let subject = log_id_to_subject c lg; start = (if sel_from sel = 0 then None else Some (sel_from sel)) in
      case js_stream js s (nl_stream c) of
        StreamNotFound _ \<Rightarrow> []
      | StreamUnreachable e \<Rightarrow> [Inl (ErrMsg (''stream not reachable: '' @ gerr_msg e))]
      | StreamFound \<Rightarrow>
         (case js_consumer js s (nl_stream c) subject start of
            Some e \<Rightarrow> [Inl (ErrWrap ''read events: create consumer'' e)]
          | None \<Rightarrow>
             (case js_messages js s (nl_stream c) subject start of
                Inl e \<Rightarrow> [Inl (ErrWrap ''read events: get messages'' e)]
              | Inr fs \<Rightarrow> nats_read_loop lg sel fs)))"

section \<open>Conflicts reported by databases\<close>

definition conflict_error_prefix :: string where
  "conflict_error_prefix = ''_chronicle_version_conflict: ''"

text \<open>What follows the first occurrence of a substring.\<close>

fun after_first :: "string \<Rightarrow> string \<Rightarrow> string option" where
  "after_first p [] = (if p = [] then Some [] else None)"
| "after_first p (x # xs) =
     (if take (length p) (x # xs) = p then Some (drop (length p) (x # xs)) else after_first p xs)"

definition parse_conflict_error :: "gerr option \<Rightarrow> version option" where
  "parse_conflict_error err =
     (case err of
        None \<Rightarrow> None
      | Some e \<Rightarrow>
         (case after_first conflict_error_prefix (gerr_msg e) of
            None \<Rightarrow> None
          | Some payload \<Rightarrow>
             (let digits = takeWhile is_digit payload in
              if digits = [] then None else parse_uint64 digits)))"


section \<open>Headers of a batch\<close>

lemma hdr_get_update: "hdr_get (hdr_set k v h) k' = (if k' = k then v else hdr_get h k')"
  by (simp add: hdr_get_def hdr_set_def update_conv')

lemma header_names_distinct [simp]:
  "name_header \<noteq> batch_id_header" "name_header \<noteq> batch_seq_header" "name_header \<noteq> batch_commit_header"
  "name_header \<noteq> expected_seq_header" "version_header \<noteq> batch_id_header" "version_header \<noteq> batch_seq_header"
  "version_header \<noteq> batch_commit_header" "version_header \<noteq> expected_seq_header" "name_header \<noteq> version_header"
  "version_header \<noteq> name_header"
  "batch_seq_header \<noteq> batch_id_header" "batch_id_header \<noteq> batch_seq_header"
  "batch_commit_header \<noteq> batch_id_header" "batch_commit_header \<noteq> batch_seq_header"
  "batch_commit_header \<noteq> expected_seq_header" "expected_seq_header \<noteq> batch_commit_header"
  "expected_seq_header \<noteq> batch_id_header" "expected_seq_header \<noteq> batch_seq_header"
  "batch_seq_header \<noteq> expected_seq_header" "batch_seq_header \<noteq> batch_commit_header"
  "batch_id_header \<noteq> expected_seq_header" "batch_id_header \<noteq> batch_commit_header"
  "batch_id_header \<noteq> name_header" "batch_seq_header \<noteq> name_header" "batch_commit_header \<noteq> name_header"
  "expected_seq_header \<noteq> name_header" "batch_id_header \<noteq> version_header"
  "batch_seq_header \<noteq> version_header" "batch_commit_header \<noteq> version_header"
  "expected_seq_header \<noteq> version_header"
  by (simp_all add: header_defs)

lemma prepared_header:
  "hdr_get (nm_header (prepare_batch_message m bid seq n x)) k =
     (if k = batch_commit_header \<and> seq = n then ''1''
      else if k = expected_seq_header \<and> seq = 1 \<and> x \<noteq> None then format_uint (the x)
      else if k = batch_seq_header then nat_str seq
      else if k = batch_id_header then bid
      else hdr_get (nm_header m) k)"
  by (auto simp: prepare_batch_message_def Let_def hdr_get_update split: option.splits)

lemma prepared_body [simp]:
  "nm_subject (prepare_batch_message m bid seq n x) = nm_subject m"
  "nm_data (prepare_batch_message m bid seq n x) = nm_data m"
  by (simp_all add: prepare_batch_message_def Let_def)

lemma event_headers_get [simp]:
  "hdr_get (event_headers nm v) name_header = nm"
  "hdr_get (event_headers nm v) version_header = format_uint v"
  "hdr_get (event_headers nm v) batch_commit_header = []"
  "hdr_get (event_headers nm v) expected_seq_header = []"
  by (simp_all add: hdr_get_def event_headers_def)

text \<open>The messages a whole batch consists of.\<close>

definition prepared :: "string \<Rightarrow> nat \<Rightarrow> u64 option \<Rightarrow> nat \<Rightarrow> 'x nats_msg list \<Rightarrow> 'x nats_msg list" where
  "prepared bid n x seq ms = map (\<lambda>i. prepare_batch_message (ms ! i) bid (seq + i) n x) [0..<length ms]"

lemma prepared_Cons:
  "prepared bid n x seq (m # ms) = prepare_batch_message m bid seq n x # prepared bid n x (Suc seq) ms"
  unfolding prepared_def by (simp add: upt_conv_Cons map_Suc_upt [symmetric] del: upt_Suc)

lemma prepared_simps [simp]:
  "prepared bid n x seq [] = []" "length (prepared bid n x seq ms) = length ms"
  by (simp_all add: prepared_def)

lemma prepared_nth: "i < length ms \<Longrightarrow> prepared bid n x seq ms ! i = prepare_batch_message (ms ! i) bid (seq + i) n x"
  by (simp add: prepared_def)

text \<open>Whatever the outcome, what was sent is a prefix of the batch; success means all of it.\<close>

lemma publish_loop_sent:
  assumes "publish_loop js ctx bid n x seq s ms = (s', sent, r)" and "seq + length ms = Suc n"
  shows "sent = take (length sent) (prepared bid n x seq ms) \<and> (r = None \<longrightarrow> length sent = length ms)"
  using assms
proof (induction ms arbitrary: seq s s' sent r)
  case (Cons m ms)
  have IH: "sent = take (length sent) (prepared bid n x (Suc seq) ms) \<and> (r = None \<longrightarrow> length sent = length ms)"
    if "publish_loop js ctx bid n x (Suc seq) s1 ms = (s', sent, r)" for s1 s' sent r
    using Cons.IH [OF that] Cons.prems(2) by simp
  have IH1: "sent = take (length sent) (prepared bid n x (Suc (Suc 0)) ms) \<and> (r = None \<longrightarrow> length sent = length ms)"
    if "seq = Suc 0" "publish_loop js ctx bid n x (Suc (Suc 0)) s1 ms = (s', sent, r)" for s1 s' sent r
    using IH that by metis
  have fin: "seq = n \<Longrightarrow> ms = []" using Cons.prems(2) by auto
  show ?case
  proof (cases "ctx seq")
    case None
    with Cons.prems(1) fin show ?thesis
      by (auto simp: Let_def prepared_Cons split: option.splits prod.splits sum.splits if_splits
          dest!: IH IH1)
  next
    case (Some e)
    then have "(s, [], Some e) = (s', sent, r)" using Cons.prems(1) by simp
    then show ?thesis by auto
  qed
qed simp


lemma publish_batch_sent:
  assumes "publish_batch js ctx (Inr bid) s ms x = (s', sent, r)"
  shows "sent = take (length sent) (prepared bid (length ms) x 1 ms) \<and> (r = None \<longrightarrow> length sent = length ms)"
proof (cases "ms = [] \<or> ctx 0 \<noteq> None")
  case True
  have "(s, [], if ms = [] then Some (ErrMsg ''cannot publish an empty batch'') else ctx 0) = (s', sent, r)"
    using True assms by (auto simp: publish_batch_def split: if_splits)
  with True show ?thesis by (auto split: if_splits)
next
  case False
  with assms show ?thesis by (auto simp: publish_batch_def dest!: publish_loop_sent)
qed

lemma convert_raw_events_nth:
  assumes "i < length es"
  shows "convert_raw_events subj es v ! i = \<lparr>nm_subject = subj, nm_data = raw_data (es ! i),
      nm_header = event_headers (raw_name (es ! i)) (v + of_nat (i + 1))\<rparr>"
  using assms by (simp add: convert_raw_events_def)

lemma length_convert_raw_events [simp]: "length (convert_raw_events subj es v) = length es"
  by (simp add: convert_raw_events_def)

section \<open>The batch protocol\<close>

text \<open>
  Atomic batches (C15): whatever the server answers, the messages sent are the first
  messages of the batch in order, numbered from 1; the commit marker is on the last message only
  and the expected version on the first only. So an append that stops early has sent no commit,
  and one that succeeds has sent every event.
\<close>

theorem batch_headers:
  assumes "publish_batch js ctx (Inr bid) s (convert_raw_events subj es v) (Some x) = (s', sent, r)"
  shows "(r = None \<longrightarrow> length sent = length es) \<and> length sent \<le> length es \<and>
    (\<forall>i < length sent.
       nm_subject (sent ! i) = subj \<and> nm_data (sent ! i) = raw_data (es ! i) \<and>
       hdr_get (nm_header (sent ! i)) batch_id_header = bid \<and>
       hdr_get (nm_header (sent ! i)) batch_seq_header = nat_str (i + 1) \<and>
       (hdr_get (nm_header (sent ! i)) batch_commit_header = ''1'' \<longleftrightarrow> i + 1 = length es) \<and>
       hdr_get (nm_header (sent ! i)) expected_seq_header = (if i = 0 then format_uint x else []))"
proof -
  let ?ms = "convert_raw_events subj es v"
  note sent = publish_batch_sent [OF assms]
  then have len: "length sent \<le> length es" by (metis length_convert_raw_events length_take min.cobounded1 prepared_simps(2))
  moreover have "sent ! i = prepare_batch_message (?ms ! i) bid (1 + i) (length es) (Some x)" if "i < length sent" for i
    using sent that len
    by (metis length_convert_raw_events le_trans less_le_trans nth_take prepared_nth)
  ultimately show ?thesis
    using sent by (simp add: prepared_header convert_raw_events_nth)
qed

text \<open>A server that takes everything: the first reply is empty, the commit is acknowledged.\<close>

definition accepting :: "(unit, nat) jetstream" where
  "accepting = \<lparr>js_stream = \<lambda>_ _. StreamFound, js_create = \<lambda>s _. (s, None), js_info = \<lambda>_ _. Inr 0,
     js_update = \<lambda>s _. (s, None), js_publish = \<lambda>s _ _. (s, None),
     js_request = \<lambda>s m. (s, Inr (if hdr_get (nm_header m) batch_commit_header = [] then EmptyReply else PubAck 0 0 [])),
     js_send = \<lambda>s _. (s, None), js_consumer = \<lambda>_ _ _ _. None, js_messages = \<lambda>_ _ _ _. Inr []\<rparr>"

definition two_events :: "nat raw list" where
  "two_events = [\<lparr>raw_name = ''a'', raw_data = [1]\<rparr>, \<lparr>raw_name = ''b'', raw_data = []\<rparr>]"

lemma accepting_publishes:
  "publish_batch accepting (\<lambda>_. None) (Inr ''id'') () (convert_raw_events ''s'' two_events 4) (Some 4)
     = ((), prepared ''id'' 2 (Some 4) 1 (convert_raw_events ''s'' two_events 4), None)"
  by code_simp

lemma batch_headers_witness:
  "hdr_get (nm_header (prepared ''id'' 2 (Some 4) 1 (convert_raw_events ''s'' two_events 4) ! 1))
     batch_commit_header = ''1''"
  using batch_headers [OF accepting_publishes] by (simp add: two_events_def)

text \<open>
  Reading a batch back : the messages a successful batch sent,
  delivered in order, are read as the records of the events, with the versions that follow the
  expected one.
\<close>

theorem published_batch_reads_back:
  assumes "publish_batch js ctx (Inr bid) s (convert_raw_events subj es v) x = (s', sent, None)"
    and "\<forall>e \<in> set es. raw_name e \<noteq> []"
  shows "nats_read_loop lg select_from_beginning (map (\<lambda>m. FetchMsg m None) sent @ [FetchEnd])
    = map Inr (to_records es lg v)"
proof -
  let ?ms = "convert_raw_events subj es v"
  have sent: "sent = prepared bid (length es) x 1 ?ms"
    using publish_batch_sent [OF assms(1)] by (metis length_convert_raw_events order_refl prepared_simps(2) take_all)
  have loop: "nats_read_loop lg select_from_beginning (map (\<lambda>m. FetchMsg m None) ms @ [FetchEnd]) = map Inr rs"
    if "list_all2 (\<lambda>m r. nats_msg_to_record lg m = Inr r) ms rs" for ms rs
    using that by (induction rule: list_all2_induct) (simp_all add: select_from_beginning_def)
  have "list_all2 (\<lambda>m r. nats_msg_to_record lg m = Inr r) sent (to_records es lg v)"
    unfolding sent list_all2_conv_all_nth
    using assms(2)
    by (auto simp: nats_msg_to_record_def Let_def prepared_nth prepared_header convert_raw_events_nth to_records_nth)
  with loop show ?thesis by blast
qed

lemma published_batch_reads_back_witness:
  "nats_read_loop ''w'' select_from_beginning
      (map (\<lambda>m. FetchMsg m None) (prepared ''id'' 2 (Some 4) 1 (convert_raw_events ''s'' two_events 4)) @ [FetchEnd])
     = map Inr (to_records two_events ''w'' 4)"
  using published_batch_reads_back [OF accepting_publishes] by (simp add: two_events_def)

section \<open>The optimistic check of a shared stream\<close>

text \<open>
  JetStream numbers the messages of a stream, not those of a subject: the last sequence of a
  subject is the position of its last message in the whole stream.
\<close>

definition last_on_subject :: "'x nats_msg list \<Rightarrow> string \<Rightarrow> nat" where
  "last_on_subject ms subj = length (dropWhile (\<lambda>m. nm_subject m \<noteq> subj) (rev ms))"

text \<open>The error of a publish whose expected sequence does not match, with error code 10071.\<close>

definition sequence_error :: "nat \<Rightarrow> gerr" where
  "sequence_error n = ErrJS 400 10071 (''wrong last sequence: '' @ nat_str n)"

lemma trailing_digits_sequence: "trailing_digits (''wrong last sequence: '' @ nat_str n) = nat_str n"
proof -
  have "takeWhile is_digit (rev (nat_str n) @ CHR '' '' # xs) = rev (nat_str n)" for xs
    using nat_str_digits [of n]
    by (subst takeWhile_append2) (auto simp: list_all_iff is_digit_def [of "CHR '' ''"])
  then show ?thesis by (simp add: trailing_digits_def)
qed

lemma parse_wrong_last_sequence:
  assumes "n < 2 ^ 64"
  shows "parse_actual_version (sequence_error n) = Some (of_nat n)"
  unfolding parse_actual_version_def sequence_error_def as_js.simps option.case prod.case trailing_digits_sequence
  using assms by (simp add: wrong_last_sequence_def parse_uint64_def nat_str_digits)

text \<open>
  The events of one subject against the position of its last one: there are as many as that only if
  no event of another subject comes before.
\<close>

lemma own_events_before_last:
  fixes ms :: "'x nats_msg list" and subj :: string
  defines "own \<equiv> length (filter (\<lambda>m. nm_subject m = subj) ms)"
  shows "own \<le> last_on_subject ms subj"
    and "own = last_on_subject ms subj \<longleftrightarrow> (\<forall>i < last_on_subject ms subj. nm_subject (ms ! i) = subj)"
    and "last_on_subject ms subj \<le> length ms"
proof -
  let ?P = "\<lambda>m. nm_subject m = subj"
  define xs where "xs = rev (dropWhile (\<lambda>m. \<not> ?P m) (rev ms))"
  define zs where "zs = rev (takeWhile (\<lambda>m. \<not> ?P m) (rev ms))"
  have ms: "ms = xs @ zs"
    unfolding xs_def zs_def rev_append [symmetric] takeWhile_dropWhile_id by simp
  have len: "length xs = last_on_subject ms subj" by (simp add: xs_def last_on_subject_def)
  have "filter ?P zs = []" unfolding zs_def by (auto simp: filter_empty_conv dest: set_takeWhileD)
  then have own: "own = length (filter ?P xs)" by (simp add: own_def ms)
  then show "own \<le> last_on_subject ms subj" by (simp add: len [symmetric])
  have "own = length xs \<longleftrightarrow> (\<forall>m \<in> set xs. ?P m)"
  proof (cases "\<forall>m \<in> set xs. ?P m")
    case False
    then obtain m where "m \<in> set xs" "\<not> ?P m" by blast
    with length_filter_less [of m xs ?P] show ?thesis using False by (simp add: own)
  qed (simp add: own)
  then show "own = last_on_subject ms subj \<longleftrightarrow> (\<forall>i < last_on_subject ms subj. nm_subject (ms ! i) = subj)"
    unfolding len [symmetric] by (auto simp: ms nth_append all_set_conv_all_nth)
  have "length xs \<le> length ms" by (simp add: ms)
  then show "last_on_subject ms subj \<le> length ms" by (simp only: len)
qed

text \<open>
  (C18) The append of an event when the log's stream is shared: with the check of the
  server as documented, an append that expects the number of events of its own aggregate, which is its
  version, is accepted exactly if no event of another aggregate comes before the last event of its own
  in the stream. Otherwise it is refused with a conflict, although nobody else has written to the
  aggregate, and only the position of that last event in the whole stream is accepted. Events of others
  after the last own event do no harm.
\<close>

theorem shared_stream_conflict:
  assumes documented_check: "\<And>s m x. js_publish js s m x =
      (if unat x = last_on_subject (stored s) (nm_subject m) then (store s m, None)
       else (s, Some (sequence_error (last_on_subject (stored s) (nm_subject m)))))"
    and stream: "ensure_stream js c s (log_id_to_subject c lg) = (s1, None)"
    and own: "own = length (filter (\<lambda>m. nm_subject m = log_id_to_subject c lg) (stored s1))"
    and at: "at = last_on_subject (stored s1) (log_id_to_subject c lg)"
    and bound: "length (stored s1) < 2 ^ 64"
  shows "(if \<exists>i < at. nm_subject (stored s1 ! i) \<noteq> log_id_to_subject c lg
      then append_single_event js c s lg (of_nat own) e = (s1, Inl (ErrConflict (of_nat own) (of_nat at)))
      else snd (append_single_event js c s lg (of_nat own) e) = Inr (of_nat own + 1)) \<and>
    snd (append_single_event js c s lg (of_nat at) e) = Inr (of_nat at + 1)"
proof -
  let ?subj = "log_id_to_subject c lg"
  note before = own_events_before_last [where ms = "stored s1" and subj = ?subj, folded own at]
  have u: "unat (of_nat own :: u64) = own" "unat (of_nat at :: u64) = at"
    using before(1,3) bound by (simp_all add: unat_of_nat_u64)
  have app: "append_single_event js c s lg x e =
      (if unat x = at then (store s1 \<lparr>nm_subject = ?subj, nm_data = raw_data e, nm_header = event_headers (raw_name e) (x + 1)\<rparr>, Inr (x + 1))
       else (s1, Inl (ErrConflict x (of_nat at))))" for x
    using before(3) bound
    by (simp add: append_single_event_def Let_def stream documented_check at [symmetric] parse_wrong_last_sequence)
  show ?thesis unfolding app u using before(2) by auto
qed

text \<open>A stream that holds a list of messages and checks the sequence of the subject.\<close>

definition message_list :: "(unit nats_msg list, unit) jetstream" where
  "message_list = \<lparr>js_stream = \<lambda>_ _. StreamFound, js_create = \<lambda>s _. (s, None), js_info = \<lambda>_ _. Inr 0,
     js_update = \<lambda>s _. (s, None),
     js_publish = \<lambda>s m x. (if unat x = last_on_subject s (nm_subject m) then (s @ [m], None)
       else (s, Some (sequence_error (last_on_subject s (nm_subject m))))),
     js_request = \<lambda>s m. (s, Inr EmptyReply), js_send = \<lambda>s _. (s, None), js_consumer = \<lambda>_ _ _ _. None,
     js_messages = \<lambda>_ _ _ _. Inr []\<rparr>"

definition worker_log :: nats_log where
  "worker_log = \<lparr>nl_storage = 0, nl_retention = 0, nl_stream = ''WORKFLOW_HISTORY'', nl_prefix = ''history'',
     nl_read_timeout = 0\<rparr>"

definition two_workflows :: "unit nats_msg list" where
  "two_workflows = [\<lparr>nm_subject = ''history.wf1'', nm_data = [], nm_header = []\<rparr>,
     \<lparr>nm_subject = ''history.wf2'', nm_data = [], nm_header = []\<rparr>]"

theorem shared_stream_conflict_witness:
  "append_single_event message_list worker_log two_workflows ''wf2'' 1 \<lparr>raw_name = ''n'', raw_data = []\<rparr>
     = (two_workflows, Inl (ErrConflict 1 2)) \<and>
   snd (append_single_event message_list worker_log two_workflows ''wf1'' 1 \<lparr>raw_name = ''n'', raw_data = []\<rparr>) = Inr 2"
proof -
  have check: "\<And>s m x. js_publish message_list s m x =
      (if unat x = last_on_subject ((\<lambda>s. s) s) (nm_subject m) then ((\<lambda>s m. s @ [m]) s m, None)
       else (s, Some (sequence_error (last_on_subject ((\<lambda>s. s) s) (nm_subject m)))))"
    by (simp add: message_list_def)
  have stream: "ensure_stream message_list worker_log two_workflows (log_id_to_subject worker_log w)
      = (two_workflows, None)" for w
    by (simp add: ensure_stream_def message_list_def)
  have subj: "log_id_to_subject worker_log ''wf1'' = ''history.wf1''" "log_id_to_subject worker_log ''wf2'' = ''history.wf2''"
    by code_simp+
  have last: "last_on_subject two_workflows ''history.wf1'' = 1" "last_on_subject two_workflows ''history.wf2'' = 2"
    by (simp_all add: last_on_subject_def two_workflows_def)
  have count: "length (filter (\<lambda>m. nm_subject m = ''history.wf1'') two_workflows) = 1"
    "length (filter (\<lambda>m. nm_subject m = ''history.wf2'') two_workflows) = 1" "length two_workflows = 2"
    by (simp_all add: two_workflows_def)
  have other: "\<exists>i < 2. nm_subject (two_workflows ! i) \<noteq> ''history.wf2''" "\<not> (\<exists>i < 1. nm_subject (two_workflows ! i) \<noteq> ''history.wf1'')"
    by (auto simp: two_workflows_def intro!: exI [of _ "0 :: nat"])
  show ?thesis
    using shared_stream_conflict [OF check stream, where lg = "''wf2''" and own = 1 and at = 2 and e = "\<lparr>raw_name = ''n'', raw_data = []\<rparr>"]
      shared_stream_conflict [OF check stream, where lg = "''wf1''" and own = 1 and at = 1 and e = "\<lparr>raw_name = ''n'', raw_data = []\<rparr>"]
      other
    by (simp add: subj last count)
qed

section \<open>Database conflicts\<close>

lemma after_first_skip:
  "c \<notin> set pre \<Longrightarrow> after_first (c # p) (pre @ s) = after_first (c # p) s"
  by (induction pre) auto

lemma after_first_here: "p \<noteq> [] \<Longrightarrow> after_first p (p @ s) = Some s"
  by (cases p) auto

text \<open>
  Conflicts of database logs : the version that a trigger prints
  after the marker is the one the parser returns, whatever a driver wrote before it (without an
  underscore) and after it (not starting with a digit).
\<close>

theorem parse_conflict_error_inverts:
  assumes "gerr_msg e = pre @ conflict_error_prefix @ format_uint v @ post"
    and "CHR ''_'' \<notin> set pre" and "\<forall>ch post'. post = ch # post' \<longrightarrow> \<not> is_digit ch"
  shows "parse_conflict_error (Some e) = Some v"
proof -
  obtain p where p: "conflict_error_prefix = CHR ''_'' # p" by (simp add: conflict_error_prefix_def)
  then have "after_first conflict_error_prefix (gerr_msg e) = Some (format_uint v @ post)"
    using assms(1,2) after_first_skip [of "CHR ''_''" pre p] after_first_here [of conflict_error_prefix]
    by (metis list.distinct(1))
  moreover have "takeWhile is_digit (format_uint v @ post) = format_uint v"
    using nat_str_digits [of "unat v"] assms(3)
    by (cases post) (auto simp: format_uint_def list_all_iff takeWhile_append2)
  ultimately show ?thesis by (simp add: parse_conflict_error_def)
qed

lemma parse_conflict_error_inverts_witness:
  "parse_conflict_error (Some (ErrWrap ''exec'' (ErrMsg (conflict_error_prefix @ format_uint 12 @ '' (P0001)'')))) = Some 12"
  by (rule parse_conflict_error_inverts [where pre = "''exec: ''" and post = "'' (P0001)''"])
    (auto simp: is_digit_def)

end
