(* ===== verification/DF_Routing.thy ===== *)
theory DF_Routing
  imports DF_Conn DF_NatsLog DF_Engine
begin

text \<open>
  Which stream and which consumer gets a message. The server publishes tasks and start events, the
  workers append through \<open>eventlog/nats.go\<close>, and the subjects of streams and consumers decide
  what is delivered. How JetStream matches subjects is documented behaviour of the server and a
  hypothesis: \<open>mt p s\<close> says that the pattern \<open>p\<close> matches the subject \<open>s\<close>.
\<close>

section \<open>Subjects\<close>

text \<open>A token matches itself, \<open>*\<close> one token, a final \<open>>\<close> one token or more.\<close>

fun tokens_match :: "string list \<Rightarrow> string list \<Rightarrow> bool" where
  "tokens_match [] ts = (ts = [])"
| "tokens_match (p # ps) [] = False"
| "tokens_match (p # ps) (t # ts) =
     ((p = ''>'' \<and> ps = []) \<or> ((p = ''*'' \<or> p = t) \<and> tokens_match ps ts))"

definition tokens :: "string \<Rightarrow> string list" where
  "tokens s = go_split (CHR ''.'') s"

definition literal :: "string \<Rightarrow> bool" where
  "literal s \<longleftrightarrow> list_all (\<lambda>t. t \<noteq> [] \<and> t \<noteq> ''*'' \<and> t \<noteq> ''>'') (tokens s)"

definition wildcard_matching :: "(string \<Rightarrow> string \<Rightarrow> bool) \<Rightarrow> bool" where
  "wildcard_matching mt \<longleftrightarrow> (\<forall>p s. literal s \<longrightarrow> mt p s = tokens_match (tokens p) (tokens s))"

text \<open>The streams of a setup that store a message with this subject.\<close>

definition captured_by :: "(string \<Rightarrow> string \<Rightarrow> bool) \<Rightarrow> (string \<rightharpoonup> stream_setup) \<Rightarrow> string \<Rightarrow> string set" where
  "captured_by mt m subj = {n. \<exists>cfg. m n = Some cfg \<and> (\<exists>p \<in> set (st_subjects cfg). mt p subj)}"

text \<open>A workflow id that is one token, as a UUID is.\<close>

definition token_id :: "string \<Rightarrow> bool" where
  "token_id wid \<longleftrightarrow> wid \<noteq> [] \<and> CHR ''.'' \<notin> set wid \<and> wid \<noteq> ''*'' \<and> wid \<noteq> ''>''"

lemma tokens_cons [simp]: "CHR ''.'' \<notin> set p \<Longrightarrow> tokens (p @ CHR ''.'' # s) = p # tokens s"
  by (simp add: tokens_def go_split_append)

lemma tokens_one [simp]: "CHR ''.'' \<notin> set p \<Longrightarrow> tokens p = [p]"
  by (simp add: tokens_def go_split_no_sep)

lemma task_subject_tokens:
  assumes "CHR ''.'' \<notin> set wid"
  shows "tokens (''workflow.'' @ wid @ ''.tasks'') = [''workflow'', wid, ''tasks'']"
    and "tokens (''activity.'' @ wid @ ''.tasks'') = [''activity'', wid, ''tasks'']"
    and "tokens (''history.'' @ wid) = [''history'', wid]"
  using tokens_cons [of "''workflow''" "wid @ ''.tasks''"] tokens_cons [OF assms, of "''tasks''"]
    tokens_cons [of "''activity''" "wid @ ''.tasks''"] tokens_cons [of "''history''" wid] assms
  by simp_all

lemma pattern_tokens:
  "tokens workflow_tasks_pattern = [''workflow'', ''*'', ''tasks'']"
  "tokens activity_tasks_pattern = [''activity'', ''*'', ''tasks'']"
  "tokens history_pattern = [''history'', ''>'']"
  by (simp_all add: workflow_tasks_pattern_def activity_tasks_pattern_def history_pattern_def history_subject_prefix_def
      tokens_def)

lemma go_split_join: "go_split c (s @ c # t) = go_split c s @ go_split c t"
  by (induction s) (simp_all split: list.split)

lemma tokens_join_last: "last (tokens (s @ CHR ''.'' # t)) = last (tokens t)"
  by (simp add: tokens_def go_split_join)

text \<open>A pattern whose last token is a word matches only subjects that end with this word.\<close>

lemma tokens_match_last:
  "tokens_match ps ts \<Longrightarrow> ps \<noteq> [] \<Longrightarrow> last ps \<noteq> ''*'' \<Longrightarrow> last ps \<noteq> ''>'' \<Longrightarrow> ts \<noteq> [] \<and> last ts = last ps"
proof (induction ps ts rule: tokens_match.induct)
  case (3 p ps t ts)
  show ?case
  proof (cases "ps = []")
    case True
    with 3 show ?thesis by auto
  next
    case False
    with 3 show ?thesis by auto
  qed
qed simp_all

lemma matches_iff:
  assumes "wildcard_matching mt" and "literal s"
  shows "mt p s \<longleftrightarrow> tokens_match (tokens p) (tokens s)"
  using assms by (simp add: wildcard_matching_def)

lemma task_subjects_literal:
  assumes "token_id wid"
  shows "literal (''workflow.'' @ wid @ ''.tasks'')" "literal (''activity.'' @ wid @ ''.tasks'')" "literal (''history.'' @ wid)"
proof -
  have "CHR ''.'' \<notin> set wid" using assms by (simp add: token_id_def)
  note T = task_subject_tokens [OF this]
  show "literal (''workflow.'' @ wid @ ''.tasks'')" "literal (''activity.'' @ wid @ ''.tasks'')" "literal (''history.'' @ wid)"
    unfolding literal_def T using assms by (simp_all add: token_id_def)
qed

lemma engine_setup_subjects:
  "engine_setup m workflow_history_stream = Some c \<Longrightarrow> st_subjects c = [history_pattern]"
  "engine_setup m workflow_tasks_stream = Some c \<Longrightarrow> st_subjects c = [workflow_tasks_pattern]"
  "engine_setup m activity_tasks_stream = Some c \<Longrightarrow> st_subjects c = [activity_tasks_pattern]"
  "engine_setup m workflow_history_stream \<noteq> None" "engine_setup m workflow_tasks_stream \<noteq> None"
  "engine_setup m activity_tasks_stream \<noteq> None"
  by (auto simp: engine_setup_def set_up_def history_setup_def workflow_tasks_setup_def activity_tasks_setup_def
      split: option.splits)

definition engine_streams :: "string set" where
  "engine_streams = {workflow_history_stream, workflow_tasks_stream, activity_tasks_stream}"

lemma captured_in_engine:
  "captured_by mt (engine_setup m) subj \<inter> engine_streams =
     {n \<in> engine_streams. mt (if n = workflow_history_stream then history_pattern
        else if n = workflow_tasks_stream then workflow_tasks_pattern else activity_tasks_pattern) subj}"
  using engine_setup_subjects [of m]
  by (auto simp: captured_by_def engine_streams_def)

text \<open>Where the task and history messages of a workflow go.\<close>

lemma captured_subjects:
  assumes "wildcard_matching mt" and "token_id wid"
  shows "captured_by mt (engine_setup m) (''workflow.'' @ wid @ ''.tasks'') \<inter> engine_streams = {workflow_tasks_stream}"
    and "captured_by mt (engine_setup m) (''activity.'' @ wid @ ''.tasks'') \<inter> engine_streams = {activity_tasks_stream}"
    and "captured_by mt (engine_setup m) (''history.'' @ wid) \<inter> engine_streams = {workflow_history_stream}"
proof -
  have "CHR ''.'' \<notin> set wid" using assms(2) by (simp add: token_id_def)
  note T = task_subject_tokens [OF this, simplified] and M = matches_iff [OF assms(1) task_subjects_literal(1) [OF assms(2)]]
    matches_iff [OF assms(1) task_subjects_literal(2) [OF assms(2)]] matches_iff [OF assms(1) task_subjects_literal(3) [OF assms(2)]]
  show "captured_by mt (engine_setup m) (''workflow.'' @ wid @ ''.tasks'') \<inter> engine_streams = {workflow_tasks_stream}"
    unfolding captured_in_engine M by (auto simp: T pattern_tokens engine_streams_def)
  show "captured_by mt (engine_setup m) (''activity.'' @ wid @ ''.tasks'') \<inter> engine_streams = {activity_tasks_stream}"
    unfolding captured_in_engine M by (auto simp: T pattern_tokens engine_streams_def)
  show "captured_by mt (engine_setup m) (''history.'' @ wid) \<inter> engine_streams = {workflow_history_stream}"
    unfolding captured_in_engine M by (auto simp: T pattern_tokens engine_streams_def)
qed

section \<open>What is published\<close>

lemma workflow_task_subject:
  assumes "decode_workflow_event sd m = Inr e" and "p \<in> set (re_published (project_workflow_task sd bucket publish m))"
  shows "pub_subject p = ''workflow.'' @ event_wf_id e @ ''.tasks''"
  using assms
  by (cases e) (auto simp: project_workflow_task_def publish_workflow_task_def settle_def Let_def
      split: sum.splits option.splits)

lemma activity_task_subject:
  assumes "p \<in> set (re_published (project_activity_task sd now publish m))"
    and "msg_subject m = ''history.'' @ wid" and "CHR ''.'' \<notin> set wid"
  shows "pub_subject p = ''activity.'' @ wid @ ''.tasks''"
proof -
  have "go_split CHR ''.'' (msg_subject m) = [''history'', wid]"
    using task_subject_tokens(3) [OF assms(3)] assms(2) by (simp add: tokens_def)
  with assms(1) show ?thesis
    by (auto simp: project_activity_task_def settle_def Let_def split: sum.splits option.splits wf_event.splits if_splits)
qed

lemma retry_task_subject:
  assumes "p \<in> set (publish_retry sd consumer fetch publish now_ns e)" and "CHR ''.'' \<notin> set (ar_id e)"
  shows "pub_subject p = ''activity.'' @ ar_id e @ ''.tasks''"
  using assms
  by (auto simp: publish_retry_def Let_def go_split_no_sep split: sum.splits option.splits)

text \<open>The retry that a message starts is the event it carries.\<close>

lemma retried_event:
  "snd (project_activity_retry sd m) = Some (delay, r) \<Longrightarrow> decode_workflow_event sd m = Inr (ActivityRetried r)"
  by (auto simp: project_activity_retry_def split: sum.splits wf_event.splits)

section \<open>The log of a worker\<close>

text \<open>
  \<open>NewWorker\<close>: the client must be the internal one, the log appends to the history stream of
  the options, the registries start empty.
\<close>

record ('w, 'a) worker =
  wk_log :: nats_log
  wk_workflows :: "'w fn_registry"
  wk_activities :: "'a fn_registry"

definition new_worker ::
    "bool \<Rightarrow> bool \<Rightarrow> gerr option \<Rightarrow> worker_options option \<Rightarrow> gerr + ('w, 'a) worker" where
  "new_worker internal conn js_err opts =
     (if \<not> internal then Inl (ErrMsg ''client does not implement required internal interface'')
      else
        (let op = (case opts of None \<Rightarrow> \<lparr>wo_tenant = [], wo_namespace = []\<rparr> | Some op \<Rightarrow> op) in
         case new_nats_jetstream conn js_err
             [WithStreamName (build_history_stream_name (Some op)), WithSubjectPrefix (history_subject_prefix_of op)] of
           Inl e \<Rightarrow> Inl e
         | Inr lg \<Rightarrow> Inr \<lparr>wk_log = lg, wk_workflows = Map.empty, wk_activities = Map.empty\<rparr>))"

text \<open>
  What JetStream documents of the operations of the log: a created or updated stream has the subjects
  of the request, and publishing changes no subjects.
\<close>

definition keeps_subjects :: "('s, 'x) jetstream \<Rightarrow> ('s \<Rightarrow> string \<rightharpoonup> string list) \<Rightarrow> bool" where
  "keeps_subjects js subj \<longleftrightarrow>
     (\<forall>s cfg s'. js_create js s cfg = (s', None) \<or> js_update js s cfg = (s', None) \<longrightarrow>
        subj s' = (subj s)(sc_name cfg \<mapsto> sc_subjects cfg)) \<and>
     (\<forall>s m v. subj (fst (js_publish js s m v)) = subj s) \<and>
     (\<forall>s m. subj (fst (js_request js s m)) = subj s) \<and>
     (\<forall>s m. subj (fst (js_send js s m)) = subj s)"

lemma ensure_stream_subjects:
  assumes "keeps_subjects js subj" and "ensure_stream js c s subject = (s', None)"
  shows "subj s' (nl_stream c) = Some [subject]"
  using assms
  by (auto simp: ensure_stream_def keeps_subjects_def Let_def split: stream_lookup.splits sum.splits prod.splits option.splits)

lemma publish_loop_subjects:
  assumes "keeps_subjects js subj"
  shows "subj (fst (publish_loop js ctx bid n x seq s ms)) = subj s"
proof (induction ms arbitrary: seq s)
  case (Cons m ms)
  let ?m = "prepare_batch_message m bid seq n x"
  obtain s1 r1 s2 r2 where ops: "js_request js s ?m = (s1, r1)" "js_send js s ?m = (s2, r2)" by fastforce
  have "subj (fst (js_request js s ?m)) = subj s" "subj (fst (js_send js s ?m)) = subj s"
    using assms unfolding keeps_subjects_def by blast+
  with ops have "subj s1 = subj s" "subj s2 = subj s" by simp_all
  with ops Cons.IH [of "Suc seq"] show ?case
    by (auto simp: Let_def split: prod.splits option.splits sum.splits if_splits) (metis fst_conv)+
qed simp

lemma publish_batch_subjects:
  "keeps_subjects js subj \<Longrightarrow> publish_batch js ctx uuid s ms x = (s', r) \<Longrightarrow> subj s' = subj s"
  using publish_loop_subjects [of js subj ctx _ "length ms" x 1 s ms]
  by (auto simp: publish_batch_def split: if_splits option.splits sum.splits) (metis fst_conv)

lemma append_sets_subject:
  assumes keeps: "keeps_subjects js subj" and app: "nats_append_events js ctx uuid c s lg chk es = (s', Inr v)"
  shows "subj s' (nl_stream c) = Some [log_id_to_subject c lg]"
proof -
  obtain s1 where ens: "ensure_stream js c s (log_id_to_subject c lg) = (s1, None)" and same: "subj s' = subj s1"
  proof (cases "length es = 1")
    case True
    with app obtain x where x: "append_single_event js c s lg x (es ! 0) = (s', Inr v)"
      by (auto simp: nats_append_events_def split: check.splits if_splits)
    then obtain s1 m where "ensure_stream js c s (log_id_to_subject c lg) = (s1, None)" "js_publish js s1 m x = (s', None)"
      by (auto simp: append_single_event_def Let_def split: prod.splits option.splits)
    moreover have "subj (fst (js_publish js s1 m x)) = subj s1" using keeps unfolding keeps_subjects_def by blast
    ultimately show thesis using that by simp
  next
    case False
    with app obtain x rs where "nats_append_in_tx js ctx uuid c s lg (CheckExact x) es = (s', Inr (v, rs))"
      by (auto simp: nats_append_events_def split: check.splits if_splits sum.splits prod.splits)
    then obtain s1 sent where "ensure_stream js c s (log_id_to_subject c lg) = (s1, None)"
      "publish_batch js ctx uuid s1 (convert_raw_events (log_id_to_subject c lg) es x) (Some x) = (s', sent, None)"
      by (auto simp: nats_append_in_tx_def Let_def split: prod.splits option.splits)
    with publish_batch_subjects [OF keeps] that show thesis by blast
  qed
  with ensure_stream_subjects [OF keeps ens] show ?thesis by simp
qed

lemma default_worker_log:
  assumes "new_worker True True None None = Inr w"
  shows "nl_stream (wk_log w) = workflow_history_stream" "nl_prefix (wk_log w) = ''history''"
  using assms
  by (auto simp: new_worker_def new_nats_jetstream_def build_history_stream_name_def history_subject_prefix_of_def
      history_subject_prefix_def)

section \<open>Properties\<close>

text \<open>
  (C22) Routing. For an event of a workflow whose id is one token, every task that
  the event leads to reaches the queue of its kind: each workflow task goes to the workflow task queue
  and to no other stream of the engine; the first attempt of a scheduled activity, and the retry that is
  published after the delay of a retried one, go to the activity task queue and to no other. The filters
  of the workers' consumers without a namespace match them.
\<close>

theorem tasks_reach_their_queue:
  assumes mt: "wildcard_matching mt" and wid: "token_id wid"
    and dec: "decode_workflow_event sd m = Inr e" "event_wf_id e = wid" "msg_subject m = ''history.'' @ wid"
  shows "(\<forall>p \<in> set (re_published (project_workflow_task sd bucket publish m)).
      captured_by mt (engine_setup old) (pub_subject p) \<inter> engine_streams = {workflow_task_stream_name []} \<and>
      mt (workflow_task_filter_subject []) (pub_subject p)) \<and>
    (\<forall>p \<in> set (re_published (project_activity_task sd now_ms publish m)).
      captured_by mt (engine_setup old) (pub_subject p) \<inter> engine_streams = {activity_task_stream_name []} \<and>
      mt (activity_task_filter_subject []) (pub_subject p)) \<and>
    (\<forall>delay r. snd (project_activity_retry sd m) = Some (delay, r) \<longrightarrow>
      (\<forall>p \<in> set (publish_retry sd consumer fetch publish now_ns r).
        captured_by mt (engine_setup old) (pub_subject p) \<inter> engine_streams = {activity_task_stream_name []} \<and>
        mt (activity_task_filter_subject []) (pub_subject p)))"
proof -
  let ?w = "''workflow.'' @ wid @ ''.tasks''" and ?a = "''activity.'' @ wid @ ''.tasks''"
  have dots: "CHR ''.'' \<notin> set wid" using wid by (simp add: token_id_def)
  note M = matches_iff [OF mt task_subjects_literal(1) [OF wid]] matches_iff [OF mt task_subjects_literal(2) [OF wid]]
  have "mt (workflow_task_filter_subject []) ?w" "mt (activity_task_filter_subject []) ?a"
    unfolding workflow_task_filter_subject_def activity_task_filter_subject_def
    using M(1) [of workflow_tasks_pattern] M(2) [of activity_tasks_pattern] task_subject_tokens [OF dots]
    by (simp_all add: pattern_tokens)
  moreover have "pub_subject p = ?w" if "p \<in> set (re_published (project_workflow_task sd bucket publish m))" for p
    using workflow_task_subject [OF dec(1) that] dec(2) by simp
  moreover have "pub_subject p = ?a" if "p \<in> set (re_published (project_activity_task sd now_ms publish m))" for p
    by (rule activity_task_subject [OF that dec(3) dots])
  moreover have "pub_subject p = ?a" if "snd (project_activity_retry sd m) = Some (delay, r)"
    "p \<in> set (publish_retry sd consumer fetch publish now_ns r)" for p delay r
  proof -
    have "ar_id r = wid" using retried_event [OF that(1)] dec(1,2) by auto
    with retry_task_subject [OF that(2)] dots show ?thesis by simp
  qed
  ultimately show ?thesis
    using captured_subjects [OF mt wid] by (simp add: workflow_task_stream_name_def activity_task_stream_name_def)
qed

text \<open>
  (C27) The log of a worker takes the history stream for itself: after every
  append the only subject of the stream is that of the appended workflow, so that the stream no longer
  stores the start event of any other workflow.
\<close>

theorem append_narrows_history:
  assumes mt: "wildcard_matching mt" and keeps: "keeps_subjects js subj"
    and w: "new_worker True True None None = Inr (w :: ('w, 'a) worker)"
    and app: "nats_append_events js ctx uuid (wk_log w) s wid chk es = (s', Inr v)"
    and wid: "token_id wid" "CHR ''/'' \<notin> set wid" "CHR '' '' \<notin> set wid" and other: "token_id other" "other \<noteq> wid"
  shows "subj s' workflow_history_stream = Some [''history.'' @ wid] \<and>
    \<not> mt (''history.'' @ wid) (pub_subject (start_message sd other d))"
proof -
  note lg = default_worker_log [OF w]
  have "replace_char a b wid = wid" if "a \<notin> set wid" for a b :: char
    using that by (induction wid) (auto simp: replace_char_def)
  with wid lg have "log_id_to_subject (wk_log w) wid = ''history.'' @ wid" by (simp add: log_id_to_subject_def)
  with append_sets_subject [OF keeps app] lg have "subj s' workflow_history_stream = Some [''history.'' @ wid]" by simp
  moreover have "pub_subject (start_message sd other d) = ''history.'' @ other"
    by (simp add: start_message_def history_subject_prefix_def)
  moreover have "\<not> mt (''history.'' @ wid) (''history.'' @ other)"
  proof -
    have dots: "CHR ''.'' \<notin> set wid" "CHR ''.'' \<notin> set other" and wild: "wid \<noteq> ''*''" "wid \<noteq> ''>''"
      using wid(1) other(1) by (simp_all add: token_id_def)
    show ?thesis
      unfolding matches_iff [OF mt task_subjects_literal(3) [OF other(1)]] task_subject_tokens(3) [OF dots(1)]
        task_subject_tokens(3) [OF dots(2)] using other(2) wild by simp
  qed
  ultimately show ?thesis by simp
qed

section \<open>Witnesses\<close>

definition demo_matching :: "string \<Rightarrow> string \<Rightarrow> bool" where
  "demo_matching p s = tokens_match (tokens p) (tokens s)"

lemma demo_matching_ok: "wildcard_matching demo_matching"
  by (simp add: wildcard_matching_def demo_matching_def)

text \<open>A retried activity: the goroutine publishes one task, to the activity queue.\<close>

lemma demo_retry_started: "snd (project_activity_retry demo_serde (demo_msg 7 (ActivityRetried demo_retry_event))) =
    Some (2000 * millisecond_ns, demo_retry_event)"
  by (simp add: project_activity_retry_def demo_msg_meta) (simp add: demo_retry_event_def)

lemma demo_retry_published: "publish_retry demo_serde None demo_fetch (\<lambda>_. None) 5 demo_retry_event \<noteq> []"
  using demo_fetched by (simp add: publish_retry_def demo_serde_def)

theorem tasks_reach_their_queue_witness:
  "captured_by demo_matching (engine_setup Map.empty) ''workflow.w1.tasks'' \<inter> engine_streams = {''WORKFLOW_TASKS''} \<and>
   (\<exists>p \<in> set (publish_retry demo_serde None demo_fetch (\<lambda>_. None) 5 demo_retry_event).
      captured_by demo_matching (engine_setup Map.empty) (pub_subject p) \<inter> engine_streams = {''ACTIVITY_TASKS''})"
proof -
  have "token_id ''w1''" by (simp add: token_id_def)
  moreover have "event_wf_id (demo_completed ''hi'') = ''w1''" "event_wf_id (ActivityRetried demo_retry_event) = ''w1''"
    by (simp_all add: demo_completed_def demo_retry_event_def)
  moreover have "msg_subject (demo_msg 7 (demo_completed ''hi'')) = ''history.'' @ ''w1''"
    "msg_subject (demo_msg 7 (ActivityRetried demo_retry_event)) = ''history.'' @ ''w1''"
    by (simp_all add: demo_msg_def demo_retry_event_def)
  ultimately have done_: "captured_by demo_matching (engine_setup Map.empty) ''workflow.w1.tasks'' \<inter> engine_streams = {''WORKFLOW_TASKS''}"
    and retried: "\<forall>p \<in> set (publish_retry demo_serde None demo_fetch (\<lambda>_. None) 5 demo_retry_event).
      captured_by demo_matching (engine_setup Map.empty) (pub_subject p) \<inter> engine_streams = {''ACTIVITY_TASKS''}"
    using tasks_reach_their_queue [OF demo_matching_ok _ demo_msg_decodes, of "''w1''" "demo_completed ''hi''" 7
        demo_bucket "\<lambda>_. None" "Map.empty" 0 None demo_fetch 5] demo_published [of 7]
      conjunct2 [OF conjunct2 [OF tasks_reach_their_queue [OF demo_matching_ok _ demo_msg_decodes,
        of "''w1''" "ActivityRetried demo_retry_event" 7 demo_bucket "\<lambda>_. None" "Map.empty" 0 None demo_fetch 5]]]
      demo_retry_started
    by (simp_all add: workflow_task_stream_name_def workflow_tasks_stream_def activity_task_stream_name_def activity_tasks_stream_def)
  with demo_retry_published show ?thesis by (metis list.set_intros(1) neq_Nil_conv)
qed

text \<open>A server whose state is the subjects of its streams.\<close>

definition demo_subjects :: "(string \<rightharpoonup> string list, nat) jetstream" where
  "demo_subjects = \<lparr>
     js_stream = (\<lambda>m n. if m n = None then StreamNotFound (ErrMsg ''nats: stream not found'') else StreamFound),
     js_create = (\<lambda>m c. (m(sc_name c \<mapsto> sc_subjects c), None)), js_info = (\<lambda>_ _. Inr 0),
     js_update = (\<lambda>m c. (m(sc_name c \<mapsto> sc_subjects c), None)), js_publish = (\<lambda>m _ _. (m, None)),
     js_request = (\<lambda>m _. (m, Inr EmptyReply)), js_send = (\<lambda>m _. (m, None)), js_consumer = (\<lambda>_ _ _ _. None),
     js_messages = (\<lambda>_ _ _ _. Inr [])\<rparr>"

lemma demo_subjects_keeps: "keeps_subjects demo_subjects (\<lambda>s. s)"
  by (auto simp: keeps_subjects_def demo_subjects_def)

definition demo_worker :: "(unit, unit) worker" where
  "demo_worker = \<lparr>wk_log = \<lparr>nl_storage = 0, nl_retention = 0, nl_stream = ''WORKFLOW_HISTORY'', nl_prefix = ''history'',
     nl_read_timeout = 500000000\<rparr>, wk_workflows = Map.empty, wk_activities = Map.empty\<rparr>"

lemma demo_new_worker: "new_worker True True None None = Inr demo_worker"
  by (simp add: demo_worker_def new_worker_def new_nats_jetstream_def build_history_stream_name_def
      history_subject_prefix_of_def history_subject_prefix_def workflow_history_stream_def)

definition narrowed :: "string \<rightharpoonup> string list" where
  "narrowed = [''WORKFLOW_HISTORY'' \<mapsto> [''history.>'']](''WORKFLOW_HISTORY'' \<mapsto> [''history.w1''])"

lemma demo_append:
  "nats_append_events demo_subjects (\<lambda>_. None) (Inr ''b1'') (wk_log demo_worker) [''WORKFLOW_HISTORY'' \<mapsto> [''history.>'']]
     ''w1'' (CheckExact 1) [\<lparr>raw_name = ''activity/completed'', raw_data = [1]\<rparr>] = (narrowed, Inr 2)"
  by (simp add: nats_append_events_def append_single_event_def demo_worker_def ensure_stream_def demo_subjects_def
      log_id_to_subject_def replace_char_def narrowed_def Let_def)

theorem append_narrows_history_witness:
  "narrowed ''WORKFLOW_HISTORY'' = Some [''history.w1''] \<and> \<not> demo_matching ''history.w1'' ''history.w2''"
  using append_narrows_history [OF demo_matching_ok demo_subjects_keeps demo_new_worker demo_append,
      of "''w2''" demo_serde echo_attrs]
  by (simp add: token_id_def workflow_history_stream_def start_message_def history_subject_prefix_def)

end
