(* ===== verification/DF_Receive.thy ===== *)
theory DF_Receive
  imports DF_Routing
begin

text \<open>
  Receiving tasks: \<open>ReceiveTask\<close> and \<open>enqueueTask\<close> of
  \<open>sdk/internal/protocol/nats/task_processor.go\<close> and the loop of
  \<open>worker.runProcessingLoop\<close> over the iterator they return.
\<close>

section \<open>The consumers\<close>

definition workflow_worker_consumer :: string where "workflow_worker_consumer = ''worker-workflow-tasks''"
definition activity_worker_consumer :: string where "activity_worker_consumer = ''worker-activity-tasks''"

datatype task_type = WorkflowTasks | ActivityTasks

definition consumer_for :: "string \<Rightarrow> task_type \<Rightarrow> string \<times> consumer_setup" where
  "consumer_for ns ty =
     (case ty of
        WorkflowTasks \<Rightarrow> (workflow_task_stream_name ns,
          \<lparr>cn_name = workflow_worker_consumer, cn_durable = workflow_worker_consumer,
           cn_filter = workflow_task_filter_subject ns\<rparr>)
      | ActivityTasks \<Rightarrow> (activity_task_stream_name ns,
          \<lparr>cn_name = activity_worker_consumer, cn_durable = activity_worker_consumer,
           cn_filter = activity_task_filter_subject ns\<rparr>))"

definition open_consumer ::
    "('s, 'x) js_client \<Rightarrow> string \<Rightarrow> bool \<Rightarrow> task_type \<Rightarrow> 's \<Rightarrow> 's \<times> (gerr + task_type list)" where
  "open_consumer js ns enabled ty s =
     (if \<not> enabled then (s, Inr [])
      else (case consumer_for ns ty of (stream, cfg) \<Rightarrow>
        (case sdk_ensure_consumer js s stream cfg of
           (s', Some e) \<Rightarrow> (s', Inl e)
         | (s', None) \<Rightarrow> (s', Inr [ty]))))"

text \<open>The consumers that \<open>ReceiveTask\<close> opens, in order, or the error that stops it.\<close>

definition receive_task ::
    "('s, 'x) js_client \<Rightarrow> string \<Rightarrow> bool \<Rightarrow> bool \<Rightarrow> 's \<Rightarrow> 's \<times> (gerr + task_type list)" where
  "receive_task js ns workflows activities s =
     (if \<not> workflows \<and> \<not> activities then (s, Inl (ErrMsg ''at least one task type must be enabled''))
      else (case open_consumer js ns workflows WorkflowTasks s of
        (s1, Inl e) \<Rightarrow> (s1, Inl e)
      | (s1, Inr ws) \<Rightarrow>
         (case open_consumer js ns activities ActivityTasks s1 of
            (s2, Inl e) \<Rightarrow> (s2, Inl e)
          | (s2, Inr as) \<Rightarrow> (s2, Inr (ws @ as)))))"

section \<open>Messages\<close>

datatype task = TaskWorkflow workflow_task | TaskActivity activity_task

datatype receipt = Termed | Naked | Enqueued task

text \<open>\<open>done\<close>: the select of \<open>enqueueTask\<close> took the branch of the cancelled context.\<close>

definition enqueue_task :: "bool \<Rightarrow> task \<Rightarrow> receipt" where
  "enqueue_task done t = (if done then Naked else Enqueued t)"

definition handle_message :: "'x serde \<Rightarrow> task_type \<Rightarrow> bool \<Rightarrow> 'x list \<Rightarrow> receipt" where
  "handle_message sd ty done data =
     (case ty of
        WorkflowTasks \<Rightarrow> (case de_wtask sd data of Inl _ \<Rightarrow> Termed | Inr t \<Rightarrow> enqueue_task done (TaskWorkflow t))
      | ActivityTasks \<Rightarrow> (case de_atask sd data of Inl _ \<Rightarrow> Termed | Inr t \<Rightarrow> enqueue_task done (TaskActivity t)))"

section \<open>The iterator\<close>

text \<open>
  One round of the select: the context is done, the channel is closed, or it delivers a token, which
  may be nil. The two types of task are all there are, so the default case of the switch is not
  reached.
\<close>

datatype round = CtxDone | ChanClosed | NilToken | Token task

text \<open>
  How a loop over the iterator ends: it returns, it waits for the next round, or the run-time
  system panics because the iterator called the loop body after the body had stopped the loop.
\<close>

datatype 's loop_end = LoopReturned 's | LoopWaits 's | LoopPanics 's

text \<open>
  \<open>body\<close> answers whether the loop goes on, which the iterator does not look at;
  \<open>stopped\<close> is the record the run-time system keeps of it.
\<close>

fun iterate :: "('s \<Rightarrow> task \<Rightarrow> 's \<times> bool) \<Rightarrow> bool \<Rightarrow> 's \<Rightarrow> round list \<Rightarrow> 's loop_end" where
  "iterate body stopped s [] = LoopWaits s"
| "iterate body stopped s (CtxDone # rs) = LoopReturned s"
| "iterate body stopped s (ChanClosed # rs) = LoopReturned s"
| "iterate body stopped s (NilToken # rs) = iterate body stopped s rs"
| "iterate body stopped s (Token t # rs) =
     (if stopped then LoopPanics s
      else (case body s t of (s', go) \<Rightarrow> iterate body (\<not> go) s' rs))"

section \<open>The loop of the worker\<close>

text \<open>
  The start of \<open>runProcessingLoop\<close>: the repository, the task types the registries ask for,
  and the consumers.
\<close>

definition start_loop ::
    "('s, 'x) js_client \<Rightarrow> string \<Rightarrow> nat \<Rightarrow> nat \<Rightarrow> gerr option \<Rightarrow> 's \<Rightarrow> 's \<times> (gerr + task_type list)" where
  "start_loop js ns workflows activities repo_err s =
     (case repo_err of
        Some e \<Rightarrow> (s, Inl e)
      | None \<Rightarrow>
         (if workflows = 0 \<and> activities = 0 then
            (s, Inl (ErrMsg ''worker has no registered workflows or activities''))
          else receive_task js ns (0 < workflows) (0 < activities) s))"

text \<open>
  One task: what the goroutine that the loop starts for a token does with the log and the message.
\<close>

definition dispatch_task ::
    "('l \<Rightarrow> string \<Rightarrow> gerr + workflow_context)
      \<Rightarrow> ('l \<Rightarrow> workflow_context \<Rightarrow> 'l \<times> workflow_context \<times> (gerr + version \<times> wf_event list))
      \<Rightarrow> 'x env \<Rightarrow> workflow_fn fn_registry \<Rightarrow> activity_fn fn_registry \<Rightarrow> (nat \<Rightarrow> i64) \<Rightarrow> i64
      \<Rightarrow> 'l \<Rightarrow> task \<Rightarrow> 'l handled" where
  "dispatch_task get save ev wreg areg clock now_ms l t =
     (case t of
        TaskWorkflow w \<Rightarrow> handle_workflow_task get save ev wreg clock l w
      | TaskActivity a \<Rightarrow> handle_activity_task get save ev areg now_ms l a)"

text \<open>
  The loop over the iterator, with the goroutines run one after the other in the order of the tokens:
  what each did, the newest last. The error of a goroutine cancels the context of the group, and
  the next round finds it done; a panic of a goroutine ends the process.
\<close>

definition loop_body ::
    "('l \<Rightarrow> task \<Rightarrow> 'l handled) \<Rightarrow> 'l \<times> 'l handled list \<Rightarrow> task \<Rightarrow> ('l \<times> 'l handled list) \<times> bool" where
  "loop_body handle st t =
     (case st of (l, hs) \<Rightarrow> let h = handle l t in ((h_log h, hs @ [h]), True))"

definition run_loop :: "('l \<Rightarrow> task \<Rightarrow> 'l handled) \<Rightarrow> 'l \<Rightarrow> round list \<Rightarrow> ('l \<times> 'l handled list) loop_end" where
  "run_loop handle l rs = iterate (loop_body handle) False (l, []) rs"

text \<open>What \<open>g.Wait()\<close> returns: the first error of a goroutine.\<close>

definition loop_error :: "'l handled list \<Rightarrow> gerr option" where
  "loop_error hs = (case find (\<lambda>h. h_err h \<noteq> None) hs of None \<Rightarrow> None | Some h \<Rightarrow> h_err h)"

text \<open>
  \<open>Run\<close>: the loop in a group of its own. The result is the error it returns, or \<open>None\<close> as long
  as it waits for the next round.
\<close>

definition worker_run ::
    "('s, 'x) js_client \<Rightarrow> string \<Rightarrow> nat \<Rightarrow> nat \<Rightarrow> gerr option \<Rightarrow> ('l \<Rightarrow> task \<Rightarrow> 'l handled) \<Rightarrow> 's \<Rightarrow> 'l \<Rightarrow> round list
      \<Rightarrow> 's \<times> 'l \<times> (panic + gerr option) option" where
  "worker_run js ns workflows activities repo_err handle s l rs =
     (case start_loop js ns workflows activities repo_err s of
        (s', Inl e) \<Rightarrow> (s', l, Some (Inr (Some e)))
      | (s', Inr _) \<Rightarrow>
         (case run_loop handle l rs of
            LoopReturned (l', hs) \<Rightarrow> (s', l', Some (Inr (loop_error hs)))
          | LoopWaits (l', hs) \<Rightarrow> (s', l', None)
          | LoopPanics (l', hs) \<Rightarrow> (s', l', Some (Inl (OtherPanic
               ''range function continued iteration after function for loop body returned false'')))))"

section \<open>Lemmas\<close>

fun tasks_of :: "round list \<Rightarrow> task list" where
  "tasks_of [] = []"
| "tasks_of (Token t # rs) = t # tasks_of rs"
| "tasks_of (r # rs) = tasks_of rs"

definition ends_loop :: "round \<Rightarrow> bool" where
  "ends_loop r \<longleftrightarrow> r = CtxDone \<or> r = ChanClosed"

text \<open>A loop whose body goes on runs it on every token, and ends with the first round that ends it.\<close>

lemma iterate_prefix:
  assumes "\<And>s t. snd (body s t)" and "list_all (\<lambda>r. \<not> ends_loop r) pre"
  shows "iterate body False s (pre @ rs) = iterate body False (fold (\<lambda>t s. fst (body s t)) (tasks_of pre) s) rs"
  using assms(2)
proof (induction pre arbitrary: s)
  case (Cons r pre)
  show ?case
  proof (cases r)
    case (Token t)
    obtain s' where "body s t = (s', True)" using assms(1) [of s t] by (cases "body s t") auto
    with Cons Token show ?thesis by simp
  qed (use Cons in \<open>auto simp: ends_loop_def\<close>)
qed simp

lemma iterate_ends: "ends_loop r \<Longrightarrow> iterate body stopped s (r # rs) = LoopReturned s"
  by (auto simp: ends_loop_def)

text \<open>The handling of tasks in order, each on the log the one before it left.\<close>

fun handle_all :: "('l \<Rightarrow> task \<Rightarrow> 'l handled) \<Rightarrow> 'l \<Rightarrow> task list \<Rightarrow> 'l handled list" where
  "handle_all handle l [] = []"
| "handle_all handle l (t # ts) = handle l t # handle_all handle (h_log (handle l t)) ts"

lemma loop_body_fold:
  "fold (\<lambda>t s. fst (loop_body handle s t)) ts (l, hs) =
     (last (l # map h_log (handle_all handle l ts)), hs @ handle_all handle l ts)"
  by (induction ts arbitrary: l hs) (simp_all add: loop_body_def Let_def)

text \<open>Stopping the loop early: the iterator goes on and the next task panics.\<close>

lemma iterator_ignores_stop:
  "body s t = (s', False) \<Longrightarrow> list_all (\<lambda>r. r = NilToken) pre \<Longrightarrow>
    iterate body False s (Token t # pre @ Token u # rs) = LoopPanics s'"
proof -
  have "list_all (\<lambda>r. r = NilToken) pre \<Longrightarrow> iterate body True s' (pre @ Token u # rs) = LoopPanics s'"
    by (induction pre) auto
  then show "body s t = (s', False) \<Longrightarrow> list_all (\<lambda>r. r = NilToken) pre \<Longrightarrow>
    iterate body False s (Token t # pre @ Token u # rs) = LoopPanics s'" by simp
qed

lemma namespaced_names:
  assumes "ns \<noteq> []"
  shows "workflow_task_stream_name ns \<notin> engine_streams" "activity_task_stream_name ns \<notin> engine_streams"
proof -
  have long: "length (workflow_task_stream_name ns) > 15" "length (activity_task_stream_name ns) > 15"
    using assms by (cases ns; simp add: workflow_task_stream_name_def activity_task_stream_name_def
        workflow_tasks_stream_def activity_tasks_stream_def)+
  have end_S: "last (workflow_task_stream_name ns) = CHR ''S''" "last (activity_task_stream_name ns) = CHR ''S''"
    using assms by (simp_all add: workflow_task_stream_name_def activity_task_stream_name_def
        workflow_tasks_stream_def activity_tasks_stream_def)
  have "n \<notin> engine_streams" if "length n > 15" "last n = CHR ''S''" for n
    using that by (auto simp: engine_streams_def workflow_history_stream_def workflow_tasks_stream_def activity_tasks_stream_def)
  with long end_S show "workflow_task_stream_name ns \<notin> engine_streams" "activity_task_stream_name ns \<notin> engine_streams"
    by blast+
qed

section \<open>Properties\<close>

text \<open> The loop of a worker returns as soon as its context is done or the
  channel is closed and does not return before. With the goroutines of the tasks run one after the
  other, each task it receives is handled exactly once, on the log that the tasks before it left.
\<close>

theorem loop_handles_every_task:
  assumes "list_all (\<lambda>r. \<not> ends_loop r) pre"
  shows "run_loop (dispatch_task get save ev wreg areg clock now_ms) l pre =
      LoopWaits (last (l # map h_log (handle_all (dispatch_task get save ev wreg areg clock now_ms) l (tasks_of pre))),
        handle_all (dispatch_task get save ev wreg areg clock now_ms) l (tasks_of pre)) \<and>
    (\<forall>r post. ends_loop r \<longrightarrow> run_loop (dispatch_task get save ev wreg areg clock now_ms) l (pre @ r # post) =
      LoopReturned (last (l # map h_log (handle_all (dispatch_task get save ev wreg areg clock now_ms) l (tasks_of pre))),
        handle_all (dispatch_task get save ev wreg areg clock now_ms) l (tasks_of pre)))"
proof -
  let ?h = "dispatch_task get save ev wreg areg clock now_ms"
  have go: "snd (loop_body ?h s t)" for s t by (cases s) (simp add: loop_body_def Let_def)
  note run = iterate_prefix [of "loop_body ?h", OF go assms] 
  show ?thesis
    using run [of "(l, [])" "[]"] run [of "(l, [])"] by (simp add: run_loop_def loop_body_fold iterate_ends)
qed

text \<open>
  (C28) A worker with a namespace does not start on the server this
  repository sets up: its task streams have names that the bootstrap creates no stream for, and even
  a consumer on the right stream would have a filter that no published task matches.
\<close>

theorem namespaced_worker_cannot_receive:
  assumes conf: "conforming js streams buckets" and only: "streams s = engine_setup Map.empty"
    and ns: "ns \<noteq> []" and mt: "wildcard_matching mt" and wid: "token_id wid"
  shows "(\<exists>e. start_loop js ns w a None s = (s, Inl e)) \<and>
    \<not> mt (workflow_task_filter_subject ns) (''workflow.'' @ wid @ ''.tasks'') \<and>
    \<not> mt (activity_task_filter_subject ns) (''activity.'' @ wid @ ''.tasks'')"
proof -
  have last: "last (tokens (''workflow.'' @ wid @ ''.tasks'')) = ''tasks''" "last (tokens (''activity.'' @ wid @ ''.tasks'')) = ''tasks''"
    using task_subject_tokens [of wid] wid by (simp_all add: token_id_def)
  have ends: "last (tokens (workflow_task_filter_subject ns)) = ''workflow''" "last (tokens (activity_task_filter_subject ns)) = ''activity''"
    using ns tokens_join_last [of ns "''tasks.workflow''"] tokens_join_last [of ns "''tasks.*.activity''"]
    by (simp_all add: workflow_task_filter_subject_def activity_task_filter_subject_def tokens_def)
  have miss: "\<not> mt (workflow_task_filter_subject ns) (''workflow.'' @ wid @ ''.tasks'')"
    using tokens_match_last ends(1) last(1) matches_iff [OF mt task_subjects_literal(1) [OF wid]] by (fastforce simp: tokens_def)
  have miss2: "\<not> mt (activity_task_filter_subject ns) (''activity.'' @ wid @ ''.tasks'')"
    using tokens_match_last ends(2) last(2) matches_iff [OF mt task_subjects_literal(2) [OF wid]] by (fastforce simp: tokens_def)
  have none: "streams s (workflow_task_stream_name ns) = None" "streams s (activity_task_stream_name ns) = None"
    unfolding only using namespaced_names [OF ns] by (auto simp: engine_setup_def engine_streams_def)
  have "jm_find js s n \<noteq> Found" if "streams s n = None" for n
    using conf that unfolding conforming_def by (metis (no_types))
  then have "\<exists>e. open_consumer js ns True ty s = (s, Inl e)" for ty
    using none by (cases ty; cases "jm_find js s (fst (consumer_for ns ty))")
      (auto simp: open_consumer_def consumer_for_def ensure_consumer_def)
  then obtain e1 e2 where opened: "open_consumer js ns True WorkflowTasks s = (s, Inl e1)"
    "open_consumer js ns True ActivityTasks s = (s, Inl e2)" by metis
  moreover have "open_consumer js ns False ty s = (s, Inr [])" for ty by (simp add: open_consumer_def)
  ultimately have "\<exists>e. start_loop js ns w a None s = (s, Inl e)"
    by (cases "w = 0"; cases "a = 0") (auto simp: start_loop_def receive_task_def)
  with miss miss2 show ?thesis by blast
qed

section \<open>Witnesses\<close>

theorem loop_handles_every_task_witness:
  "run_loop (dispatch_task (wf_get demo_serde) (wf_save demo_serde) demo_env demo_workflows demo_activities (\<lambda>_. 0) 0)
      (demo_store [demo_started]) [NilToken, CtxDone, Token (TaskWorkflow demo_wtask)]
    = LoopReturned (demo_store [demo_started], [])"
  using loop_handles_every_task [of "[NilToken]" "wf_get demo_serde" "wf_save demo_serde" demo_env demo_workflows
      demo_activities "\<lambda>_. 0" 0 "demo_store [demo_started]"]
  by (simp add: ends_loop_def)

theorem namespaced_worker_cannot_receive_witness:
  "\<exists>e. start_loop demo_js ''team'' 1 0 None (engine_setup Map.empty, {}) = ((engine_setup Map.empty, {}), Inl e)"
  using namespaced_worker_cannot_receive [OF demo_js_conforming, of "(engine_setup Map.empty, {})" "''team''" demo_matching "''w1''" 1 0]
    demo_matching_ok by (simp add: token_id_def)

end
