(* ===== verification/DF_Dispatch.thy ===== *)
theory DF_Dispatch
  imports DF_Engine DF_Receive
begin

text \<open>
  Workers at work: the goroutines that \<open>worker.runProcessingLoop\<close> of
  \<open>sdk/internal/worker_runtime.go\<close> starts, one for each token, in any interleaving, beside
  the command handler and the projectors. Each goroutine touches the log twice, when it replays the
  workflow and when it saves it, and anything may happen in between. The theory relates a single
  goroutine to the handling of a task as a whole, and any number of them to the steps of the engine.
\<close>

section \<open>One goroutine\<close>

text \<open>
  How far a goroutine is: started for its token, with the replayed workflow, with its message settled
  and its events not yet saved, returned, or ended with the process by a panic. The first context of
  \<open>Settled\<close> is the one that was replayed; the code keeps only the second.
\<close>

datatype stage =
    Spawned
  | Replayed workflow_context
  | Settled workflow_context disposition workflow_context
  | Exited "gerr option"
  | Crashed panic

type_synonym goroutine = "task \<times> stage"

fun task_workflow :: "task \<Rightarrow> string" where
  "task_workflow (TaskWorkflow w) = wt_id w"
| "task_workflow (TaskActivity a) = tk_id a"

definition go_replay :: "('l \<Rightarrow> string \<Rightarrow> gerr + workflow_context) \<Rightarrow> 'l \<Rightarrow> goroutine \<Rightarrow> goroutine" where
  "go_replay get l g =
     (case g of
        (t, Spawned) \<Rightarrow> (case get l (task_workflow t) of Inl e \<Rightarrow> (t, Exited (Some e)) | Inr c \<Rightarrow> (t, Replayed c))
      | _ \<Rightarrow> g)"

definition go_process ::
    "'x env \<Rightarrow> workflow_fn fn_registry \<Rightarrow> activity_fn fn_registry \<Rightarrow> (nat \<Rightarrow> i64) \<Rightarrow> i64 \<Rightarrow> goroutine \<Rightarrow> goroutine" where
  "go_process ev wreg areg clock now_ms g =
     (case g of
        (TaskWorkflow w, Replayed c) \<Rightarrow>
          (case process_workflow_task ev wreg clock c w of
             (c', Some e) \<Rightarrow> (TaskWorkflow w, Settled c Nak c')
           | (c', None) \<Rightarrow> (TaskWorkflow w, Settled c Ack c'))
      | (TaskActivity a, Replayed c) \<Rightarrow>
          (case process_activity_task ev areg now_ms c a of
             (c', _, Some p) \<Rightarrow> (TaskActivity a, Crashed p)
           | (c', Some e, None) \<Rightarrow> (TaskActivity a, Settled c Nak c')
           | (c', None, None) \<Rightarrow> (TaskActivity a, Settled c Ack c'))
      | _ \<Rightarrow> g)"

definition go_save ::
    "('l \<Rightarrow> workflow_context \<Rightarrow> 'l \<times> workflow_context \<times> (gerr + version \<times> wf_event list)) \<Rightarrow> 'l \<Rightarrow> goroutine
      \<Rightarrow> 'l \<times> goroutine" where
  "go_save save l g =
     (case g of
        (t, Settled c d c') \<Rightarrow>
          (case save l c' of
             (l', _, Inl e) \<Rightarrow> (l', (t, Exited (Some e)))
           | (l', _, Inr _) \<Rightarrow> (l', (t, Exited None)))
      | _ \<Rightarrow> (l, g))"

section \<open>All of them\<close>

text \<open>
  The state of the engine with the goroutines of all workers. The engine's own steps are those
  of the command handler and the projectors, which load no task. A worker receives a published
  task, again and again where it is redelivered. A goroutine may also give up where it would wait for
  the server, because its context was cancelled or the server did not answer.
\<close>

definition room_to_save :: "'x memory \<Rightarrow> workflow_context \<Rightarrow> bool" where
  "room_to_save l c \<longleftrightarrow> mem_total l + length (root_uncommitted c) < 2 ^ 64 \<and> mem_total l + 1 < 2 ^ 64"

fun gives_up :: "stage \<Rightarrow> bool" where
  "gives_up Spawned = True"
| "gives_up (Settled c d c') = True"
| "gives_up s = False"

inductive crew_step :: "'x env \<Rightarrow> workflow_fn fn_registry \<Rightarrow> 'x system \<times> goroutine list
    \<Rightarrow> 'x system \<times> goroutine list \<Rightarrow> bool"
  for ev :: "'x env" and reg :: "workflow_fn fn_registry" where
  serve: "sys_step ev reg s s' \<Longrightarrow> sy_wruns s' = {#} \<Longrightarrow> sy_aruns s' = {#} \<Longrightarrow> crew_step ev reg (s, gs) (s', gs)"
| receive_workflow: "bs \<in> sy_wtasks s \<Longrightarrow> handle_message (env_serde ev) WorkflowTasks cancelled bs = Enqueued t \<Longrightarrow>
    crew_step ev reg (s, gs) (s, gs @ [(t, Spawned)])"
| receive_activity: "bs \<in> sy_atasks s \<Longrightarrow> handle_message (env_serde ev) ActivityTasks cancelled bs = Enqueued t \<Longrightarrow>
    crew_step ev reg (s, gs) (s, gs @ [(t, Spawned)])"
| replay: "i < length gs \<Longrightarrow>
    crew_step ev reg (s, gs) (s, gs[i := go_replay (wf_get (env_serde ev)) (sy_log s) (gs ! i)])"
| process: "i < length gs \<Longrightarrow>
    crew_step ev reg (s, gs) (s, gs[i := go_process ev reg areg clock now_ms (gs ! i)])"
| save: "i < length gs \<Longrightarrow> gs ! i = (t, Settled c d c') \<Longrightarrow> room_to_save (sy_log s) c' \<Longrightarrow>
    go_save (wf_save (env_serde ev)) (sy_log s) (gs ! i) = (l', g) \<Longrightarrow>
    crew_step ev reg (s, gs) (s\<lparr>sy_log := l'\<rparr>, gs[i := g])"
| give_up: "i < length gs \<Longrightarrow> gs ! i = (t, g) \<Longrightarrow> gives_up g \<Longrightarrow>
    crew_step ev reg (s, gs) (s, gs[i := (t, Exited (Some e))])"

section \<open>The workers refine the engine\<close>

text \<open>What a goroutine holds of the engine: the task with the context it was loaded with.\<close>

fun wheld :: "goroutine \<Rightarrow> (workflow_task \<times> workflow_context) multiset" where
  "wheld (TaskWorkflow w, Replayed c) = {#(w, c)#}"
| "wheld (TaskWorkflow w, Settled c d c') = {#(w, c)#}"
| "wheld g = {#}"

fun aheld :: "goroutine \<Rightarrow> (activity_task \<times> workflow_context) multiset" where
  "aheld (TaskActivity a, Replayed c) = {#(a, c)#}"
| "aheld (TaskActivity a, Settled c d c') = {#(a, c)#}"
| "aheld g = {#}"

definition all_held :: "(goroutine \<Rightarrow> 'a multiset) \<Rightarrow> goroutine list \<Rightarrow> 'a multiset" where
  "all_held f gs = sum_list (map f gs)"

text \<open>A goroutine's task was published, and its settled context comes from the one it replayed.\<close>

fun go_ok :: "'x env \<Rightarrow> workflow_fn fn_registry \<Rightarrow> 'x list set \<Rightarrow> 'x list set \<Rightarrow> goroutine \<Rightarrow> bool" where
  "go_ok ev reg ws as (TaskWorkflow w, st) \<longleftrightarrow>
     (\<exists>bs \<in> ws. de_wtask (env_serde ev) bs = Inr w) \<and>
     (case st of Settled c d c' \<Rightarrow> \<exists>clock. fst (process_workflow_task ev reg clock c w) = c' | _ \<Rightarrow> True)"
| "go_ok ev reg ws as (TaskActivity a, st) \<longleftrightarrow>
     (\<exists>bs \<in> as. de_atask (env_serde ev) bs = Inr a) \<and>
     (case st of Settled c d c' \<Rightarrow> \<exists>areg now_ms err. process_activity_task ev areg now_ms c a = (c', err, None) | _ \<Rightarrow> True)"

definition serves :: "'x env \<Rightarrow> workflow_fn fn_registry \<Rightarrow> 'x system \<Rightarrow> 'x system \<times> goroutine list \<Rightarrow> bool" where
  "serves ev reg s cr \<longleftrightarrow>
     fst cr = s\<lparr>sy_wruns := {#}, sy_aruns := {#}\<rparr> \<and>
     all_held wheld (snd cr) \<subseteq># sy_wruns s \<and> all_held aheld (snd cr) \<subseteq># sy_aruns s \<and>
     (\<forall>g \<in> set (snd cr). go_ok ev reg (sy_wtasks s) (sy_atasks s) g)"

lemma all_held_append [simp]: "all_held f (gs @ hs) = all_held f gs + all_held f hs"
  by (simp add: all_held_def)

lemma all_held_single [simp]: "all_held f [g] = f g"
  by (simp add: all_held_def)

lemma all_held_split:
  assumes "i < length gs"
  obtains rest where "all_held f gs = f (gs ! i) + rest" "\<And>g. all_held f (gs[i := g]) = f g + rest"
proof -
  have eq: "gs = take i gs @ [gs ! i] @ drop (Suc i) gs" using assms by (simp add: id_take_nth_drop)
  have "all_held f gs = f (gs ! i) + (all_held f (take i gs) + all_held f (drop (Suc i) gs))"
    by (subst eq) (simp add: all_held_def ac_simps)
  moreover have "all_held f (gs[i := g]) = f g + (all_held f (take i gs) + all_held f (drop (Suc i) gs))" for g
    using assms by (simp add: upd_conv_take_nth_drop all_held_def ac_simps)
  ultimately show ?thesis by (rule that)
qed

text \<open>Replacing a goroutine: what it holds changes with it, and the others are as they were.\<close>

lemma serves_update:
  assumes "serves ev reg s (sys, gs)" and "i < length gs"
    and "\<And>W. wheld (gs ! i) + W \<subseteq># sy_wruns s \<Longrightarrow> wheld g + W \<subseteq># sy_wruns s'"
    and "\<And>A. aheld (gs ! i) + A \<subseteq># sy_aruns s \<Longrightarrow> aheld g + A \<subseteq># sy_aruns s'"
    and "sys' = s'\<lparr>sy_wruns := {#}, sy_aruns := {#}\<rparr>" and "sy_wtasks s' = sy_wtasks s" "sy_atasks s' = sy_atasks s"
    and "go_ok ev reg (sy_wtasks s) (sy_atasks s) (gs ! i) \<Longrightarrow> go_ok ev reg (sy_wtasks s) (sy_atasks s) g"
  shows "serves ev reg s' (sys', gs[i := g])"
proof -
  obtain W where W: "all_held wheld gs = wheld (gs ! i) + W" "\<And>h. all_held wheld (gs[i := h]) = wheld h + W"
    using all_held_split [OF assms(2)] by metis
  obtain A where A: "all_held aheld gs = aheld (gs ! i) + A" "\<And>h. all_held aheld (gs[i := h]) = aheld h + A"
    using all_held_split [OF assms(2)] by metis
  have "go_ok ev reg (sy_wtasks s) (sy_atasks s) h" if "h \<in> set (gs[i := g])" for h
    using that set_update_subset_insert [of gs i g] assms(1,2,8) by (auto simp: serves_def)
  with assms(1,3-7) W A show ?thesis by (simp add: serves_def)
qed

lemma go_ok_mono:
  "go_ok ev reg ws as g \<Longrightarrow> ws \<subseteq> ws' \<Longrightarrow> as \<subseteq> as' \<Longrightarrow> go_ok ev reg ws' as' g"
  by (cases g; cases "fst g") auto

text \<open>Each step of the crew is one step of the engine, or none.\<close>

lemma effects_keep_tasks:
  "sy_wtasks (fold apply_effect es t) = sy_wtasks t" "sy_atasks (fold apply_effect es t) = sy_atasks t"
proof (induction es arbitrary: t)
  case (Cons e es)
  {
    case 1
    show ?case using Cons.IH(1) [of "apply_effect e t"] by (cases e) auto
  next
    case 2
    show ?case using Cons.IH(2) [of "apply_effect e t"] by (cases e) auto
  }
qed simp_all

lemma tasks_grow: "sys_step ev reg s s' \<Longrightarrow> sy_wtasks s \<subseteq> sy_wtasks s' \<and> sy_atasks s \<subseteq> sy_atasks s'"
  by (induction rule: sys_step.induct) (auto simp: effects_keep_tasks)

text \<open>Steps that load and finish no task do not depend on the tasks that are loaded.\<close>

lemma runs_updated_last:
  "s\<lparr>sy_wruns := W, sy_aruns := A, sy_wtasks := X\<rparr> = s\<lparr>sy_wtasks := X, sy_wruns := W, sy_aruns := A\<rparr>"
  "s\<lparr>sy_wruns := W, sy_aruns := A, sy_atasks := X\<rparr> = s\<lparr>sy_atasks := X, sy_wruns := W, sy_aruns := A\<rparr>"
  "s\<lparr>sy_wruns := W, sy_aruns := A, sy_results := R\<rparr> = s\<lparr>sy_results := R, sy_wruns := W, sy_aruns := A\<rparr>"
  "s\<lparr>sy_wruns := W, sy_aruns := A, sy_ids := I\<rparr> = s\<lparr>sy_ids := I, sy_wruns := W, sy_aruns := A\<rparr>"
  by (cases s; simp)+

lemma serve_with_runs:
  assumes "sys_step ev reg s s'" and "sy_wruns s' = {#}" "sy_aruns s' = {#}" "sy_wruns s = {#}" "sy_aruns s = {#}"
  shows "sys_step ev reg (s\<lparr>sy_wruns := W, sy_aruns := A\<rparr>) (s'\<lparr>sy_wruns := W, sy_aruns := A\<rparr>)"
  using assms(1)
proof cases
  case (request w data)
  have runs: "(fold apply_effect es t)\<lparr>sy_wruns := W, sy_aruns := A\<rparr> = fold apply_effect es (t\<lparr>sy_wruns := W, sy_aruns := A\<rparr>)"
    for es :: "'a effect list" and t
  proof (induction es arbitrary: t)
    case (Cons e es)
    have "(apply_effect e t)\<lparr>sy_wruns := W, sy_aruns := A\<rparr> = apply_effect e (t\<lparr>sy_wruns := W, sy_aruns := A\<rparr>)"
      by (cases e) auto
    with Cons.IH [of "apply_effect e t"] show ?case by simp
  qed simp
  have "s'\<lparr>sy_wruns := W, sy_aruns := A\<rparr> = fold apply_effect (handle_request (env_serde ev) w data)
      (s\<lparr>sy_wruns := W, sy_aruns := A, sy_ids := insert (ce_uuid w) (sy_ids (s\<lparr>sy_wruns := W, sy_aruns := A\<rparr>))\<rparr>)"
    unfolding request(1) runs runs_updated_last by simp
  with sys_step.request [of w "s\<lparr>sy_wruns := W, sy_aruns := A\<rparr>" ev reg data] request(2-4) show ?thesis by simp
next
  case (project_workflow r wid publish v meta)
  with sys_step.project_workflow [of r "s\<lparr>sy_wruns := W, sy_aruns := A\<rparr>" wid ev reg publish v meta]
  show ?thesis by (simp add: runs_updated_last)
next
  case (project_activity r wid now_ms publish v meta)
  with sys_step.project_activity [of r "s\<lparr>sy_wruns := W, sy_aruns := A\<rparr>" wid ev reg now_ms publish v meta]
  show ?thesis by (simp add: runs_updated_last)
next
  case (project_retry r wid v meta delay e consumer fetch publish now_ns)
  with sys_step.project_retry [of r "s\<lparr>sy_wruns := W, sy_aruns := A\<rparr>" wid ev v meta delay e reg consumer fetch publish now_ns]
  show ?thesis by (simp add: runs_updated_last)
next
  case (project_result r wid put v meta)
  with sys_step.project_result [of r "s\<lparr>sy_wruns := W, sy_aruns := A\<rparr>" wid ev reg put v meta]
  show ?thesis by (simp add: runs_updated_last)
qed (use assms(2-5) in auto)

text \<open>Each step of the crew is one step of the engine, or none.\<close>

lemma wruns_add: "X \<subseteq># B \<Longrightarrow> {#x#} + X \<subseteq># add_mset x B"
  by (simp add: subseteq_mset_def)

lemma wruns_remove: "{#x#} + X \<subseteq># B \<Longrightarrow> X \<subseteq># B - {#x#}"
  by (simp add: insert_subset_eq_iff)

lemma crew_step_simulated:
  assumes "crew_step ev reg cr cr'" and "serves ev reg s cr"
  shows "\<exists>s'. (s' = s \<or> sys_step ev reg s s') \<and> serves ev reg s' cr'"
  using assms(1)
proof cases
  case (serve sys sys' gs)
  have sys: "sys = s\<lparr>sy_wruns := {#}, sy_aruns := {#}\<rparr>" using assms(2) serve(1) by (simp add: serves_def)
  let ?s' = "sys'\<lparr>sy_wruns := sy_wruns s, sy_aruns := sy_aruns s\<rparr>"
  have st: "sys_step ev reg s ?s'" using serve_with_runs [OF serve(3-5), where W = "sy_wruns s" and A = "sy_aruns s"] sys by simp
  have grow: "sy_wtasks s \<subseteq> sy_wtasks ?s'" "sy_atasks s \<subseteq> sy_atasks ?s'" using tasks_grow [OF st] by auto
  have "\<forall>g \<in> set gs. go_ok ev reg (sy_wtasks ?s') (sy_atasks ?s') g"
    using assms(2) serve(1) go_ok_mono [OF _ grow] unfolding serves_def by auto
  then have "serves ev reg ?s' cr'" using assms(2) serve by (simp add: serves_def)
  with st show ?thesis by blast
next
  case (receive_workflow bs sys cancelled t gs)
  then obtain w where "t = TaskWorkflow w" "de_wtask (env_serde ev) bs = Inr w"
    by (auto simp: handle_message_def enqueue_task_def split: sum.splits if_splits)
  then have "serves ev reg s cr'" using assms(2) receive_workflow by (auto simp: serves_def)
  then show ?thesis by blast
next
  case (receive_activity bs sys cancelled t gs)
  then obtain a where "t = TaskActivity a" "de_atask (env_serde ev) bs = Inr a"
    by (auto simp: handle_message_def enqueue_task_def split: sum.splits if_splits)
  then have "serves ev reg s cr'" using assms(2) receive_activity by (auto simp: serves_def)
  then show ?thesis by blast
next
  case (give_up i gs t g sys e)
  have held: "wheld (t, Exited (Some e)) = {#}" "aheld (t, Exited (Some e)) = {#}" by (cases t; simp)+
  have "serves ev reg s (sys, gs[i := (t, Exited (Some e))])"
  proof (rule serves_update)
    show "serves ev reg s (sys, gs)" using assms(2) give_up by simp
    show "go_ok ev reg (sy_wtasks s) (sy_atasks s) (gs ! i) \<Longrightarrow> go_ok ev reg (sy_wtasks s) (sy_atasks s) (t, Exited (Some e))"
      using give_up by (cases t) auto
  qed (use give_up assms(2) held in \<open>auto simp: serves_def dest: subset_mset.order_trans [OF mset_subset_eq_add_right]\<close>)
  with give_up show ?thesis by auto
next
  case (process i gs sys areg clock now_ms)
  obtain t st where g: "gs ! i = (t, st)" by fastforce
  let ?g = "go_process ev reg areg clock now_ms (gs ! i)"
  have held: "wheld ?g \<subseteq># wheld (gs ! i)" "aheld ?g \<subseteq># aheld (gs ! i)"
    by (cases t; cases st; auto simp: g go_process_def split: prod.splits option.splits)+
  have "serves ev reg s (sys, gs[i := ?g])"
  proof (rule serves_update)
    show "serves ev reg s (sys, gs)" using assms(2) process by simp
    show "i < length gs" by (rule process)
    show "wheld (gs ! i) + W \<subseteq># sy_wruns s \<Longrightarrow> wheld ?g + W \<subseteq># sy_wruns s" for W
      using held(1) by (metis subset_mset.add_right_mono subset_mset.order_trans)
    show "aheld (gs ! i) + A \<subseteq># sy_aruns s \<Longrightarrow> aheld ?g + A \<subseteq># sy_aruns s" for A
      using held(2) by (metis subset_mset.add_right_mono subset_mset.order_trans)
    show "go_ok ev reg (sy_wtasks s) (sy_atasks s) (gs ! i) \<Longrightarrow> go_ok ev reg (sy_wtasks s) (sy_atasks s) ?g"
      by (cases t; cases st) (auto simp: g go_process_def split: prod.splits option.splits intro: exI [of _ clock])
  qed (use process assms(2) in \<open>simp_all add: serves_def\<close>)
  with process show ?thesis by auto
next
  case (replay i gs sys)
  have srv: "serves ev reg s (sys, gs)" using assms(2) replay by simp
  have ok: "go_ok ev reg (sy_wtasks s) (sy_atasks s) (gs ! i)" using srv replay(3) by (simp add: serves_def)
  have sys: "sys = s\<lparr>sy_wruns := {#}, sy_aruns := {#}\<rparr>" using srv by (simp add: serves_def)
  let ?g = "go_replay (wf_get (env_serde ev)) (sy_log sys) (gs ! i)"
  have stay: ?thesis if "wheld ?g = wheld (gs ! i)" "aheld ?g = aheld (gs ! i)"
      "go_ok ev reg (sy_wtasks s) (sy_atasks s) ?g"
  proof -
    have "serves ev reg s (sys, gs[i := ?g])" by (rule serves_update [OF srv replay(3)]) (use that sys in auto)
    with replay show ?thesis by auto
  qed
  show ?thesis
  proof (cases "\<exists>t c. gs ! i = (t, Spawned) \<and> wf_get (env_serde ev) (sy_log s) (task_workflow t) = Inr c")
    case False
    obtain t st where g: "gs ! i = (t, st)" by fastforce
    show ?thesis
    proof (cases "st = Spawned")
      case True
      with False g sys obtain e where "?g = (t, Exited (Some e))"
        by (cases "wf_get (env_serde ev) (sy_log s) (task_workflow t)") (auto simp: go_replay_def)
      with True g ok show ?thesis by (cases t) (auto intro!: stay)
    next
      case other: False
      then have "?g = gs ! i" using g by (cases st) (auto simp: go_replay_def)
      with ok show ?thesis by (auto intro!: stay)
    qed
  next
    case True
    then obtain t c where g: "gs ! i = (t, Spawned)" and get: "wf_get (env_serde ev) (sy_log s) (task_workflow t) = Inr c"
      by blast
    have new: "?g = (t, Replayed c)" using g get sys by (simp add: go_replay_def)
    show ?thesis
    proof (cases t)
      case (TaskWorkflow w)
      then obtain bs where "bs \<in> sy_wtasks s" "de_wtask (env_serde ev) bs = Inr w" using ok g by auto
      then have st: "sys_step ev reg s (s\<lparr>sy_wruns := add_mset (w, c) (sy_wruns s)\<rparr>)"
        using get TaskWorkflow by (intro sys_step.load_workflow) auto
      have "serves ev reg (s\<lparr>sy_wruns := add_mset (w, c) (sy_wruns s)\<rparr>) (sys, gs[i := (t, Replayed c)])"
        by (rule serves_update [OF srv replay(3)]) (use g TaskWorkflow sys in auto)
      with st new replay show ?thesis by auto
    next
      case (TaskActivity a)
      then obtain bs where "bs \<in> sy_atasks s" "de_atask (env_serde ev) bs = Inr a" using ok g by auto
      then have st: "sys_step ev reg s (s\<lparr>sy_aruns := add_mset (a, c) (sy_aruns s)\<rparr>)"
        using get TaskActivity by (intro sys_step.load_activity) auto
      have "serves ev reg (s\<lparr>sy_aruns := add_mset (a, c) (sy_aruns s)\<rparr>) (sys, gs[i := (t, Replayed c)])"
        by (rule serves_update [OF srv replay(3)]) (use g TaskActivity sys in auto)
      with st new replay show ?thesis by auto
    qed
  qed
next
  case (save i gs t c d c' sys l' g)
  let ?save = "wf_save (env_serde ev)"
  have srv: "serves ev reg s (sys, gs)" using assms(2) save by simp
  have ok: "go_ok ev reg (sy_wtasks s) (sy_atasks s) (t, Settled c d c')"
    using srv save(3,4) nth_mem [OF save(3)] by (simp add: serves_def)
  have sys: "sys = s\<lparr>sy_wruns := {#}, sy_aruns := {#}\<rparr>" using srv by (simp add: serves_def)
  have l': "l' = fst (?save (sy_log s) c')" and g: "\<exists>e. g = (t, Exited e)"
    using save(4,6) sys by (auto simp: go_save_def split: prod.splits sum.splits)
  show ?thesis
  proof (cases t)
    case (TaskWorkflow w)
    with ok obtain clock where c': "fst (process_workflow_task ev reg clock c w) = c'" by auto
    have held: "(w, c) \<in># sy_wruns s"
    proof (rule mset_subset_eqD)
      show "all_held wheld gs \<subseteq># sy_wruns s" using srv by (simp add: serves_def)
      show "(w, c) \<in># all_held wheld gs"
        using all_held_split [OF save(3), of wheld] save(4) TaskWorkflow by (metis union_iff wheld.simps(2) union_single_eq_member)
    qed
    have log: "h_log (handle_workflow_task (\<lambda>_ _. Inr c) ?save ev reg clock (sy_log s) w) = l'"
      using c' l' by (auto simp: handle_workflow_task_def h_log_save_after split: prod.split option.split)
    let ?s' = "s\<lparr>sy_log := l', sy_wruns := sy_wruns s - {#(w, c)#}\<rparr>"
    have "mem_total (sy_log s) + length (root_uncommitted (fst (process_workflow_task ev reg clock c w))) < 2 ^ 64"
      using save(5) sys c' by (simp add: room_to_save_def)
    from sys_step.finish_workflow [OF held this] have st: "sys_step ev reg s ?s'" by (simp add: log)
    have "serves ev reg ?s' (sys\<lparr>sy_log := l'\<rparr>, gs[i := g])"
      by (rule serves_update [OF srv save(3)]) (use save(4) TaskWorkflow g sys in \<open>auto intro: wruns_remove\<close>)
    with st save show ?thesis by blast
  next
    case (TaskActivity a)
    with ok obtain areg now_ms err where c': "process_activity_task ev areg now_ms c a = (c', err, None)" by auto
    have held: "(a, c) \<in># sy_aruns s"
    proof (rule mset_subset_eqD)
      show "all_held aheld gs \<subseteq># sy_aruns s" using srv by (simp add: serves_def)
      show "(a, c) \<in># all_held aheld gs"
        using all_held_split [OF save(3), of aheld] save(4) TaskActivity by (metis union_iff aheld.simps(2) union_single_eq_member)
    qed
    have log: "h_log (handle_activity_task (\<lambda>_ _. Inr c) ?save ev areg now_ms (sy_log s) a) = l'"
      using c' l' by (cases err) (auto simp: handle_activity_task_def h_log_save_after)
    let ?s' = "s\<lparr>sy_log := l', sy_aruns := sy_aruns s - {#(a, c)#}\<rparr>"
    have "mem_total (sy_log s) + 1 < 2 ^ 64" using save(5) sys by (simp add: room_to_save_def)
    from sys_step.finish_activity [OF held this] have st: "sys_step ev reg s ?s'" by (metis log)
    have "serves ev reg ?s' (sys\<lparr>sy_log := l'\<rparr>, gs[i := g])"
      by (rule serves_update [OF srv save(3)]) (use save(4) TaskActivity g sys in \<open>auto intro: wruns_remove\<close>)
    with st save show ?thesis by blast
  qed
qed

section \<open>Two goroutines on one workflow\<close>

context event_repository
begin

text \<open>Of two roots that continue the same version of a stream, the one saved second is refused.\<close>

lemma second_save_refused:
  assumes inv: "invar l" and room: "total l + length (root_uncommitted r) < 2 ^ 64"
    and ne: "root_uncommitted r \<noteq> []" "root_uncommitted q \<noteq> []"
    and same: "ident (root_state q) = ident (root_state r)"
      "root_version q - of_nat (length (root_uncommitted q)) = root_version r - of_nat (length (root_uncommitted r))"
    and first: "repo_save append ident repo l r = (l1, r', Inr res)"
  shows "\<exists>e q'. repo_save append ident repo l1 q = (l1, q', Inl e)"
proof -
  let ?lg = "ident (root_state r)" and ?v = "root_version r - of_nat (length (root_uncommitted r))"
  obtain raws v1 where raws: "serialize_all (repo_codec repo) (root_uncommitted r) = Inr raws"
    "append l ?lg (CheckExact ?v) raws = (l1, Inr v1)"
    using first ne(1)
    by (auto simp: repo_save_def commit_events_def flush_uncommitted_events_def Let_def raw_events_from_uncommitted_def
      no_transformers split: sum.splits prod.splits)
  have b: "total l + length raws < 2 ^ 64" using room serialize_all_length [OF raws(1)] by simp
  show ?thesis
  proof (cases "serialize_all (repo_codec repo) (root_uncommitted q)")
    case (Inl e)
    with ne(2) show ?thesis
      by (simp add: repo_save_def commit_events_def flush_uncommitted_events_def Let_def raw_events_from_uncommitted_def
        no_transformers)
  next
    case (Inr qs)
    have "qs \<noteq> []" using serialize_all_length [OF Inr] ne(2) by auto
    from second_writer_conflicts [OF inv b raws(2) this] obtain e where "append l1 ?lg (CheckExact ?v) qs = (l1, Inl e)"
      by blast
    with Inr ne(2) same show ?thesis
      by (simp add: repo_save_def commit_events_def flush_uncommitted_events_def Let_def raw_events_from_uncommitted_def
        no_transformers)
  qed
qed

end

text \<open>What settling a message leaves to be saved: new events on top of the replayed version.\<close>

lemma settled_context:
  assumes "go_process ev reg areg clock now_ms (t, Replayed c) = (t, Settled c d c')"
    and "root_uncommitted c = []" and "st_id (root_state c) = task_workflow t"
  shows "root_version c' - of_nat (length (root_uncommitted c')) = root_version c"
    and "st_id (root_state c') = task_workflow t"
proof -
  have "root_version c' = root_version c + of_nat (length (root_uncommitted c')) \<and> st_id (root_state c') = task_workflow t"
  proof (cases t)
    case (TaskWorkflow w)
    with assms(1) obtain err where p: "process_workflow_task ev reg clock c w = (c', err)"
      by (auto simp: go_process_def split: prod.splits option.splits)
    then show ?thesis
      by (cases rule: process_workflow_cases) (use assms(2,3) TaskWorkflow in simp_all)
  next
    case (TaskActivity a)
    with assms(1) obtain err where p: "process_activity_task ev areg now_ms c a = (c', err, None)"
      by (auto simp: go_process_def split: prod.splits option.splits)
    then show ?thesis
      by (cases rule: process_activity_cases)
        (use assms(2,3) TaskActivity in \<open>auto simp: settle_activity_error_def split: if_splits\<close>)
  qed
  then show "root_version c' - of_nat (length (root_uncommitted c')) = root_version c"
    and "st_id (root_state c') = task_workflow t" by simp_all
qed

section \<open>Properties\<close>

text \<open>
  (C4) However the goroutines of any number of workers interleave with each
  other, with the command handler and with the projectors, and whichever of them give up or panic,
  every state of the system they reach is a state of the engine, up to the tasks that the engine counts as loaded.
\<close>

theorem interleaved_workers_refine_engine:
  assumes "(crew_step ev reg)\<^sup>*\<^sup>* (initial_system, []) (s, gs)"
  shows "\<exists>t. reachable ev reg t \<and> s = t\<lparr>sy_wruns := {#}, sy_aruns := {#}\<rparr>"
proof -
  have "\<exists>t. reachable ev reg t \<and> serves ev reg t cr" if "(crew_step ev reg)\<^sup>*\<^sup>* (initial_system, []) cr" for cr
    using that
  proof (induction rule: rtranclp_induct)
    case base
    have "serves ev reg initial_system (initial_system, [])" by (simp add: serves_def initial_system_def all_held_def)
    then show ?case using reachable.start by blast
  next
    case (step cr cr')
    then obtain t where "reachable ev reg t" "serves ev reg t cr" by blast
    with crew_step_simulated [OF step.hyps(2)] show ?case by (metis reachable.step)
  qed
  with assms show ?thesis unfolding serves_def by fastforce
qed

text \<open>
  (C5) When two goroutines replay a workflow at the same point and both record events, the one
  that saves second stores nothing: its save is refused and ends its worker.
\<close>

theorem one_save_wins:
  assumes wf: "mem_wf (\<lambda>_. 0) l" and room: "room_to_save l c1"
    and replayed: "go_replay (wf_get sd) l (t, Spawned) = (t, Replayed c)" "go_replay (wf_get sd) l (u, Spawned) = (u, Replayed c)"
    and owner: "task_workflow t = task_workflow u" "st_id (root_state c) = task_workflow t"
    and processed: "go_process ev reg areg clock now_ms (t, Replayed c) = (t, Settled c d c1)"
      "go_process ev reg areg' clock' now_ms' (u, Replayed c) = (u, Settled c d' c2)"
    and news: "root_uncommitted c1 \<noteq> []" "root_uncommitted c2 \<noteq> []"
    and saved: "go_save (wf_save sd) l (t, Settled c d c1) = (l1, (t, Exited None))"
  shows "\<exists>e. go_save (wf_save sd) l1 (u, Settled c d' c2) = (l1, (u, Exited (Some e)))"
proof -
  have "root_uncommitted c = []"
  proof (cases "wfmem.decoded sd l (task_workflow t)")
    case (Inl e)
    from wfmem.get_undecodable [OF wf this] replayed(1) show ?thesis by (auto simp: go_replay_def)
  next
    case (Inr es)
    from wfmem.get_decoded [OF wf this] replayed(1) have "c = replayed wf_apply (wf_repo sd) es"
      by (auto simp: go_replay_def split: if_splits)
    then show ?thesis by (simp add: replayed_def wf_repo_def new_empty_workflow_context_def)
  qed
  note C1 = settled_context [OF processed(1) this owner(2)]
    and C2 = settled_context [OF processed(2) this owner(2) [unfolded owner(1)]]
  obtain r' res where first: "wf_save sd l c1 = (l1, r', Inr res)"
    using saved by (auto simp: go_save_def split: prod.splits sum.splits)
  have "\<exists>e q'. wf_save sd l1 c2 = (l1, q', Inl e)"
    using wfmem.second_save_refused [OF wf _ news _ _ first] room C1 C2 owner(1) by (simp add: room_to_save_def)
  then show ?thesis by (auto simp: go_save_def)
qed

text \<open>
  A goroutine that nobody interrupts does what the handling of its task as a whole says:
  the replay, the run and the save in sequence leave the same log, and the goroutine ends with the
  same error or the same panic.
\<close>

theorem goroutine_alone_is_dispatch:
  "go_save save l (go_process ev wreg areg clock now_ms (go_replay get l (t, Spawned))) =
    (let h = dispatch_task get save ev wreg areg clock now_ms l t in
      (h_log h, (t, case h_panic h of Some p \<Rightarrow> Crashed p | None \<Rightarrow> Exited (h_err h))))"
proof (cases "get l (task_workflow t)")
  case (Inl e)
  then show ?thesis
    by (cases t) (simp_all add: Let_def go_replay_def go_process_def go_save_def dispatch_task_def
      handle_workflow_task_def handle_activity_task_def)
next
  case (Inr c)
  show ?thesis
  proof (cases t)
    case (TaskWorkflow w)
    obtain c' err where p: "process_workflow_task ev wreg clock c w = (c', err)" by fastforce
    show ?thesis
      using Inr TaskWorkflow p
      by (cases err; cases "save l c'")
        (auto simp: Let_def go_replay_def go_process_def go_save_def dispatch_task_def handle_workflow_task_def
          save_after_def split: sum.splits)
  next
    case (TaskActivity a)
    obtain c' err pn where p: "process_activity_task ev areg now_ms c a = (c', err, pn)" using prod_cases3 by blast
    show ?thesis
      using Inr TaskActivity p
      by (cases err; cases pn; cases "save l c'")
        (auto simp: Let_def go_replay_def go_process_def go_save_def dispatch_task_def handle_activity_task_def
          save_after_def split: sum.splits)
  qed
qed

section \<open>Witnesses\<close>

text \<open>The workflow that returns its argument, whose task is delivered to a worker.\<close>

definition echo_settled :: goroutine where
  "echo_settled = (TaskWorkflow echo_task, Settled (context_after echo_history) Ack
     (fst (wf_record_that (context_after echo_history) echo_completed)))"

lemma echo_goroutine:
  "go_replay (wf_get demo_serde) (sy_log echo_started) (TaskWorkflow echo_task, Spawned)
    = (TaskWorkflow echo_task, Replayed (context_after echo_history))"
  "go_process demo_env demo_echo areg clock now_ms (TaskWorkflow echo_task, Replayed (context_after echo_history)) = echo_settled"
  using echo_gets by (simp_all add: go_replay_def go_process_def echo_finishes echo_settled_def) (simp_all add: echo_task_def)

lemma echo_save:
  "go_save (wf_save demo_serde) (sy_log echo_started) echo_settled = (sy_log echo_done, (TaskWorkflow echo_task, Exited None))"
  "room_to_save (sy_log echo_started) (fst (wf_record_that (context_after echo_history) echo_completed))"
proof -
  let ?c = "fst (wf_record_that (context_after echo_history) echo_completed)"
  have log: "sy_log echo_done = h_log (save_after (wf_save demo_serde) (sy_log echo_started) Ack ?c)"
    by (simp add: echo_done_def handle_workflow_task_def echo_finishes)
  have at_end: "root_version ?c = of_nat (length echo_history + length (root_uncommitted ?c))"
    "st_id (root_state ?c) = ''w1''" and room: "mem_total (sy_log echo_started) + length (root_uncommitted ?c) < 2 ^ 64"
    by (simp_all add: echo_history_def context_after_def echo_completed_def echo_log_facts(3))
  have "h_err (save_after (wf_save demo_serde) (sy_log echo_started) Ack ?c) = None"
    using save_after_stream(1,2) [OF echo_log_facts(1,2) at_end room, of Ack] by (simp add: context_after_def)
  then show "go_save (wf_save demo_serde) (sy_log echo_started) echo_settled = (sy_log echo_done, (TaskWorkflow echo_task, Exited None))"
    unfolding log by (auto simp: save_after_def go_save_def echo_settled_def split: prod.splits sum.splits)
  show "room_to_save (sy_log echo_started) ?c" using room by (simp add: room_to_save_def echo_log_facts(3))
qed

theorem interleaved_workers_refine_engine_witness:
  "\<exists>t. reachable demo_env demo_echo t \<and> stream_events demo_serde (sy_log t) ''w1'' = Inr (echo_history @ [echo_completed])"
proof -
  let ?step = "crew_step demo_env demo_echo" and ?g = "(TaskWorkflow echo_task, Spawned)"
  have "?step (initial_system, []) (echo_started, [])"
    by (rule crew_step.serve [OF echo_started_step]) (simp_all add: echo_started_def initial_system_def)
  moreover have "?step (echo_started, []) (echo_tasked, [])"
    by (rule crew_step.serve [OF echo_tasked_step]) (simp_all add: echo_tasked_def echo_started_def initial_system_def)
  moreover have "?step (echo_tasked, []) (echo_tasked, [] @ [?g])"
    by (rule crew_step.receive_workflow [where bs = "[DWTask echo_task]" and cancelled = False])
      (simp_all add: echo_tasked_def handle_message_def enqueue_task_def demo_serde_def)
  moreover have "?step (echo_tasked, [?g]) (echo_tasked, [(TaskWorkflow echo_task, Replayed (context_after echo_history))])"
    using crew_step.replay [of 0 "[?g]" demo_env demo_echo echo_tasked] by (simp add: echo_tasked_def echo_goroutine)
  moreover have "?step (echo_tasked, [(TaskWorkflow echo_task, Replayed (context_after echo_history))]) (echo_tasked, [echo_settled])"
    using crew_step.process [of 0 "[(TaskWorkflow echo_task, Replayed (context_after echo_history))]" demo_env demo_echo echo_tasked]
    by (simp add: echo_goroutine)
  moreover have "?step (echo_tasked, [echo_settled])
      (echo_tasked\<lparr>sy_log := sy_log echo_done\<rparr>, [echo_settled][0 := (TaskWorkflow echo_task, Exited None)])"
    by (rule crew_step.save [where c = "context_after echo_history" and d = Ack and t = "TaskWorkflow echo_task"
          and c' = "fst (wf_record_that (context_after echo_history) echo_completed)"])
      (use echo_save in \<open>simp_all add: echo_tasked_def echo_settled_def\<close>)
  ultimately have "?step\<^sup>*\<^sup>* (initial_system, []) (echo_tasked\<lparr>sy_log := sy_log echo_done\<rparr>, [(TaskWorkflow echo_task, Exited None)])"
    by (simp add: rtranclp.rtrancl_into_rtrancl)
  from interleaved_workers_refine_engine [OF this] obtain t where
    "reachable demo_env demo_echo t" "sy_log t = sy_log echo_done" by (metis system.select_convs(1) system.surjective system.update_convs(1) system.update_convs(6) system.update_convs(7))
  with echo_done_facts(2) show ?thesis by auto
qed

theorem one_save_wins_witness:
  "\<exists>e. go_save (wf_save demo_serde) (sy_log echo_done) echo_settled = (sy_log echo_done, (TaskWorkflow echo_task, Exited (Some e)))"
  using one_save_wins [OF echo_log_facts(1) echo_save(2) echo_goroutine(1) echo_goroutine(1) refl _
      echo_goroutine(2) [unfolded echo_settled_def] echo_goroutine(2) [unfolded echo_settled_def] _ _ echo_save(1) [unfolded echo_settled_def]]
  by (simp add: echo_settled_def echo_task_def echo_history_def context_after_def echo_completed_def echo_start)

end
