(* ===== verification/DF_Live.thy ===== *)
theory DF_Live
  imports DF_Worker
begin

text \<open>
  That workflows make progress. A workflow task runs the function on the recorded history; if it
  waits, the activities it scheduled are answered and the next task runs it again. The next run then
  goes beyond the point where the last one waited, and schedules no call a second time; so a
  workflow that makes at most \<open>n\<close> calls, one after the other or at once, ends with its task
  \<open>n + 1\<close> at the latest. Without a bound on its calls nothing is claimed to end: a function
  may call activities for ever.
\<close>

section \<open>Rounds\<close>

text \<open>\<open>ans e\<close> is the event that answers the scheduled activity \<open>e\<close>: its completion or its failure.\<close>

definition answers :: "(wf_event \<Rightarrow> wf_event) \<Rightarrow> bool" where
  "answers ans \<longleftrightarrow> (\<forall>a. \<exists>rr. outcome_of (ans (ActivityScheduled a)) = Some (as_fn a, rr))"

fun drive ::
    "'x env \<Rightarrow> workflow_fn fn_registry \<Rightarrow> (nat \<Rightarrow> i64) \<Rightarrow> (wf_event \<Rightarrow> wf_event) \<Rightarrow> workflow_task \<Rightarrow> nat
      \<Rightarrow> wf_event list \<Rightarrow> gval list exec option" where
  "drive ev reg clock ans task 0 es = None"
| "drive ev reg clock ans task (Suc n) es =
     (case exec_workflow ev reg clock (context_after es) task of
        (c, ExecPanic BlockingFuture) \<Rightarrow>
          drive ev reg clock ans task n (es @ root_uncommitted c @ map ans (root_uncommitted c))
      | (c, r) \<Rightarrow> Some r)"

lemma drive_ends:
  "exec_workflow ev reg clock (context_after es) task = (c, r) \<Longrightarrow> r \<noteq> ExecPanic BlockingFuture \<Longrightarrow>
    drive ev reg clock ans task (Suc n) es = Some r"
  by (cases r) (auto split: panic.split)

lemma drive_waits:
  "exec_workflow ev reg clock (context_after es) task = (c, ExecPanic BlockingFuture) \<Longrightarrow>
    drive ev reg clock ans task (Suc n) es =
      drive ev reg clock ans task n (es @ root_uncommitted c @ map ans (root_uncommitted c))"
  by simp

lemma drive_mono: "drive ev reg clock ans task n es = Some r \<Longrightarrow> n \<le> m \<Longrightarrow> drive ev reg clock ans task m es = Some r"
proof (induction n arbitrary: m es)
  case (Suc n)
  then obtain m' where m: "m = Suc m'" "n \<le> m'" by (cases m) auto
  obtain c r' where run: "exec_workflow ev reg clock (context_after es) task = (c, r')" by fastforce
  show ?case
  proof (cases "r' = ExecPanic BlockingFuture")
    case True
    with run have run': "exec_workflow ev reg clock (context_after es) task = (c, ExecPanic BlockingFuture)" by simp
    show ?thesis using Suc.prems(1) Suc.IH [OF _ m(2)] unfolding m(1) drive_waits [OF run'] by blast
  next
    case False
    show ?thesis using Suc.prems(1) unfolding m(1) drive_ends [OF run False] .
  qed
qed simp

section \<open>The position of a run\<close>

text \<open>
  The points a run of \<open>p\<close> on the history \<open>es\<close> passes, with the context, the futures
  and, for each future, the activity and the index of its call.
\<close>

inductive at_point ::
    "prog \<Rightarrow> (gval \<Rightarrow> string) \<Rightarrow> 'x serde option \<Rightarrow> (nat \<Rightarrow> i64) \<Rightarrow> wf_event list \<Rightarrow> prog \<Rightarrow> workflow_context
      \<Rightarrow> blocking list \<Rightarrow> (string \<times> nat) list \<Rightarrow> bool"
  for p fv sd clock es where
  start: "at_point p fv sd clock es p (context_after es) [] []"
| exec: "at_point p fv sd clock es (PExec cx (Inr fn) args k) c futs calls \<Longrightarrow>
    execute_activity (clock (length futs)) cx (Inr fn) args c = (c1, Inr f) \<Longrightarrow>
    at_point p fv sd clock es (k (length futs)) c1 (futs @ [f])
      (calls @ [(fn, replay_consumed (replay_of (root_state c) fn))])"
| got: "at_point p fv sd clock es (PGet h ty k) c futs calls \<Longrightarrow> h < length futs \<Longrightarrow>
    blocking_get fv sd (futs ! h) ty = Inr r \<Longrightarrow> at_point p fv sd clock es (k r) c futs calls"

lemma at_point_run:
  "at_point p fv sd clock es q c futs calls \<Longrightarrow>
    run_prog p fv sd clock (context_after es) [] = run_prog q fv sd clock c futs"
  by (induction rule: at_point.induct) auto

text \<open>What the position knows of its futures.\<close>

lemma at_point_calls:
  assumes "at_point p fv sd clock es q c futs calls"
  shows "length calls = length futs \<and>
    (\<forall>fn. replay_history (replay_of (root_state c) fn) = activity_outcomes es fn) \<and>
    (\<forall>h < length futs. snd (calls ! h) < replay_consumed (replay_of (root_state c) (fst (calls ! h))) \<and>
       (bl_resolved (futs ! h) \<longleftrightarrow> snd (calls ! h) < length (activity_outcomes es (fst (calls ! h)))))"
  using assms
proof (induction rule: at_point.induct)
  case (exec cx fn args k c futs calls c1 f)
  show ?case
  proof (cases rule: execute_cases [of "Inr fn" "clock (length futs)" cx args c])
    case (replay fn' f')
    with exec show ?thesis by (auto simp: nth_append less_Suc_eq)
  next
    case (fresh fn' opts)
    with exec show ?thesis by (auto simp: nth_append less_Suc_eq)
  qed (use exec in auto)
qed simp_all

text \<open>A run on a longer history passes the same points, with the futures it knows resolved.\<close>

lemma at_point_extends:
  assumes "at_point p fv sd clock es q c futs calls"
  shows "\<exists>d gs. at_point p fv sd clock (es @ new) q d gs calls \<and> ctx_extends c d \<and> futs_extend futs gs"
  using assms
proof (induction rule: at_point.induct)
  case start
  have "ctx_extends (context_after es) (context_after (es @ new))"
    by (simp add: ctx_extends_def activity_outcomes_append)
  then show ?case using at_point.start [of p fv sd clock "es @ new"] by (auto simp: futs_extend_def)
next
  case (exec cx fn args k c futs calls c1 f)
  then obtain d gs where d: "at_point p fv sd clock (es @ new) (PExec cx (Inr fn) args k) d gs calls"
    "ctx_extends c d" "futs_extend futs gs" by blast
  obtain d1 g where g: "execute_activity (clock (length futs)) cx (Inr fn) args d = (d1, Inr g)"
    "ctx_extends c1 d1" "bl_resolved f \<Longrightarrow> g = f"
    using execute_extends [OF d(2) exec.hyps(2)] by blast
  have same: "length gs = length futs" "replay_consumed (replay_of (root_state d) fn) = replay_consumed (replay_of (root_state c) fn)"
    using futs_extend_length [OF d(3)] d(2) by (simp_all add: ctx_extends_def)
  have "at_point p fv sd clock (es @ new) (k (length futs)) d1 (gs @ [g])
      (calls @ [(fn, replay_consumed (replay_of (root_state c) fn))])"
    using at_point.exec [OF d(1), of d1 g] g(1) same by simp
  with g(2) futs_extend_snoc [OF d(3) g(3)] show ?case by blast
next
  case (got h ty k c futs calls r)
  then obtain d gs where d: "at_point p fv sd clock (es @ new) (PGet h ty k) d gs calls"
    "ctx_extends c d" "futs_extend futs gs" by blast
  have "bl_resolved (futs ! h)" using got.hyps(3) get_unresolved [of "futs ! h" fv sd ty] by auto
  then have "gs ! h = futs ! h" using d(3) got.hyps(2) by (auto simp: futs_extend_def list_all2_conv_all_nth)
  with at_point.got [OF d(1)] got.hyps(2,3) futs_extend_length [OF d(3)]
  have "at_point p fv sd clock (es @ new) (k r) d gs calls" by simp
  with d(2,3) show ?case by blast
qed

section \<open>Answering what was scheduled\<close>

lemma scheduled_no_outcome: "list_all is_scheduled evs \<Longrightarrow> activity_outcomes evs fn = []"
  by (induction evs) (auto simp: is_scheduled_def split: wf_event.splits)

lemma answered_outcomes:
  assumes "answers ans"
  shows "list_all is_scheduled evs \<Longrightarrow>
    length (activity_outcomes (map ans evs) fn) = length (filter (is_scheduled_for fn) evs)"
proof (induction evs)
  case (Cons e evs)
  then obtain a where a: "e = ActivityScheduled a" by (cases e) (simp_all add: is_scheduled_def)
  obtain rr where "outcome_of (ans e) = Some (as_fn a, rr)" using assms a unfolding answers_def by blast
  with Cons a show ?case by (simp add: is_scheduled_for_def)
qed simp

text \<open>
  A run that waits for a future: once what it scheduled is answered, the next run passes the point
  where it waited.
\<close>

lemma waiting_point_passed:
  assumes at: "at_point p fv sd clock es (PGet h ty k) c futs calls" and h: "h < length futs"
    and waits: "\<not> bl_resolved (futs ! h)" and ans: "answers ans"
  shows "\<exists>r d gs. at_point p fv sd clock (es @ root_uncommitted c @ map ans (root_uncommitted c)) (k r) d gs calls"
proof -
  let ?us = "root_uncommitted c" and ?fn = "fst (calls ! h)" and ?i = "snd (calls ! h)"
  let ?es = "es @ ?us @ map ans ?us"
  have run: "run_prog p fv sd clock (context_after es) [] = (c, Panicked BlockingFuture)"
    using at_point_run [OF at] h waits by simp
  have sched: "list_all is_scheduled ?us" using run_adds [OF run] by (auto simp: list_all_iff)
  have pos: "?i < replay_consumed (replay_of (root_state c) ?fn)" "\<not> ?i < length (activity_outcomes es ?fn)"
    using at_point_calls [OF at] h waits by blast+
  have "length (filter (is_scheduled_for ?fn) ?us) =
      max (replay_consumed (replay_of (root_state c) ?fn)) (length (activity_outcomes es ?fn)) - length (activity_outcomes es ?fn)"
    using run_counts [OF run, where fn = ?fn] by simp
  then have more: "?i < length (activity_outcomes ?es ?fn)"
    using pos scheduled_no_outcome [OF sched, of ?fn] answered_outcomes [OF ans sched, of ?fn]
    by (simp add: activity_outcomes_append)
  obtain d gs where d: "at_point p fv sd clock ?es (PGet h ty k) d gs calls" "futs_extend futs gs"
    using at_point_extends [OF at, of "?us @ map ans ?us"] by auto
  have len: "length gs = length futs" by (rule futs_extend_length [OF d(2)])
  with at_point_calls [OF d(1)] more h have "bl_resolved (gs ! h)" by simp
  then obtain r where "blocking_get fv sd (gs ! h) ty = Inr r" using get_resolved by blast
  with at_point.got [OF d(1)] h len show ?thesis by auto
qed

section \<open>What a task comes to\<close>

lemma convert_inputs_panic: "convert_inputs ev params i vs = ExecPanic pn \<Longrightarrow> pn \<noteq> BlockingFuture"
  by (induction ev params i vs rule: convert_inputs.induct) (auto split: if_splits sum.splits exec.splits)

text \<open>A task ends before its function runs, whatever the history, or it is a run of the function.\<close>

lemma exec_workflow_runs:
  obtains (ends) r where "r \<noteq> ExecPanic BlockingFuture" "\<And>c. exec_workflow ev reg clock c task = (c, r)"
  | (runs) name f args where "registry_get reg (wt_fn task) = Inr (FnValue name f)"
      "convert_inputs ev (wfn_in f) 1 (wt_input task) = ExecOk args"
      "\<And>c. exec_workflow ev reg clock c task =
         (case run_prog (wfn_body f args) (env_fmt ev) (Some (env_serde ev)) clock c [] of
            (c', Returned vs) \<Rightarrow> (c', ExecOk vs)
          | (c', Panicked p) \<Rightarrow> (c', ExecPanic p))"
proof (cases "registry_get reg (wt_fn task)")
  case (Inl e)
  show thesis by (rule ends [of "ExecErr e"]) (simp_all add: exec_workflow_def Inl)
next
  case reg: (Inr v)
  show thesis
  proof (cases v)
    case fn: (FnValue name f)
    show thesis
    proof (cases "convert_inputs ev (wfn_in f) 1 (wt_input task)")
      case (ExecErr e)
      show thesis by (rule ends [of "ExecErr e"]) (simp_all add: exec_workflow_def reg fn ExecErr [unfolded One_nat_def])
    next
      case (ExecPanic pn)
      have "pn \<noteq> BlockingFuture" using convert_inputs_panic [OF ExecPanic] .
      then show thesis by (intro ends [of "ExecPanic pn"]) (simp_all add: exec_workflow_def reg fn ExecPanic [unfolded One_nat_def])
    next
      case (ExecOk args)
      show thesis
      proof (cases "length (wfn_in f) = Suc (length args) \<and> takes_context (wfn_in f)")
        case True
        show thesis by (rule runs [OF _ ExecOk]) (simp_all add: reg fn, simp add: exec_workflow_def reg fn ExecOk [unfolded One_nat_def] True)
      next
        case False
        let ?m = "if Suc (length args) < length (wfn_in f) then ''reflect: Call with too few input arguments''
          else if length (wfn_in f) < Suc (length args) then ''reflect: Call with too many input arguments''
          else ''reflect: Call using *internal.workflowContext as another type''"
        have "exec_workflow ev reg clock c task = (c, ExecPanic (OtherPanic ?m))" for c
          using False by (auto simp: exec_workflow_def reg fn ExecOk [unfolded One_nat_def])
        then show thesis by (rule ends [rotated]) simp
      qed
    qed
  qed (rule ends [of "ExecPanic (OtherPanic ''reflect: call of Value.Type on zero Value'')"], simp_all add: exec_workflow_def reg)+
qed

lemma drive_at_end:
  assumes "\<And>c. exec_workflow ev reg clock c task =
         (case run_prog p (env_fmt ev) (Some (env_serde ev)) clock c [] of
            (c', Returned vs) \<Rightarrow> (c', ExecOk vs)
          | (c', Panicked p) \<Rightarrow> (c', ExecPanic p))"
    and "at_point p (env_fmt ev) (Some (env_serde ev)) clock es q c futs calls"
    and "run_prog q (env_fmt ev) (Some (env_serde ev)) clock c futs = (c', oc)" and "oc \<noteq> Panicked BlockingFuture"
  shows "\<exists>r. drive ev reg clock ans task (Suc n) es = Some r"
proof -
  have run: "run_prog p (env_fmt ev) (Some (env_serde ev)) clock (context_after es) [] = (c', oc)"
    using at_point_run [OF assms(2)] assms(3) by simp
  obtain r where "exec_workflow ev reg clock (context_after es) task = (c', r)" "r \<noteq> ExecPanic BlockingFuture"
    using run assms(1) [of "context_after es"] assms(4) by (cases oc) auto
  from drive_ends [OF this] show ?thesis by blast
qed

lemma drive_at_wait:
  assumes "\<And>c. exec_workflow ev reg clock c task =
         (case run_prog p (env_fmt ev) (Some (env_serde ev)) clock c [] of
            (c', Returned vs) \<Rightarrow> (c', ExecOk vs)
          | (c', Panicked p) \<Rightarrow> (c', ExecPanic p))"
    and "at_point p (env_fmt ev) (Some (env_serde ev)) clock es (PGet h ty k) c futs calls"
    and "h < length futs" "\<not> bl_resolved (futs ! h)"
  shows "drive ev reg clock ans task (Suc n) es =
    drive ev reg clock ans task n (es @ root_uncommitted c @ map ans (root_uncommitted c))"
proof -
  have "run_prog p (env_fmt ev) (Some (env_serde ev)) clock (context_after es) [] = (c, Panicked BlockingFuture)"
    using at_point_run [OF assms(2)] assms(3,4) by simp
  then have "exec_workflow ev reg clock (context_after es) task = (c, ExecPanic BlockingFuture)"
    using assms(1) [of "context_after es"] by simp
  then show ?thesis by (rule drive_waits)
qed

section \<open>Workflows with a bound on their calls\<close>

inductive calls_at_most :: "prog \<Rightarrow> nat \<Rightarrow> bool" where
  none_return: "calls_at_most (PReturn vs) n"
| none_panic: "calls_at_most (PPanic m) n"
| one_more: "(\<And>r. calls_at_most (k r) n) \<Longrightarrow> calls_at_most (call_activity cx act args ty k) (Suc n)"

lemma calls_at_most_mono: "calls_at_most p n \<Longrightarrow> n \<le> m \<Longrightarrow> calls_at_most p m"
proof (induction arbitrary: m rule: calls_at_most.induct)
  case (one_more k n cx act args ty)
  then show ?case by (cases m) (auto intro: calls_at_most.one_more)
qed (rule calls_at_most.intros)+

lemma calls_at_most_sequential: "calls_at_most p n \<Longrightarrow> sequential p"
  by (induction rule: calls_at_most.induct) (auto intro: sequential.intros)

lemma drive_bounded:
  assumes exec: "\<And>c. exec_workflow ev reg clock c task =
         (case run_prog p (env_fmt ev) (Some (env_serde ev)) clock c [] of
            (c', Returned vs) \<Rightarrow> (c', ExecOk vs)
          | (c', Panicked p) \<Rightarrow> (c', ExecPanic p))"
    and ans: "answers ans"
  shows "calls_at_most q n \<Longrightarrow> at_point p (env_fmt ev) (Some (env_serde ev)) clock es q c futs calls \<Longrightarrow>
    \<exists>r. drive ev reg clock ans task (Suc n) es = Some r"
proof (induction arbitrary: es c futs calls rule: calls_at_most.induct)
  case (none_return vs n)
  show ?case by (rule drive_at_end [OF exec none_return.prems], simp) simp
next
  case (none_panic m n)
  show ?case by (rule drive_at_end [OF exec none_panic.prems], simp) simp
next
  case (one_more k n cx act args ty)
  let ?k = "\<lambda>h. PGet h ty k"
  note at = one_more.prems [unfolded call_activity_def]
  obtain c1 r1 where ex: "execute_activity (clock (length futs)) cx act args c = (c1, r1)" by fastforce
  show ?case
  proof (cases r1)
    case (Inl pn)
    then have "pn \<noteq> BlockingFuture"
      using ex get_activity_options_panic by (cases rule: execute_cases [of act "clock (length futs)" cx args c]) auto
    then show ?thesis
      using ex Inl by (intro drive_at_end [OF exec at], simp) simp
  next
    case (Inr f)
    obtain fn where fn: "act = Inr fn"
      using ex Inr by (cases rule: execute_cases [of act "clock (length futs)" cx args c]) auto
    note here = at_point.exec [OF at [unfolded fn] ex [unfolded fn Inr]]
    have h: "length futs < length (futs @ [f])" by simp
    show ?thesis
    proof (cases "bl_resolved ((futs @ [f]) ! length futs)")
      case True
      then obtain r where "blocking_get (env_fmt ev) (Some (env_serde ev)) ((futs @ [f]) ! length futs) ty = Inr r"
        using get_resolved by blast
      from at_point.got [OF here h this] one_more.IH obtain r' where "drive ev reg clock ans task (Suc n) es = Some r'" by blast
      from drive_mono [OF this, of "Suc (Suc n)"] show ?thesis by simp
    next
      case False
      from waiting_point_passed [OF here h False ans] one_more.IH
      have "\<exists>r. drive ev reg clock ans task (Suc n) (es @ root_uncommitted c1 @ map ans (root_uncommitted c1)) = Some r" by blast
      with drive_at_wait [OF exec here h False, of ans "Suc n"] show ?thesis by simp
    qed
  qed
qed

lemma drive_calls_at_most:
  assumes "answers ans" and "registry_get reg (wt_fn task) = Inr (FnValue name f)"
    and "\<And>args. calls_at_most (wfn_body f args) n"
  shows "\<exists>r. drive ev reg clock ans task (Suc n) es = Some r"
proof (cases rule: exec_workflow_runs [of ev reg clock task])
  case (ends r)
  from drive_ends [OF ends(2,1)] show ?thesis by blast
next
  case (runs name' f' args)
  with assms(2) have "f' = f" by simp
  with drive_bounded [OF runs(3) assms(1) _ at_point.start] assms(3) show ?thesis by blast
qed

section \<open>One round\<close>

text \<open>
  A run that waits, by the calls it made: it scheduled something, and after the answers every call
  of it has an outcome. The next run makes the same calls first, and others if it waits again.
\<close>

lemma answered_enough:
  assumes ans: "answers ans" and us: "us = map (call_event clock s calls) (missing_calls (activity_outcomes es) calls)"
  shows "made calls fn \<le> length (activity_outcomes (es @ us @ map ans us) fn)"
proof -
  have sched: "list_all is_scheduled us" by (simp add: us list_all_iff is_scheduled_def call_event_def)
  have "length (filter (is_scheduled_for fn) us) =
      length (filter (\<lambda>i. call_fn (calls ! i) = fn) (missing_calls (activity_outcomes es) calls))"
    unfolding us by (simp add: filter_map o_def is_scheduled_for_def call_event_def schedule_event_def)
  then have "length (filter (is_scheduled_for fn) us) = made calls fn - length (activity_outcomes es fn)"
    by (simp add: missing_count)
  then show ?thesis
    using answered_outcomes [OF ans sched, of fn] by (simp add: activity_outcomes_append)
qed

lemma answered_round:
  assumes ans: "answers ans"
    and run: "run_prog p fv sd clock (context_after es) [] = (c, Panicked BlockingFuture)"
    and es': "es' = es @ root_uncommitted c @ map ans (root_uncommitted c)"
    and calls: "calls = fst (follow p fv sd (activity_outcomes es) [])"
    and calls': "calls' = fst (follow p fv sd (activity_outcomes es') [])"
  shows "root_uncommitted c \<noteq> []" and "missing_calls (activity_outcomes es') calls = []"
    and "\<exists>further. calls' = calls @ further \<and>
      (snd (follow p fv sd (activity_outcomes es') []) = Panicked BlockingFuture \<longrightarrow> further \<noteq> [])"
proof -
  have us: "root_uncommitted c = map (call_event clock (root_state (context_after es)) calls) (missing_calls (activity_outcomes es) calls)"
    and wait: "snd (follow p fv sd (activity_outcomes es) []) = Panicked BlockingFuture"
    using run_implements_follow [of p fv sd clock es] run by (auto simp: calls)
  from follow_waits [OF wait] show "root_uncommitted c \<noteq> []" by (simp add: us calls)
  have none: "outcome_at (activity_outcomes es') calls h \<noteq> None" if "h < length calls" for h
    by (rule outcome_at_enough [OF that]) (use answered_enough [OF ans us] in \<open>simp add: es'\<close>)
  then show missing: "missing_calls (activity_outcomes es') calls = []"
    by (auto simp: missing_calls_def filter_empty_conv)
  have "\<forall>fn. \<exists>zs. activity_outcomes es' fn = activity_outcomes es fn @ zs"
    by (simp add: es' activity_outcomes_append)
  from follow_longer [OF this, of p fv sd "[]"] obtain further where further: "calls' = calls @ further"
    by (auto simp: calls calls')
  with missing follow_waits [of p fv sd "activity_outcomes es'" "[]"] show "\<exists>further. calls' = calls @ further \<and>
      (snd (follow p fv sd (activity_outcomes es') []) = Panicked BlockingFuture \<longrightarrow> further \<noteq> [])"
    by (auto simp: calls' [symmetric])
qed

lemma exec_workflow_other_clock:
  assumes "registry_get reg (wt_fn task) = Inr (FnValue name f)"
    and "convert_inputs ev (wfn_in f) 1 (wt_input task) = ExecOk args"
    and "exec_workflow ev reg clock c task = (d, ExecPanic BlockingFuture)"
  shows "exec_workflow ev reg clock' c' task =
      (case run_prog (wfn_body f args) (env_fmt ev) (Some (env_serde ev)) clock' c' [] of
         (c', Returned vs) \<Rightarrow> (c', ExecOk vs) | (c', Panicked p) \<Rightarrow> (c', ExecPanic p))"
proof (cases rule: exec_workflow_runs [of ev reg clock' task])
  case (runs name' f' args')
  with assms(1,2) show ?thesis by simp
next
  case (ends r)
  have "length (wfn_in f) = Suc (length args) \<and> takes_context (wfn_in f)"
    using assms by (auto simp: exec_workflow_def One_nat_def [symmetric] simp del: One_nat_def split: if_splits)
  with assms(1,2) show ?thesis
    by (simp add: exec_workflow_def One_nat_def [symmetric] del: One_nat_def)
qed

lemma drive_by_calls:
  assumes exec: "\<And>c. exec_workflow ev reg clock c task =
         (case run_prog p (env_fmt ev) (Some (env_serde ev)) clock c [] of
            (c', Returned vs) \<Rightarrow> (c', ExecOk vs)
          | (c', Panicked p) \<Rightarrow> (c', ExecPanic p))"
    and ans: "answers ans"
    and bound: "\<And>hist. length (fst (follow p (env_fmt ev) (Some (env_serde ev)) hist [])) \<le> n"
  shows "\<exists>r. drive ev reg clock ans task (Suc n) es = Some r"
proof -
  let ?calls = "\<lambda>es. fst (follow p (env_fmt ev) (Some (env_serde ev)) (activity_outcomes es) [])"
  let ?waits = "\<lambda>es c. run_prog p (env_fmt ev) (Some (env_serde ev)) clock (context_after es) [] = (c, Panicked BlockingFuture)"
  have ends: "\<exists>r. drive ev reg clock ans task (Suc m) es = Some r" if "\<And>c. \<not> ?waits es c" for es m
  proof -
    obtain c oc where run: "run_prog p (env_fmt ev) (Some (env_serde ev)) clock (context_after es) [] = (c, oc)" by fastforce
    with that [of c] have "oc \<noteq> Panicked BlockingFuture" by blast
    from drive_at_end [OF exec at_point.start run this] show ?thesis .
  qed
  have waits: "drive ev reg clock ans task (Suc m) es = drive ev reg clock ans task m (es @ root_uncommitted c @ map ans (root_uncommitted c))"
    if "?waits es c" for es c m
    using exec [of "context_after es"] that by (intro drive_waits) simp
  have round: "length (?calls es) < length (?calls es')"
    if "?waits es c" "es' = es @ root_uncommitted c @ map ans (root_uncommitted c)" "?waits es' c'" for es c es' c'
    using answered_round(3) [OF ans that(1,2) refl refl] run_implements_follow [of p "env_fmt ev" "Some (env_serde ev)" clock es'] that(3)
    by fastforce
  have go: "\<exists>r. drive ev reg clock ans task (Suc (Suc k)) es = Some r" if "n - length (?calls es) \<le> k" for k es
    using that
  proof (induction k arbitrary: es)
    case 0
    show ?case
    proof (cases "\<exists>c. ?waits es c")
      case False
      with ends show ?thesis by blast
    next
      case True
      then obtain c where c: "?waits es c" by blast
      let ?es' = "es @ root_uncommitted c @ map ans (root_uncommitted c)"
      have "\<not> ?waits ?es' c'" for c'
        using round [OF c refl, of c'] 0 bound [of "activity_outcomes es"] bound [of "activity_outcomes ?es'"] by linarith
      with ends [of ?es' 0] show ?thesis unfolding waits [OF c] by blast
    qed
  next
    case (Suc k)
    show ?case
    proof (cases "\<exists>c. ?waits es c")
      case False
      with ends show ?thesis by blast
    next
      case True
      then obtain c where c: "?waits es c" by blast
      let ?es' = "es @ root_uncommitted c @ map ans (root_uncommitted c)"
      have "\<exists>r. drive ev reg clock ans task (Suc (Suc k)) ?es' = Some r"
      proof (cases "\<exists>c'. ?waits ?es' c'")
        case False
        with ends show ?thesis by blast
      next
        case True
        then have "length (?calls es) < length (?calls ?es')" using round [OF c refl] by blast
        with Suc.prems show ?thesis by (intro Suc.IH) linarith
      qed
      then show ?thesis unfolding waits [OF c] .
    qed
  qed
  show ?thesis
  proof (cases "\<exists>c. ?waits es c")
    case False
    with ends show ?thesis by blast
  next
    case True
    then obtain c where c: "?waits es c" by blast
    then have "snd (follow p (env_fmt ev) (Some (env_serde ev)) (activity_outcomes es) []) = Panicked BlockingFuture"
      using run_implements_follow [of p "env_fmt ev" "Some (env_serde ev)" clock es] by auto
    from follow_waits [OF this] have "?calls es \<noteq> []" by auto
    with bound [of "activity_outcomes es"] have "n - length (?calls es) \<le> n - 1" "0 < n"
      by (cases "?calls es"; simp)+
    with go [of es "n - 1"] show ?thesis by (simp del: drive.simps)
  qed
qed

section \<open>Properties\<close>

text \<open>
  (C19) Progress. When the task of a workflow waits, it has scheduled something
  to wait for. Once everything it scheduled is answered, by a completion or by a failure, the next
  task makes the same calls again, now all of them with an outcome, and none of them is scheduled
  again: whatever it schedules is a call beyond them. And if it waits as well, it has made at least
  one call more. So no workflow is stuck waiting for a call that was answered.
\<close>

theorem answered_workflow_progresses:
  assumes "answers ans"
    and "registry_get reg (wt_fn task) = Inr (FnValue name f)"
    and "convert_inputs ev (wfn_in f) 1 (wt_input task) = ExecOk args"
    and "exec_workflow ev reg clock (context_after es) task = (c, ExecPanic BlockingFuture)"
    and "es' = es @ root_uncommitted c @ map ans (root_uncommitted c)"
    and "exec_workflow ev reg clock' (context_after es') task = (d, r)"
    and "calls = fst (follow (wfn_body f args) (env_fmt ev) (Some (env_serde ev)) (activity_outcomes es) [])"
    and "calls' = fst (follow (wfn_body f args) (env_fmt ev) (Some (env_serde ev)) (activity_outcomes es') [])"
  shows "root_uncommitted c \<noteq> [] \<and> missing_calls (activity_outcomes es') calls = [] \<and>
    (\<exists>further. calls' = calls @ further \<and> (r = ExecPanic BlockingFuture \<longrightarrow> further \<noteq> [])) \<and>
    root_uncommitted d = map (call_event clock' (root_state (context_after es')) calls') (missing_calls (activity_outcomes es') calls') \<and>
    list_all (\<lambda>i. length calls \<le> i) (missing_calls (activity_outcomes es') calls')"
proof (cases rule: exec_workflow_runs [of ev reg clock task])
  case (ends r)
  with assms(4) show ?thesis by simp
next
  case runs: (runs name' f' args')
  with assms(2,3) have [simp]: "f' = f" "args' = args" by simp_all
  have waits: "run_prog (wfn_body f args) (env_fmt ev) (Some (env_serde ev)) clock (context_after es) [] = (c, Panicked BlockingFuture)"
    using runs(3) [of "context_after es"] assms(4) by (auto split: prod.splits outcome.splits)
  have runs': "exec_workflow ev reg clock' (context_after es') task =
      (case run_prog (wfn_body f args) (env_fmt ev) (Some (env_serde ev)) clock' (context_after es') [] of
         (c', Returned vs) \<Rightarrow> (c', ExecOk vs) | (c', Panicked p) \<Rightarrow> (c', ExecPanic p))"
    by (rule exec_workflow_other_clock [OF assms(2,3,4)])
  obtain d' where d: "run_prog (wfn_body f args) (env_fmt ev) (Some (env_serde ev)) clock' (context_after es') [] = (d', 
      snd (follow (wfn_body f args) (env_fmt ev) (Some (env_serde ev)) (activity_outcomes es') []))"
    "root_uncommitted d' = map (call_event clock' (root_state (context_after es')) calls') (missing_calls (activity_outcomes es') calls')"
    using run_implements_follow assms(8) by blast
  with runs' assms(6) have r: "d' = d" "r = ExecPanic BlockingFuture \<longleftrightarrow>
      snd (follow (wfn_body f args) (env_fmt ev) (Some (env_serde ev)) (activity_outcomes es') []) = Panicked BlockingFuture"
    by (auto split: outcome.splits)
  note round = answered_round [OF assms(1) waits assms(5,7,8)]
  from round(2) missing_append [OF round(2)] round(3) d(2) r round(1) show ?thesis by auto
qed

text \<open>
  A function that makes at most \<open>n\<close> calls on any history, in sequence or in parallel, ends with
  its task \<open>n + 1\<close> at the latest.
\<close>

theorem bounded_calls_end:
  assumes "answers ans"
    and "registry_get reg (wt_fn task) = Inr (FnValue name f)"
    and "\<And>args hist. length (fst (follow (wfn_body f args) (env_fmt ev) (Some (env_serde ev)) hist [])) \<le> n"
  shows "\<exists>r. drive ev reg clock ans task (Suc n) es = Some r"
proof (cases rule: exec_workflow_runs [of ev reg clock task])
  case (ends r)
  from drive_ends [OF ends(2,1)] show ?thesis by blast
next
  case (runs name' f' args)
  with assms(2) have [simp]: "f' = f" by simp
  show ?thesis
    by (rule drive_by_calls [OF runs(3) assms(1)]) (use assms(3) in simp)
qed

text \<open>
  (C20) A workflow whose function calls its activities one after the other, at
  most \<open>n\<close> of them on any path, ends with its task number \<open>n + 1\<close> at the latest,
  whatever its activities answered.
\<close>

theorem bounded_workflow_ends:
  assumes "answers ans" and "registry_get reg (wt_fn task) = Inr (FnValue name f)"
    and "\<And>args. calls_at_most (wfn_body f args) n"
  shows "\<exists>r. drive ev reg clock ans task (Suc n) es = Some r"
  by (rule drive_calls_at_most [OF assms])

section \<open>Witnesses\<close>

definition demo_answer :: "wf_event \<Rightarrow> wf_event" where
  "demo_answer e = (case e of
     ActivityScheduled a \<Rightarrow> ActivityCompleted \<lparr>ac_id = as_id a, ac_wf = as_wf a, ac_fn = as_fn a, ac_result = Some [GStr ''ok'', GNil]\<rparr>
   | _ \<Rightarrow> e)"

lemma demo_answers: "answers demo_answer"
  by (simp add: answers_def demo_answer_def)

text \<open>The workflow that greets once: it waits on the started history, and the next task ends it.\<close>

lemma demo_exec_blocked:
  "\<exists>c. exec_workflow demo_env demo_workflows (\<lambda>_. 0) (context_after [demo_started]) demo_wtask = (c, ExecPanic BlockingFuture) \<and>
    root_uncommitted c = [demo_scheduled ''bob'']"
proof -
  note demo = conjunct1 [OF demo_process_blocked] conjunct2 [OF demo_process_blocked]
  from demo(1) show ?thesis
  proof (cases rule: process_workflow_cases)
    case (waits evs)
    with demo(2) show ?thesis by blast
  next
    case (completes evs c1 vs)
    with demo(2) show ?thesis by (auto simp: completed_event_def demo_scheduled_def append_eq_Cons_conv)
  qed simp
qed

theorem answered_workflow_progresses_witness:
  "\<exists>c calls'. exec_workflow demo_env demo_workflows (\<lambda>_. 0) (context_after [demo_started]) demo_wtask = (c, ExecPanic BlockingFuture) \<and>
    calls' = fst (follow demo_workflow (\<lambda>_. []) (Some demo_serde)
      (activity_outcomes ([demo_started] @ root_uncommitted c @ map demo_answer (root_uncommitted c))) []) \<and>
    root_uncommitted c \<noteq> [] \<and> (\<exists>further. calls' = [\<lparr>call_fn = ''greet'', call_args = [GStr ''bob''], call_options = None\<rparr>] @ further)"
proof -
  obtain c where c: "exec_workflow demo_env demo_workflows (\<lambda>_. 0) (context_after [demo_started]) demo_wtask = (c, ExecPanic BlockingFuture)"
    using demo_exec_blocked by blast
  let ?es' = "[demo_started] @ root_uncommitted c @ map demo_answer (root_uncommitted c)"
  let ?f = "\<lparr>wfn_in = [TWfCtx], wfn_body = (\<lambda>_ :: gval list. demo_workflow)\<rparr>"
  obtain d r where d: "exec_workflow demo_env demo_workflows (\<lambda>_. 1) (context_after ?es') demo_wtask = (d, r)" by fastforce
  have reg: "registry_get demo_workflows (wt_fn demo_wtask) = Inr (FnValue ''main'' ?f)"
    by (simp add: registry_get_def demo_workflows_def demo_wtask_def)
  have conv: "convert_inputs demo_env (wfn_in ?f) 1 (wt_input demo_wtask) = ExecOk []" by (simp add: demo_wtask_def)
  have "fst (follow demo_workflow (\<lambda>_. []) (Some demo_serde) (activity_outcomes [demo_started]) []) =
      [\<lparr>call_fn = ''greet'', call_args = [GStr ''bob''], call_options = None\<rparr>]"
    by (simp add: demo_workflow_def call_activity_def demo_started_def next_outcome_def nth_opt_def
        outcome_at_def made_def get_activity_options_def ctx_lookup_def options_of_def)
  with answered_workflow_progresses [OF demo_answers reg conv c refl d refl refl] c show ?thesis
    by (auto simp: demo_env_def)
qed

lemma demo_calls_one: "calls_at_most demo_workflow 1"
proof -
  have "calls_at_most (demo_get r) 0" for r
    by (auto simp: demo_get_def intro: calls_at_most.intros split: get_result.split option.split)
  then show ?thesis unfolding demo_workflow_def by (auto intro: calls_at_most.one_more)
qed

theorem bounded_workflow_ends_witness:
  "\<exists>r. drive demo_env demo_workflows (\<lambda>_. 0) demo_answer demo_wtask 2 [demo_started] = Some r"
proof -
  have "registry_get demo_workflows (wt_fn demo_wtask) = Inr (FnValue ''main'' \<lparr>wfn_in = [TWfCtx], wfn_body = \<lambda>_. demo_workflow\<rparr>)"
    by (simp add: registry_get_def demo_workflows_def demo_wtask_def)
  from bounded_workflow_ends [OF demo_answers this, of 1 demo_env "\<lambda>_. 0" "[demo_started]"] demo_calls_one
  show ?thesis by (simp add: numeral_2_eq_2)
qed

end
