(* ===== verification/DF_Examples.thy ===== *)
theory DF_Examples
  imports DF_Live DF_Projection
begin

text \<open>
  The workflows and activities of \<open>examples/scenarios\<close>. A workflow function is the tree of its
  calls (\<open>prog\<close>); its logging is left out. A struct is \<open>GStruct\<close> with the fields the code
  sets, a missing field being its zero value. An activity that counts its attempts in a global variable
  takes the counter and returns it; \<open>now\<close> is what it reads from the clock. An activity gives the
  values of its return statement, or a panic.
\<close>

section \<open>Structs and calls\<close>

definition field :: "gtype \<Rightarrow> string \<Rightarrow> gval \<Rightarrow> gval" where
  "field ty n v =
     (case v of GStruct _ fs \<Rightarrow> (case map_of fs n of Some x \<Rightarrow> x | None \<Rightarrow> zero_value ty) | _ \<Rightarrow> zero_value ty)"

definition text_of :: "gval \<Rightarrow> string" where
  "text_of v = (case v of GStr s \<Rightarrow> s | _ \<Rightarrow> [])"

definition float_of :: "gval \<Rightarrow> f64" where
  "float_of v = (case v of GF64 f \<Rightarrow> f | _ \<Rightarrow> Fin 0)"

definition int_of :: "gval \<Rightarrow> int" where
  "int_of v = (case v of GInt k i \<Rightarrow> i | _ \<Rightarrow> 0)"

text \<open>
  \<open>if err := ExecuteActivity(...).Get(ctx, &x); err != nil { return nil, fmt.Errorf("msg: %w", err) }\<close>:
  the variable keeps its zero value when there is nothing to decode.
\<close>

definition require ::
    "value_ctx \<Rightarrow> string \<Rightarrow> gval list \<Rightarrow> gtype \<Rightarrow> string \<Rightarrow> (gval \<Rightarrow> prog) \<Rightarrow> prog" where
  "require cx act args ty msg k =
     call_activity cx (Inr act) args (Some ty)
       (\<lambda>r. case r of
          GetErr e \<Rightarrow> PReturn [GNil, GErr (gerr_msg (ErrWrap msg e))]
        | GetOk v \<Rightarrow> k (case v of None \<Rightarrow> zero_value ty | Some x \<Rightarrow> x))"

definition seconds :: "int \<Rightarrow> i64" where
  "seconds n = word_of_int (n * 1000000000)"

definition result_map :: "(string \<times> gval) list \<Rightarrow> prog" where
  "result_map kvs = PReturn [GMap TStr TAny (map (\<lambda>(k, v). (GStr k, v)) kvs), GNil]"

section \<open>Order with retries\<close>

definition retries_fn :: "string \<Rightarrow> string" where
  "retries_fn f = ''github.com/ngnhng/durablefuture/examples/scenarios/order-retries.'' @ f"

definition payment_options :: activity_options where
  "payment_options = \<lparr>ao_schedule_to_close = seconds 300, ao_start_to_close = seconds 30,
     ao_retry = Some \<lparr>sp_initial_interval = seconds 2, sp_backoff_coefficient = Fin 2, sp_maximum_interval = seconds 30,
       sp_maximum_attempts = 5, sp_non_retryable = [''insufficient funds'', ''invalid card'']\<rparr>\<rparr>"

definition inventory_options :: activity_options where
  "inventory_options = \<lparr>ao_schedule_to_close = seconds 120, ao_start_to_close = seconds 20,
     ao_retry = Some \<lparr>sp_initial_interval = seconds 1, sp_backoff_coefficient = Fin 2, sp_maximum_interval = 0,
       sp_maximum_attempts = 4, sp_non_retryable = []\<rparr>\<rparr>"

definition shipping_options :: activity_options where
  "shipping_options = \<lparr>ao_schedule_to_close = seconds 600, ao_start_to_close = seconds 60,
     ao_retry = Some \<lparr>sp_initial_interval = seconds 1, sp_backoff_coefficient = Fin (3 / 2), sp_maximum_interval = seconds 60,
       sp_maximum_attempts = 10, sp_non_retryable = [''address invalid'', ''product out of stock'']\<rparr>\<rparr>"

definition order_result :: "gval \<Rightarrow> gval \<Rightarrow> gval \<Rightarrow> gval \<Rightarrow> gval \<Rightarrow> gval \<Rightarrow> gval \<Rightarrow> prog" where
  "order_result order_id validation payment reservation shipping pack notification =
      result_map [
        (''order_id'', order_id), (''validated'', field TBool ''Approved'' validation),
        (''charge_id'', field TStr ''ChargeID'' payment), (''amount'', field TF64 ''Amount'' payment),
        (''payment_attempts'', field (TIntT I32) ''AttemptNum'' payment),
        (''reservation_id'', field TStr ''ReservationID'' reservation),
        (''inventory_location'', field TStr ''Location'' reservation),
        (''tracking_id'', field TStr ''TrackingID'' shipping), (''carrier'', field TStr ''Carrier'' shipping),
        (''shipping_attempts'', field (TIntT I32) ''AttemptNum'' shipping),
        (''estimated_delivery'', field (TStruct ''time.Time'') ''EstimatedDelivery'' shipping),
        (''package_id'', field TStr ''PackageID'' pack),
        (''notification_id'', field TStr ''MessageID'' notification),
        (''notification_channel'', field TStr ''Channel'' notification), (''status'', GStr ''completed'')]"

definition order_with_retries :: "gval list \<Rightarrow> prog" where
  "order_with_retries args =
     (let order_id = args ! 0; customer_id = args ! 1; amount = args ! 2;
          request = (\<lambda>n. GStruct n [(''OrderID'', order_id), (''CustomerID'', customer_id), (''Amount'', amount)])
      in
      require [] (retries_fn ''ValidateOrderDetailsActivity'') [request ''OrderValidationRequest'']
        (TStruct ''OrderValidationResult'') ''order validation failed'' (\<lambda>validation.
      require (with_activity_options [] payment_options) (retries_fn ''TransientFailurePaymentActivity'')
        [request ''PaymentRequest''] (TStruct ''PaymentResult'') ''payment failed after retries'' (\<lambda>payment.
      require (with_activity_options [] inventory_options) (retries_fn ''ReserveInventoryActivity'')
        [GStruct ''InventoryRequest'' [(''OrderID'', order_id), (''Quantity'', GInt IInt 1), (''Warehouse'', GStr ''central'')]]
        (TStruct ''InventoryReservation'') ''inventory reservation failed'' (\<lambda>reservation.
      require [] (retries_fn ''PackageOrderActivity'')
        [GStruct ''PackageRequest'' [(''OrderID'', order_id), (''Reservation'', reservation)]]
        (TStruct ''PackageResult'') ''packaging failed'' (\<lambda>pack.
      require (with_activity_options [] shipping_options) (retries_fn ''EventuallySuccessfulShippingActivity'')
        [GStruct ''ShippingRequest'' [(''OrderID'', order_id), (''Payment'', payment)]]
        (TStruct ''ShippingResult'') ''shipping failed after retries'' (\<lambda>shipping.
      require [] (retries_fn ''NotifyCustomerActivity'')
        [GStruct ''NotificationRequest'' [(''OrderID'', order_id),
           (''Email'', GStr (text_of customer_id @ ''@example.com'')), (''Status'', GStr ''shipped'')]]
        (TStruct ''NotificationResult'') ''customer notification failed'' (\<lambda>notification.
      order_result order_id validation payment reservation shipping pack notification)))))))"

text \<open>
  What a call of an activity comes to: a panic, or its two results, the value and the error, each
  whatever the code returns.
\<close>

type_synonym go_results = "panic + gval \<times> gerr option"

abbreviation returns :: "gval \<Rightarrow> go_results" where
  "returns v \<equiv> Inr (v, None)"

abbreviation fails :: "gval \<Rightarrow> string \<Rightarrow> go_results" where
  "fails v m \<equiv> Inr (v, Some (ErrMsg m))"

text \<open>The clock of an activity: nanoseconds, and the time value built from them.\<close>

definition time_value :: "int \<Rightarrow> gval" where
  "time_value ns = GStruct ''time.Time'' [(''UnixNano'', GInt I64 ns)]"

definition validate_order :: "(f64 \<Rightarrow> i64) \<Rightarrow> int \<Rightarrow> gval \<Rightarrow> go_results" where
  "validate_order oor now req =
     (let amount = float_of (field TF64 ''Amount'' req) in
      if f64_le amount (Fin 0) then fails (GStruct ''OrderValidationResult'' []) ''amount must be positive''
      else returns (GStruct ''OrderValidationResult''
        [(''RiskScore'', GInt IInt (20 + sint (f64_to_i64 oor amount) smod 60)), (''Approved'', GBool True),
         (''CheckedAt'', time_value now)]))"

text \<open>
  An activity with a counter: \<open>Add(1)\<close> wraps around at 32 bits and returns the new value.
\<close>

definition process_payment :: "int \<Rightarrow> i32 \<Rightarrow> gval \<Rightarrow> i32 \<times> go_results" where
  "process_payment now counter req =
     (let attempt = counter + 1 in
      (attempt,
       if sint attempt \<le> 2 then fails (GStruct ''PaymentResult'' []) ''payment gateway timeout (transient)''
       else returns (GStruct ''PaymentResult''
         [(''ChargeID'', GStr (''ch_'' @ int_str now @ ''_'' @ int_str (sint attempt))),
          (''Amount'', field TF64 ''Amount'' req), (''AttemptNum'', GInt I32 (sint attempt)),
          (''ProcessedAt'', time_value now)])))"

definition non_retryable_payment :: "int \<Rightarrow> gval \<Rightarrow> go_results" where
  "non_retryable_payment now req =
     (let amount = float_of (field TF64 ''Amount'' req) in
      if f64_le amount (Fin 0) \<and> amount \<noteq> Fin 0 then fails (GStruct ''PaymentResult'' []) ''invalid card''
      else returns (GStruct ''PaymentResult''
        [(''ChargeID'', GStr (''ch_'' @ int_str now)), (''Amount'', GF64 amount), (''AttemptNum'', GInt I32 1),
         (''ProcessedAt'', time_value now)]))"

definition ship_eventually :: "int \<Rightarrow> i32 \<Rightarrow> gval \<Rightarrow> i32 \<times> go_results" where
  "ship_eventually now counter req =
     (let attempt = counter + 1 in
      (attempt,
       if attempt = 1 then fails (GStruct ''ShippingResult'' []) ''warehouse system unavailable''
       else if attempt = 2 then fails (GStruct ''ShippingResult'' []) ''carrier API timeout''
       else if attempt = 3 then fails (GStruct ''ShippingResult'' []) ''label printer error''
       else returns (GStruct ''ShippingResult''
         [(''TrackingID'', GStr (''TRK'' @ int_str now)), (''Carrier'', GStr ''Reliable Shipping Co''),
          (''EstimatedDelivery'', time_value (now + 3 * 24 * 3600 * 1000000000)),
          (''AttemptNum'', GInt I32 (sint attempt))])))"

definition reserve_inventory :: "int \<Rightarrow> i32 \<Rightarrow> gval \<Rightarrow> i32 \<times> go_results" where
  "reserve_inventory now counter req =
     (let attempt = counter + 1 in
      (attempt,
       if attempt = 1 then fails (GStruct ''InventoryReservation'' []) ''warehouse syncing inventory''
       else returns (GStruct ''InventoryReservation''
         [(''ReservationID'', GStr (''res_'' @ int_str now)),
          (''Location'', GStr (text_of (field TStr ''Warehouse'' req) @ ''-aisle-'' @ int_str (sint attempt))),
          (''Quantity'', field (TIntT IInt) ''Quantity'' req), (''AttemptNum'', GInt I32 (sint attempt)),
          (''ReservedAt'', time_value now)])))"

definition package_order :: "int \<Rightarrow> gval \<Rightarrow> go_results" where
  "package_order now req =
     returns (GStruct ''PackageResult''
       [(''PackageID'', GStr (''pkg_'' @ int_str now)),
        (''LabelURL'', GStr (''https://labels.durablefuture.dev/'' @ text_of (field TStr ''OrderID'' req))),
        (''PackedAt'', time_value now),
        (''FragileItem'', GBool (int_of (field (TIntT IInt) ''Quantity''
           (field (TStruct ''InventoryReservation'') ''Reservation'' req)) = 1))])"

definition notify_customer :: "int \<Rightarrow> gval \<Rightarrow> go_results" where
  "notify_customer now req =
     returns (GStruct ''NotificationResult''
       [(''MessageID'', GStr (''msg_'' @ int_str now)), (''Channel'', GStr ''email''), (''SentAt'', time_value now)])"

section \<open>The order workflow\<close>

definition order_fn :: "string \<Rightarrow> string" where
  "order_fn f = ''github.com/ngnhng/durablefuture/examples/scenarios/order.'' @ f"

definition charge_options :: activity_options where
  "charge_options = \<lparr>ao_schedule_to_close = seconds 300, ao_start_to_close = seconds 30,
     ao_retry = Some \<lparr>sp_initial_interval = seconds 1, sp_backoff_coefficient = Fin 2, sp_maximum_interval = seconds 30,
       sp_maximum_attempts = 3, sp_non_retryable = [''invalid card'', ''insufficient funds'']\<rparr>\<rparr>"

definition ship_options :: activity_options where
  "ship_options = \<lparr>ao_schedule_to_close = seconds 600, ao_start_to_close = seconds 60,
     ao_retry = Some \<lparr>sp_initial_interval = seconds 2, sp_backoff_coefficient = Fin (3 / 2), sp_maximum_interval = seconds 60,
       sp_maximum_attempts = 5, sp_non_retryable = [''address invalid'']\<rparr>\<rparr>"

definition order_workflow :: "gval list \<Rightarrow> prog" where
  "order_workflow args =
     (let customer_id = args ! 0; amount = args ! 2 in
      require (with_activity_options [] charge_options) (order_fn ''ChargeCreditCardActivity'') [customer_id, amount]
        (TStruct ''ChargeResult'') ''credit card charge failed'' (\<lambda>charge.
      require (with_activity_options [] ship_options) (order_fn ''ShipPackageActivity'') [charge]
        (TStruct ''ShipResult'') ''package shipping failed'' (\<lambda>ship.
      result_map [
        (''charged_amount'', field TF64 ''Amount'' charge), (''tracking_id'', field TStr ''TrackingID'' ship),
        (''carrier'', field TStr ''Carrier'' ship),
        (''estimated_delivery'', field (TStruct ''time.Time'') ''EstimatedDelivery'' ship),
        (''charge_id'', field TStr ''ChargeID'' charge)])))"

definition charge_credit_card :: "int \<Rightarrow> int \<Rightarrow> gval \<Rightarrow> gval \<Rightarrow> go_results" where
  "charge_credit_card now1 now2 customer_id amount =
     (if text_of customer_id = ''fail_customer'' then fails GNil ''credit card declined''
      else returns (GStruct ''ChargeResult''
        [(''ChargeID'', GStr (''charge_'' @ int_str now1)), (''Amount'', amount),
         (''TransactionID'', GStr (''txn_'' @ int_str now2))]))"

definition ship_package :: "int \<Rightarrow> int \<Rightarrow> gval \<Rightarrow> go_results" where
  "ship_package now1 now2 charge =
     returns (GStruct ''ShipResult''
       [(''TrackingID'', GStr (''track_'' @ int_str now1)), (''Carrier'', GStr ''FastShip Express''),
        (''EstimatedDelivery'', time_value (now2 + 3 * 24 * 3600 * 1000000000))])"

section \<open>The recovery workflow\<close>

definition recovery_fn :: "string \<Rightarrow> string" where
  "recovery_fn f = ''github.com/ngnhng/durablefuture/examples/scenarios/recovery.'' @ f"

definition recovery_options :: activity_options where
  "recovery_options = \<lparr>ao_schedule_to_close = 0, ao_start_to_close = seconds 15, ao_retry = None\<rparr>"

text \<open>
  The loop over the payment attempts, \<open>n\<close> of them left before the last one: it goes on with
  the charge of the first success and gives up when the last attempt fails.
\<close>

fun charge_loop :: "value_ctx \<Rightarrow> gval \<Rightarrow> nat \<Rightarrow> (gval \<Rightarrow> prog) \<Rightarrow> prog" where
  "charge_loop cx req 0 k =
     call_activity cx (Inr (recovery_fn ''FlakyChargeCreditCardActivity'')) [req] (Some (TStruct ''ChargeResult''))
       (\<lambda>r. case r of
          GetOk v \<Rightarrow> k (case v of None \<Rightarrow> zero_value (TStruct ''ChargeResult'') | Some x \<Rightarrow> x)
        | GetErr e \<Rightarrow> PReturn [GNil, GErr (gerr_msg (ErrWrap ''exhausted payment retries'' e))])"
| "charge_loop cx req (Suc n) k =
     call_activity cx (Inr (recovery_fn ''FlakyChargeCreditCardActivity'')) [req] (Some (TStruct ''ChargeResult''))
       (\<lambda>r. case r of
          GetOk v \<Rightarrow> k (case v of None \<Rightarrow> zero_value (TStruct ''ChargeResult'') | Some x \<Rightarrow> x)
        | GetErr e \<Rightarrow> charge_loop cx req n k)"

definition recoverable_order :: "gval list \<Rightarrow> prog" where
  "recoverable_order args =
     (let order_id = args ! 0; cx = with_activity_options [] recovery_options;
          req = GStruct ''ChargeRequest'' [(''OrderID'', order_id), (''CustomerID'', args ! 1), (''Amount'', args ! 2)] in
      charge_loop cx req 2 (\<lambda>charge.
      require cx (recovery_fn ''ShipAfterPaymentActivity'')
        [GStruct ''ShipmentRequest'' [(''OrderID'', order_id), (''Charge'', charge)]]
        (TStruct ''ShipResult'') ''shipping failed'' (\<lambda>shipment.
      result_map [
        (''order_id'', order_id), (''charge_id'', field TStr ''Charge'' charge), (''amount'', field TF64 ''Amount'' charge),
        (''tracking_id'', field TStr ''TrackingID'' shipment), (''carrier'', field TStr ''Carrier'' shipment),
        (''eta'', field (TStruct ''time.Time'') ''ETA'' shipment), (''retry_attempt'', field (TIntT IInt) ''Attempt'' charge)])))"

text \<open>The activity that fails once per order: \<open>guard\<close> is the set of orders it has seen.\<close>

definition flaky_charge :: "int \<Rightarrow> string set \<Rightarrow> gval \<Rightarrow> string set \<times> go_results" where
  "flaky_charge now guard req =
     (let order = text_of (field TStr ''OrderID'' req) in
      if order \<notin> guard then (insert order guard, fails (GStruct ''ChargeResult'' []) (''temporary payment processor outage for '' @ order))
      else (guard, returns (GStruct ''ChargeResult''
        [(''OrderID'', field TStr ''OrderID'' req), (''Amount'', field TF64 ''Amount'' req), (''Attempt'', GInt IInt 2),
         (''Charge'', GStr (''charge_'' @ int_str now))])))"

definition ship_after_payment :: "int \<Rightarrow> int \<Rightarrow> gval \<Rightarrow> go_results" where
  "ship_after_payment now1 now2 req =
     returns (GStruct ''ShipResult''
       [(''TrackingID'', GStr (''track_'' @ int_str now1)), (''Carrier'', GStr ''Recovery Express''),
        (''ETA'', time_value (now2 + 48 * 3600 * 1000000000))])"

section \<open>Lemmas\<close>

lemma calls_require: "(\<And>v. calls_at_most (k v) n) \<Longrightarrow> calls_at_most (require cx act args ty msg k) (Suc n)"
  unfolding require_def
  by (rule calls_at_most.one_more) (auto intro: calls_at_most.none_return split: get_result.split option.split)

lemma calls_result [simp]: "calls_at_most (result_map kvs) n"
  unfolding result_map_def by (rule calls_at_most.none_return)

lemma calls_charge_loop: "(\<And>v. calls_at_most (k v) m) \<Longrightarrow> calls_at_most (charge_loop cx req n k) (Suc (n + m))"
proof (induction n)
  case 0
  then show ?case
    by (auto intro!: calls_at_most.one_more intro: calls_at_most.none_return split: get_result.split option.split)
next
  case (Suc n)
  then have "calls_at_most (k v) (Suc (n + m))" for v using calls_at_most_mono [of "k v" m "Suc (n + m)"] by simp
  with Suc show ?case
    by (auto intro!: calls_at_most.one_more split: get_result.split option.split)
qed

lemma order_with_retries_calls: "calls_at_most (order_with_retries args) 6"
proof -
  have six: "(6 :: nat) = Suc (Suc (Suc (Suc (Suc (Suc 0)))))" by simp
  show ?thesis unfolding order_with_retries_def order_result_def Let_def six by (intro calls_require calls_result)
qed

lemma order_workflow_calls: "calls_at_most (order_workflow args) 2"
  unfolding order_workflow_def Let_def numeral_2_eq_2 by (intro calls_require calls_result)

lemma recoverable_order_calls: "calls_at_most (recoverable_order args) 4"
proof -
  have four: "(4 :: nat) = Suc (2 + Suc 0)" by simp
  show ?thesis
    unfolding recoverable_order_def Let_def four by (intro calls_charge_loop calls_require calls_result)
qed

text \<open>The backoff of a task never takes longer than the maximum interval of its policy.\<close>

lemma delay_within:
  assumes "tk_retry task = Some p" and "sint (policy_maximum p) \<le> m * 1000000" and "0 \<le> m"
  shows "sint (duration_ms (calculate_retry_delay oor task)) \<le> m"
proof -
  let ?d = "sint (calculate_retry_delay oor task)"
  have d: "?d \<le> m * 1000000" using assms(1,2) by (simp add: calculate_retry_delay_def Let_def sint_min_i64)
  have range: "- (2 ^ 63) \<le> ?d" "?d < 2 ^ 63"
    using sint_greater_eq [of "calculate_retry_delay oor task"] sint_less [of "calculate_retry_delay oor task"] by simp_all
  have "?d sdiv 1000000 \<le> m \<and> - (2 ^ 63) \<le> ?d sdiv 1000000 \<and> ?d sdiv 1000000 < 2 ^ 63"
  proof (cases "0 \<le> ?d")
    case True
    with d range show ?thesis by (auto simp: signed_divide_int_def zero_le_mult_iff sgn_if)
  next
    case False
    with d range assms(3) show ?thesis by (auto simp: signed_divide_int_def sgn_if)
  qed
  then show ?thesis by (simp add: duration_ms_def sint_i64_of_int)
qed

lemma not_expired:
  assumes "tk_retry task = Some p" and "sint (policy_maximum p) \<le> m * 1000000" and "0 \<le> m"
    and "m \<le> sint (tk_schedule_to_close task)" and "tk_scheduled_at_ms task = now"
    and "sint (tk_attempt task) < sint (rp_maximum_attempts p)" and "gerr_msg e \<notin> set (rp_non_retryable p)"
  shows "evaluate_retry_decision oor now task e"
  using delay_within [OF assms(1-3), of oor] assms
  by (simp add: evaluate_retry_decision_def Let_def)

text \<open>
  The attempts of one activity: its counter goes from attempt to attempt, and a failure is tried again
  as long as the worker decides so. The result is the number of the last attempt with its outcome.
\<close>

fun attempt_loop ::
    "(i32 \<Rightarrow> i32 \<times> go_results) \<Rightarrow> (f64 \<Rightarrow> i64) \<Rightarrow> i64 \<Rightarrow> activity_task \<Rightarrow> i32 \<Rightarrow> nat \<Rightarrow> (i32 \<times> go_results) option" where
  "attempt_loop act oor now task counter 0 = None"
| "attempt_loop act oor now task counter (Suc n) =
     (case act counter of
        (counter', Inl p) \<Rightarrow> Some (tk_attempt task, Inl p)
      | (counter', Inr (v, None)) \<Rightarrow> Some (tk_attempt task, Inr (v, None))
      | (counter', Inr (v, Some e)) \<Rightarrow>
          if evaluate_retry_decision oor now task e
          then attempt_loop act oor now (task\<lparr>tk_attempt := tk_attempt task + 1\<rparr>) counter' n
          else Some (tk_attempt task, Inr (v, Some e)))"

definition scheduled_with :: "i64 \<Rightarrow> i64 \<Rightarrow> wf_state \<Rightarrow> string \<Rightarrow> gval list \<Rightarrow> activity_options \<Rightarrow> activity_task" where
  "scheduled_with now_ms now_s s fn args opts = first_attempt now_ms (schedule_event now_s s fn args (Some opts))"

lemma scheduled_with_sel:
  assumes "ao_retry opts = Some rp"
  shows "tk_retry (scheduled_with now_ms now_s s fn args opts) = Some (convert_retry_policy rp)"
    "tk_attempt (scheduled_with now_ms now_s s fn args opts) = 1"
    "tk_scheduled_at_ms (scheduled_with now_ms now_s s fn args opts) = now_ms"
  using assms by (simp_all add: scheduled_with_def first_attempt_def schedule_event_def)

lemma schedule_to_close_later:
  assumes "0 \<le> sint now_s" and "sint now_s < 2 ^ 40" and "ao_schedule_to_close opts = seconds n" and "0 < n" and "n < 10 ^ 6"
  shows "n * 1000 \<le> sint (tk_schedule_to_close (scheduled_with now_ms now_s s fn args opts))"
proof -
  have sec: "sint (seconds n) = n * 1000000000"
    unfolding seconds_def using assms(4,5) by (intro sint_i64_of_int) simp_all
  have "duration_ms (seconds n) = word_of_int (n * 1000)"
    using assms(4) by (simp add: duration_ms_def sec signed_divide_int_def sgn_if)
  then have "now_s + duration_ms (seconds n) = word_of_int (sint now_s + n * 1000)" by simp
  moreover have "sint (word_of_int (sint now_s + n * 1000) :: i64) = sint now_s + n * 1000"
    using assms by (intro sint_i64_of_int) simp_all
  ultimately show ?thesis
    using assms sec by (simp add: scheduled_with_def first_attempt_def schedule_event_def)
qed

lemma example_policies:
  "sint (policy_maximum (convert_retry_policy (the (ao_retry payment_options)))) = 30 * 1000000000"
  "sint (policy_maximum (convert_retry_policy (the (ao_retry inventory_options)))) = 100 * 1000000000"
  "sint (policy_maximum (convert_retry_policy (the (ao_retry shipping_options)))) = 60 * 1000000000"
  by (simp_all add: payment_options_def inventory_options_def shipping_options_def convert_retry_policy_def
      policy_maximum_def policy_initial_def duration_ms_def seconds_def millisecond_ns_def second_ns_def signed_divide_int_def Let_def)

lemma scheduled_retried:
  assumes "0 \<le> sint now_s" and "sint now_s < 2 ^ 40" and "ao_schedule_to_close opts = seconds n" and "0 < n" and "n < 10 ^ 6"
    and rp: "ao_retry opts = Some rp" and "sint (policy_maximum (convert_retry_policy rp)) \<le> n * 1000 * 1000000"
    and "sint a < sint (sp_maximum_attempts rp)" and "gerr_msg e \<notin> set (sp_non_retryable rp)"
  shows "evaluate_retry_decision oor now_ms ((scheduled_with now_ms now_s s fn args opts)\<lparr>tk_attempt := a\<rparr>) e"
proof (rule not_expired [where m = "n * 1000" and p = "convert_retry_policy rp"])
  show "n * 1000 \<le> sint (tk_schedule_to_close ((scheduled_with now_ms now_s s fn args opts)\<lparr>tk_attempt := a\<rparr>))"
    using schedule_to_close_later [OF assms(1-5)] by simp
qed (use assms scheduled_with_sel [OF rp] in \<open>simp_all add: convert_retry_policy_def\<close>)

text \<open>Two updates of the attempt, and the attempt the task has.\<close>

lemma attempt_one:
  "ao_retry opts = Some rp \<Longrightarrow> (scheduled_with now_ms now_s s fn args opts)\<lparr>tk_attempt := 1\<rparr> = scheduled_with now_ms now_s s fn args opts"
  using scheduled_with_sel(2) [of opts rp now_ms now_s s fn args] by (cases "scheduled_with now_ms now_s s fn args opts") simp

section \<open>Properties\<close>

text \<open>
  (C29) The workflows of the examples end: with every activity answered, the order
  workflow with retries after at most seven workflow tasks, the plain order workflow after three, the
  recovery workflow, which tries its payment up to three times, after five.
\<close>

theorem example_workflows_end:
  assumes "answers ans"
  shows "(\<exists>r. drive ev [fn \<mapsto> FnValue fn \<lparr>wfn_in = ts, wfn_body = order_with_retries\<rparr>] clock ans \<lparr>wt_id = wid, wt_fn = fn, wt_input = vs\<rparr> 7 es = Some r) \<and>
    (\<exists>r. drive ev [fn \<mapsto> FnValue fn \<lparr>wfn_in = ts, wfn_body = order_workflow\<rparr>] clock ans \<lparr>wt_id = wid, wt_fn = fn, wt_input = vs\<rparr> 3 es = Some r) \<and>
    (\<exists>r. drive ev [fn \<mapsto> FnValue fn \<lparr>wfn_in = ts, wfn_body = recoverable_order\<rparr>] clock ans \<lparr>wt_id = wid, wt_fn = fn, wt_input = vs\<rparr> 5 es = Some r)"
proof -
  have get: "registry_get [fn \<mapsto> FnValue fn \<lparr>wfn_in = ts, wfn_body = b\<rparr>] (wt_fn \<lparr>wt_id = wid, wt_fn = fn, wt_input = vs\<rparr>)
      = Inr (FnValue fn \<lparr>wfn_in = ts, wfn_body = b\<rparr>)" for b :: "gval list \<Rightarrow> prog"
    by (simp add: registry_get_def)
  have seven: "(7 :: nat) = Suc 6" "(3 :: nat) = Suc 2" "(5 :: nat) = Suc 4" by simp_all
  show ?thesis
    unfolding seven
    by (intro conjI drive_calls_at_most [OF assms get])
      (simp_all add: order_with_retries_calls order_workflow_calls recoverable_order_calls)
qed

text \<open> The retry policies of the example are enough for its failures: scheduled
  at any time, and executed without delay, the payment succeeds at its third attempt, the reservation at its second and
  the shipping at its fourth; the decision of the worker retries each failure before.
\<close>

theorem example_retries_suffice:
  assumes "0 \<le> sint now_s" and "sint now_s < 2 ^ 40"
  shows "(\<exists>v. attempt_loop (\<lambda>c. process_payment t c req) oor now_ms
      (scheduled_with now_ms now_s s fn args payment_options) 0 3 = Some (3, returns v)) \<and>
    (\<exists>v. attempt_loop (\<lambda>c. reserve_inventory t c req) oor now_ms
      (scheduled_with now_ms now_s s fn args inventory_options) 0 2 = Some (2, returns v)) \<and>
    (\<exists>v. attempt_loop (\<lambda>c. ship_eventually t c req) oor now_ms
      (scheduled_with now_ms now_s s fn args shipping_options) 0 4 = Some (4, returns v))"
proof (intro conjI)
  let ?T = "scheduled_with now_ms now_s s fn args"
  have pay: "evaluate_retry_decision oor now_ms ((?T payment_options)\<lparr>tk_attempt := a\<rparr>) e"
    if "sint a < 5" "gerr_msg e \<notin> {''insufficient funds'', ''invalid card''}" for a e
    by (rule scheduled_retried [OF assms, where n = 300 and rp = "the (ao_retry payment_options)"])
      (use that example_policies(1) in \<open>simp_all add: payment_options_def\<close>)
  have inv: "evaluate_retry_decision oor now_ms ((?T inventory_options)\<lparr>tk_attempt := a\<rparr>) e" if "sint a < 4" for a e
    by (rule scheduled_retried [OF assms, where n = 120 and rp = "the (ao_retry inventory_options)"])
      (use that example_policies(2) in \<open>simp_all add: inventory_options_def\<close>)
  have ship: "evaluate_retry_decision oor now_ms ((?T shipping_options)\<lparr>tk_attempt := a\<rparr>) e"
    if "sint a < 10" "gerr_msg e \<notin> {''address invalid'', ''product out of stock''}" for a e
    by (rule scheduled_retried [OF assms, where n = 600 and rp = "the (ao_retry shipping_options)"])
      (use that example_policies(3) in \<open>simp_all add: shipping_options_def\<close>)
  have four: "(4 :: nat) = Suc (Suc (Suc (Suc 0)))" by simp
  have one: "?T payment_options = (?T payment_options)\<lparr>tk_attempt := 1\<rparr>"
    "?T inventory_options = (?T inventory_options)\<lparr>tk_attempt := 1\<rparr>" "?T shipping_options = (?T shipping_options)\<lparr>tk_attempt := 1\<rparr>"
    by (rule attempt_one [symmetric]; simp add: payment_options_def inventory_options_def shipping_options_def)+
  show "\<exists>v. attempt_loop (\<lambda>c. process_payment t c req) oor now_ms (?T payment_options) 0 3 = Some (3, returns v)"
    unfolding numeral_3_eq_3 by (subst one(1)) (simp add: process_payment_def pay Let_def)
  show "\<exists>v. attempt_loop (\<lambda>c. reserve_inventory t c req) oor now_ms (?T inventory_options) 0 2 = Some (2, returns v)"
    unfolding numeral_2_eq_2 by (subst one(2)) (simp add: reserve_inventory_def inv Let_def)
  show "\<exists>v. attempt_loop (\<lambda>c. ship_eventually t c req) oor now_ms (?T shipping_options) 0 4 = Some (4, returns v)"
    unfolding four by (subst one(3)) (simp add: ship_eventually_def ship Let_def)
qed

section \<open>Witnesses\<close>

theorem example_workflows_end_witness:
  "\<exists>r. drive demo_env [''o'' \<mapsto> FnValue ''o'' \<lparr>wfn_in = [TWfCtx, TStr, TStr, TF64], wfn_body = order_with_retries\<rparr>] (\<lambda>_. 0)
     demo_answer \<lparr>wt_id = ''w1'', wt_fn = ''o'', wt_input = [GStr ''o-1'', GStr ''ann'', GF64 (Fin 3)]\<rparr> 7 [] = Some r"
  using example_workflows_end [OF demo_answers] by blast

theorem example_retries_suffice_witness:
  "\<exists>v. attempt_loop (\<lambda>c. process_payment 7 c GNil) (\<lambda>_. 0) 1000
      (scheduled_with 1000 1 empty_state ''pay'' [] payment_options) 0 3 = Some (3, returns v)"
  using example_retries_suffice [of 1] by simp

end
