(* ===== verification/DF_Demo.thy ===== *)
theory DF_Demo
  imports DF_Conn
begin

text \<open>
  The demonstration endpoints of the server, \<open>internal/server/handler/http\<close>: the view of a
  workflow that the watcher keeps from the event history (\<open>demo_watcher.go\<close>,
  \<open>demo_state.go\<close>, \<open>demo_types.go\<close>), the start, status and crash handlers
  (\<open>demo_handler.go\<close>), the health checks (\<open>health.go\<close>) and the CORS filter
  (\<open>server.go\<close>). A time is a 64-bit number; a count is an integer.
\<close>

section \<open>The view of a workflow\<close>

record retry_attempt =
  rt_attempt :: int
  rt_error :: string
  rt_next_delay :: i64
  rt_recorded_at :: i64

record step_detail =
  sd_name :: string
  sd_status :: string
  sd_attempts :: int
  sd_started_at :: "i64 option"
  sd_ended_at :: "i64 option"
  sd_error :: string
  sd_retries :: "retry_attempt list"

record workflow_view =
  vw_id :: string
  vw_status :: string
  vw_current :: nat
  vw_steps :: "string list"
  vw_details :: "step_detail list"
  vw_result :: "string option"
  vw_error :: string
  vw_started_at :: i64
  vw_completed_at :: "i64 option"

definition pending_step :: "string \<Rightarrow> step_detail" where
  "pending_step n = \<lparr>sd_name = n, sd_status = ''pending'', sd_attempts = 0, sd_started_at = None,
     sd_ended_at = None, sd_error = [], sd_retries = []\<rparr>"

fun step_index :: "string \<Rightarrow> step_detail list \<Rightarrow> nat option" where
  "step_index n [] = None"
| "step_index n (d # ds) = (if sd_name d = n then Some 0 else map_option Suc (step_index n ds))"

definition find_step_by_name :: "workflow_view \<Rightarrow> string \<Rightarrow> int" where
  "find_step_by_name v n = (case step_index n (vw_details v) of None \<Rightarrow> - 1 | Some i \<Rightarrow> int i)"

definition find_or_create_step :: "workflow_view \<Rightarrow> string \<Rightarrow> workflow_view \<times> nat" where
  "find_or_create_step v n =
     (case step_index n (vw_details v) of
        Some i \<Rightarrow> (v, i)
      | None \<Rightarrow>
         (let v' = v\<lparr>vw_details := vw_details v @ [pending_step n]\<rparr> in (v', length (vw_details v') - 1)))"

definition on_step :: "workflow_view \<Rightarrow> string \<Rightarrow> (step_detail \<Rightarrow> step_detail) \<Rightarrow> workflow_view" where
  "on_step v n f =
     (if 0 \<le> find_step_by_name v n then
        (let i = nat (find_step_by_name v n) in v\<lparr>vw_details := (vw_details v)[i := f (vw_details v ! i)]\<rparr>)
      else v)"

section \<open>The watcher\<close>

text \<open>The cases of \<open>handleEvent\<close>. \<open>marshal\<close> is \<open>json.Marshal\<close>, whose error is ignored.\<close>

definition view_scheduled :: "i64 \<Rightarrow> string \<Rightarrow> workflow_view \<Rightarrow> workflow_view" where
  "view_scheduled now fn v =
     (case find_or_create_step v fn of
        (v', i) \<Rightarrow>
          (let d = vw_details v' ! i;
               d1 = d\<lparr>sd_status := ''running'', sd_attempts := sd_attempts d + 1, sd_started_at := Some now\<rparr>;
               d2 = (if sd_attempts d1 = 0 then d1\<lparr>sd_attempts := 1\<rparr> else d1)
           in v'\<lparr>vw_current := i + 1, vw_details := (vw_details v')[i := d2]\<rparr>))"

definition step_completed :: "i64 \<Rightarrow> step_detail \<Rightarrow> step_detail" where
  "step_completed now d =
     (let d1 = d\<lparr>sd_status := ''completed'', sd_ended_at := Some now\<rparr> in
      if sd_retries d1 \<noteq> [] then d1\<lparr>sd_attempts := int (length (sd_retries d1)) + 1\<rparr> else d1)"

definition step_failed :: "string \<Rightarrow> step_detail \<Rightarrow> step_detail" where
  "step_failed err d =
     (let d1 = d\<lparr>sd_status := ''failed'', sd_error := err\<rparr>; current = int (length (sd_retries d1)) + 1 in
      if sd_attempts d1 < current then d1\<lparr>sd_attempts := current\<rparr> else d1)"

definition step_retried :: "i64 \<Rightarrow> activity_retried \<Rightarrow> step_detail \<Rightarrow> step_detail" where
  "step_retried now e d =
     (let d1 = d\<lparr>sd_status := ''running'', sd_error := [],
            sd_retries := sd_retries d @ [\<lparr>rt_attempt = sint (ar_attempt e), rt_error = ar_error e,
              rt_next_delay = ar_next_delay e, rt_recorded_at = now\<rparr>]\<rparr>
      in if sd_attempts d1 < int (length (sd_retries d1)) + 1
         then d1\<lparr>sd_attempts := int (length (sd_retries d1)) + 1\<rparr> else d1)"

definition view_event :: "'x serde \<Rightarrow> (gval \<Rightarrow> string option) \<Rightarrow> i64 \<Rightarrow> string \<Rightarrow> 'x list \<Rightarrow> workflow_view \<Rightarrow> workflow_view" where
  "view_event sd marshal now ty data v =
     (if ty = ''workflow/started'' then v\<lparr>vw_status := ''running'', vw_started_at := now\<rparr>
      else if ty = ''activity/scheduled'' then
        (case de_event sd KActivityScheduled data of
           Inr (ActivityScheduled e) \<Rightarrow> view_scheduled now (as_fn e) v | _ \<Rightarrow> v)
      else if ty = ''activity/completed'' then
        (case de_event sd KActivityCompleted data of
           Inr (ActivityCompleted e) \<Rightarrow> on_step v (ac_fn e) (step_completed now) | _ \<Rightarrow> v)
      else if ty = ''activity/failed'' then
        (case de_event sd KActivityFailed data of
           Inr (ActivityFailed e) \<Rightarrow> on_step v (af_fn e) (step_failed (af_error e)) | _ \<Rightarrow> v)
      else if ty = ''activity/retried'' then
        (case de_event sd KActivityRetried data of
           Inr (ActivityRetried e) \<Rightarrow> on_step v (ar_fn e) (step_retried now e) | _ \<Rightarrow> v)
      else if ty = ''workflow/completed'' then
        (case de_event sd KWorkflowCompleted data of
           Inr (WorkflowCompleted e) \<Rightarrow>
             (let v1 = v\<lparr>vw_status := ''completed'', vw_completed_at := Some now\<rparr> in
              if wc_result e \<noteq> [] then v1\<lparr>vw_result := marshal (wc_result e ! 0)\<rparr> else v1)
         | _ \<Rightarrow> v)
      else if ty = ''workflow/failed'' then
        (case de_event sd KWorkflowFailed data of
           Inr (WorkflowFailed e) \<Rightarrow> v\<lparr>vw_status := ''failed'', vw_error := wf_error e, vw_completed_at := Some now\<rparr>
         | _ \<Rightarrow> v)
      else v)"

type_synonym views = "string \<rightharpoonup> workflow_view"

text \<open>\<open>de_id\<close>: decoding only the id of an event.\<close>

definition handle_event ::
    "'x serde \<Rightarrow> ('x list \<Rightarrow> gerr + string) \<Rightarrow> (gval \<Rightarrow> string option) \<Rightarrow> i64 \<Rightarrow> 'x msg \<Rightarrow> views \<Rightarrow> views" where
  "handle_event sd de_id marshal now m vs =
     (let ty = header_get (msg_header m) event_name_header in
      if ty = [] then vs
      else (case de_id (msg_data m) of
        Inl e \<Rightarrow> vs
      | Inr wid \<Rightarrow>
         (case vs wid of
            None \<Rightarrow> vs
          | Some v \<Rightarrow> vs(wid \<mapsto> view_event sd marshal now ty (msg_data m) v))))"

text \<open>
  Creating the consumer: at most \<open>max_retries\<close> tries, with a pause of \<open>i + 1\<close> seconds after the
  \<open>i\<close>-th failure but the last. The result is the pauses and the last error.
\<close>

definition max_retries :: nat where "max_retries = 10"

function create_consumer :: "(nat \<Rightarrow> gerr option) \<Rightarrow> nat \<Rightarrow> gerr option \<Rightarrow> nat list \<times> gerr option" where
  "create_consumer create i err =
     (if max_retries \<le> i then ([], err)
      else (case create i of
        None \<Rightarrow> ([], None)
      | Some e \<Rightarrow>
         (case create_consumer create (Suc i) (Some e) of
            (pauses, r) \<Rightarrow> ((if Suc i < max_retries then [Suc i] else []) @ pauses, r))))"
  by pat_completeness auto
termination by (relation "measure (\<lambda>(create, i, err). max_retries - i)") auto

declare create_consumer.simps [simp del]

text \<open>
  The loop over the messages: each round the context is looked at, then the next message is taken. An
  error is logged and the loop goes on.
\<close>

datatype 'x watch_round = WatchDone | WatchErr gerr | WatchMsg i64 "'x msg"

fun watch_loop ::
    "'x serde \<Rightarrow> ('x list \<Rightarrow> gerr + string) \<Rightarrow> (gval \<Rightarrow> string option) \<Rightarrow> views \<Rightarrow> 'x watch_round list \<Rightarrow> views \<times> nat" where
  "watch_loop sd de_id marshal vs [] = (vs, 0)"
| "watch_loop sd de_id marshal vs (WatchDone # rs) = (vs, 0)"
| "watch_loop sd de_id marshal vs (WatchErr e # rs) = watch_loop sd de_id marshal vs rs"
| "watch_loop sd de_id marshal vs (WatchMsg now m # rs) =
     (case watch_loop sd de_id marshal (handle_event sd de_id marshal now m vs) rs of
        (vs', acks) \<Rightarrow> (vs', acks + 1))"

text \<open>
  The whole watcher, which starts with no more than a connection: without a JetStream context, a consumer
  or its messages it ends at once. The result is the views, the messages acknowledged and the pauses.
\<close>

definition watch_workflow_events ::
    "gerr option \<Rightarrow> (nat \<Rightarrow> gerr option) \<Rightarrow> gerr option \<Rightarrow> 'x serde \<Rightarrow> ('x list \<Rightarrow> gerr + string) \<Rightarrow> (gval \<Rightarrow> string option)
      \<Rightarrow> views \<Rightarrow> 'x watch_round list \<Rightarrow> views \<times> nat \<times> nat list" where
  "watch_workflow_events js_err create msgs_err sd de_id marshal vs rs =
     (case js_err of
        Some e \<Rightarrow> (vs, 0, [2])
      | None \<Rightarrow>
         (case create_consumer create 0 None of
            (pauses, Some e) \<Rightarrow> (vs, 0, 2 # pauses)
          | (pauses, None) \<Rightarrow>
             (case msgs_err of
                Some e \<Rightarrow> (vs, 0, 2 # pauses)
              | None \<Rightarrow> (case watch_loop sd de_id marshal vs rs of (vs', acks) \<Rightarrow> (vs', acks, 2 # pauses)))))"

section \<open>The handlers\<close>

text \<open>What a handler answers: an error text, an object of strings, or a workflow view, as JSON.\<close>

datatype http_reply =
    HttpError nat string
  | HttpObject nat "(string \<times> string) list"
  | HttpView nat workflow_view

record demo_state =
  ds_views :: views
  ds_current :: string

definition new_demo :: demo_state where
  "new_demo = \<lparr>ds_views = Map.empty, ds_current = []\<rparr>"

definition demo_package :: string where
  "demo_package = ''github.com/ngnhng/durablefuture/examples/scenarios/order-retries.''"

definition demo_steps :: "string list" where
  "demo_steps = map (\<lambda>f. demo_package @ f)
     [''ValidateOrderDetailsActivity'', ''TransientFailurePaymentActivity'', ''ReserveInventoryActivity'',
      ''PackageOrderActivity'', ''EventuallySuccessfulShippingActivity'', ''NotifyCustomerActivity'']"

definition new_view :: "string \<Rightarrow> i64 \<Rightarrow> workflow_view" where
  "new_view wid now = \<lparr>vw_id = wid, vw_status = ''pending'', vw_current = 0, vw_steps = demo_steps,
     vw_details = map pending_step demo_steps, vw_result = None, vw_error = [], vw_started_at = now,
     vw_completed_at = None\<rparr>"

text \<open>
  \<open>post\<close>: the method of the request is POST; \<open>now_ns\<close> is in the order id, \<open>now\<close>
  the time of the new view, \<open>request\<close> the reply to the command.
\<close>

definition demo_start ::
    "'x serde \<Rightarrow> ('x list \<Rightarrow> gerr + 'x list) \<Rightarrow> bool \<Rightarrow> int \<Rightarrow> i64 \<Rightarrow> demo_state \<Rightarrow> demo_state \<times> http_reply" where
  "demo_start sd request post now_ns now h =
     (if \<not> post then (h, HttpError 405 ''Method not allowed'')
      else
        (let attrs = \<lparr>sa_fn = demo_package @ ''OrderWithRetriesWorkflow'',
               sa_input = [GStr (''demo-'' @ int_str now_ns), GStr ''demo-customer'', GF64 (f64_round (29999 / 100))]\<rparr> in
         case ser_attrs sd attrs of
           Inl e \<Rightarrow> (h, HttpError 500 (''Failed to marshal attributes: '' @ gerr_msg e))
         | Inr ab \<Rightarrow>
            (case ser_command sd \<lparr>cmd_type = start_workflow_command, cmd_attributes = ab\<rparr> of
               Inl e \<Rightarrow> (h, HttpError 500 (''Failed to marshal command: '' @ gerr_msg e))
             | Inr cb \<Rightarrow>
                (case request cb of
                   Inl e \<Rightarrow> (h, HttpError 500 (''Failed to start workflow: '' @ gerr_msg e))
                 | Inr rb \<Rightarrow>
                    (case de_reply sd rb of
                       Inl e \<Rightarrow> (h, HttpError 500 (''Failed to parse reply: '' @ gerr_msg e))
                     | Inr r \<Rightarrow>
                        (if sr_error r \<noteq> [] then (h, HttpError 500 (''Server error: '' @ sr_error r))
                         else
                           (let wid = sr_workflow_id r in
                            (\<lparr>ds_views = (ds_views h)(wid \<mapsto> new_view wid now), ds_current = wid\<rparr>,
                             HttpObject 200 [(''workflow_id'', wid), (''status'', ''started'')]))))))))"

definition demo_status :: "demo_state \<Rightarrow> http_reply" where
  "demo_status h =
     (case ds_views h (ds_current h) of
        None \<Rightarrow> HttpObject 200 [(''status'', ''no_workflow'')]
      | Some v \<Rightarrow> HttpView 200 v)"

text \<open>The second result tells whether the process exits, 100 milliseconds later.\<close>

definition demo_crash :: "bool \<Rightarrow> http_reply \<times> bool" where
  "demo_crash post =
     (if \<not> post then (HttpError 405 ''Method not allowed'', False)
      else (HttpObject 200 [(''status'', ''crashing'')], True))"

section \<open>Health checks and filter\<close>

record health_response =
  hr_status :: string
  hr_timestamp :: i64
  hr_uptime :: string
  hr_checks :: "(string \<times> string) list"

definition health_check :: "(i64 \<Rightarrow> string) \<Rightarrow> i64 \<Rightarrow> i64 \<Rightarrow> nat \<times> health_response" where
  "health_check show_duration start now =
     (200, \<lparr>hr_status = ''ok'', hr_timestamp = now, hr_uptime = show_duration (now - start), hr_checks = []\<rparr>)"

text \<open>\<open>conn\<close>: what \<open>IsConnected\<close> answers, \<open>None\<close> without a connection.\<close>

definition ready_check :: "(i64 \<Rightarrow> string) \<Rightarrow> i64 \<Rightarrow> i64 \<Rightarrow> bool option \<Rightarrow> nat \<times> health_response" where
  "ready_check show_duration start now conn =
     (let ready = (conn = Some True);
          checks = [(''nats'', if ready then ''connected'' else ''disconnected'')]
      in (if ready then 200 else 503,
          \<lparr>hr_status = (if ready then ''ready'' else ''not ready''), hr_timestamp = now,
           hr_uptime = show_duration (now - start), hr_checks = checks\<rparr>))"

definition cors_headers :: "(string \<times> string) list" where
  "cors_headers = [(''Access-Control-Allow-Origin'', ''*''), (''Access-Control-Allow-Methods'', ''GET, POST, OPTIONS''),
     (''Access-Control-Allow-Headers'', ''Content-Type'')]"

text \<open>The filter: its headers, and the reply of the next handler unless the request is a preflight.\<close>

definition cors_middleware :: "('r \<Rightarrow> nat \<times> 'b) \<Rightarrow> 'b \<Rightarrow> string \<Rightarrow> 'r \<Rightarrow> (string \<times> string) list \<times> nat \<times> 'b" where
  "cors_middleware handler empty_body meth r =
     (cors_headers, if meth = ''OPTIONS'' then (200, empty_body) else handler r)"

section \<open>Lemmas\<close>

lemma step_index_Some: "step_index n ds = Some i \<Longrightarrow> i < length ds \<and> sd_name (ds ! i) = n"
  by (induction ds arbitrary: i) (auto split: if_splits)

lemma step_index_None: "step_index n ds = None \<longleftrightarrow> n \<notin> sd_name ` set ds"
  by (induction ds) auto

text \<open>
  What every view keeps: each activity has one step, the current step exists, and a step that was
  retried counts more attempts than it has retries.
\<close>

definition step_ok :: "step_detail \<Rightarrow> bool" where
  "step_ok d \<longleftrightarrow> 0 \<le> sd_attempts d \<and> (sd_retries d \<noteq> [] \<longrightarrow> int (length (sd_retries d)) < sd_attempts d)"

definition view_ok :: "workflow_view \<Rightarrow> bool" where
  "view_ok v \<longleftrightarrow> distinct (map sd_name (vw_details v)) \<and> vw_current v \<le> length (vw_details v) \<and>
     list_all step_ok (vw_details v)"

lemma new_view_ok: "view_ok (new_view wid now)"
  by (simp add: view_ok_def new_view_def demo_steps_def pending_step_def step_ok_def)

lemma update_step_ok:
  assumes "view_ok v" and "i < length (vw_details v)" and "sd_name d = sd_name (vw_details v ! i)" and "step_ok d"
  shows "view_ok (v\<lparr>vw_details := (vw_details v)[i := d]\<rparr>)"
proof -
  have "map sd_name ((vw_details v)[i := d]) = map sd_name (vw_details v)"
    using assms(2,3) by (simp add: map_update list_update_same_conv)
  moreover have "list_all step_ok ((vw_details v)[i := d])"
    using assms(1,2,4) by (auto simp: view_ok_def list_all_length nth_list_update)
  ultimately show ?thesis using assms(1) by (simp add: view_ok_def)
qed

lemma on_step_ok:
  assumes "view_ok v" and "\<And>d. step_ok d \<Longrightarrow> step_ok (f d) \<and> sd_name (f d) = sd_name d"
  shows "view_ok (on_step v n f)"
proof (cases "step_index n (vw_details v)")
  case (Some i)
  then have i: "i < length (vw_details v)" using step_index_Some by blast
  then have "step_ok (vw_details v ! i)" using assms(1) by (simp add: view_ok_def list_all_length)
  with update_step_ok [OF assms(1) i] assms(2) Some show ?thesis
    by (simp add: on_step_def find_step_by_name_def)
qed (use assms in \<open>simp add: on_step_def find_step_by_name_def\<close>)

lemma find_or_create_ok:
  assumes "view_ok v" and "find_or_create_step v n = (v', i)"
  shows "view_ok v' \<and> i < length (vw_details v') \<and> sd_name (vw_details v' ! i) = n"
proof (cases "step_index n (vw_details v)")
  case None
  with assms have v': "v' = v\<lparr>vw_details := vw_details v @ [pending_step n]\<rparr>" "i = length (vw_details v)"
    by (simp_all add: find_or_create_step_def Let_def)
  have "n \<notin> sd_name ` set (vw_details v)" using None by (simp add: step_index_None)
  with assms(1) v' show ?thesis by (auto simp: view_ok_def pending_step_def step_ok_def)
next
  case (Some i')
  with assms step_index_Some [OF Some] show ?thesis by (simp add: find_or_create_step_def)
qed

lemma view_scheduled_ok: "view_ok v \<Longrightarrow> view_ok (view_scheduled now fn v)"
proof -
  assume ok: "view_ok v"
  obtain v' i where fc: "find_or_create_step v fn = (v', i)" by fastforce
  note new = find_or_create_ok [OF ok fc]
  let ?d = "vw_details v' ! i"
  let ?d2 = "let d1 = ?d\<lparr>sd_status := ''running'', sd_attempts := sd_attempts ?d + 1, sd_started_at := Some now\<rparr>
     in if sd_attempts d1 = 0 then d1\<lparr>sd_attempts := 1\<rparr> else d1"
  have d: "step_ok ?d" using new by (simp add: view_ok_def list_all_length)
  then have "step_ok ?d2 \<and> sd_name ?d2 = sd_name ?d" by (auto simp: step_ok_def Let_def)
  with new have "view_ok (v'\<lparr>vw_details := (vw_details v')[i := ?d2]\<rparr>)" by (intro update_step_ok) auto
  then have "view_ok (v'\<lparr>vw_current := i + 1, vw_details := (vw_details v')[i := ?d2]\<rparr>)"
    using new by (simp add: view_ok_def)
  then show ?thesis by (simp add: view_scheduled_def fc Let_def)
qed

lemma step_cases_ok:
  "step_ok d \<Longrightarrow> step_ok (step_completed now d) \<and> sd_name (step_completed now d) = sd_name d"
  "step_ok d \<Longrightarrow> step_ok (step_failed err d) \<and> sd_name (step_failed err d) = sd_name d"
  "step_ok d \<Longrightarrow> step_ok (step_retried now e d) \<and> sd_name (step_retried now e d) = sd_name d"
  by (auto simp: step_ok_def step_completed_def step_failed_def step_retried_def Let_def)

lemma view_if: "view_ok a \<Longrightarrow> view_ok b \<Longrightarrow> view_ok (if c then a else b)"
  by simp

lemma view_fields_ok:
  "view_ok v \<Longrightarrow> view_ok (v\<lparr>vw_status := st, vw_started_at := now\<rparr>)"
  "view_ok v \<Longrightarrow> view_ok (v\<lparr>vw_status := st, vw_completed_at := t\<rparr>)"
  "view_ok v \<Longrightarrow> view_ok (v\<lparr>vw_status := st, vw_completed_at := t, vw_result := r\<rparr>)"
  "view_ok v \<Longrightarrow> view_ok (v\<lparr>vw_status := st, vw_completed_at := t, vw_error := er\<rparr>)"
  "view_ok v \<Longrightarrow> view_ok (v\<lparr>vw_status := st, vw_error := er, vw_completed_at := t\<rparr>)"
  by (simp_all add: view_ok_def)

lemma view_event_ok: "view_ok v \<Longrightarrow> view_ok (view_event sd marshal now ty data v)"
  unfolding view_event_def
  by (intro view_if)
    (auto simp: Let_def view_scheduled_ok on_step_ok step_cases_ok view_fields_ok split: sum.split wf_event.split)

lemma handle_event_cases:
  obtains (same) "handle_event sd de_id marshal now m vs = vs"
  | (viewed) wid v where "de_id (msg_data m) = Inr wid" "vs wid = Some v"
      "handle_event sd de_id marshal now m vs =
        vs(wid \<mapsto> view_event sd marshal now (header_get (msg_header m) event_name_header) (msg_data m) v)"
proof (cases "header_get (msg_header m) event_name_header = []")
  case True
  then show thesis by (intro same) (simp add: handle_event_def)
next
  case named: False
  show thesis
  proof (cases "de_id (msg_data m)")
    case (Inl e)
    with named show thesis by (intro same) (simp add: handle_event_def Let_def)
  next
    case (Inr wid)
    with named show thesis
      by (cases "vs wid") (auto simp: handle_event_def Let_def intro: same viewed)
  qed
qed

text \<open>The tries from the \<open>i\<close>-th on: the first that succeeds ends them, the tenth in any case.\<close>

lemma create_consumer_tries:
  assumes "i < max_retries" and "create_consumer create i err = (ps, r)"
  shows "\<exists>k. i \<le> k \<and> k < max_retries \<and> (\<forall>j. i \<le> j \<and> j < k \<longrightarrow> create j \<noteq> None) \<and> create k = r \<and>
    (r \<noteq> None \<longrightarrow> k = max_retries - 1) \<and> ps = [Suc i..<Suc k]"
  using assms
proof (induction create i err arbitrary: ps r rule: create_consumer.induct)
  case (1 create i err)
  show ?case
  proof (cases "create i")
    case None
    with 1 show ?thesis by (intro exI [of _ i]) (auto simp: create_consumer.simps)
  next
    case (Some e)
    show ?thesis
    proof (cases "Suc i < max_retries")
      case True
      obtain qs r' where rest: "create_consumer create (Suc i) (Some e) = (qs, r')" by fastforce
      have n: "\<not> max_retries \<le> i" using 1(2) by simp
      from 1(1) [OF n Some True rest] obtain k where k: "Suc i \<le> k" "k < max_retries"
        "\<forall>j. Suc i \<le> j \<and> j < k \<longrightarrow> create j \<noteq> None" "create k = r'" "r' \<noteq> None \<longrightarrow> k = max_retries - 1" "qs = [Suc (Suc i)..<Suc k]"
        by blast
      have "ps = Suc i # qs \<and> r = r'"
        using 1(3) Some True rest n by (subst (asm) create_consumer.simps) auto
      moreover have "Suc i # qs = [Suc i..<Suc k]" using k(1,6) by (simp add: upt_conv_Cons)
      moreover have all_from: "create j \<noteq> None" if "i \<le> j" "j < k" for j
        using that k(3) Some by (cases "j = i") (auto simp: Suc_le_eq)
      moreover have "i \<le> k" using k(1) by simp
      ultimately show ?thesis
        using k(2,4,5,6) by (intro exI [of _ k]) auto
    next
      case False
      with 1(2) have last: "i = max_retries - 1" by simp
      with 1(2,3) Some False have "ps = [] \<and> r = Some e"
        by (subst (asm) create_consumer.simps, subst (asm) create_consumer.simps) auto
      with Some last 1(2) show ?thesis by (intro exI [of _ i]) auto
    qed
  qed
qed

section \<open>Properties\<close>

text \<open>
  The watcher gives up: it tries at most ten times to create its consumer,
  stops at the first success, pauses one second longer after each failure and never more than 45 seconds in
  all; it reports an error only when all ten tries failed.
\<close>

theorem consumer_creation_ends:
  assumes "create_consumer create 0 err = (ps, r)"
  shows "length ps < 10 \<and> sum_list ps \<le> 45 \<and> (r = None \<longleftrightarrow> (\<exists>i < 10. create i = None)) \<and>
    ps = [1..<Suc (length ps)] \<and> (\<forall>i < length ps. create i \<noteq> None)"
proof -
  have "0 < max_retries" by (simp add: max_retries_def)
  from create_consumer_tries [OF this assms] obtain k where tries: "k < max_retries"
    "\<forall>j. 0 \<le> j \<and> j < k \<longrightarrow> create j \<noteq> None" "create k = r" "r \<noteq> None \<longrightarrow> k = max_retries - 1" "ps = [Suc 0..<Suc k]"
    by blast
  then have k: "k < 10" "\<forall>j. j < k \<longrightarrow> create j \<noteq> None" "create k = r" "r \<noteq> None \<longrightarrow> k = 9" "ps = [1..<Suc k]"
    by (simp_all add: max_retries_def)
  have gauss: "2 * sum_list [1..<Suc n] = n * Suc n" for n by (induction n) simp_all
  have twice: "2 * sum_list ps = k * Suc k" unfolding k(5) by (rule gauss)
  have "k * Suc k \<le> 9 * 10" using k(1) by (intro mult_le_mono) simp_all
  with twice have "sum_list ps \<le> 45" by linarith
  moreover have "r = None" if "i < 10" "create i = None" for i
  proof (rule ccontr)
    assume "r \<noteq> None"
    with k(4) have "k = 9" by blast
    have "\<not> i < k" using that(2) k(2) by blast
    with \<open>k = 9\<close> that(1) have "i = k" by simp
    with that k(3) \<open>r \<noteq> None\<close> show False by simp
  qed
  moreover have "\<exists>i < 10. create i = None" if "r = None" using that k(1,3) by blast
  moreover have "length ps = k" using k(5) by simp
  ultimately show ?thesis using k(1,2,5) by blast
qed

theorem consumer_creation_ends_witness:
  "\<exists>i < 10. (\<lambda>i::nat. if i < 2 then Some ErrNoEvents else None) i = None"
proof -
  let ?create = "\<lambda>i::nat. if i < 2 then Some ErrNoEvents else None"
  have run: "create_consumer ?create 0 None = ([1, 2], None)"
    by (simp add: create_consumer.simps max_retries_def)
  from consumer_creation_ends [OF run] show ?thesis by blast
qed

text \<open> Whatever messages the watcher gets, in whatever order, and with errors
  between them: in every view it keeps, each activity has exactly one step, the current step exists and
  a retried activity counts more attempts than retries; the views of workflows that no message was
  about are as they were, and no view appears or disappears.
\<close>

theorem watched_views_well_formed:
  assumes "\<And>wid v. vs wid = Some v \<Longrightarrow> view_ok v" and "watch_loop sd de_id marshal vs rs = (vs', acks)"
  shows "(\<forall>wid v. vs' wid = Some v \<longrightarrow> view_ok v) \<and> dom vs' = dom vs \<and>
    (\<forall>wid. (\<forall>now m. WatchMsg now m \<in> set rs \<longrightarrow> de_id (msg_data m) \<noteq> Inr wid) \<longrightarrow> vs' wid = vs wid)"
  using assms
proof (induction sd de_id marshal vs rs arbitrary: acks rule: watch_loop.induct)
  case (4 sd de_id marshal vs now m rs)
  let ?vs = "handle_event sd de_id marshal now m vs"
  obtain a where rest: "watch_loop sd de_id marshal ?vs rs = (vs', a)" using 4(3) by (auto split: prod.splits)
  show ?case
  proof (cases rule: handle_event_cases [of sd de_id marshal now m vs])
    case same
    from 4(1) [OF _ rest] 4(2) show ?thesis unfolding same by (metis list.set_intros(2))
  next
    case (viewed wid v)
    have ok: "view_ok u" if "?vs j = Some u" for j u
      using that 4(2) [OF viewed(2)] 4(2) viewed(3) view_event_ok by (cases "j = wid") auto
    have same: "?vs j = vs j" if "de_id (msg_data m) \<noteq> Inr j" for j using that viewed(1,3) by auto
    have "dom ?vs = dom vs" using viewed(2,3) by auto
    moreover note IH = 4(1) [OF ok rest]
    moreover have "vs' j = vs j" if "\<forall>now' m'. WatchMsg now' m' \<in> set (WatchMsg now m # rs) \<longrightarrow> de_id (msg_data m') \<noteq> Inr j" for j
    proof -
      have "de_id (msg_data m) \<noteq> Inr j" using that by auto
      moreover have "vs' j = ?vs j" using IH that by auto
      ultimately show ?thesis using same by simp
    qed
    ultimately show ?thesis by simp
  qed
qed auto

definition demo_message :: "wf_event \<Rightarrow> datum msg" where
  "demo_message e = \<lparr>msg_subject = ''history.w1'', msg_data = [DEvent e],
     msg_header = [(event_name_header, kind_name (kind_of e))], msg_meta = Inr \<lparr>meta_consumer_seq = 1, meta_timestamp_ms = 0\<rparr>\<rparr>"

definition demo_rounds :: "datum watch_round list" where
  "demo_rounds =
     [WatchErr ErrNoEvents,
      WatchMsg 5 (demo_message (ActivityRetried \<lparr>ar_id = ''a1'', ar_wf = ''w1'', ar_fn = ''ship'', ar_attempt = 1,
        ar_error = ''down'', ar_next_delay = 10\<rparr>))]"

definition one_step_view :: workflow_view where
  "one_step_view = (new_view ''w1'' 0)\<lparr>vw_details := [pending_step ''ship'']\<rparr>"

theorem watched_views_well_formed_witness:
  "view_ok (one_step_view\<lparr>vw_details := [\<lparr>sd_name = ''ship'', sd_status = ''running'', sd_attempts = 2,
      sd_started_at = None, sd_ended_at = None, sd_error = [],
      sd_retries = [\<lparr>rt_attempt = 1, rt_error = ''down'', rt_next_delay = 10, rt_recorded_at = 5\<rparr>]\<rparr>]\<rparr>)"
proof -
  have ok: "view_ok v" if "[''w1'' \<mapsto> one_step_view] wid = Some v" for wid v
    using that by (auto simp: one_step_view_def view_ok_def pending_step_def step_ok_def new_view_def split: if_splits)
  let ?v' = "one_step_view\<lparr>vw_details := [\<lparr>sd_name = ''ship'', sd_status = ''running'', sd_attempts = 2,
      sd_started_at = None, sd_ended_at = None, sd_error = [],
      sd_retries = [\<lparr>rt_attempt = 1, rt_error = ''down'', rt_next_delay = 10, rt_recorded_at = 5\<rparr>]\<rparr>]\<rparr>"
  have run: "watch_loop demo_serde (\<lambda>_. Inr ''w1'') (\<lambda>_. None) [''w1'' \<mapsto> one_step_view] demo_rounds
      = ([''w1'' \<mapsto> ?v'], 1)"
    by (simp add: demo_rounds_def demo_message_def handle_event_def view_event_def header_get_def event_name_header_def
        demo_serde_simps on_step_def find_step_by_name_def one_step_view_def pending_step_def step_retried_def Let_def)
  from watched_views_well_formed [OF ok run] show ?thesis by auto
qed

end
