(* ===== verification/DF_Sdk.thy ===== *)
theory DF_Sdk
  imports DF_Conn
begin

text \<open>
  The surface of the SDK: the error types of \<open>sdk/workflow/errors.go\<close>, \<open>sdk/worker/errors.go\<close> and
  \<open>sdk/client/errors.go\<close>, the execution of \<open>sdk/workflow/execution.go\<close>, \<open>NewClient\<close> of
  \<open>sdk/internal/client.go\<close>, the small operations of the connection and of the workflow context, the
  helpers of \<open>sdk/internal/common\<close>, and the serializers of \<open>api/serde\<close>, which put
  their own text before the errors of a library.
\<close>

section \<open>Error types\<close>

text \<open>
  The errors of the SDK over the errors of the model. A cause may be nil. The value of a panic is its
  formatted text.
\<close>

datatype sdk_error =
    SdkPlain gerr
  | SdkWrap string sdk_error
  | NonRetryableError "sdk_error option"
  | TimeoutError string string
  | PanicError string string
  | WorkflowExecutionError string "sdk_error option" string
  | ActivityError string string int "sdk_error option"
  | RegistrationError string "sdk_error option"
  | TaskProcessingError string string string "sdk_error option"

definition newline :: string where
  "newline = [CHR 0x0A]"

text \<open>\<open>%v\<close> of an error that may be nil, given the text of the others.\<close>

fun sdk_text :: "sdk_error \<Rightarrow> string" where
  "sdk_text (SdkPlain e) = gerr_msg e"
| "sdk_text (SdkWrap p e) = p @ '': '' @ sdk_text e"
| "sdk_text (NonRetryableError c) =
     ''non-retryable error: '' @ (case c of None \<Rightarrow> ''<nil>'' | Some e \<Rightarrow> sdk_text e)"
| "sdk_text (TimeoutError ty d) = ty @ '' timeout after '' @ d"
| "sdk_text (PanicError v st) = ''workflow panic: '' @ v @ newline @ ''Stack: '' @ st"
| "sdk_text (WorkflowExecutionError wid c m) =
     (if m \<noteq> [] then ''workflow '' @ wid @ '' failed: '' @ m
      else (case c of
        Some e \<Rightarrow> ''workflow '' @ wid @ '' failed: '' @ sdk_text e
      | None \<Rightarrow> ''workflow '' @ wid @ '' failed''))"
| "sdk_text (ActivityError act wid n c) =
     ''activity '' @ act @ '' (workflow='' @ wid @ '', attempt='' @ int_str n @ '') failed: '' @
     (case c of None \<Rightarrow> ''<nil>'' | Some e \<Rightarrow> sdk_text e)"
| "sdk_text (RegistrationError fn c) =
     ''failed to register function '' @ fn @ '': '' @ (case c of None \<Rightarrow> ''<nil>'' | Some e \<Rightarrow> sdk_text e)"
| "sdk_text (TaskProcessingError ty tid wid c) =
     ''failed to process '' @ ty @ '' task '' @ tid @ '' (workflow='' @ wid @ ''): '' @
     (case c of None \<Rightarrow> ''<nil>'' | Some e \<Rightarrow> sdk_text e)"

text \<open>\<open>Unwrap\<close>, for the errors that have one.\<close>

fun sdk_unwrap :: "sdk_error \<Rightarrow> sdk_error option" where
  "sdk_unwrap (SdkWrap p e) = Some e"
| "sdk_unwrap (NonRetryableError c) = c"
| "sdk_unwrap (WorkflowExecutionError wid c m) = c"
| "sdk_unwrap (ActivityError act wid n c) = c"
| "sdk_unwrap (RegistrationError fn c) = c"
| "sdk_unwrap (TaskProcessingError ty tid wid c) = c"
| "sdk_unwrap e = None"

definition new_workflow_execution_error :: "string \<Rightarrow> sdk_error option \<Rightarrow> sdk_error" where
  "new_workflow_execution_error wid cause = WorkflowExecutionError wid cause []"

text \<open>\<open>errors.As\<close> for \<open>*NonRetryableError\<close>: down the chain of causes.\<close>

lemma sdk_unwrap_smaller: "sdk_unwrap e = Some c \<Longrightarrow> size c < size e"
  by (cases e) auto

function non_retryable_in :: "sdk_error \<Rightarrow> bool" where
  "non_retryable_in e =
     (case e of
        NonRetryableError c \<Rightarrow> True
      | _ \<Rightarrow> (case sdk_unwrap e of None \<Rightarrow> False | Some c \<Rightarrow> non_retryable_in c))"
  by pat_completeness auto
termination by (relation "measure size") (auto dest: sdk_unwrap_smaller)

declare non_retryable_in.simps [simp del]

definition is_non_retryable :: "sdk_error option \<Rightarrow> bool" where
  "is_non_retryable err = (case err of None \<Rightarrow> False | Some e \<Rightarrow> non_retryable_in e)"

lemma non_retryable_simps [simp]:
  "non_retryable_in (NonRetryableError c)" "non_retryable_in (SdkPlain e) = False"
  "non_retryable_in (SdkWrap p x) = non_retryable_in x"
  "non_retryable_in (ActivityError a w n c) = (case c of None \<Rightarrow> False | Some x \<Rightarrow> non_retryable_in x)"
  by (subst non_retryable_in.simps; simp split: option.split)+

section \<open>The execution of the workflow package\<close>

text \<open>
  \<open>Execution.Get\<close>: starting the watch may fail; then the context ends, the channel is closed
  or it delivers the bytes of the result. A nil serializer panics when it is used, as does
  \<open>NewExecution\<close>, whose two branches build the same value.
\<close>

datatype 'x exec_event = ExecCancelled gerr | ExecClosed | ExecBytes "'x list"

record 'x execution =
  ex_workflow_id :: string
  ex_converter :: "'x serde option"

definition new_execution :: "'x serde option \<Rightarrow> string \<Rightarrow> 'x execution" where
  "new_execution conv wid =
     (if conv = None then \<lparr>ex_workflow_id = wid, ex_converter = conv\<rparr>
      else \<lparr>ex_workflow_id = wid, ex_converter = conv\<rparr>)"

definition execution_get ::
    "(gval \<Rightarrow> string) \<Rightarrow> 'x execution \<Rightarrow> gerr option \<Rightarrow> 'x exec_event \<Rightarrow> gtype option \<Rightarrow> panic + get_result" where
  "execution_get fmt_v x watch_err event ptr =
     (case watch_err of
        Some e \<Rightarrow> Inr (GetErr (ErrWrap ''error starting result watch'' e))
      | None \<Rightarrow>
         (case event of
            ExecCancelled e \<Rightarrow> Inr (GetErr e)
          | ExecClosed \<Rightarrow> Inr (GetErr (ErrMsg ''result watcher channel closed unexpectedly''))
          | ExecBytes data \<Rightarrow>
             (case ex_converter x of
                None \<Rightarrow> Inl (OtherPanic ''runtime error: invalid memory address or nil pointer dereference'')
              | Some sd \<Rightarrow>
                 (case de_args sd data of
                    Inl e \<Rightarrow> Inr (GetErr (ErrWrap ''result deserialization failed'' e))
                  | Inr vs \<Rightarrow>
                      if length vs \<noteq> 2 then
                        Inr (GetErr (ErrMsg (''invalid workflow result format: expected [result, error], got '' @
                          nat_str (length vs) @ '' elements'')))
                      else if vs ! 1 \<noteq> GNil then
                        (case vs ! 1 of
                           GStr m \<Rightarrow> if m \<noteq> [] then Inr (GetErr (ErrMsg (''workflow execution failed: '' @ m)))
                             else Inr (GetErr (ErrMsg (''sdk error: '' @ fmt_v (vs ! 1))))
                         | _ \<Rightarrow> Inr (GetErr (ErrMsg (''sdk error: '' @ fmt_v (vs ! 1)))))
                      else
                        (case ptr of
                           None \<Rightarrow> Inr (GetOk None)
                         | Some ty \<Rightarrow>
                             if vs ! 0 = GNil then Inr (GetOk None)
                             else
                               (let bytes = (case ser_val sd (vs ! 0) of Inl e \<Rightarrow> [] | Inr bs \<Rightarrow> bs) in
                                case de_val sd ty bytes of
                                  Inl e \<Rightarrow> Inr (GetErr (ErrWrap ''final result type casting failed'' e))
                                | Inr v \<Rightarrow> Inr (GetOk (Some v))))))))"

section \<open>The client and its connection\<close>

text \<open>
  \<open>NewClient\<close>: the options, if given, as the state of the connection they hold (\<open>None\<close>: nil)
  and the namespace; the serializer is always \<open>MsgpackSerde\<close>.
\<close>

record client_options =
  co_namespace :: string
  co_conn :: bool

definition new_client :: "gerr option \<Rightarrow> client_options option \<Rightarrow> conn_effect list \<times> from_result" where
  "new_client js_new opts =
     (case opts of
        None \<Rightarrow> ([], FromErr (ErrMsg ''client options must include an established NATS connection''))
      | Some op \<Rightarrow>
         (if \<not> co_conn op then ([], FromErr (ErrMsg ''client options must include an established NATS connection''))
          else wrap_existing js_new (co_conn op) (co_namespace op) True))"

text \<open>
  The fields of a connection: the state of the NATS connection, if any, and whether there is a
  JetStream context. The two packages have the same operations.
\<close>

datatype nats_status = NatsConnected | NatsReconnecting | NatsClosed

record conn_handle =
  ch_nc :: "nats_status option"
  ch_js :: bool

definition close_handle :: "conn_handle \<Rightarrow> conn_handle \<times> conn_effect list" where
  "close_handle c =
     (if ch_nc c \<noteq> None \<and> ch_nc c \<noteq> Some NatsClosed then (c\<lparr>ch_nc := Some NatsClosed\<rparr>, [CloseConn]) else (c, []))"

definition handle_js :: "conn_handle \<Rightarrow> gerr option" where
  "handle_js c = (if \<not> ch_js c then Some (ErrMsg ''JetStream context is not initialized'') else None)"

definition handle_connected :: "conn_handle \<Rightarrow> bool" where
  "handle_connected c = (ch_nc c \<noteq> None \<and> ch_nc c = Some NatsConnected)"

definition sdk_close_handle :: "conn_handle \<Rightarrow> conn_handle \<times> conn_effect list" where
  "sdk_close_handle c =
     (if ch_nc c \<noteq> None \<and> ch_nc c \<noteq> Some NatsClosed then (c\<lparr>ch_nc := Some NatsClosed\<rparr>, [CloseConn]) else (c, []))"

definition sdk_handle_js :: "conn_handle \<Rightarrow> gerr option" where
  "sdk_handle_js c = (if \<not> ch_js c then Some (ErrMsg ''JetStream context is not initialized'') else None)"

definition sdk_handle_connected :: "conn_handle \<Rightarrow> bool" where
  "sdk_handle_connected c = (ch_nc c \<noteq> None \<and> ch_nc c = Some NatsConnected)"

lemma handles_agree [simp]:
  "sdk_close_handle = close_handle" "sdk_handle_js = handle_js" "sdk_handle_connected = handle_connected"
  by (intro ext; simp add: sdk_close_handle_def close_handle_def sdk_handle_js_def handle_js_def
      sdk_handle_connected_def handle_connected_def)+

text \<open>\<open>DefaultLogger\<close> and its callers: the logger of the receiver, unless it or the receiver is nil.\<close>

definition default_logger :: "'g \<Rightarrow> 'g option \<Rightarrow> 'g" where
  "default_logger std l = (case l of Some x \<Rightarrow> x | None \<Rightarrow> std)"

definition logger_or_default :: "'g \<Rightarrow> 'g option option \<Rightarrow> 'g" where
  "logger_or_default std receiver = (case receiver of None \<Rightarrow> std | Some l \<Rightarrow> default_logger std l)"

text \<open>\<open>SetLogger\<close> and \<open>Logger\<close> of a connection.\<close>

definition sdk_set_logger :: "'g \<Rightarrow> 'g option \<Rightarrow> 'g" where
  "sdk_set_logger std l = default_logger std l"

definition sdk_logger :: "'g \<Rightarrow> 'g option option \<Rightarrow> 'g" where
  "sdk_logger std conn = (case conn of None \<Rightarrow> std | Some l \<Rightarrow> default_logger std l)"

section \<open>The Go context of a workflow\<close>

text \<open>What the embedded context answers; a nil context has no deadline, no channel and no error.\<close>

record go_context =
  gc_deadline :: "i64 option"
  gc_done :: "nat option"
  gc_err :: "gerr option"

definition wf_deadline :: "go_context option \<Rightarrow> i64 \<times> bool" where
  "wf_deadline cx =
     (case cx of None \<Rightarrow> (0, False) | Some c \<Rightarrow> (case gc_deadline c of None \<Rightarrow> (0, False) | Some t \<Rightarrow> (t, True)))"

definition wf_done :: "go_context option \<Rightarrow> nat option" where
  "wf_done cx = (case cx of None \<Rightarrow> None | Some c \<Rightarrow> gc_done c)"

definition wf_err :: "go_context option \<Rightarrow> gerr option" where
  "wf_err cx = (case cx of None \<Rightarrow> None | Some c \<Rightarrow> gc_err c)"

section \<open>Helpers\<close>

definition reflect_values_to_any :: "('r \<Rightarrow> gval) \<Rightarrow> 'r list \<Rightarrow> gval list" where
  "reflect_values_to_any as_interface vals = map (\<lambda>i. as_interface (vals ! i)) [0..<length vals]"

text \<open>\<open>show\<close>: the type, the kind and the value of what is not nil, as \<open>%v (%v) = %+v\<close>.\<close>

definition debug_any_values :: "(gval \<Rightarrow> string) \<Rightarrow> gval list \<Rightarrow> string" where
  "debug_any_values show_val vals =
     (if vals = [] then ''[]any{} (empty)''
      else ''[]any{'' @ nat_str (length vals) @ '' items}:'' @ newline @
        concat (map (\<lambda>i. ''  ['' @ nat_str i @ '']: '' @ (if vals ! i = GNil then ''<nil>'' else show_val (vals ! i)) @ newline)
          [0..<length vals]))"

section \<open>Serializers\<close>

text \<open>\<open>lib\<close>: marshalling and unmarshalling of a value by the library.\<close>

definition json_serialize :: "('v \<Rightarrow> gerr + 'x list) \<Rightarrow> 'v \<Rightarrow> gerr + 'x list" where
  "json_serialize lib v = (case lib v of Inl e \<Rightarrow> Inl (ErrWrap ''json serialization failed'' e) | Inr bs \<Rightarrow> Inr bs)"

definition json_deserialize :: "('x list \<Rightarrow> gerr + 'v) \<Rightarrow> 'x list \<Rightarrow> gerr + 'v" where
  "json_deserialize lib bs = (case lib bs of Inl e \<Rightarrow> Inl (ErrWrap ''json deserialization failed'' e) | Inr v \<Rightarrow> Inr v)"

definition msgpack_serialize :: "('v \<Rightarrow> gerr + 'x list) \<Rightarrow> 'v \<Rightarrow> gerr + 'x list" where
  "msgpack_serialize lib v = (case lib v of Inl e \<Rightarrow> Inl (ErrWrap ''msgpack serialization failed'' e) | Inr bs \<Rightarrow> Inr bs)"

definition msgpack_deserialize :: "('x list \<Rightarrow> gerr + 'v) \<Rightarrow> 'x list \<Rightarrow> gerr + 'v" where
  "msgpack_deserialize lib bs =
     (case lib bs of Inl e \<Rightarrow> Inl (ErrWrap ''msgpack deserialization failed'' e) | Inr v \<Rightarrow> Inr v)"

lemma serializers_transparent [simp]:
  "json_serialize lib v = Inr bs \<longleftrightarrow> lib v = Inr bs" "json_deserialize delib bs' = Inr w \<longleftrightarrow> delib bs' = Inr w"
  "msgpack_serialize lib v = Inr bs \<longleftrightarrow> lib v = Inr bs" "msgpack_deserialize delib bs' = Inr w \<longleftrightarrow> delib bs' = Inr w"
  by (auto simp: json_serialize_def json_deserialize_def msgpack_serialize_def msgpack_deserialize_def split: sum.splits)

section \<open>Properties\<close>

text \<open>
  Marking an error as non-retryable has no effect. An activity that returns an
  error for which \<open>IsNonRetryable\<close> holds is retried like any other: the worker only looks for the
  whole text of the error in the list of the policy.
\<close>

theorem non_retryable_error_is_retried:
  assumes fn: "registry_get reg (tk_fn task) = Inr (FnValue name f)" "length (afn_in f) = length (tk_input task) + 1"
      "afn_in f ! 0 = TCtx" "convert_activity_inputs ev (afn_in f) 0 (tk_input task) = Inr args"
    and returns: "is_non_retryable (Some err)" "afn_call f args = Inr [v, GErr (sdk_text err)]" "afn_errors f"
    and policy: "tk_retry task = Some p" "sint (tk_attempt task) < sint (rp_maximum_attempts p)"
      "sdk_text err \<notin> set (rp_non_retryable p)" "sint (tk_schedule_to_close task) \<le> 0"
  shows "\<exists>e. process_activity_task ev reg now_ms c task =
      (fst (wf_record_that c (ActivityRetried e)), None, None) \<and> ar_error e = sdk_text err \<and> ar_attempt e = tk_attempt task"
  using assms
  by (auto simp: process_activity_task_def execute_activity_func_def error_of_def settle_activity_error_def
      evaluate_retry_decision_def)

text \<open>
  The execution of the workflow package and the future that \<open>ExecuteWorkflow\<close>
  returns read a delivered result in the same way: they succeed on the same bytes with the same value, and
  report the same text for a workflow that failed with one, provided that the serializer
  refuses empty input; the error of encoding the value again, which the execution drops, then
  comes back as one of decoding.
\<close>

theorem execution_agrees_with_future:
  assumes empty: "\<And>ty. \<exists>e. de_val sd ty [] = Inl e"
  shows "\<exists>r. execution_get fmt_v (new_execution (Some sd) wid) None (ExecBytes data) ptr = Inr r \<and>
    (\<forall>v. r = GetOk v \<longleftrightarrow> executing_get fmt_v sd wid (Inr (Some data)) ptr = GetOk v) \<and>
    (\<forall>v m. de_args sd data = Inr [v, GStr m] \<longrightarrow> m \<noteq> [] \<longrightarrow>
      r = GetErr (ErrMsg (''workflow execution failed: '' @ m)) \<and> executing_get fmt_v sd wid (Inr (Some data)) ptr = r)"
proof -
  have cast: "\<exists>e. de_val sd ty (case ser_val sd v of Inl e \<Rightarrow> [] | Inr bs \<Rightarrow> bs) = Inl e" if "ser_val sd v = Inl x" for ty v x
    using empty that by simp
  show ?thesis
  proof (cases "de_args sd data")
    case (Inl e)
    then show ?thesis by (simp add: execution_get_def new_execution_def executing_get_def)
  next
    case (Inr vs)
    show ?thesis
    proof (cases "length vs = 2")
      case False
      with Inr show ?thesis by (auto simp: execution_get_def new_execution_def executing_get_def)
    next
      case True
      then obtain v er where vs: "vs = [v, er]" by (auto simp: numeral_2_eq_2 length_Suc_conv)
      show ?thesis
      proof (cases "er = GNil")
        case False
        with Inr vs show ?thesis
          by (cases er) (auto simp: execution_get_def new_execution_def executing_get_def)
      next
        case nil: True
        show ?thesis
        proof (cases ptr)
          case None
          with Inr vs nil show ?thesis by (simp add: execution_get_def new_execution_def executing_get_def)
        next
          case (Some ty)
          show ?thesis
          proof (cases "ser_val sd v")
            case (Inl x)
            with cast obtain e where "de_val sd ty (case ser_val sd v of Inl e \<Rightarrow> [] | Inr bs \<Rightarrow> bs) = Inl e" by blast
            with Inr vs nil Some Inl show ?thesis
              by (simp add: execution_get_def new_execution_def executing_get_def Let_def)
          next
            case (Inr bs)
            with \<open>de_args sd data = Inr vs\<close> vs nil Some show ?thesis
              by (cases "de_val sd ty bs") (simp_all add: execution_get_def new_execution_def executing_get_def Let_def)
          qed
        qed
      qed
    qed
  qed
qed

section \<open>Witnesses\<close>

definition declined :: sdk_error where
  "declined = SdkWrap ''charge'' (NonRetryableError (Some (SdkPlain (ErrMsg ''card declined''))))"

definition declining :: "activity_fn fn_registry" where
  "declining = [''greet'' \<mapsto> FnValue ''greet''
     \<lparr>afn_in = [TCtx], afn_errors = True, afn_call = (\<lambda>_. Inr [GNil, GErr (sdk_text declined)])\<rparr>]"

definition declined_task :: activity_task where
  "declined_task = (demo_task 1)\<lparr>tk_retry := Some \<lparr>rp_initial_interval_ms = 0, rp_backoff_coefficient = Fin 2, rp_maximum_interval_ms = 0,
     rp_maximum_attempts = 3, rp_non_retryable = [''card declined'']\<rparr>, tk_schedule_to_close := 0\<rparr>"

theorem non_retryable_error_is_retried_witness:
  "\<exists>e. process_activity_task demo_env declining 0 (context_after [demo_started]) declined_task =
      (fst (wf_record_that (context_after [demo_started]) (ActivityRetried e)), None, None) \<and>
    ar_error e = ''charge: non-retryable error: card declined''"
  using non_retryable_error_is_retried [of declining declined_task "''greet''"
      "\<lparr>afn_in = [TCtx], afn_errors = True, afn_call = (\<lambda>_. Inr [GNil, GErr (sdk_text declined)])\<rparr>" demo_env "[]" declined GNil
      "\<lparr>rp_initial_interval_ms = 0, rp_backoff_coefficient = Fin 2, rp_maximum_interval_ms = 0, rp_maximum_attempts = 3,
        rp_non_retryable = [''card declined'']\<rparr>" 0 "context_after [demo_started]"]
  by (auto simp: declining_def declined_task_def declined_def demo_task_def registry_get_def is_non_retryable_def)

theorem execution_agrees_with_future_witness:
  "execution_get (\<lambda>_. []) (new_execution (Some demo_serde) ''w1'') None (ExecBytes [DArgs [GNil, GStr ''boom'']]) (Some TStr)
    = Inr (GetErr (ErrMsg ''workflow execution failed: boom'')) \<and>
   executing_get (\<lambda>_. []) demo_serde ''w1'' (Inr (Some [DArgs [GNil, GStr ''boom'']])) (Some TStr)
    = GetErr (ErrMsg ''workflow execution failed: boom'')"
proof -
  have "\<exists>e. de_val demo_serde ty [] = Inl e" for ty by (simp add: demo_serde_def)
  from execution_agrees_with_future [OF this, of "\<lambda>_. []" "''w1''" "[DArgs [GNil, GStr ''boom'']]" "Some TStr"]
  show ?thesis by (auto simp: demo_serde_simps)
qed

end
