(* ===== verification/DF_Serve.thy ===== *)
theory DF_Serve
  imports DF_Routing DF_Demo DF_Sdk
begin

text \<open>
  What the server runs: the start of its projectors, \<open>internal/server/projection\<close>, and of its command
  processor, \<open>RunProcessor\<close> of \<open>internal/server/handler/command/handler.go\<close>, as the manager starts
  them, and its HTTP server, \<open>NewServer\<close> and \<open>Start\<close> of
  \<open>internal/server/handler/http/server.go\<close>, with the routes over the handlers of the demonstration
  theory. A multiplexer is \<open>net/http\<close>'s, for patterns without a method and clean paths.
\<close>

section \<open>Projectors and command processor\<close>

datatype projector = WorkflowTasksP | ActivityTasksP | ActivityRetriesP | WorkflowResultsP

definition workflow_task_projector :: string where "workflow_task_projector = ''projector-workflow-tasks''"
definition activity_task_projector :: string where "activity_task_projector = ''projector-activity-tasks''"
definition activity_retry_projector :: string where "activity_retry_projector = ''projector-activity-retries''"
definition workflow_result_projector :: string where "workflow_result_projector = ''projector-workflow-result''"
definition command_processors :: string where "command_processors = ''manager-command-processors''"
definition command_request_pattern :: string where "command_request_pattern = ''command.request.>''"
definition command_request_start :: string where "command_request_start = ''command.request.start''"

text \<open>The consumer of a projector has a durable name and no other; it starts at the first event.\<close>

definition projector_consumer :: "string \<Rightarrow> consumer_setup" where
  "projector_consumer durable = \<lparr>cn_name = [], cn_durable = durable, cn_filter = history_pattern\<rparr>"

text \<open>
  A started component: an error at once, or it consumes until its context is done and returns nil.
  \<open>attach\<close> is what \<open>Consume\<close> on the consumer answers.
\<close>

datatype started = Failed gerr | Running

definition consume_workflow_tasks :: "gerr option \<Rightarrow> started" where
  "consume_workflow_tasks err =
     (case err of
        Some e \<Rightarrow> Failed (ErrWrap ''workflow task projector failed'' e)
      | None \<Rightarrow> Running)"

definition start_workflow_tasks ::
    "('s, 'x) js_client \<Rightarrow> ('s \<Rightarrow> string \<Rightarrow> gerr option) \<Rightarrow> 's \<Rightarrow> 's \<times> started" where
  "start_workflow_tasks js attach s =
     (case ensure_consumer js s workflow_history_stream (projector_consumer workflow_task_projector) of
        (s', Some e) \<Rightarrow> (s', Failed (ErrWrap ''failed to create workflow task projector consumer'' e))
      | (s', None) \<Rightarrow> (s', consume_workflow_tasks (attach s' workflow_task_projector)))"

definition consume_activity_tasks :: "gerr option \<Rightarrow> started" where
  "consume_activity_tasks err =
     (case err of
        Some e \<Rightarrow> Failed (ErrWrap ''activity task projector failed'' e)
      | None \<Rightarrow> Running)"

definition start_activity_tasks ::
    "('s, 'x) js_client \<Rightarrow> ('s \<Rightarrow> string \<Rightarrow> gerr option) \<Rightarrow> 's \<Rightarrow> 's \<times> started" where
  "start_activity_tasks js attach s =
     (case ensure_consumer js s workflow_history_stream (projector_consumer activity_task_projector) of
        (s', Some e) \<Rightarrow> (s', Failed (ErrWrap ''failed to create activity task projector consumer'' e))
      | (s', None) \<Rightarrow> (s', consume_activity_tasks (attach s' activity_task_projector)))"

definition consume_activity_retries :: "gerr option \<Rightarrow> started" where
  "consume_activity_retries err =
     (case err of
        Some e \<Rightarrow> Failed (ErrWrap ''activity retry projector failed'' e)
      | None \<Rightarrow> Running)"

definition start_activity_retries ::
    "('s, 'x) js_client \<Rightarrow> ('s \<Rightarrow> string \<Rightarrow> gerr option) \<Rightarrow> 's \<Rightarrow> 's \<times> started" where
  "start_activity_retries js attach s =
     (case ensure_consumer js s workflow_history_stream (projector_consumer activity_retry_projector) of
        (s', Some e) \<Rightarrow> (s', Failed (ErrWrap ''failed to create activity retry projector consumer'' e))
      | (s', None) \<Rightarrow> (s', consume_activity_retries (attach s' activity_retry_projector)))"

definition consume_workflow_results :: "gerr option \<Rightarrow> started" where
  "consume_workflow_results err =
     (case err of
        Some e \<Rightarrow> Failed (ErrWrap ''workflow result projector failed'' e)
      | None \<Rightarrow> Running)"

definition start_workflow_results ::
    "('s, 'x) js_client \<Rightarrow> ('s \<Rightarrow> string \<Rightarrow> gerr option) \<Rightarrow> 's \<Rightarrow> 's \<times> started" where
  "start_workflow_results js attach s =
     (case ensure_consumer js s workflow_history_stream (projector_consumer workflow_result_projector) of
        (s', Some e) \<Rightarrow> (s', Failed (ErrWrap ''failed to create workflow result projector consumer'' e))
      | (s', None) \<Rightarrow> (s', consume_workflow_results (attach s' workflow_result_projector)))"

lemmas consume_defs = consume_workflow_tasks_def consume_activity_tasks_def consume_activity_retries_def consume_workflow_results_def

definition run_processor :: "('s, 'x) js_client \<Rightarrow> 's \<Rightarrow> 's \<times> started" where
  "run_processor js s =
     (case queue_subscribe js s command_request_pattern command_processors of
        (s', Some e) \<Rightarrow> (s', Failed e)
      | (s', None) \<Rightarrow> (s', Running))"

definition start_projector ::
    "('s, 'x) js_client \<Rightarrow> ('s \<Rightarrow> string \<Rightarrow> gerr option) \<Rightarrow> projector \<Rightarrow> 's \<Rightarrow> 's \<times> started" where
  "start_projector js attach p =
     (case p of
        WorkflowTasksP \<Rightarrow> start_workflow_tasks js attach
      | ActivityTasksP \<Rightarrow> start_activity_tasks js attach
      | ActivityRetriesP \<Rightarrow> start_activity_retries js attach
      | WorkflowResultsP \<Rightarrow> start_workflow_results js attach)"

text \<open>
  The components that \<open>Manager.Run\<close> starts on the connection, in any order: \<open>None\<close> is the
  command processor. The HTTP server does not touch the streams.
\<close>

fun start_all ::
    "('s, 'x) js_client \<Rightarrow> ('s \<Rightarrow> string \<Rightarrow> gerr option) \<Rightarrow> projector option list \<Rightarrow> 's \<Rightarrow> 's \<times> started list" where
  "start_all js attach [] s = (s, [])"
| "start_all js attach (None # ps) s =
     (case run_processor js s of (s', r) \<Rightarrow> (case start_all js attach ps s' of (s2, rs) \<Rightarrow> (s2, r # rs)))"
| "start_all js attach (Some p # ps) s =
     (case start_projector js attach p s of (s', r) \<Rightarrow> (case start_all js attach ps s' of (s2, rs) \<Rightarrow> (s2, r # rs)))"

definition durable_of :: "projector \<Rightarrow> string" where
  "durable_of p =
     (case p of
        WorkflowTasksP \<Rightarrow> workflow_task_projector
      | ActivityTasksP \<Rightarrow> activity_task_projector
      | ActivityRetriesP \<Rightarrow> activity_retry_projector
      | WorkflowResultsP \<Rightarrow> workflow_result_projector)"

lemma durable_inj: "durable_of p = durable_of q \<longleftrightarrow> p = q"
  by (cases p; cases q; simp add: durable_of_def workflow_task_projector_def activity_task_projector_def
      activity_retry_projector_def workflow_result_projector_def)

text \<open>
  The documented behaviour of a server over its consumers, by stream and durable name: the empty name
  is no consumer, an accepted request stores its configuration under its durable name and nothing else,
  and a subscription does not touch them.
\<close>

definition keeps_consumers :: "('s, 'x) js_client \<Rightarrow> ('s \<Rightarrow> string \<times> string \<rightharpoonup> consumer_setup) \<Rightarrow> bool" where
  "keeps_consumers js consumers \<longleftrightarrow>
     (\<forall>s st. jc_find js s st [] \<noteq> None) \<and>
     (\<forall>s st cfg s' r. jc_upsert js s st cfg = (s', r) \<longrightarrow>
        consumers s' = (if r = None then (consumers s)((st, cn_durable cfg) \<mapsto> cfg) else consumers s)) \<and>
     (\<forall>s subj q s' r. nc_subscribe js s subj q = (s', r) \<longrightarrow> consumers s' = consumers s)"

lemma start_projector_ensures:
  "fst (start_projector js attach p s) = fst (ensure_consumer js s workflow_history_stream (projector_consumer (durable_of p)))"
  "snd (start_projector js attach p s) = Running \<Longrightarrow>
    snd (ensure_consumer js s workflow_history_stream (projector_consumer (durable_of p))) = None"
  by (cases p; auto simp: start_projector_def start_workflow_tasks_def start_activity_tasks_def
      start_activity_retries_def start_workflow_results_def consume_defs durable_of_def split: prod.splits option.splits)+

text \<open>A projector that runs has its consumer, and starting it disturbs no other.\<close>

lemma start_projector_consumer:
  assumes law: "keeps_consumers js consumers" and run: "start_projector js attach p s = (s', r)"
  shows "(r = Running \<longrightarrow> consumers s' (workflow_history_stream, durable_of p) = Some (projector_consumer (durable_of p))) \<and>
    (\<forall>k. k \<noteq> (workflow_history_stream, durable_of p) \<longrightarrow> consumers s' k = consumers s k) \<and>
    (consumers s (workflow_history_stream, durable_of p) = Some (projector_consumer (durable_of p)) \<longrightarrow>
      consumers s' (workflow_history_stream, durable_of p) = Some (projector_consumer (durable_of p)))"
proof -
  let ?cfg = "projector_consumer (durable_of p)"
  obtain s1 r1 where ens: "ensure_consumer js s workflow_history_stream ?cfg = (s1, r1)" by fastforce
  have up: "jc_find js s workflow_history_stream (cn_name ?cfg) \<noteq> None"
    using law by (simp add: keeps_consumers_def projector_consumer_def)
  obtain s2 r2 where u: "jc_upsert js s workflow_history_stream ?cfg = (s2, r2)" by fastforce
  have "consumers s2 = (if r2 = None then (consumers s)((workflow_history_stream, durable_of p) \<mapsto> ?cfg) else consumers s)"
    using law u unfolding keeps_consumers_def by (metis (no_types, lifting) projector_consumer_def consumer_setup.select_convs(2))
  then have "consumers s1 = (if r1 = None then (consumers s)((workflow_history_stream, durable_of p) \<mapsto> ?cfg) else consumers s)"
    using ens u up by (auto simp: ensure_consumer_def Let_def split: lookup.splits option.splits)
  moreover have "s' = s1 \<and> (r = Running \<longrightarrow> r1 = None)"
    using run ens start_projector_ensures [of js attach p s] by simp
  ultimately show ?thesis by auto
qed

lemma run_processor_consumers:
  assumes "keeps_consumers js consumers" and "run_processor js s = (s', r)"
  shows "consumers s' = consumers s"
proof -
  obtain s1 r1 where u: "nc_subscribe js s command_request_pattern (Some command_processors) = (s1, r1)" by fastforce
  then have "consumers s1 = consumers s" using assms(1) unfolding keeps_consumers_def by blast
  with assms(2) u show ?thesis by (auto simp: run_processor_def queue_subscribe_def split: option.splits)
qed

lemma start_all_consumers:
  assumes "keeps_consumers js consumers" and "start_all js attach ps s = (s', rs)" and "list_all (\<lambda>r. r = Running) rs"
  shows "(Some p \<in> set ps \<or> consumers s (workflow_history_stream, durable_of p) = Some (projector_consumer (durable_of p))) \<longrightarrow>
    consumers s' (workflow_history_stream, durable_of p) = Some (projector_consumer (durable_of p))"
  using assms(2,3)
proof (induction ps arbitrary: s rs)
  case (Cons c ps)
  show ?case
  proof (cases c)
    case None
    then obtain s1 r rs' where st: "run_processor js s = (s1, r)" "start_all js attach ps s1 = (s', rs')" "rs = r # rs'"
      using Cons.prems by (auto split: prod.splits)
    with Cons.IH [OF st(2)] Cons.prems(2) run_processor_consumers [OF assms(1) st(1)] None show ?thesis by auto
  next
    case (Some q)
    then obtain s1 r rs' where st: "start_projector js attach q s = (s1, r)" "start_all js attach ps s1 = (s', rs')" "rs = r # rs'"
      using Cons.prems by (auto split: prod.splits)
    note one = start_projector_consumer [OF assms(1) st(1)]
    show ?thesis
    proof (cases "q = p")
      case True
      with one Cons.IH [OF st(2)] Cons.prems(2) st(3) Some show ?thesis by auto
    next
      case False
      then have "(workflow_history_stream, durable_of p) \<noteq> (workflow_history_stream, durable_of q)" by (simp add: durable_inj)
      with one Cons.IH [OF st(2)] Cons.prems(2) st(3) Some False show ?thesis by auto
    qed
  qed
qed simp

section \<open>Routing of requests\<close>

record http_request =
  rq_method :: string
  rq_path :: string

text \<open>
  A multiplexer without methods and hosts: the pattern equal to the path, or else the longest pattern
  ending in a slash that the path starts with. A second handler for a pattern panics.
\<close>

type_synonym 'h mux = "(string \<times> 'h) list"

definition mux_handle :: "'h mux \<Rightarrow> string \<Rightarrow> 'h \<Rightarrow> panic + 'h mux" where
  "mux_handle m pat h =
     (if pat \<in> fst ` set m then Inl (OtherPanic (''pattern '' @ quoted pat @ '' conflicts with pattern '' @ quoted pat))
      else Inr (m @ [(pat, h)]))"

fun mux_handle_all :: "'h mux \<Rightarrow> (string \<times> 'h) list \<Rightarrow> panic + 'h mux" where
  "mux_handle_all m [] = Inr m"
| "mux_handle_all m ((pat, h) # rest) =
     (case mux_handle m pat h of Inl p \<Rightarrow> Inl p | Inr m' \<Rightarrow> mux_handle_all m' rest)"

definition is_subtree :: "string \<Rightarrow> string \<Rightarrow> bool" where
  "is_subtree path pat \<longleftrightarrow> pat \<noteq> [] \<and> last pat = CHR ''/'' \<and> take (length pat) path = pat"

fun longest_subtree :: "string \<Rightarrow> 'h mux \<Rightarrow> (string \<times> 'h) option" where
  "longest_subtree path [] = None"
| "longest_subtree path ((pat, h) # m) =
     (case longest_subtree path m of
        None \<Rightarrow> if is_subtree path pat then Some (pat, h) else None
      | Some (q, g) \<Rightarrow> if is_subtree path pat \<and> length q < length pat then Some (pat, h) else Some (q, g))"

definition mux_match :: "'h mux \<Rightarrow> string \<Rightarrow> 'h option" where
  "mux_match m path =
     (case map_of m path of Some h \<Rightarrow> Some h | None \<Rightarrow> map_option snd (longest_subtree path m))"

section \<open>The HTTP server\<close>

text \<open>The frontend is served from a directory, if it exists, and from the embedded files otherwise.\<close>

datatype endpoint = EpHealth | EpReady | EpStart | EpStatus | EpCrash | EpFrontend "string option"

record http_server =
  hs_addr :: string
  hs_mux :: "endpoint mux"

definition frontend_path :: "string \<Rightarrow> string" where
  "frontend_path env = (if env = [] then ''./frontend/build/client'' else env)"

definition new_server :: "string \<Rightarrow> (string \<Rightarrow> gerr option) \<Rightarrow> string \<Rightarrow> panic + http_server" where
  "new_server env stat port =
     (let path = frontend_path env;
          frontend = (if stat path = None then EpFrontend (Some path) else EpFrontend None)
      in case mux_handle_all [] [(''/health'', EpHealth), (''/ready'', EpReady), (''/api/demo/start'', EpStart),
             (''/api/demo/status'', EpStatus), (''/api/demo/crash'', EpCrash), (''/'', frontend)] of
           Inl p \<Rightarrow> Inl p
         | Inr m \<Rightarrow> Inr \<lparr>hs_addr = '':'' @ port, hs_mux = m\<rparr>)"

text \<open>\<open>Start\<close>: listening fails, or the context ends and the server is shut down.\<close>

datatype listen_end = ListenFailed gerr | ListenStopped "gerr option"

definition server_start :: "listen_end \<Rightarrow> gerr option" where
  "server_start r = (case r of ListenFailed e \<Rightarrow> Some e | ListenStopped e \<Rightarrow> e)"

text \<open>
  What a request does: the reply, the new state of the demonstration, and whether the process exits.
  \<open>not_found\<close> is the reply of the multiplexer when no pattern matches; \<open>files\<close> the file server.
\<close>

datatype 'f response =
    RespDemo http_reply
  | RespHealth nat health_response
  | RespFile 'f
  | RespNotFound
  | RespEmpty

record 'x http_env =
  he_request :: "'x list \<Rightarrow> gerr + 'x list"
  he_now_ns :: int
  he_now :: i64
  he_started :: i64
  he_conn :: "bool option"
  he_duration :: "i64 \<Rightarrow> string"

definition http_status :: "http_reply \<Rightarrow> nat" where
  "http_status r = (case r of HttpError c m \<Rightarrow> c | HttpObject c kvs \<Rightarrow> c | HttpView c v \<Rightarrow> c)"

definition run_endpoint ::
    "'x serde \<Rightarrow> 'x http_env \<Rightarrow> (string option \<Rightarrow> string \<Rightarrow> nat \<times> 'f) \<Rightarrow> endpoint option \<Rightarrow> demo_state \<Rightarrow> http_request
      \<Rightarrow> nat \<times> demo_state \<times> 'f response \<times> bool" where
  "run_endpoint sd he files ep h rq =
     (let post = (rq_method rq = ''POST'') in
      case ep of
        None \<Rightarrow> (404, h, RespNotFound, False)
      | Some EpHealth \<Rightarrow>
          (case health_check (he_duration he) (he_started he) (he_now he) of (c, r) \<Rightarrow> (c, h, RespHealth c r, False))
      | Some EpReady \<Rightarrow>
          (case ready_check (he_duration he) (he_started he) (he_now he) (he_conn he) of (c, r) \<Rightarrow> (c, h, RespHealth c r, False))
      | Some EpStart \<Rightarrow>
          (case demo_start sd (he_request he) post (he_now_ns he) (he_now he) h of
             (h', r) \<Rightarrow> (http_status r, h', RespDemo r, False))
      | Some EpStatus \<Rightarrow> (http_status (demo_status h), h, RespDemo (demo_status h), False)
      | Some EpCrash \<Rightarrow> (case demo_crash post of (r, exits) \<Rightarrow> (http_status r, h, RespDemo r, exits))
      | Some (EpFrontend dir) \<Rightarrow> (case files dir (rq_path rq) of (c, f) \<Rightarrow> (c, h, RespFile f, False)))"

definition serve_request ::
    "'x serde \<Rightarrow> 'x http_env \<Rightarrow> (string option \<Rightarrow> string \<Rightarrow> nat \<times> 'f) \<Rightarrow> http_server \<Rightarrow> demo_state \<Rightarrow> http_request
      \<Rightarrow> (string \<times> string) list \<times> nat \<times> demo_state \<times> 'f response \<times> bool" where
  "serve_request sd he files srv h rq =
     cors_middleware (\<lambda>r. run_endpoint sd he files (mux_match (hs_mux srv) (rq_path r)) h r) (h, RespEmpty, False)
       (rq_method rq) rq"

section \<open>Lemmas\<close>

text \<open>The routes: registering them does not panic, and every path but five goes to the frontend.\<close>

lemma new_server_routes:
  "\<exists>m. new_server env stat port = Inr \<lparr>hs_addr = '':'' @ port, hs_mux = m\<rparr> \<and>
    mux_match m ''/health'' = Some EpHealth \<and> mux_match m ''/ready'' = Some EpReady \<and>
    mux_match m ''/api/demo/start'' = Some EpStart \<and> mux_match m ''/api/demo/status'' = Some EpStatus \<and>
    mux_match m ''/api/demo/crash'' = Some EpCrash \<and>
    (\<forall>path. path \<notin> {''/health'', ''/ready'', ''/api/demo/start'', ''/api/demo/status'', ''/api/demo/crash''} \<longrightarrow>
      take 1 path = ''/'' \<longrightarrow> mux_match m path =
        Some (if stat (frontend_path env) = None then EpFrontend (Some (frontend_path env)) else EpFrontend None))"
  by (auto simp: new_server_def mux_handle_def mux_match_def is_subtree_def Let_def)

lemma no_subtree_without_slash: "take 1 path \<noteq> ''/'' \<Longrightarrow> path \<notin> fst ` set m \<Longrightarrow>
    list_all (\<lambda>(p, h). take 1 p = ''/'') m \<Longrightarrow> mux_match m path = None"
proof -
  assume a: "take 1 path \<noteq> ''/''" "path \<notin> fst ` set m" "list_all (\<lambda>(p, h). take 1 p = ''/'') m"
  have "\<not> is_subtree path p" if "take 1 p = ''/''" for p
  proof
    assume "is_subtree path p"
    then have "p \<noteq> []" and pre: "take (length p) path = p" by (auto simp: is_subtree_def)
    then have "take 1 path = take 1 p" by (metis One_nat_def Suc_leI length_greater_0_conv min.absorb1 take_take)
    with that a(1) show False by simp
  qed
  with a(3) have "longest_subtree path m = None"
    by (induction m rule: longest_subtree.induct) auto
  moreover have "map_of m path = None" using a(2) by (simp add: map_of_eq_None_iff)
  ultimately show ?thesis by (simp add: mux_match_def)
qed

lemma endpoint_of_path:
  assumes "new_server env stat port = Inr srv"
  shows "mux_match (hs_mux srv) path = Some EpCrash \<longleftrightarrow> path = ''/api/demo/crash''"
    and "mux_match (hs_mux srv) path = Some EpStart \<longleftrightarrow> path = ''/api/demo/start''"
proof -
  obtain m where m: "srv = \<lparr>hs_addr = '':'' @ port, hs_mux = m\<rparr>"
    "mux_match m ''/health'' = Some EpHealth" "mux_match m ''/ready'' = Some EpReady"
    "mux_match m ''/api/demo/start'' = Some EpStart" "mux_match m ''/api/demo/status'' = Some EpStatus"
    "mux_match m ''/api/demo/crash'' = Some EpCrash"
    "\<And>path. path \<notin> {''/health'', ''/ready'', ''/api/demo/start'', ''/api/demo/status'', ''/api/demo/crash''} \<Longrightarrow>
      take 1 path = ''/'' \<Longrightarrow> mux_match m path =
        Some (if stat (frontend_path env) = None then EpFrontend (Some (frontend_path env)) else EpFrontend None)"
    using new_server_routes [of env stat port] assms by auto
  have other: "mux_match m path = None" if "take 1 path \<noteq> ''/''"
  proof (rule no_subtree_without_slash [OF that])
    show "path \<notin> fst ` set m" "list_all (\<lambda>(p, h). take 1 p = ''/'') m"
      using assms m(1) that by (auto simp: new_server_def mux_handle_def Let_def)
  qed
  let ?five = "{''/health'', ''/ready'', ''/api/demo/start'', ''/api/demo/status'', ''/api/demo/crash''}"
  have rest: "mux_match m path \<notin> {Some EpCrash, Some EpStart}" if "path \<notin> ?five"
    using m(7) [OF that] other by (cases "take 1 path = ''/''") (simp_all split: if_split)
  show "mux_match (hs_mux srv) path = Some EpCrash \<longleftrightarrow> path = ''/api/demo/crash''"
  proof (cases "path \<in> ?five")
    case True
    then show ?thesis using m(1-6) by (elim insertE) simp_all
  qed (use m(1) rest in auto)
  show "mux_match (hs_mux srv) path = Some EpStart \<longleftrightarrow> path = ''/api/demo/start''"
  proof (cases "path \<in> ?five")
    case True
    then show ?thesis using m(1-6) by (elim insertE) simp_all
  qed (use m(1) rest in auto)
qed

section \<open>Properties\<close>

text \<open>
  (C23) Once the components of the manager are started in any order, on a server that keeps its
  consumers as documented, every projector has a durable consumer of its own on the history, whose
  filter matches the events of every workflow, and the command processor gets the start requests.
\<close>

theorem projectors_see_history:
  assumes law: "keeps_consumers js consumers" and mt: "wildcard_matching mt"
    and run: "start_all js attach comps s = (s', rs)" "list_all (\<lambda>r. r = Running) rs" and all: "Some p \<in> set comps"
  shows "\<exists>cfg. consumers s' (workflow_history_stream, durable_of p) = Some cfg \<and> cn_durable cfg = durable_of p \<and>
    (\<forall>wid. token_id wid \<longrightarrow> mt (cn_filter cfg) (''history.'' @ wid)) \<and>
    (\<forall>q. durable_of q = durable_of p \<longrightarrow> q = p) \<and> mt command_request_pattern command_request_start"
proof -
  have "consumers s' (workflow_history_stream, durable_of p) = Some (projector_consumer (durable_of p))"
    using start_all_consumers [OF law run] all by blast
  moreover have "mt history_pattern (''history.'' @ wid)" if "token_id wid" for wid
    using matches_iff [OF mt task_subjects_literal(3) [OF that]] task_subject_tokens(3) [of wid] that
    by (simp add: pattern_tokens token_id_def)
  moreover have "mt command_request_pattern command_request_start"
  proof -
    have T: "tokens command_request_start = [''command'', ''request'', ''start'']"
        "tokens command_request_pattern = [''command'', ''request'', ''>'']"
      using tokens_cons [of "''command''" "''request.start''"] tokens_cons [of "''request''" "''start''"]
        tokens_cons [of "''command''" "''request.>''"] tokens_cons [of "''request''" "''>''"]
      by (simp_all add: command_request_start_def command_request_pattern_def)
    then have "literal command_request_start" by (simp add: literal_def)
    from matches_iff [OF mt this] T show ?thesis by simp
  qed
  ultimately show ?thesis by (auto simp: projector_consumer_def durable_inj)
qed

text \<open>
  What a request can do to the server. Every reply carries the headers for other
  origins; the process exits exactly on a POST to the crash endpoint, and the state of the
  demonstration changes only on a POST to the start endpoint. A preflight request is answered
  with an empty 200 and has no effect, whatever its path.
\<close>

theorem only_posted_crash_exits:
  assumes srv: "new_server env stat port = Inr srv"
    and req: "serve_request sd he files srv h rq = (hdrs, status, h', resp, exits)"
  shows "hdrs = cors_headers \<and>
    (exits \<longleftrightarrow> rq_path rq = ''/api/demo/crash'' \<and> rq_method rq = ''POST'') \<and>
    (h' \<noteq> h \<longrightarrow> rq_path rq = ''/api/demo/start'' \<and> rq_method rq = ''POST'') \<and>
    (rq_method rq = ''OPTIONS'' \<longrightarrow> status = 200 \<and> h' = h \<and> resp = RespEmpty)"
proof -
  define ep where "ep = mux_match (hs_mux srv) (rq_path rq)"
  define post where "post \<longleftrightarrow> rq_method rq = ''POST''"
  have ends: "ep = Some EpCrash \<longleftrightarrow> rq_path rq = ''/api/demo/crash''" "ep = Some EpStart \<longleftrightarrow> rq_path rq = ''/api/demo/start''"
    using endpoint_of_path [OF srv, of "rq_path rq"] by (simp_all add: ep_def)
  have "(snd (snd (snd (run_endpoint sd he files ep h rq))) \<longleftrightarrow> ep = Some EpCrash \<and> post) \<and>
      (fst (snd (run_endpoint sd he files ep h rq)) \<noteq> h \<longrightarrow> ep = Some EpStart \<and> post)"
  proof (cases ep)
    case (Some e)
    show ?thesis
      by (cases e)
        (auto simp: Some run_endpoint_def post_def [symmetric] demo_crash_def health_check_def ready_check_def
          demo_start_def Let_def split: prod.splits)
  qed (simp add: run_endpoint_def)
  moreover have "rq_method rq = ''OPTIONS'' \<Longrightarrow> \<not> post" by (simp add: post_def)
  ultimately show ?thesis
    using req ends
    by (auto simp: serve_request_def cors_middleware_def ep_def [symmetric] post_def split: if_splits)
qed

section \<open>Witnesses\<close>

text \<open>A server whose state is its consumers.\<close>

definition demo_consumers :: "(string \<times> string \<rightharpoonup> consumer_setup, nat) js_client" where
  "demo_consumers = \<lparr>
     jk_find = (\<lambda>_ _. Found), jk_create = (\<lambda>m _. (m, None)), jk_update = (\<lambda>m _. (m, None)),
     jk_put = (\<lambda>m _ _ _. (m, Inr 1)), jk_get = (\<lambda>_ _ _. Inr []), jk_watch = (\<lambda>_ _ _. None),
     jm_find = (\<lambda>_ _. Found), jm_create = (\<lambda>m _. (m, None)), jm_info = (\<lambda>_ _. Inr history_setup),
     jm_update = (\<lambda>m _. (m, None)), jm_publish = (\<lambda>m _ _. (m, None)),
     jc_find = (\<lambda>m st n. if m (st, n) = None \<or> n = [] then Some (ErrMsg ''nats: consumer not found'') else None),
     jc_upsert = (\<lambda>m st c. (m((st, cn_durable c) \<mapsto> c), None)), jc_fetch = (\<lambda>_ _ _. Inr []),
     nc_publish = (\<lambda>m _ _. (m, None)), nc_subscribe = (\<lambda>m _ _. (m, None))\<rparr>"

lemma demo_consumers_law: "keeps_consumers demo_consumers (\<lambda>m. m)"
  by (auto simp: keeps_consumers_def demo_consumers_def)

definition demo_components :: "projector option list" where
  "demo_components = [None, Some ActivityRetriesP, Some WorkflowTasksP, Some WorkflowResultsP, Some ActivityTasksP]"

lemma demo_started:
  "start_all demo_consumers (\<lambda>_ _. None) demo_components Map.empty =
    (fst (start_all demo_consumers (\<lambda>_ _. None) demo_components Map.empty), [Running, Running, Running, Running, Running])"
  by (simp add: demo_components_def start_projector_def start_workflow_tasks_def start_activity_tasks_def
      start_activity_retries_def start_workflow_results_def consume_defs run_processor_def ensure_consumer_def queue_subscribe_def
      demo_consumers_def projector_consumer_def)

theorem projectors_see_history_witness:
  "\<exists>cfg. fst (start_all demo_consumers (\<lambda>_ _. None) demo_components Map.empty)
      (workflow_history_stream, ''projector-activity-tasks'') = Some cfg \<and> demo_matching (cn_filter cfg) ''history.w1''"
proof -
  have "Some ActivityTasksP \<in> set demo_components" by (simp add: demo_components_def)
  from projectors_see_history [OF demo_consumers_law demo_matching_ok demo_started _ this] obtain cfg where
    cfg: "fst (start_all demo_consumers (\<lambda>_ _. None) demo_components Map.empty)
      (workflow_history_stream, durable_of ActivityTasksP) = Some cfg"
    "\<forall>wid. token_id wid \<longrightarrow> demo_matching (cn_filter cfg) (''history.'' @ wid)" by auto
  have "token_id ''w1''" by (simp add: token_id_def)
  with cfg have "demo_matching (cn_filter cfg) (''history.'' @ ''w1'')" by blast
  with cfg(1) show ?thesis by (simp add: durable_of_def activity_task_projector_def)
qed

definition demo_http :: "datum http_env" where
  "demo_http = \<lparr>he_request = (\<lambda>_. Inl (ErrMsg ''nats: timeout'')), he_now_ns = 0, he_now = 0, he_started = 0,
     he_conn = Some True, he_duration = (\<lambda>_. ''1s'')\<rparr>"

definition demo_http_server :: http_server where
  "demo_http_server = \<lparr>hs_addr = '':8080'', hs_mux = [(''/health'', EpHealth), (''/ready'', EpReady),
     (''/api/demo/start'', EpStart), (''/api/demo/status'', EpStatus), (''/api/demo/crash'', EpCrash), (''/'', EpFrontend None)]\<rparr>"

theorem only_posted_crash_exits_witness:
  "serve_request demo_serde demo_http (\<lambda>_ _. (200 :: nat, ())) demo_http_server new_demo
      \<lparr>rq_method = ''OPTIONS'', rq_path = ''/api/demo/crash''\<rparr> = (cors_headers, 200, new_demo, RespEmpty, False)"
proof -
  let ?rq = "\<lparr>rq_method = ''OPTIONS'', rq_path = ''/api/demo/crash''\<rparr>"
  have srv: "new_server [] (\<lambda>_. Some (ErrMsg ''no such file'')) ''8080'' = Inr demo_http_server"
    by (simp add: new_server_def mux_handle_def demo_http_server_def Let_def)
  obtain hdrs status h' resp exits where r: "serve_request demo_serde demo_http (\<lambda>_ _. (200 :: nat, ())) demo_http_server
      new_demo ?rq = (hdrs, status, h', resp, exits)" by (metis prod_cases5)
  from only_posted_crash_exits [OF srv r] r show ?thesis by simp
qed

end
