(* ===== verification/DF_Programs.thy ===== *)
theory DF_Programs
  imports DF_Examples DF_Serve "HOL-Library.AList" "HOL-Library.List_Lexorder" "HOL-Library.Char_ord"
begin

text \<open>
  The example program: the registry of scenarios (\<open>examples/scenarios/scenarios.go\<close>), what each scenario
  registers and runs (\<open>Example\<close> in \<open>order.go\<close>, \<open>order_retries.go\<close> and \<open>recovery.go\<close>), and the
  program that starts a worker or a client for one of them (\<open>examples/cmd/main.go\<close>). Running a
  worker, waiting for a group of goroutines and dialling are parameters.
\<close>

section \<open>Activities\<close>

text \<open>
  What an activity finds when it is called: the clock, read up to twice, and the global variables of the
  packages, the counters of attempts and the orders that failed once.
\<close>

record activity_world =
  aw_now1 :: int
  aw_now2 :: int
  aw_payment :: i32
  aw_shipping :: i32
  aw_inventory :: i32
  aw_failed :: "string set"

text \<open>The results of a call as reflection hands them to the worker: the value and the error, nil or not.\<close>

definition answer :: "go_results \<Rightarrow> panic + gval list" where
  "answer r =
     (case r of
        Inl p \<Rightarrow> Inl p
      | Inr (v, e) \<Rightarrow> Inr [v, case e of None \<Rightarrow> GNil | Some x \<Rightarrow> GErr (gerr_msg x)])"

fun f64_add :: "f64 \<Rightarrow> f64 \<Rightarrow> f64" where
  "f64_add (Fin x) (Fin y) = f64_round (x + y)"
| "f64_add (Fin x) y = y"
| "f64_add x (Fin y) = x"
| "f64_add x y = (if x = y then x else NaN)"

definition any_map :: "gval \<Rightarrow> (gval \<times> gval) list option" where
  "any_map v = (case v of GMap TStr TAny kvs \<Rightarrow> Some kvs | _ \<Rightarrow> None)"

definition number_at :: "string \<Rightarrow> (gval \<times> gval) list \<Rightarrow> f64 option" where
  "number_at k kvs = (case map_of kvs (GStr k) of Some (GF64 f) \<Rightarrow> Some f | _ \<Rightarrow> None)"

definition add_activity :: "gval \<Rightarrow> go_results" where
  "add_activity input =
     (case any_map input of
        None \<Rightarrow> fails GNil ''invalid input type for AddActivity''
      | Some kvs \<Rightarrow>
         (case number_at ''a'' kvs of
            None \<Rightarrow> fails GNil (''input '' @ quote1 ''a'' @ '' must be a number'')
          | Some a \<Rightarrow>
             (case number_at ''b'' kvs of
                None \<Rightarrow> fails GNil (''input '' @ quote1 ''b'' @ '' must be a number'')
              | Some b \<Rightarrow> returns (GMap TStr TAny [(GStr ''result'', GF64 (f64_add a b))]))))"

definition delayed_activity :: "int \<Rightarrow> gval \<Rightarrow> go_results" where
  "delayed_activity now input =
     returns (GMap TStr TAny [(GStr ''message'', GStr ''Delayed activity completed''), (GStr ''timestamp'', time_value now),
       (GStr ''input'', input)])"

text \<open>
  The functions of a scenario: the name, the parameters after the context, the type of the first
  result, and the body.
\<close>

record signature =
  sg_name :: string
  sg_in :: "gtype list"
  sg_out :: gtype
  sg_body :: "gval list \<Rightarrow> go_results"

abbreviation signature :: "string \<Rightarrow> gtype list \<Rightarrow> gtype \<Rightarrow> (gval list \<Rightarrow> go_results) \<Rightarrow> signature" where
  "signature n ts t body \<equiv> \<lparr>sg_name = n, sg_in = ts, sg_out = t, sg_body = body\<rparr>"

definition activity_of :: "signature \<Rightarrow> activity_fn" where
  "activity_of sg = \<lparr>afn_in = TCtx # sg_in sg, afn_errors = True,
     afn_call = (\<lambda>args. answer (sg_body sg args))\<rparr>"

section \<open>Scenarios\<close>

text \<open>Registering functions in order, each with the text that its failure is reported with.\<close>

fun register_list ::
    "('f fn_any \<Rightarrow> string) \<Rightarrow> 'f fn_registry \<Rightarrow> (string \<times> 'f fn_any) list \<Rightarrow> panic + ('f fn_registry \<times> gerr option)" where
  "register_list fmt_f m [] = Inr (m, None)"
| "register_list fmt_f m ((txt, fn) # rest) =
     (case register_fn fmt_f m fn of
        Inl p \<Rightarrow> Inl p
      | Inr (m', Some e) \<Rightarrow> Inr (m', Some (ErrWrap txt e))
      | Inr (m', None) \<Rightarrow> register_list fmt_f m' rest)"

definition registrable :: "(string \<Rightarrow> string) \<Rightarrow> (string \<Rightarrow> string) \<Rightarrow> signature list \<Rightarrow> (string \<times> activity_fn fn_any) list" where
  "registrable txt full sgs = map (\<lambda>sg. (txt (sg_name sg), FnValue (full (sg_name sg)) (activity_of sg))) sgs"

definition order_activities :: "activity_world \<Rightarrow> signature list" where
  "order_activities w = [
     signature ''AddActivity'' [TAny] TAny (\<lambda>as. add_activity (as ! 0)),
     signature ''DelayedActivity'' [TAny] TAny (\<lambda>as. delayed_activity (aw_now1 w) (as ! 0)),
     signature ''ChargeCreditCardActivity'' [TStr, TF64] TAny
       (\<lambda>as. charge_credit_card (aw_now1 w) (aw_now2 w) (as ! 0) (as ! 1)),
     signature ''ShipPackageActivity'' [TStruct ''ChargeResult''] TAny
       (\<lambda>as. ship_package (aw_now1 w) (aw_now2 w) (as ! 0))]"

definition order_register_workflows ::
    "(workflow_fn fn_any \<Rightarrow> string) \<Rightarrow> workflow_fn fn_registry \<Rightarrow> panic + (workflow_fn fn_registry \<times> gerr option)" where
  "order_register_workflows fmt_f m =
     register_fn fmt_f m (FnValue (order_fn ''OrderWorkflow'')
       \<lparr>wfn_in = [TWfCtx, TStr, TStr, TF64, TIntT IInt], wfn_body = order_workflow\<rparr>)"

definition order_register_activities ::
    "activity_world \<Rightarrow> (activity_fn fn_any \<Rightarrow> string) \<Rightarrow> activity_fn fn_registry
      \<Rightarrow> panic + (activity_fn fn_registry \<times> gerr option)" where
  "order_register_activities w fmt_f m = register_list fmt_f m (registrable (\<lambda>n. ''register '' @ n) order_fn (order_activities w))"

definition retries_activities :: "(f64 \<Rightarrow> i64) \<Rightarrow> activity_world \<Rightarrow> signature list" where
  "retries_activities oor w = (let now = aw_now1 w in [
     signature ''ValidateOrderDetailsActivity'' [TStruct ''OrderValidationRequest''] (TStruct ''OrderValidationResult'')
       (\<lambda>as. validate_order oor now (as ! 0)),
     signature ''TransientFailurePaymentActivity'' [TStruct ''PaymentRequest''] (TStruct ''PaymentResult'')
       (\<lambda>as. snd (process_payment now (aw_payment w) (as ! 0))),
     signature ''NonRetryablePaymentActivity'' [TStruct ''PaymentRequest''] (TStruct ''PaymentResult'')
       (\<lambda>as. non_retryable_payment now (as ! 0)),
     signature ''ReserveInventoryActivity'' [TStruct ''InventoryRequest''] (TStruct ''InventoryReservation'')
       (\<lambda>as. snd (reserve_inventory now (aw_inventory w) (as ! 0))),
     signature ''PackageOrderActivity'' [TStruct ''PackageRequest''] (TStruct ''PackageResult'')
       (\<lambda>as. package_order now (as ! 0)),
     signature ''EventuallySuccessfulShippingActivity'' [TStruct ''ShippingRequest''] (TStruct ''ShippingResult'')
       (\<lambda>as. snd (ship_eventually now (aw_shipping w) (as ! 0))),
     signature ''NotifyCustomerActivity'' [TStruct ''NotificationRequest''] (TStruct ''NotificationResult'')
       (\<lambda>as. notify_customer now (as ! 0))])"

definition retries_register_workflows ::
    "(workflow_fn fn_any \<Rightarrow> string) \<Rightarrow> workflow_fn fn_registry \<Rightarrow> panic + (workflow_fn fn_registry \<times> gerr option)" where
  "retries_register_workflows fmt_f m =
     register_fn fmt_f m (FnValue (retries_fn ''OrderWithRetriesWorkflow'')
       \<lparr>wfn_in = [TWfCtx, TStr, TStr, TF64], wfn_body = order_with_retries\<rparr>)"

definition retries_register_activities ::
    "(f64 \<Rightarrow> i64) \<Rightarrow> activity_world \<Rightarrow> (activity_fn fn_any \<Rightarrow> string) \<Rightarrow> activity_fn fn_registry
      \<Rightarrow> panic + (activity_fn fn_registry \<times> gerr option)" where
  "retries_register_activities oor w fmt_f m =
     register_list fmt_f m (registrable (\<lambda>_. ''register activity'') retries_fn (retries_activities oor w))"

definition recovery_activities :: "activity_world \<Rightarrow> signature list" where
  "recovery_activities w = [
     signature ''FlakyChargeCreditCardActivity'' [TStruct ''ChargeRequest''] (TStruct ''ChargeResult'')
       (\<lambda>as. snd (flaky_charge (aw_now1 w) (aw_failed w) (as ! 0))),
     signature ''ShipAfterPaymentActivity'' [TStruct ''ShipmentRequest''] (TStruct ''ShipResult'')
       (\<lambda>as. ship_after_payment (aw_now1 w) (aw_now2 w) (as ! 0))]"

definition recovery_register_workflows ::
    "(workflow_fn fn_any \<Rightarrow> string) \<Rightarrow> workflow_fn fn_registry \<Rightarrow> panic + (workflow_fn fn_registry \<times> gerr option)" where
  "recovery_register_workflows fmt_f m =
     register_fn fmt_f m (FnValue (recovery_fn ''RecoverableOrderWorkflow'')
       \<lparr>wfn_in = [TWfCtx, TStr, TStr, TF64], wfn_body = recoverable_order\<rparr>)"

definition recovery_register_activities ::
    "activity_world \<Rightarrow> (activity_fn fn_any \<Rightarrow> string) \<Rightarrow> activity_fn fn_registry
      \<Rightarrow> panic + (activity_fn fn_registry \<times> gerr option)" where
  "recovery_register_activities w fmt_f m =
     register_list fmt_f m
       (registrable (\<lambda>n. if n = ''FlakyChargeCreditCardActivity'' then ''register payment activity''
          else ''register shipping activity'') recovery_fn (recovery_activities w))"

text \<open>
  The whole call of the workflow function of the scenario with retries: it resets the counters, at
  every run and so at every replay, and goes on with its activities.
\<close>

definition reset_counters :: "activity_world \<Rightarrow> activity_world" where
  "reset_counters w = w\<lparr>aw_payment := 0, aw_shipping := 0, aw_inventory := 0\<rparr>"

definition call_order_with_retries :: "activity_world \<Rightarrow> gval list \<Rightarrow> activity_world \<times> prog" where
  "call_order_with_retries w args = (reset_counters w, order_with_retries args)"

section \<open>Clients\<close>

text \<open>
  \<open>ExecuteWorkflow\<close> with the function of the scenario, then \<open>Get\<close> into a variable of type \<open>any\<close>:
  \<open>execute\<close> and \<open>wait\<close> are those of the client. The result is a panic, the error, or the value.
\<close>

definition run_scenario ::
    "(workflow_fn fn_any \<Rightarrow> gval list \<Rightarrow> panic + (gerr + string)) \<Rightarrow> (string \<Rightarrow> gtype option \<Rightarrow> get_result)
      \<Rightarrow> string \<Rightarrow> string \<Rightarrow> workflow_fn fn_any \<Rightarrow> gval list \<Rightarrow> panic + (gerr + gval option)" where
  "run_scenario execute wait start_txt wait_txt fn input =
     (case execute fn input of
        Inl p \<Rightarrow> Inl p
      | Inr (Inl e) \<Rightarrow> Inr (Inl (ErrWrap start_txt e))
      | Inr (Inr wid) \<Rightarrow>
         (case wait wid (Some TAny) of
            GetErr e \<Rightarrow> Inr (Inl (ErrWrap wait_txt e))
          | GetOk v \<Rightarrow> Inr (Inr v)))"

definition order_run_client ::
    "(workflow_fn fn_any \<Rightarrow> gval list \<Rightarrow> panic + (gerr + string)) \<Rightarrow> (string \<Rightarrow> gtype option \<Rightarrow> get_result)
      \<Rightarrow> panic + (gerr + gval option)" where
  "order_run_client execute wait =
     run_scenario execute wait ''starting workflow failed'' ''waiting for workflow result failed''
       (FnValue (order_fn ''OrderWorkflow'') \<lparr>wfn_in = [TWfCtx, TStr, TStr, TF64, TIntT IInt], wfn_body = order_workflow\<rparr>)
       [GStr ''Bob'', GStr ''widget-1000'', GF64 (Fin 1000), GInt IInt 2]"

definition retries_run_client ::
    "int \<Rightarrow> (workflow_fn fn_any \<Rightarrow> gval list \<Rightarrow> panic + (gerr + string)) \<Rightarrow> (string \<Rightarrow> gtype option \<Rightarrow> get_result)
      \<Rightarrow> panic + (gerr + gval option)" where
  "retries_run_client now_ns execute wait =
     run_scenario execute wait ''starting workflow failed'' ''workflow execution failed''
       (FnValue (retries_fn ''OrderWithRetriesWorkflow'') \<lparr>wfn_in = [TWfCtx, TStr, TStr, TF64], wfn_body = order_with_retries\<rparr>)
       [GStr (''retry-demo-'' @ int_str now_ns), GStr ''demo-customer'', GF64 (f64_round (29999 / 100))]"

definition recovery_run_client ::
    "int \<Rightarrow> (workflow_fn fn_any \<Rightarrow> gval list \<Rightarrow> panic + (gerr + string)) \<Rightarrow> (string \<Rightarrow> gtype option \<Rightarrow> get_result)
      \<Rightarrow> panic + (gerr + gval option)" where
  "recovery_run_client now_ns execute wait =
     run_scenario execute wait ''starting recovery workflow failed'' ''waiting for recovery workflow result failed''
       (FnValue (recovery_fn ''RecoverableOrderWorkflow'') \<lparr>wfn_in = [TWfCtx, TStr, TStr, TF64], wfn_body = recoverable_order\<rparr>)
       [GStr (''recovery-'' @ int_str now_ns), GStr ''Bob'', GF64 (Fin 1000)]"

section \<open>The registry of scenarios\<close>

record scenario =
  sc_name :: string
  sc_workflows :: "(workflow_fn fn_any \<Rightarrow> string) \<Rightarrow> workflow_fn fn_registry \<Rightarrow> panic + (workflow_fn fn_registry \<times> gerr option)"
  sc_activities :: "(activity_fn fn_any \<Rightarrow> string) \<Rightarrow> activity_fn fn_registry \<Rightarrow> panic + (activity_fn fn_registry \<times> gerr option)"
  sc_client :: "(workflow_fn fn_any \<Rightarrow> gval list \<Rightarrow> panic + (gerr + string)) \<Rightarrow> (string \<Rightarrow> gtype option \<Rightarrow> get_result)
      \<Rightarrow> panic + (gerr + gval option)"

type_synonym scenarios = "(string \<times> scenario) list"

text \<open>A nil scenario is ignored; a second one with the same name replaces the first.\<close>

definition scenarios_register :: "scenario option \<Rightarrow> scenarios \<Rightarrow> scenarios" where
  "scenarios_register ex reg = (case ex of None \<Rightarrow> reg | Some x \<Rightarrow> AList.update (sc_name x) x reg)"

definition scenarios_get :: "scenarios \<Rightarrow> string \<Rightarrow> scenario option" where
  "scenarios_get reg name = map_of reg name"

definition scenarios_names :: "scenarios \<Rightarrow> string list" where
  "scenarios_names reg = sort (map fst reg)"

definition order_scenario :: "activity_world \<Rightarrow> scenario" where
  "order_scenario w = \<lparr>sc_name = ''order'', sc_workflows = order_register_workflows,
     sc_activities = order_register_activities w, sc_client = order_run_client\<rparr>"

definition retries_scenario :: "(f64 \<Rightarrow> i64) \<Rightarrow> activity_world \<Rightarrow> int \<Rightarrow> scenario" where
  "retries_scenario oor w now_ns = \<lparr>sc_name = ''order-retries'', sc_workflows = retries_register_workflows,
     sc_activities = retries_register_activities oor w, sc_client = retries_run_client now_ns\<rparr>"

definition recovery_scenario :: "activity_world \<Rightarrow> int \<Rightarrow> scenario" where
  "recovery_scenario w now_ns = \<lparr>sc_name = ''order-recovery'', sc_workflows = recovery_register_workflows,
     sc_activities = recovery_register_activities w, sc_client = recovery_run_client now_ns\<rparr>"

text \<open>The packages that the program imports register themselves, in the order of their import paths.\<close>

definition program_scenarios :: "(f64 \<Rightarrow> i64) \<Rightarrow> activity_world \<Rightarrow> int \<Rightarrow> scenarios" where
  "program_scenarios oor w now_ns =
     fold (scenarios_register \<circ> Some) [order_scenario w, retries_scenario oor w now_ns, recovery_scenario w now_ns] []"

section \<open>The workers of the program\<close>

text \<open>
  A worker without options on the client of the program; \<open>run\<close> is what \<open>Run\<close> returns, and
  \<open>fmt_f\<close> renders a function. \<open>js_err\<close> is the error of creating the JetStream context.
\<close>

type_synonym example_worker = "(workflow_fn, activity_fn) worker"

definition run_workflow_worker ::
    "(workflow_fn fn_any \<Rightarrow> string) \<Rightarrow> gerr option \<Rightarrow> (example_worker \<Rightarrow> gerr option) \<Rightarrow> scenario \<Rightarrow> panic + gerr option" where
  "run_workflow_worker fmt_f js_err run ex =
     (case new_worker True True js_err None of
        Inl e \<Rightarrow> Inr (Some (ErrWrap ''error creating workflow worker'' e))
      | Inr wk \<Rightarrow>
         (case sc_workflows ex fmt_f (wk_workflows wk) of
            Inl p \<Rightarrow> Inl p
          | Inr (m, Some e) \<Rightarrow> Inr (Some (ErrWrap ''error registering workflows'' e))
          | Inr (m, None) \<Rightarrow>
             (case run (wk\<lparr>wk_workflows := m\<rparr>) of
                Some e \<Rightarrow> Inr (Some (ErrWrap ''error running workflow worker'' e))
              | None \<Rightarrow> Inr None)))"

definition run_activity_worker ::
    "(activity_fn fn_any \<Rightarrow> string) \<Rightarrow> gerr option \<Rightarrow> (example_worker \<Rightarrow> gerr option) \<Rightarrow> scenario \<Rightarrow> panic + gerr option" where
  "run_activity_worker fmt_f js_err run ex =
     (case new_worker True True js_err None of
        Inl e \<Rightarrow> Inr (Some (ErrWrap ''error creating activity worker'' e))
      | Inr wk \<Rightarrow>
         (case sc_activities ex fmt_f (wk_activities wk) of
            Inl p \<Rightarrow> Inl p
          | Inr (m, Some e) \<Rightarrow> Inr (Some (ErrWrap ''error registering activities'' e))
          | Inr (m, None) \<Rightarrow>
             (case run (wk\<lparr>wk_activities := m\<rparr>) of
                Some e \<Rightarrow> Inr (Some (ErrWrap ''error running activity worker'' e))
              | None \<Rightarrow> Inr None)))"

section \<open>Its HTTP server\<close>

datatype worker_endpoint = WeHealth | WeCrash

definition worker_mux :: "panic + worker_endpoint mux" where
  "worker_mux = mux_handle_all [] [(''/health'', WeHealth), (''/crash'', WeCrash)]"

definition worker_reply :: "string \<Rightarrow> worker_endpoint option \<Rightarrow> http_request \<Rightarrow> nat \<times> http_reply option \<times> bool" where
  "worker_reply wt ep rq =
     (case ep of
        None \<Rightarrow> (404, Some (HttpError 404 ''404 page not found''), False)
      | Some WeHealth \<Rightarrow> (200, Some (HttpObject 200 [(''status'', ''healthy''), (''worker_type'', wt)]), False)
      | Some WeCrash \<Rightarrow>
          if rq_method rq \<noteq> ''POST'' then (405, Some (HttpError 405 ''Method not allowed''), False)
          else (200, Some (HttpObject 200 [(''message'', wt @ '' worker will exit''), (''status'', ''crashing'')]), True))"

text \<open>The filter of the program sets the same headers as the one of the server.\<close>

definition example_cors :: "('r \<Rightarrow> nat \<times> 'b) \<Rightarrow> 'b \<Rightarrow> string \<Rightarrow> 'r \<Rightarrow> (string \<times> string) list \<times> nat \<times> 'b" where
  "example_cors next_handler empty_body meth r =
     ([(''Access-Control-Allow-Origin'', ''*''), (''Access-Control-Allow-Methods'', ''GET, POST, OPTIONS''),
       (''Access-Control-Allow-Headers'', ''Content-Type'')],
      if meth = ''OPTIONS'' then (200, empty_body) else next_handler r)"

definition worker_request :: "string \<Rightarrow> worker_endpoint mux \<Rightarrow> http_request \<Rightarrow> (string \<times> string) list \<times> nat \<times> http_reply option \<times> bool" where
  "worker_request wt m rq =
     example_cors (\<lambda>r. worker_reply wt (mux_match m (rq_path r)) r) (None, False) (rq_method rq) rq"

text \<open>\<open>startHTTPServer\<close> ends when listening fails or when the group's context ends.\<close>

definition start_http_server :: "listen_end \<Rightarrow> panic + gerr option" where
  "start_http_server r =
     (case worker_mux of
        Inl p \<Rightarrow> Inl p
      | Inr m \<Rightarrow> Inr (case r of ListenFailed e \<Rightarrow> Some e | ListenStopped e \<Rightarrow> e))"

section \<open>The program\<close>

record flags =
  fl_worker :: string
  fl_nats_url :: string
  fl_example :: string
  fl_list :: bool
  fl_port :: string

text \<open>
  What the surroundings answer: dialling, the JetStream context of the client and of a worker,
  \<open>ExecuteWorkflow\<close> and \<open>Get\<close> of the client, \<open>Run\<close> of a worker, the end of the HTTP server
  on a port, and \<open>Wait\<close> of the group of goroutines, given what each goroutine returns.
\<close>

record surroundings =
  su_connect :: "string \<Rightarrow> gerr option"
  su_client_js :: "gerr option"
  su_worker_js :: "gerr option"
  su_execute :: "workflow_fn fn_any \<Rightarrow> gval list \<Rightarrow> panic + (gerr + string)"
  su_wait :: "string \<Rightarrow> gtype option \<Rightarrow> get_result"
  su_run :: "example_worker \<Rightarrow> gerr option"
  su_listen :: "string \<Rightarrow> listen_end"
  su_group :: "gerr option list \<Rightarrow> gerr option"
  su_fmt_w :: "workflow_fn fn_any \<Rightarrow> string"
  su_fmt_a :: "activity_fn fn_any \<Rightarrow> string"

datatype program_end = FatalExit string | CrashedWith panic | ReturnedFromMain

text \<open>A goroutine that panics ends the process.\<close>

fun all_returned :: "(panic + gerr option) list \<Rightarrow> panic + gerr option list" where
  "all_returned [] = Inr []"
| "all_returned (r # rs) =
     (case r of
        Inl p \<Rightarrow> Inl p
      | Inr e \<Rightarrow> (case all_returned rs of Inl p \<Rightarrow> Inl p | Inr es \<Rightarrow> Inr (e # es)))"

definition wait_group :: "surroundings \<Rightarrow> (panic + gerr option) list \<Rightarrow> program_end" where
  "wait_group su gs =
     (case all_returned gs of
        Inl p \<Rightarrow> CrashedWith p
      | Inr es \<Rightarrow>
         (case su_group su es of
            Some e \<Rightarrow> FatalExit (''worker exited: '' @ gerr_msg e)
          | None \<Rightarrow> ReturnedFromMain))"

definition example_main :: "surroundings \<Rightarrow> scenarios \<Rightarrow> flags \<Rightarrow> program_end" where
  "example_main su reg fl =
     (if fl_list fl then ReturnedFromMain
      else
        (case scenarios_get reg (fl_example fl) of
           None \<Rightarrow> FatalExit (''unknown example '' @ quote1 (fl_example fl) @ ''. Available: ''
               @ go_join '', '' (scenarios_names reg))
         | Some ex \<Rightarrow>
            (case su_connect su (fl_nats_url fl) of
               Some e \<Rightarrow> FatalExit (''connecting to NATS failed: '' @ gerr_msg e)
             | None \<Rightarrow>
                (case new_client (su_client_js su) (Some \<lparr>co_namespace = [], co_conn = True\<rparr>) of
                   (fx, FromErr e) \<Rightarrow> FatalExit (''creating workflow client failed: '' @ gerr_msg e)
                 | (fx, FromPanic m) \<Rightarrow> CrashedWith (OtherPanic m)
                 | (fx, FromOk ns) \<Rightarrow>
                    (let http = (if fl_port fl \<noteq> [] then [start_http_server (su_listen su (fl_port fl))] else []);
                         workflows = run_workflow_worker (su_fmt_w su) (su_worker_js su) (su_run su) ex;
                         activities = run_activity_worker (su_fmt_a su) (su_worker_js su) (su_run su) ex;
                         kind = to_lower (fl_worker fl)
                     in if kind = ''workflow'' then wait_group su (http @ [workflows])
                        else if kind = ''activity'' then wait_group su (http @ [activities])
                        else if kind = ''both'' then wait_group su (http @ [workflows, activities])
                        else if kind = ''client'' then
                          (case sc_client ex (su_execute su) (su_wait su) of
                             Inl p \<Rightarrow> CrashedWith p
                           | Inr (Inl e) \<Rightarrow> FatalExit (''client execution failed: '' @ gerr_msg e)
                           | Inr (Inr v) \<Rightarrow> ReturnedFromMain)
                        else FatalExit (''invalid worker type: '' @ fl_worker fl @ ''. Use '' @ quote1 ''workflow'' @ '', ''
                          @ quote1 ''activity'' @ '', '' @ quote1 ''both'' @ '', or '' @ quote1 ''client''))))))"

section \<open>Lemmas\<close>

lemma names_of_program: "scenarios_names (program_scenarios oor w now_ns) = [''order'', ''order-recovery'', ''order-retries'']"
  by (simp add: program_scenarios_def scenarios_names_def scenarios_register_def order_scenario_def retries_scenario_def
      recovery_scenario_def)

lemma get_of_program:
  "scenarios_get (program_scenarios oor w now_ns) name =
    (if name = ''order'' then Some (order_scenario w)
     else if name = ''order-retries'' then Some (retries_scenario oor w now_ns)
     else if name = ''order-recovery'' then Some (recovery_scenario w now_ns) else None)"
  by (simp add: program_scenarios_def scenarios_get_def scenarios_register_def order_scenario_def retries_scenario_def
      recovery_scenario_def)

text \<open>Registration of a name and getting it back.\<close>

lemma registered_name: "scenarios_get (scenarios_register (Some x) reg) n = (if n = sc_name x then Some x else scenarios_get reg n)"
  by (simp add: scenarios_get_def scenarios_register_def update_conv')

lemma example_cors_same: "example_cors = cors_middleware"
  by (simp add: fun_eq_iff example_cors_def cors_middleware_def cors_headers_def)

text \<open>The calls of a workflow: every activity it can schedule is in a set of names.\<close>

inductive calls_only :: "string set \<Rightarrow> prog \<Rightarrow> bool" where
  only_return: "calls_only F (PReturn vs)"
| only_panic: "calls_only F (PPanic m)"
| only_exec: "fn \<in> F \<Longrightarrow> (\<And>h. calls_only F (k h)) \<Longrightarrow> calls_only F (PExec cx (Inr fn) args k)"
| only_get: "(\<And>r. calls_only F (k r)) \<Longrightarrow> calls_only F (PGet h ty k)"

lemma as_fn_schedule [simp]: "as_fn (schedule_event now s fn args opts) = fn"
  by (simp add: schedule_event_def)

lemma run_calls_only:
  assumes "calls_only F p" and "run_prog p fv sd clock c futs = (c', oc)"
    and "\<And>a. ActivityScheduled a \<in> set (root_uncommitted c) \<Longrightarrow> as_fn a \<in> F"
  shows "\<forall>a. ActivityScheduled a \<in> set (root_uncommitted c') \<longrightarrow> as_fn a \<in> F"
  using assms
proof (induction arbitrary: c futs rule: calls_only.induct)
  case (only_exec fn F k cx args)
  show ?case
  proof (cases rule: execute_cases [of "Inr fn" "clock (length futs)" cx args c])
    case (noname err)
    then show ?thesis by simp
  next
    case (replay fn' f)
    with only_exec.IH only_exec.prems show ?thesis by fastforce
  next
    case (options fn' p)
    with only_exec.prems show ?thesis by auto
  next
    case (fresh fn' opts)
    then have "run_prog (k (length futs)) fv sd clock (c\<lparr>root_state := consume (root_state c) fn,
        root_uncommitted := root_uncommitted c @
          [ActivityScheduled (schedule_event (clock (length futs)) (consume (root_state c) fn) fn args opts)],
        root_version := root_version c + 1\<rparr>) (futs @ [open_future]) = (c', oc)"
      using only_exec.prems by simp
    then show ?thesis using only_exec.prems(2) only_exec.hyps(1)
      by (intro only_exec.IH [of "length futs"]) auto
  qed
next
  case (only_get F k h ty)
  then show ?case by (auto split: if_splits sum.splits)
qed auto

lemma calls_only_require:
  "fn \<in> F \<Longrightarrow> (\<And>v. calls_only F (k v)) \<Longrightarrow> calls_only F (require cx fn args ty msg k)"
  unfolding require_def call_activity_def
  by (auto intro!: calls_only.intros split: get_result.split option.split)

lemma calls_only_result [simp]: "calls_only F (result_map kvs)"
  unfolding result_map_def by (rule calls_only.only_return)

lemma calls_only_loop:
  "recovery_fn ''FlakyChargeCreditCardActivity'' \<in> F \<Longrightarrow> (\<And>v. calls_only F (k v)) \<Longrightarrow> calls_only F (charge_loop cx req n k)"
  by (induction n) (auto simp: call_activity_def intro!: calls_only.intros split: get_result.split option.split)

text \<open>What each scenario registers.\<close>

lemma register_fresh:
  "m n = None \<Longrightarrow> register_fn fmt_f m (FnValue n f) = Inr (m(n \<mapsto> FnValue n f), None)"
  by (simp add: register_fn_def extract_full_function_name_def registry_set_def)

lemma register_list_fresh:
  "distinct (map (full \<circ> sg_name) sgs) \<Longrightarrow> (\<And>n. n \<in> (full \<circ> sg_name) ` set sgs \<Longrightarrow> m n = None) \<Longrightarrow>
    \<exists>m'. register_list fmt_f m (registrable txt full sgs) = Inr (m', None) \<and>
      (\<forall>n v. m' n = Some v \<longleftrightarrow> m n = Some v \<or> (\<exists>sg \<in> set sgs. n = full (sg_name sg) \<and> v = FnValue n (activity_of sg)))"
proof (induction sgs arbitrary: m)
  case (Cons sg sgs)
  let ?m = "m(full (sg_name sg) \<mapsto> FnValue (full (sg_name sg)) (activity_of sg))"
  have fresh: "m (full (sg_name sg)) = None" "full (sg_name sg) \<notin> (full \<circ> sg_name) ` set sgs" using Cons.prems by auto
  obtain m' where m': "register_list fmt_f ?m (registrable txt full sgs) = Inr (m', None)"
    "\<And>n v. m' n = Some v \<longleftrightarrow> ?m n = Some v \<or> (\<exists>sg \<in> set sgs. n = full (sg_name sg) \<and> v = FnValue n (activity_of sg))"
  proof -
    have "?m n = None" if "n \<in> (full \<circ> sg_name) ` set sgs" for n
    proof -
      have "n \<noteq> full (sg_name sg)" using that fresh(2) by blast
      with that Cons.prems(2) [of n] show ?thesis by simp
    qed
    then have "\<exists>m'. register_list fmt_f ?m (registrable txt full sgs) = Inr (m', None) \<and>
        (\<forall>n v. m' n = Some v \<longleftrightarrow> ?m n = Some v \<or> (\<exists>sg \<in> set sgs. n = full (sg_name sg) \<and> v = FnValue n (activity_of sg)))"
      using Cons.prems(1) by (intro Cons.IH) simp_all
    then show thesis using that by blast
  qed
  have "register_list fmt_f m (registrable txt full (sg # sgs)) = Inr (m', None)"
    using m'(1) fresh(1) by (simp add: register_fresh registrable_def)
  moreover have "m' n = Some v \<longleftrightarrow> m n = Some v \<or> (\<exists>sg \<in> set (sg # sgs). n = full (sg_name sg) \<and> v = FnValue n (activity_of sg))" for n v
    using m'(2) [of n v] fresh by auto
  ultimately show ?case by blast
qed (simp add: registrable_def)

definition provides :: "activity_fn fn_registry \<Rightarrow> (string \<Rightarrow> string) \<Rightarrow> signature list \<Rightarrow> bool" where
  "provides m full sgs \<longleftrightarrow>
     (\<forall>n v. m n = Some v \<longleftrightarrow> (\<exists>sg \<in> set sgs. n = full (sg_name sg) \<and> v = FnValue n (activity_of sg)))"

lemma order_registered:
  "\<exists>m. order_register_activities w fmt_f Map.empty = Inr (m, None) \<and> provides m order_fn (order_activities w)"
  using register_list_fresh [of order_fn "order_activities w" Map.empty]
  by (simp add: order_register_activities_def provides_def order_activities_def order_fn_def)

lemma retries_registered:
  "\<exists>m. retries_register_activities oor w fmt_f Map.empty = Inr (m, None) \<and> provides m retries_fn (retries_activities oor w)"
  using register_list_fresh [of retries_fn "retries_activities oor w" Map.empty]
  by (simp add: retries_register_activities_def provides_def retries_activities_def retries_fn_def Let_def)

lemma recovery_registered:
  "\<exists>m. recovery_register_activities w fmt_f Map.empty = Inr (m, None) \<and> provides m recovery_fn (recovery_activities w)"
  using register_list_fresh [of recovery_fn "recovery_activities w" Map.empty]
  by (simp add: recovery_register_activities_def provides_def recovery_activities_def recovery_fn_def)

lemma provides_dom: "provides m full sgs \<Longrightarrow> dom m = full ` sg_name ` set sgs"
  by (auto simp: provides_def dom_def)

lemma scenario_names:
  "sg_name ` set (order_activities w) =
     {''AddActivity'', ''DelayedActivity'', ''ChargeCreditCardActivity'', ''ShipPackageActivity''}"
  "sg_name ` set (retries_activities oor w) = {''ValidateOrderDetailsActivity'', ''TransientFailurePaymentActivity'',
     ''NonRetryablePaymentActivity'', ''ReserveInventoryActivity'', ''PackageOrderActivity'',
     ''EventuallySuccessfulShippingActivity'', ''NotifyCustomerActivity''}"
  "sg_name ` set (recovery_activities w) = {''FlakyChargeCreditCardActivity'', ''ShipAfterPaymentActivity''}"
  by (simp_all add: order_activities_def retries_activities_def recovery_activities_def Let_def)

lemma workflows_registered:
  "order_register_workflows fmt_f Map.empty = Inr ([order_fn ''OrderWorkflow'' \<mapsto> FnValue (order_fn ''OrderWorkflow'')
     \<lparr>wfn_in = [TWfCtx, TStr, TStr, TF64, TIntT IInt], wfn_body = order_workflow\<rparr>], None)"
  "retries_register_workflows fmt_f Map.empty = Inr ([retries_fn ''OrderWithRetriesWorkflow'' \<mapsto>
     FnValue (retries_fn ''OrderWithRetriesWorkflow'') \<lparr>wfn_in = [TWfCtx, TStr, TStr, TF64], wfn_body = order_with_retries\<rparr>], None)"
  "recovery_register_workflows fmt_f Map.empty = Inr ([recovery_fn ''RecoverableOrderWorkflow'' \<mapsto>
     FnValue (recovery_fn ''RecoverableOrderWorkflow'') \<lparr>wfn_in = [TWfCtx, TStr, TStr, TF64], wfn_body = recoverable_order\<rparr>], None)"
  by (simp_all add: order_register_workflows_def retries_register_workflows_def recovery_register_workflows_def register_fresh)

text \<open>The workflows schedule nothing else.\<close>

lemma workflows_call_registered:
  "calls_only (order_fn ` {''AddActivity'', ''DelayedActivity'', ''ChargeCreditCardActivity'', ''ShipPackageActivity''})
     (order_workflow args)"
  "calls_only (retries_fn ` {''ValidateOrderDetailsActivity'', ''TransientFailurePaymentActivity'',
     ''NonRetryablePaymentActivity'', ''ReserveInventoryActivity'', ''PackageOrderActivity'',
     ''EventuallySuccessfulShippingActivity'', ''NotifyCustomerActivity''}) (order_with_retries args)"
  "calls_only (recovery_fn ` {''FlakyChargeCreditCardActivity'', ''ShipAfterPaymentActivity''}) (recoverable_order args)"
  unfolding order_workflow_def order_with_retries_def order_result_def recoverable_order_def Let_def
  by ((intro calls_only_require calls_only_loop calls_only_result; simp)+)

text \<open>A client of a scenario does nothing but execute the function that its workflow worker registers.\<close>

lemma run_scenario_cong:
  "execute fn input = execute' fn input \<Longrightarrow> run_scenario execute wait t1 t2 fn input = run_scenario execute' wait t1 t2 fn input"
  by (simp add: run_scenario_def)

text \<open>The workers of a scenario: registering never fails, so what is left is the worker itself.\<close>

definition runs_clean :: "gerr option \<Rightarrow> (example_worker \<Rightarrow> gerr option) \<Rightarrow> (example_worker \<Rightarrow> example_worker) \<Rightarrow> bool" where
  "runs_clean js_err run register =
     (case new_worker True True js_err None of Inl e \<Rightarrow> False | Inr wk \<Rightarrow> run (register wk) = None)"

definition with_workflows :: "(workflow_fn fn_any \<Rightarrow> string) \<Rightarrow> scenario \<Rightarrow> example_worker \<Rightarrow> example_worker" where
  "with_workflows fmt_f ex wk =
     wk\<lparr>wk_workflows := (case sc_workflows ex fmt_f Map.empty of Inr (m, e) \<Rightarrow> m | Inl p \<Rightarrow> Map.empty)\<rparr>"

definition with_activities :: "(activity_fn fn_any \<Rightarrow> string) \<Rightarrow> scenario \<Rightarrow> example_worker \<Rightarrow> example_worker" where
  "with_activities fmt_f ex wk =
     wk\<lparr>wk_activities := (case sc_activities ex fmt_f Map.empty of Inr (m, e) \<Rightarrow> m | Inl p \<Rightarrow> Map.empty)\<rparr>"

lemma new_worker_empty: "new_worker internal conn js_err opts = Inr wk \<Longrightarrow> wk_workflows wk = Map.empty \<and> wk_activities wk = Map.empty"
  by (auto simp: new_worker_def Let_def split: if_splits sum.splits)

lemma scenario_registers:
  assumes "scenarios_get (program_scenarios oor w now_ns) name = Some ex"
  obtains mw ma where "sc_workflows ex fmt_w Map.empty = Inr (mw, None)" "sc_activities ex fmt_a Map.empty = Inr (ma, None)"
  using assms order_registered [of w fmt_a] retries_registered [of oor w fmt_a] recovery_registered [of w fmt_a]
  by (auto simp: get_of_program order_scenario_def retries_scenario_def recovery_scenario_def workflows_registered split: if_splits)

lemma run_worker_clean:
  assumes "scenarios_get (program_scenarios oor w now_ns) name = Some ex"
  shows "\<exists>e. run_workflow_worker fmt_w js_err run ex = Inr e \<and> (e = None \<longleftrightarrow> runs_clean js_err run (with_workflows fmt_w ex))"
    and "\<exists>e. run_activity_worker fmt_a js_err run ex = Inr e \<and> (e = None \<longleftrightarrow> runs_clean js_err run (with_activities fmt_a ex))"
proof -
  obtain mw ma where m: "sc_workflows ex fmt_w Map.empty = Inr (mw, None)" "sc_activities ex fmt_a Map.empty = Inr (ma, None)"
    using scenario_registers [OF assms] by blast
  show "\<exists>e. run_workflow_worker fmt_w js_err run ex = Inr e \<and> (e = None \<longleftrightarrow> runs_clean js_err run (with_workflows fmt_w ex))"
    using m by (auto simp: run_workflow_worker_def runs_clean_def with_workflows_def new_worker_empty
        split: sum.splits option.splits)
  show "\<exists>e. run_activity_worker fmt_a js_err run ex = Inr e \<and> (e = None \<longleftrightarrow> runs_clean js_err run (with_activities fmt_a ex))"
    using m by (auto simp: run_activity_worker_def runs_clean_def with_activities_def new_worker_empty
        split: sum.splits option.splits)
qed

lemma http_returns: "start_http_server r = Inr (server_start r)"
  by (simp add: start_http_server_def worker_mux_def mux_handle_def server_start_def)

text \<open>A group that waits as documented: nil exactly when every goroutine returned nil.\<close>

definition first_error :: "(gerr option list \<Rightarrow> gerr option) \<Rightarrow> bool" where
  "first_error wait_all \<longleftrightarrow> (\<forall>es. wait_all es = None \<longleftrightarrow> list_all (\<lambda>e. e = None) es)"

lemma group_returns:
  assumes "first_error (su_group su)"
  shows "wait_group su (map Inr es) = ReturnedFromMain \<longleftrightarrow> list_all (\<lambda>e. e = None) es"
proof -
  have "all_returned (map Inr es) = Inr es" by (induction es) simp_all
  moreover have "su_group su es = None \<longleftrightarrow> list_all (\<lambda>e. e = None) es" using assms by (simp add: first_error_def)
  ultimately show ?thesis by (auto simp: wait_group_def split: option.split)
qed

section \<open>Properties\<close>

text \<open>
  The call of the workflow function makes the activities start over: whatever the counters were, after
  it they fail and succeed as the retry policies expect, up to the last attempt they allow.
\<close>

theorem retries_start_over:
  assumes "0 \<le> sint now_s" and "sint now_s < 2 ^ 40" and "fst (call_order_with_retries w input) = w'"
  shows "(\<exists>v. attempt_loop (\<lambda>c. process_payment t c req) oor now_ms
      (scheduled_with now_ms now_s s fn args payment_options) (aw_payment w') 3 = Some (3, returns v)) \<and>
    (\<exists>v. attempt_loop (\<lambda>c. reserve_inventory t c req) oor now_ms
      (scheduled_with now_ms now_s s fn args inventory_options) (aw_inventory w') 2 = Some (2, returns v)) \<and>
    (\<exists>v. attempt_loop (\<lambda>c. ship_eventually t c req) oor now_ms
      (scheduled_with now_ms now_s s fn args shipping_options) (aw_shipping w') 4 = Some (4, returns v))"
proof -
  have "aw_payment w' = 0" "aw_inventory w' = 0" "aw_shipping w' = 0"
    using assms(3) by (auto simp: call_order_with_retries_def reset_counters_def)
  then show ?thesis using example_retries_suffice [OF assms(1,2)] by simp
qed

text \<open>
  (C25) What a scenario registers is what it uses. On empty registries, as those of a new
  worker are, both registrations of a known scenario succeed; its client only executes a function that
  the workflow worker has registered under the name it is looked up with; and whatever activity a run
  of a registered workflow function schedules, from any replayed history, is one that the activity worker
  has registered.
\<close>

theorem scenario_functions_registered:
  assumes known: "scenarios_get (program_scenarios oor w now_ns) name = Some ex"
    and wfs: "sc_workflows ex fmt_w Map.empty = rw" and acts: "sc_activities ex fmt_a Map.empty = ra"
  shows "\<exists>mw ma. rw = Inr (mw, None) \<and> ra = Inr (ma, None) \<and>
    (\<forall>execute execute' wait. (\<forall>n fn input. mw n = Some fn \<longrightarrow> execute fn input = execute' fn input) \<longrightarrow>
      sc_client ex execute wait = sc_client ex execute' wait) \<and>
    (\<forall>n n' f args fv sd clock c c' oc a. mw n = Some (FnValue n' f) \<longrightarrow> root_uncommitted c = [] \<longrightarrow>
      run_prog (wfn_body f args) fv (sd :: 'x serde option) clock c [] = (c', oc) \<longrightarrow>
      ActivityScheduled a \<in> set (root_uncommitted c') \<longrightarrow> as_fn a \<in> dom ma)"
proof -
  have none_pending: "\<forall>a. ActivityScheduled a \<in> set (root_uncommitted c') \<longrightarrow> as_fn a \<in> F"
    if "calls_only F p" "run_prog p fv (sd :: 'x serde option) clock c [] = (c', oc)" "root_uncommitted c = []"
    for F p fv sd clock c c' oc
    using run_calls_only [OF that(1,2)] that(3) by simp
  consider "ex = order_scenario w" | "ex = retries_scenario oor w now_ns" | "ex = recovery_scenario w now_ns"
    using known by (auto simp: get_of_program split: if_splits)
  then show ?thesis
  proof cases
    case 1
    then show ?thesis
      using order_registered [of w fmt_a] wfs acts none_pending [OF workflows_call_registered(1)]
      by (fastforce simp: provides_dom scenario_names order_scenario_def workflows_registered order_run_client_def intro!: run_scenario_cong)
  next
    case 2
    then show ?thesis
      using retries_registered [of oor w fmt_a] wfs acts none_pending [OF workflows_call_registered(2)]
      by (fastforce simp: provides_dom scenario_names retries_scenario_def workflows_registered retries_run_client_def intro!: run_scenario_cong)
  next
    case 3
    then show ?thesis
      using recovery_registered [of w fmt_a] wfs acts none_pending [OF workflows_call_registered(3)]
      by (fastforce simp: provides_dom scenario_names recovery_scenario_def workflows_registered recovery_run_client_def intro!: run_scenario_cong)
  qed
qed

text \<open>
  (C30) The outcomes of the program. It returns from \<open>main\<close> without an error in exactly these cases:
  it was asked to list the scenarios; or the scenario is known, dialling and the client succeed, and
  either it is a client whose scenario succeeds, or it is a worker of a known kind, in any case of
  letters, and every goroutine it starts ends without an error: the HTTP server if it has a port, and
  the worker or both, with what the scenario registers. Otherwise it panics or exits with a message.
\<close>

theorem program_ends_cleanly:
  assumes group: "first_error (su_group su)"
  shows "example_main su (program_scenarios oor w now_ns) fl = ReturnedFromMain \<longleftrightarrow> fl_list fl \<or>
    (\<exists>ex. scenarios_get (program_scenarios oor w now_ns) (fl_example fl) = Some ex \<and>
       su_connect su (fl_nats_url fl) = None \<and> su_client_js su = None \<and>
       (to_lower (fl_worker fl) = ''client'' \<and> (\<exists>v. sc_client ex (su_execute su) (su_wait su) = Inr (Inr v)) \<or>
        to_lower (fl_worker fl) \<in> {''workflow'', ''activity'', ''both''} \<and>
          (fl_port fl = [] \<or> server_start (su_listen su (fl_port fl)) = None) \<and>
          (to_lower (fl_worker fl) = ''activity'' \<or> runs_clean (su_worker_js su) (su_run su) (with_workflows (su_fmt_w su) ex)) \<and>
          (to_lower (fl_worker fl) = ''workflow'' \<or> runs_clean (su_worker_js su) (su_run su) (with_activities (su_fmt_a su) ex))))"
proof (cases "scenarios_get (program_scenarios oor w now_ns) (fl_example fl)")
  case None
  then show ?thesis by (simp add: example_main_def)
next
  case (Some ex)
  let ?kind = "to_lower (fl_worker fl)"
  let ?http = "if fl_port fl \<noteq> [] then [server_start (su_listen su (fl_port fl))] else []"
  obtain ew where ew: "run_workflow_worker (su_fmt_w su) (su_worker_js su) (su_run su) ex = Inr ew"
    "ew = None \<longleftrightarrow> runs_clean (su_worker_js su) (su_run su) (with_workflows (su_fmt_w su) ex)"
    using run_worker_clean(1) [OF Some] by blast
  obtain ea where ea: "run_activity_worker (su_fmt_a su) (su_worker_js su) (su_run su) ex = Inr ea"
    "ea = None \<longleftrightarrow> runs_clean (su_worker_js su) (su_run su) (with_activities (su_fmt_a su) ex)"
    using run_worker_clean(2) [OF Some] by blast
  have waits: "wait_group su ((if fl_port fl \<noteq> [] then [start_http_server (su_listen su (fl_port fl))] else []) @ map Inr es)
      = ReturnedFromMain \<longleftrightarrow> list_all (\<lambda>e. e = None) (?http @ es)" for es
    using group_returns [OF group, of "?http @ es"] by (simp add: http_returns split: if_split_asm)
  show ?thesis
    using waits [of "[ew]"] waits [of "[ea]"] waits [of "[ew, ea]"] ew ea Some
    by (auto simp: example_main_def new_client_def wrap_existing_def conn_from_def Let_def
        split: sum.splits option.splits if_splits)
qed

section \<open>Witnesses\<close>

definition demo_world :: activity_world where
  "demo_world = \<lparr>aw_now1 = 0, aw_now2 = 0, aw_payment = 0, aw_shipping = 0, aw_inventory = 0, aw_failed = {}\<rparr>"

lemma demo_recovery_run:
  "\<exists>c' a. run_prog (recoverable_order [GStr ''o1'', GStr ''bob'', GF64 (Fin 10)]) (\<lambda>_. []) (None :: nat serde option) (\<lambda>_. 0)
     (context_after [demo_started]) [] = (c', Panicked BlockingFuture) \<and>
     ActivityScheduled a \<in> set (root_uncommitted c') \<and> as_fn a = recovery_fn ''FlakyChargeCreditCardActivity''"
  by (simp add: recoverable_order_def numeral_2_eq_2 call_activity_def demo_started_def context_after_def step_of_def
      execute_fresh Let_def replay_of_def empty_state_def set_ident_def get_activity_options_def ctx_lookup_def
      with_activity_options_def with_value_def consume_def)

theorem scenario_functions_registered_witness:
  "\<exists>ma. sc_activities (recovery_scenario demo_world 0) (\<lambda>_. []) Map.empty = Inr (ma, None) \<and>
    recovery_fn ''FlakyChargeCreditCardActivity'' \<in> dom ma"
proof -
  let ?ex = "recovery_scenario demo_world 0" and ?oor = "\<lambda>_. 0 :: i64"
  have ex: "scenarios_get (program_scenarios ?oor demo_world 0) ''order-recovery'' = Some ?ex" by (simp add: get_of_program)
  obtain mw ma where m: "sc_workflows ?ex (\<lambda>_. []) Map.empty = Inr (mw, None)" "sc_activities ?ex (\<lambda>_. []) Map.empty = Inr (ma, None)"
    "\<And>n n' f args fv (sd :: nat serde option) clock c c' oc a. mw n = Some (FnValue n' f) \<Longrightarrow> root_uncommitted c = [] \<Longrightarrow>
      run_prog (wfn_body f args) fv sd clock c [] = (c', oc) \<Longrightarrow> ActivityScheduled a \<in> set (root_uncommitted c') \<Longrightarrow> as_fn a \<in> dom ma"
    using scenario_functions_registered [OF ex refl refl, of "\<lambda>_. []" "\<lambda>_. []"] by blast
  have "mw (recovery_fn ''RecoverableOrderWorkflow'') = Some (FnValue (recovery_fn ''RecoverableOrderWorkflow'')
      \<lparr>wfn_in = [TWfCtx, TStr, TStr, TF64], wfn_body = recoverable_order\<rparr>)"
    using m(1) by (auto simp: recovery_scenario_def workflows_registered)
  moreover obtain c' a where "run_prog (recoverable_order [GStr ''o1'', GStr ''bob'', GF64 (Fin 10)]) (\<lambda>_. [])
      (None :: nat serde option) (\<lambda>_. 0) (context_after [demo_started]) [] = (c', Panicked BlockingFuture)"
      "ActivityScheduled a \<in> set (root_uncommitted c')" "as_fn a = recovery_fn ''FlakyChargeCreditCardActivity''"
    using demo_recovery_run by blast
  ultimately have "recovery_fn ''FlakyChargeCreditCardActivity'' \<in> dom ma"
    using m(3) [of _ _ _ "context_after [demo_started]" "[GStr ''o1'', GStr ''bob'', GF64 (Fin 10)]"] by (fastforce simp: context_after_def)
  with m(2) show ?thesis by blast
qed

definition demo_surroundings :: surroundings where
  "demo_surroundings = \<lparr>su_connect = (\<lambda>_. None), su_client_js = None, su_worker_js = None,
     su_execute = (\<lambda>fn input. Inr (Inr ''w1'')), su_wait = (\<lambda>wid ty. GetOk None),
     su_run = (\<lambda>wk. if wk_workflows wk = Map.empty then Some (ErrMsg ''nothing to do'') else None),
     su_listen = (\<lambda>p. ListenStopped None),
     su_group = (\<lambda>es. if list_all (\<lambda>e. e = None) es then None else Some (ErrMsg ''failed'')),
     su_fmt_w = (\<lambda>_. []), su_fmt_a = (\<lambda>_. [])\<rparr>"

definition demo_flags :: flags where
  "demo_flags = \<lparr>fl_worker = ''Workflow'', fl_nats_url = [], fl_example = ''order'', fl_list = False, fl_port = ''80''\<rparr>"

theorem program_ends_cleanly_witness:
  "example_main demo_surroundings (program_scenarios (\<lambda>_. 0) demo_world 0) demo_flags = ReturnedFromMain"
proof -
  have group: "first_error (su_group demo_surroundings)" by (simp add: first_error_def demo_surroundings_def)
  have kind: "to_lower ''Workflow'' = ''workflow''" by code_simp
  have "runs_clean None (su_run demo_surroundings) (with_workflows (\<lambda>_. []) (order_scenario demo_world))"
    by (simp add: runs_clean_def with_workflows_def demo_surroundings_def new_worker_def new_nats_jetstream_def
        order_scenario_def workflows_registered build_history_stream_name_def)
  with kind show ?thesis
    by (subst program_ends_cleanly [OF group]) (simp add: demo_flags_def demo_surroundings_def get_of_program server_start_def)
qed

end
