(* ===== verification/DF_Typing.thy ===== *)
theory DF_Typing
  imports DF_Programs
begin

text \<open>
  The types of the example workflows and activities: the structs that the scenarios declare, values of
  a type, and that what a workflow passes to an activity and what an activity returns have the types
  that their functions declare. Go checks neither: \<open>ExecuteActivity\<close> takes its arguments as
  \<open>any\<close>, and the result of an activity is decoded into whatever the workflow asks for.
\<close>

section \<open>The declared structs\<close>

type_synonym structs = "(string \<times> (string \<times> gtype) list) list"

definition time_type :: gtype where
  "time_type = TStruct ''time.Time''"

definition order_structs :: structs where
  "order_structs = [
     (''ChargeResult'', [(''ChargeID'', TStr), (''Amount'', TF64), (''TransactionID'', TStr)]),
     (''ShipResult'', [(''TrackingID'', TStr), (''Carrier'', TStr), (''EstimatedDelivery'', time_type)])]"

definition retries_structs :: structs where
  "retries_structs = [
     (''OrderValidationRequest'', [(''OrderID'', TStr), (''CustomerID'', TStr), (''Amount'', TF64)]),
     (''OrderValidationResult'', [(''RiskScore'', TIntT IInt), (''Approved'', TBool), (''CheckedAt'', time_type)]),
     (''PaymentRequest'', [(''OrderID'', TStr), (''CustomerID'', TStr), (''Amount'', TF64)]),
     (''PaymentResult'', [(''ChargeID'', TStr), (''Amount'', TF64), (''AttemptNum'', TIntT I32), (''ProcessedAt'', time_type)]),
     (''ShippingRequest'', [(''OrderID'', TStr), (''Payment'', TStruct ''PaymentResult'')]),
     (''ShippingResult'', [(''TrackingID'', TStr), (''Carrier'', TStr), (''EstimatedDelivery'', time_type), (''AttemptNum'', TIntT I32)]),
     (''InventoryRequest'', [(''OrderID'', TStr), (''Quantity'', TIntT IInt), (''Warehouse'', TStr)]),
     (''InventoryReservation'', [(''ReservationID'', TStr), (''Location'', TStr), (''Quantity'', TIntT IInt),
        (''AttemptNum'', TIntT I32), (''ReservedAt'', time_type)]),
     (''PackageRequest'', [(''OrderID'', TStr), (''Reservation'', TStruct ''InventoryReservation'')]),
     (''PackageResult'', [(''PackageID'', TStr), (''LabelURL'', TStr), (''PackedAt'', time_type), (''FragileItem'', TBool)]),
     (''NotificationRequest'', [(''OrderID'', TStr), (''Email'', TStr), (''Status'', TStr)]),
     (''NotificationResult'', [(''MessageID'', TStr), (''Channel'', TStr), (''SentAt'', time_type)])]"

definition recovery_structs :: structs where
  "recovery_structs = [
     (''ChargeRequest'', [(''OrderID'', TStr), (''CustomerID'', TStr), (''Amount'', TF64)]),
     (''ChargeResult'', [(''OrderID'', TStr), (''Amount'', TF64), (''Attempt'', TIntT IInt), (''Charge'', TStr)]),
     (''ShipmentRequest'', [(''OrderID'', TStr), (''Charge'', TStruct ''ChargeResult'')]),
     (''ShipResult'', [(''TrackingID'', TStr), (''Carrier'', TStr), (''ETA'', time_type)])]"

definition program_structs :: "string \<Rightarrow> structs" where
  "program_structs name =
     (''time.Time'', [(''UnixNano'', TIntT I64)]) #
     (if name = ''order'' then order_structs
      else if name = ''order-retries'' then retries_structs
      else if name = ''order-recovery'' then recovery_structs else [])"

section \<open>Values of a type\<close>

text \<open>A value fits a type if they agree all the way down: each field of a struct is declared and fits.\<close>

fun fits :: "structs \<Rightarrow> gval \<Rightarrow> gtype \<Rightarrow> bool" where
  "fits S (GStruct n fs) ty =
     ((ty = TStruct n \<or> is_interface ty) \<and>
      (case map_of S n of
         None \<Rightarrow> False
       | Some ds \<Rightarrow> list_all (\<lambda>fx. case map_of ds (fst fx) of None \<Rightarrow> False | Some t \<Rightarrow> fits S (snd fx) t) fs))"
| "fits S (GMap k t kvs) ty =
     ((ty = TMap k t \<or> is_interface ty) \<and> list_all (\<lambda>kv. fits S (fst kv) k \<and> fits S (snd kv) t) kvs)"
| "fits S (GSlice t vs) ty = ((ty = TSlice t \<or> is_interface ty) \<and> list_all (\<lambda>v. fits S v t) vs)"
| "fits S (GPtr t v) ty = ((ty = TPtr t \<or> is_interface ty) \<and> fits S v t)"
| "fits S v ty = (type_of v = ty \<or> is_interface ty)"

text \<open>A serializer that decodes into a type gives a value of it, as both serializers of the SDK do.\<close>

definition decodes_fitting :: "structs \<Rightarrow> 'x serde \<Rightarrow> bool" where
  "decodes_fitting S sd \<longleftrightarrow> (\<forall>ty bs v. de_val sd ty bs = Inr v \<longrightarrow> fits S v ty)"

definition result_fits :: "structs \<Rightarrow> gtype option \<Rightarrow> get_result \<Rightarrow> bool" where
  "result_fits S ty r = (case r of GetErr e \<Rightarrow> True | GetOk None \<Rightarrow> True
     | GetOk (Some v) \<Rightarrow> (case ty of None \<Rightarrow> False | Some t \<Rightarrow> fits S v t))"

section \<open>Lemmas\<close>

lemma blocking_get_fits:
  assumes "decodes_fitting S sd" and "blocking_get fv (Some sd) f ty = Inr r"
  shows "result_fits S ty r"
  using assms
  by (auto simp: blocking_get_def decodes_fitting_def result_fits_def Let_def
      split: if_splits option.splits gval.splits sum.splits)

lemma fits_field:
  assumes "fits S v (TStruct n)" and "map_of S n = Some ds" and "map_of ds f = Some t"
    and "fits S (zero_value t) t"
  shows "fits S (field t f v) t"
proof (cases v)
  case (GStruct m fs)
  then have m: "m = n" and all: "list_all (\<lambda>fx. case map_of ds (fst fx) of None \<Rightarrow> False | Some t \<Rightarrow> fits S (snd fx) t) fs"
    using assms(1,2) by auto
  show ?thesis
  proof (cases "map_of fs f")
    case (Some x)
    then have "(f, x) \<in> set fs" by (rule map_of_SomeD)
    with all assms(3) have "fits S x t" by (force simp: list_all_iff)
    with Some GStruct show ?thesis by (simp add: field_def)
  qed (use GStruct assms(4) in \<open>simp add: field_def\<close>)
qed (use assms(1) in auto)

text \<open>What a workflow calls: \<open>F\<close> gives the parameter types of the activities it may call.\<close>

inductive calls_fitting :: "structs \<Rightarrow> (string \<Rightarrow> gtype list option) \<Rightarrow> prog \<Rightarrow> bool" for S F where
  fit_return: "calls_fitting S F (PReturn vs)"
| fit_panic: "calls_fitting S F (PPanic m)"
| fit_exec: "F fn = Some ts \<Longrightarrow> list_all2 (fits S) args ts \<Longrightarrow> (\<And>h. calls_fitting S F (k h)) \<Longrightarrow>
    calls_fitting S F (PExec cx (Inr fn) args k)"
| fit_get: "(\<And>r. result_fits S ty r \<Longrightarrow> calls_fitting S F (k r)) \<Longrightarrow> calls_fitting S F (PGet h ty k)"

definition fitting_event :: "structs \<Rightarrow> (string \<Rightarrow> gtype list option) \<Rightarrow> wf_event \<Rightarrow> bool" where
  "fitting_event S F e = (case e of
     ActivityScheduled a \<Rightarrow> (case F (as_fn a) of None \<Rightarrow> False | Some ts \<Rightarrow> list_all2 (fits S) (as_input a) ts)
   | _ \<Rightarrow> True)"

lemma fitting_schedule [simp]:
  "fitting_event S F (ActivityScheduled (schedule_event now s fn args opts)) =
     (case F fn of None \<Rightarrow> False | Some ts \<Rightarrow> list_all2 (fits S) args ts)"
  by (simp add: fitting_event_def schedule_event_def split: option.split)

lemma run_calls_fitting:
  assumes "calls_fitting S F p" and "decodes_fitting S sd" and "run_prog p fv (Some sd) clock c futs = (c', oc)"
    and "list_all (fitting_event S F) (root_uncommitted c)"
  shows "list_all (fitting_event S F) (root_uncommitted c')"
  using assms(1,3,4)
proof (induction arbitrary: c futs rule: calls_fitting.induct)
  case (fit_exec fn ts args k cx)
  show ?case
  proof (cases rule: execute_cases [of "Inr fn" "clock (length futs)" cx args c])
    case (noname err)
    then show ?thesis by simp
  next
    case (replay fn' f)
    then show ?thesis using fit_exec.prems
      by (intro fit_exec.IH [of "length futs" "c\<lparr>root_state := consume (root_state c) fn\<rparr>" "futs @ [f]"]) auto
  next
    case (options fn' p)
    with fit_exec.prems show ?thesis by auto
  next
    case (fresh fn' opts)
    let ?c1 = "c\<lparr>root_state := consume (root_state c) fn,
        root_uncommitted := root_uncommitted c @
          [ActivityScheduled (schedule_event (clock (length futs)) (consume (root_state c) fn) fn args opts)],
        root_version := root_version c + 1\<rparr>"
    from fresh show ?thesis using fit_exec.prems fit_exec.hyps(1,2)
      by (intro fit_exec.IH [of "length futs" ?c1 "futs @ [open_future]"]) auto
  qed
next
  case (fit_get ty k h)
  show ?case
  proof (cases "length futs \<le> h")
    case False
    show ?thesis
    proof (cases "blocking_get fv (Some sd) (futs ! h) ty")
      case (Inr r)
      from fit_get.IH [OF blocking_get_fits [OF assms(2) Inr]] False Inr fit_get.prems show ?thesis by simp
    qed (use False fit_get.prems in auto)
  qed (use fit_get.prems in auto)
qed auto

lemma fitting_require:
  assumes "F fn = Some ts" and "list_all2 (fits S) args ts" and "fits S (zero_value ty) ty"
    and "\<And>v. fits S v ty \<Longrightarrow> calls_fitting S F (k v)"
  shows "calls_fitting S F (require cx fn args ty msg k)"
  unfolding require_def call_activity_def
  by (rule fit_exec, rule assms(1), rule assms(2), rule fit_get)
    (use assms(3,4) in \<open>auto simp: result_fits_def intro: fit_return split: get_result.splits option.splits\<close>)

lemma fitting_loop:
  assumes "F (recovery_fn ''FlakyChargeCreditCardActivity'') = Some [t]" and "fits S req t"
    and zero: "fits S (zero_value (TStruct ''ChargeResult'')) (TStruct ''ChargeResult'')"
    and next_fits: "\<And>v. fits S v (TStruct ''ChargeResult'') \<Longrightarrow> calls_fitting S F (k v)"
  shows "calls_fitting S F (charge_loop cx req n k)"
proof (induction n)
  case 0
  show ?case unfolding charge_loop.simps call_activity_def
    by (rule fit_exec, rule assms(1), use assms(2) in simp, rule fit_get)
      (use zero next_fits in \<open>auto simp: result_fits_def intro: fit_return split: get_result.splits option.splits\<close>)
next
  case (Suc n)
  show ?case unfolding charge_loop.simps call_activity_def
    by (rule fit_exec, rule assms(1), use assms(2) in simp, rule fit_get)
      (use zero next_fits Suc in \<open>auto simp: result_fits_def split: get_result.splits option.splits\<close>)
qed

lemma fitting_result [simp]: "calls_fitting S F (result_map kvs)"
  unfolding result_map_def by (rule fit_return)

text \<open>The parameter types of the activities that a registry holds.\<close>

definition param_types :: "activity_fn fn_registry \<Rightarrow> string \<Rightarrow> gtype list option" where
  "param_types m fn = (case m fn of Some (FnValue n f) \<Rightarrow> Some (tl (afn_in f)) | _ \<Rightarrow> None)"

lemma order_params:
  assumes "provides m order_fn (order_activities w)"
  shows "param_types m (order_fn ''ChargeCreditCardActivity'') = Some [TStr, TF64]"
    and "param_types m (order_fn ''ShipPackageActivity'') = Some [TStruct ''ChargeResult'']"
  using assms by (auto simp: param_types_def provides_def order_activities_def activity_of_def order_fn_def
      split: option.splits fn_any.splits)

lemma retries_params:
  assumes "provides m retries_fn (retries_activities oor w)"
  shows "param_types m (retries_fn ''ValidateOrderDetailsActivity'') = Some [TStruct ''OrderValidationRequest'']"
    and "param_types m (retries_fn ''TransientFailurePaymentActivity'') = Some [TStruct ''PaymentRequest'']"
    and "param_types m (retries_fn ''ReserveInventoryActivity'') = Some [TStruct ''InventoryRequest'']"
    and "param_types m (retries_fn ''PackageOrderActivity'') = Some [TStruct ''PackageRequest'']"
    and "param_types m (retries_fn ''EventuallySuccessfulShippingActivity'') = Some [TStruct ''ShippingRequest'']"
    and "param_types m (retries_fn ''NotifyCustomerActivity'') = Some [TStruct ''NotificationRequest'']"
  using assms by (auto simp: param_types_def provides_def retries_activities_def activity_of_def retries_fn_def Let_def
      split: option.splits fn_any.splits)

lemma recovery_params:
  assumes "provides m recovery_fn (recovery_activities w)"
  shows "param_types m (recovery_fn ''FlakyChargeCreditCardActivity'') = Some [TStruct ''ChargeRequest'']"
    and "param_types m (recovery_fn ''ShipAfterPaymentActivity'') = Some [TStruct ''ShipmentRequest'']"
  using assms by (auto simp: param_types_def provides_def recovery_activities_def activity_of_def recovery_fn_def
      split: option.splits fn_any.splits)

lemma order_fits:
  assumes "provides m order_fn (order_activities w)" and "list_all2 (fits (program_structs ''order'')) args [TStr, TStr, TF64, TIntT IInt]"
  shows "calls_fitting (program_structs ''order'') (param_types m) (order_workflow args)"
proof -
  obtain a b c d where "args = [a, b, c, d]" "fits (program_structs ''order'') a TStr" "fits (program_structs ''order'') c TF64"
    using assms(2) by (auto simp: list_all2_Cons2)
  then show ?thesis
    unfolding order_workflow_def Let_def
    by (intro fitting_require [where F = "param_types m", OF order_params(1) [OF assms(1)]] fitting_require [where F = "param_types m", OF order_params(2) [OF assms(1)]]
        fitting_result) (simp_all add: program_structs_def order_structs_def)
qed

lemma retries_fits:
  assumes "provides m retries_fn (retries_activities oor w)" and "list_all2 (fits (program_structs ''order-retries'')) args [TStr, TStr, TF64]"
  shows "calls_fitting (program_structs ''order-retries'') (param_types m) (order_with_retries args)"
proof -
  obtain a b c where "args = [a, b, c]" "fits (program_structs ''order-retries'') a TStr"
    "fits (program_structs ''order-retries'') b TStr" "fits (program_structs ''order-retries'') c TF64"
    using assms(2) by (auto simp: list_all2_Cons2)
  then show ?thesis
    unfolding order_with_retries_def order_result_def Let_def
    by (intro retries_params [OF assms(1), THEN fitting_require [where F = "param_types m"]] fitting_result)
      (simp_all add: program_structs_def retries_structs_def)
qed

lemma recovery_fits:
  assumes "provides m recovery_fn (recovery_activities w)" and "list_all2 (fits (program_structs ''order-recovery'')) args [TStr, TStr, TF64]"
  shows "calls_fitting (program_structs ''order-recovery'') (param_types m) (recoverable_order args)"
proof -
  obtain a b c where "args = [a, b, c]" "fits (program_structs ''order-recovery'') a TStr"
    "fits (program_structs ''order-recovery'') b TStr" "fits (program_structs ''order-recovery'') c TF64"
    using assms(2) by (auto simp: list_all2_Cons2)
  then show ?thesis
    unfolding recoverable_order_def Let_def
    by (intro fitting_loop [where F = "param_types m", OF recovery_params(1) [OF assms(1)]] fitting_require [where F = "param_types m", OF recovery_params(2) [OF assms(1)]]
        fitting_result) (simp_all add: program_structs_def recovery_structs_def)
qed

text \<open>The results of the activities.\<close>

lemma time_fits [simp]: "fits (program_structs name) (time_value ns) time_type"
  by (simp add: time_value_def time_type_def program_structs_def)

text \<open>
  An activity function yields a type: called with values of its parameter types it does not panic, and
  it returns a value of the type with a nil error, or nil or the zero value with an error.
\<close>

definition yields :: "structs \<Rightarrow> activity_fn \<Rightarrow> gtype \<Rightarrow> bool" where
  "yields S g t \<longleftrightarrow>
     (\<forall>as. list_all2 (fits S) as (tl (afn_in g)) \<longrightarrow>
       (\<exists>v e. afn_call g as = Inr [v, e] \<and>
         (e = GNil \<and> fits S v t \<or> (\<exists>m. e = GErr m) \<and> (v = GNil \<or> v = zero_value t))))"

definition body_yields :: "structs \<Rightarrow> signature \<Rightarrow> gtype \<Rightarrow> bool" where
  "body_yields S sg t \<longleftrightarrow>
     (\<forall>as. list_all2 (fits S) as (sg_in sg) \<longrightarrow>
       (\<exists>v. sg_body sg as = returns v \<and> fits S v t) \<or>
       (\<exists>v x. sg_body sg as = Inr (v, Some x) \<and> (v = GNil \<or> v = zero_value t)))"

lemma yields_activity: "body_yields S sg t \<Longrightarrow> yields S (activity_of sg) t"
  unfolding yields_def body_yields_def activity_of_def by (fastforce simp: answer_def)

definition registry_yields :: "structs \<Rightarrow> activity_fn fn_registry \<Rightarrow> string \<Rightarrow> gtype \<Rightarrow> bool" where
  "registry_yields S m fn t \<longleftrightarrow> (\<exists>g. m fn = Some (FnValue fn g) \<and> yields S g t)"

lemma provides_yields:
  assumes "provides m full sgs" and "sg \<in> set sgs" and "body_yields S sg t" and "fn = full (sg_name sg)"
  shows "registry_yields S m fn t"
  using assms yields_activity [OF assms(3)] by (auto simp: registry_yields_def provides_def)

lemma order_yields:
  assumes "provides m order_fn (order_activities w)"
  shows "registry_yields (program_structs ''order'') m (order_fn ''ChargeCreditCardActivity'') (TStruct ''ChargeResult'')"
    and "registry_yields (program_structs ''order'') m (order_fn ''ShipPackageActivity'') (TStruct ''ShipResult'')"
proof -
  let ?S = "program_structs ''order''"
  note time = time_fits [of "''order''", unfolded time_type_def]
  have charge: "body_yields ?S (order_activities w ! 2) (TStruct ''ChargeResult'')"
    and ship: "body_yields ?S (order_activities w ! 3) (TStruct ''ShipResult'')"
    by (auto simp: body_yields_def order_activities_def list_all2_Cons2 charge_credit_card_def ship_package_def
        program_structs_def order_structs_def time_type_def time_value_def)
  show "registry_yields ?S m (order_fn ''ChargeCreditCardActivity'') (TStruct ''ChargeResult'')"
    by (rule provides_yields [OF assms _ charge]) (simp_all add: order_activities_def)
  show "registry_yields ?S m (order_fn ''ShipPackageActivity'') (TStruct ''ShipResult'')"
    by (rule provides_yields [OF assms _ ship]) (simp_all add: order_activities_def)
qed

lemma retries_field:
  "fits (program_structs ''order-retries'') v (TStruct n) \<Longrightarrow> map_of retries_structs n = Some ds \<Longrightarrow> n \<noteq> ''time.Time'' \<Longrightarrow>
    map_of ds f = Some t \<Longrightarrow> fits (program_structs ''order-retries'') (zero_value t) t \<Longrightarrow>
    fits (program_structs ''order-retries'') (field t f v) t"
proof (rule fits_field [of _ v n ds f t])
  show "n \<noteq> ''time.Time'' \<Longrightarrow> map_of retries_structs n = Some ds \<Longrightarrow> map_of (program_structs ''order-retries'') n = Some ds"
    by (simp add: program_structs_def)
qed

lemma retries_bodies:
  assumes "sg \<in> set (retries_activities oor w)"
  shows "body_yields (program_structs ''order-retries'') sg (sg_out sg)"
proof -
  let ?S = "program_structs ''order-retries''"
  have amount: "fits ?S (field TF64 ''Amount'' r) TF64" if "fits ?S r (TStruct ''PaymentRequest'')" for r
    by (rule retries_field [OF that], (simp add: retries_structs_def)+)
  have quantity: "fits ?S (field (TIntT IInt) ''Quantity'' r) (TIntT IInt)" if "fits ?S r (TStruct ''InventoryRequest'')" for r
    by (rule retries_field [OF that], (simp add: retries_structs_def)+)
  have decl: "map_of ?S n = map_of retries_structs n" if "n \<noteq> ''time.Time''" for n
    using that by (simp add: program_structs_def)
  note time = time_fits [of "''order-retries''", unfolded time_type_def]
  show ?thesis
    using assms
    by (auto simp: body_yields_def retries_activities_def Let_def list_all2_Cons2 validate_order_def process_payment_def
        non_retryable_payment_def reserve_inventory_def package_order_def ship_eventually_def notify_customer_def
        decl retries_structs_def time time_type_def amount quantity split: if_splits)
qed

lemma retries_yields:
  assumes "provides m retries_fn (retries_activities oor w)" and "i < length (retries_activities oor w)"
  shows "registry_yields (program_structs ''order-retries'') m (retries_fn (sg_name (retries_activities oor w ! i)))
    (sg_out (retries_activities oor w ! i))"
  by (rule provides_yields [OF assms(1) nth_mem [OF assms(2)] retries_bodies [OF nth_mem [OF assms(2)]] refl])

lemma recovery_bodies:
  assumes "sg \<in> set (recovery_activities w)"
  shows "body_yields (program_structs ''order-recovery'') sg (sg_out sg)"
proof -
  let ?S = "program_structs ''order-recovery''"
  have charge: "map_of ?S ''ChargeRequest'' = Some [(''OrderID'', TStr), (''CustomerID'', TStr), (''Amount'', TF64)]"
    by (simp add: program_structs_def recovery_structs_def)
  have fields: "fits ?S (field TF64 ''Amount'' r) TF64" "fits ?S (field TStr ''OrderID'' r) TStr"
    if "fits ?S r (TStruct ''ChargeRequest'')" for r
    using fits_field [OF that charge] by simp_all
  note time = time_fits [of "''order-recovery''", unfolded time_type_def]
  have decl: "map_of ?S n = map_of recovery_structs n" if "n \<noteq> ''time.Time''" for n
    using that by (simp add: program_structs_def)
  show ?thesis
    using assms
    by (auto simp: body_yields_def recovery_activities_def list_all2_Cons2 flaky_charge_def ship_after_payment_def Let_def
        decl recovery_structs_def time time_type_def fields split: if_splits)
qed

lemma recovery_yields:
  assumes "provides m recovery_fn (recovery_activities w)" and "i < length (recovery_activities w)"
  shows "registry_yields (program_structs ''order-recovery'') m (recovery_fn (sg_name (recovery_activities w ! i)))
    (sg_out (recovery_activities w ! i))"
  by (rule provides_yields [OF assms(1) nth_mem [OF assms(2)] recovery_bodies [OF nth_mem [OF assms(2)]] refl])

text \<open>
  What a workflow decodes its results into: \<open>Y fn t\<close> says that the activity \<open>fn\<close> yields the type
  \<open>t\<close>, and \<open>fns\<close> are the activities called so far, by the index of their future.
\<close>

inductive decodes_own :: "structs \<Rightarrow> (string \<Rightarrow> gtype \<Rightarrow> bool) \<Rightarrow> string list \<Rightarrow> prog \<Rightarrow> bool" for S Y where
  own_return: "decodes_own S Y fns (PReturn vs)"
| own_panic: "decodes_own S Y fns (PPanic m)"
| own_exec: "decodes_own S Y (fns @ [fn]) (k (length fns)) \<Longrightarrow> decodes_own S Y fns (PExec cx (Inr fn) args k)"
| own_get: "h < length fns \<Longrightarrow> Y (fns ! h) t \<Longrightarrow> (\<And>r. result_fits S (Some t) r \<Longrightarrow> decodes_own S Y fns (k r)) \<Longrightarrow>
    decodes_own S Y fns (PGet h (Some t) k)"

inductive_cases own_execE: "decodes_own S Y fns (PExec cx (Inr fn) args k)"
inductive_cases own_getE: "decodes_own S Y fns (PGet h ty k)"

lemma own_require:
  assumes "Y fn ty" and "fits S (zero_value ty) ty" and "\<And>fns v. fits S v ty \<Longrightarrow> decodes_own S Y fns (k v)"
  shows "decodes_own S Y fns (require cx fn args ty msg k)"
  unfolding require_def call_activity_def
  by (rule own_exec, rule own_get)
    (use assms in \<open>auto simp: result_fits_def intro: own_return split: get_result.splits option.splits\<close>)

lemma own_loop:
  assumes "Y (recovery_fn ''FlakyChargeCreditCardActivity'') (TStruct ''ChargeResult'')"
    and "fits S (zero_value (TStruct ''ChargeResult'')) (TStruct ''ChargeResult'')"
    and "\<And>fns v. fits S v (TStruct ''ChargeResult'') \<Longrightarrow> decodes_own S Y fns (k v)"
  shows "decodes_own S Y fns (charge_loop cx req n k)"
proof (induction n arbitrary: fns)
  case 0
  show ?case unfolding charge_loop.simps call_activity_def
    by (rule own_exec, rule own_get)
      (use assms in \<open>auto simp: result_fits_def intro: own_return split: get_result.splits option.splits\<close>)
next
  case (Suc n)
  show ?case unfolding charge_loop.simps call_activity_def
    by (rule own_exec, rule own_get)
      (use assms Suc in \<open>auto simp: result_fits_def split: get_result.splits option.splits\<close>)
qed

lemma own_result [simp]: "decodes_own S Y fns (result_map kvs)"
  unfolding result_map_def by (rule own_return)

lemma order_own:
  assumes "provides m order_fn (order_activities w)"
  shows "decodes_own (program_structs ''order'') (registry_yields (program_structs ''order'') m) fns (order_workflow args)"
  unfolding order_workflow_def Let_def
  by (intro own_require own_result order_yields [OF assms]) (simp_all add: program_structs_def order_structs_def)

lemma retries_own:
  assumes "provides m retries_fn (retries_activities oor w)"
  shows "decodes_own (program_structs ''order-retries'') (registry_yields (program_structs ''order-retries'') m) fns (order_with_retries args)"
proof -
  have seven: "length (retries_activities oor w) = 7" by (simp add: retries_activities_def Let_def)
  note Y = retries_yields [OF assms, unfolded seven]
  show ?thesis
    unfolding order_with_retries_def order_result_def Let_def
    by (intro own_require own_result)
      (use Y [of 0] Y [of 1] Y [of 3] Y [of 4] Y [of 5] Y [of 6] in
        \<open>simp_all add: retries_activities_def Let_def program_structs_def retries_structs_def\<close>)
qed

lemma recovery_own:
  assumes "provides m recovery_fn (recovery_activities w)"
  shows "decodes_own (program_structs ''order-recovery'') (registry_yields (program_structs ''order-recovery'') m) fns (recoverable_order args)"
proof -
  note Y = recovery_yields [OF assms]
  show ?thesis
    unfolding recoverable_order_def Let_def
    by (intro own_loop own_require own_result)
      (use Y [of 0] Y [of 1] in \<open>simp_all add: recovery_activities_def program_structs_def recovery_structs_def\<close>)
qed

lemma scenario_own:
  assumes known: "scenarios_get (program_scenarios oor w now_ns) name = Some ex"
    and wfs: "sc_workflows ex fmt_w Map.empty = Inr (mw, ew)" and acts: "sc_activities ex fmt_a Map.empty = Inr (ma, ea)"
    and f: "mw n = Some (FnValue n' f)"
  shows "decodes_own (program_structs name) (registry_yields (program_structs name) ma) fns (wfn_body f args)"
proof -
  consider "name = ''order''" "ex = order_scenario w" | "name = ''order-retries''" "ex = retries_scenario oor w now_ns"
    | "name = ''order-recovery''" "ex = recovery_scenario w now_ns"
    using known by (auto simp: get_of_program split: if_splits)
  then show ?thesis
  proof cases
    case 1
    then show ?thesis using order_registered [of w fmt_a] wfs acts f
      by (auto simp: order_scenario_def workflows_registered intro!: order_own split: if_splits)
  next
    case 2
    then show ?thesis using retries_registered [of oor w fmt_a] wfs acts f
      by (auto simp: retries_scenario_def workflows_registered intro!: retries_own split: if_splits)
  next
    case 3
    then show ?thesis using recovery_registered [of w fmt_a] wfs acts f
      by (auto simp: recovery_scenario_def workflows_registered intro!: recovery_own split: if_splits)
  qed
qed

lemma point_own:
  assumes "at_point p fv (Some sd) clock es q c futs calls" and "decodes_fitting S sd" and "decodes_own S Y [] p"
  shows "decodes_own S Y (map fst calls) q \<and> length calls = length futs"
  using assms(1)
proof (induction rule: at_point.induct)
  case (exec cx fn args k c futs calls c1 f)
  then show ?case by (auto elim: own_execE)
next
  case (got h ty k c futs calls r)
  then show ?case using blocking_get_fits [OF assms(2) got.hyps(3)] by (auto elim: own_getE)
qed (simp add: assms(3))

lemma scenario_fits:
  assumes known: "scenarios_get (program_scenarios oor w now_ns) name = Some ex"
    and wfs: "sc_workflows ex fmt_w Map.empty = Inr (mw, ew)" and acts: "sc_activities ex fmt_a Map.empty = Inr (ma, ea)"
    and f: "mw n = Some (FnValue n' f)" and args: "list_all2 (fits (program_structs name)) args (tl (wfn_in f))"
  shows "calls_fitting (program_structs name) (param_types ma) (wfn_body f args)"
proof -
  consider "name = ''order''" "ex = order_scenario w" | "name = ''order-retries''" "ex = retries_scenario oor w now_ns"
    | "name = ''order-recovery''" "ex = recovery_scenario w now_ns"
    using known by (auto simp: get_of_program split: if_splits)
  then show ?thesis
  proof cases
    case 1
    then show ?thesis using order_registered [of w fmt_a] wfs acts f args
      by (auto simp: order_scenario_def workflows_registered intro!: order_fits split: if_splits)
  next
    case 2
    then show ?thesis using retries_registered [of oor w fmt_a] wfs acts f args
      by (auto simp: retries_scenario_def workflows_registered intro!: retries_fits split: if_splits)
  next
    case 3
    then show ?thesis using recovery_registered [of w fmt_a] wfs acts f args
      by (auto simp: recovery_scenario_def workflows_registered intro!: recovery_fits split: if_splits)
  qed
qed

section \<open>Properties\<close>

text \<open>
  (C24) Type safety of the calls. If the serializer decodes into values of the type it is asked
  for, then a run of a registered workflow function on arguments of its parameter types, from any
  replayed history, schedules only activities that the activity worker of the scenario has registered, each with
  as many inputs as its function has parameters and each input of the parameter's type, down to the
  fields of nested structs. The calls go through \<open>any\<close>, so no compiler checks this.
\<close>

theorem scheduled_inputs_fit:
  assumes known: "scenarios_get (program_scenarios oor w now_ns) name = Some ex"
    and wfs: "sc_workflows ex fmt_w Map.empty = Inr (mw, ew)" and acts: "sc_activities ex fmt_a Map.empty = Inr (ma, ea)"
    and f: "mw n = Some (FnValue n' f)" and args: "list_all2 (fits (program_structs name)) args (tl (wfn_in f))"
    and serde: "decodes_fitting (program_structs name) sd"
    and run: "run_prog (wfn_body f args) fv (Some sd) clock c [] = (c', oc)" "root_uncommitted c = []"
    and event: "ActivityScheduled a \<in> set (root_uncommitted c')"
  shows "\<exists>g. ma (as_fn a) = Some (FnValue (as_fn a) g) \<and> list_all2 (fits (program_structs name)) (as_input a) (tl (afn_in g))"
proof -
  have "list_all (fitting_event (program_structs name) (param_types ma)) (root_uncommitted c')"
    using run_calls_fitting [OF scenario_fits [OF known wfs acts f args] serde run(1)] run(2) by simp
  with event have "fitting_event (program_structs name) (param_types ma) (ActivityScheduled a)" by (simp add: list_all_iff)
  then obtain ts where ts: "param_types ma (as_fn a) = Some ts" "list_all2 (fits (program_structs name)) (as_input a) ts"
    by (auto simp: fitting_event_def split: option.splits)
  obtain m g where g: "ma (as_fn a) = Some (FnValue m g)" "ts = tl (afn_in g)"
    using ts(1) by (auto simp: param_types_def split: option.splits fn_any.splits)
  have "\<exists>full sgs. provides ma full sgs"
    using known acts order_registered [of w fmt_a] retries_registered [of oor w fmt_a] recovery_registered [of w fmt_a]
    by ((auto simp: get_of_program order_scenario_def retries_scenario_def recovery_scenario_def split: if_splits); blast)
  with g(1) have "m = as_fn a" by (auto simp: provides_def)
  with g ts(2) show ?thesis by blast
qed

text \<open>
  (C26) Type safety of the results. Whenever a run of a registered workflow function, on any
  history, asks a future for its result, the future is one it made, and it belongs to a call of an
  activity that the activity worker has registered. Called with values of its parameter types, that
  activity does not panic, and it returns a value of the very type that the workflow decodes the result
  into, with a nil error, or nil or the zero value of that type with an error. The activities of the
  order scenario declare their result as \<open>any\<close>, and \<open>Get\<close> takes a pointer to anything: no compiler checks this.
\<close>

theorem activity_results_fit:
  assumes known: "scenarios_get (program_scenarios oor w now_ns) name = Some ex"
    and wfs: "sc_workflows ex fmt_w Map.empty = Inr (mw, ew)" and acts: "sc_activities ex fmt_a Map.empty = Inr (ma, ea)"
    and f: "mw n = Some (FnValue n' f)"
    and serde: "decodes_fitting (program_structs name) sd"
    and asks: "at_point (wfn_body f args) fv (Some sd) clock es (PGet h ty k) c futs calls"
  shows "\<exists>t g. ty = Some t \<and> h < length futs \<and> ma (fst (calls ! h)) = Some (FnValue (fst (calls ! h)) g) \<and>
    (\<forall>as. list_all2 (fits (program_structs name)) as (tl (afn_in g)) \<longrightarrow>
      (\<exists>v e. afn_call g as = Inr [v, e] \<and>
        (e = GNil \<and> fits (program_structs name) v t \<or> (\<exists>m. e = GErr m) \<and> (v = GNil \<or> v = zero_value t))))"
proof -
  from point_own [OF asks serde scenario_own [OF known wfs acts f]]
  obtain t where "ty = Some t" "h < length calls" "length calls = length futs"
    "registry_yields (program_structs name) ma (map fst calls ! h) t"
    by (auto elim: own_getE)
  then show ?thesis by (auto simp: registry_yields_def yields_def)
qed

text \<open>
  No registered activity panics, whatever it is called with: the assertions of \<open>AddActivity\<close> on its
  untyped input are checked ones.
\<close>

theorem registered_activities_return:
  assumes known: "scenarios_get (program_scenarios oor w now_ns) name = Some ex"
    and acts: "sc_activities ex fmt_a Map.empty = Inr (ma, ea)" and g: "ma n = Some (FnValue n' g)"
  shows "\<exists>v e. afn_call g as = Inr [v, e] \<and> (e = GNil \<or> (\<exists>m. e = GErr m))"
proof -
  have "\<exists>sg \<in> set (order_activities w) \<union> set (retries_activities oor w) \<union> set (recovery_activities w). g = activity_of sg"
    using known acts g order_registered [of w fmt_a] retries_registered [of oor w fmt_a] recovery_registered [of w fmt_a]
    by (auto simp: get_of_program order_scenario_def retries_scenario_def recovery_scenario_def provides_def split: if_splits)
  then obtain sg where sg: "g = activity_of sg"
    "sg \<in> set (order_activities w) \<union> set (retries_activities oor w) \<union> set (recovery_activities w)" by blast
  from sg(2) have "\<exists>v e. sg_body sg as = Inr (v, e)"
    by (auto simp: order_activities_def retries_activities_def recovery_activities_def Let_def add_activity_def
        delayed_activity_def charge_credit_card_def ship_package_def validate_order_def process_payment_def
        non_retryable_payment_def reserve_inventory_def package_order_def ship_eventually_def notify_customer_def
        flaky_charge_def ship_after_payment_def split: option.splits)
  then show ?thesis by (auto simp: sg(1) activity_of_def answer_def split: option.splits)
qed

section \<open>Witnesses\<close>

text \<open>A serializer whose bytes are the values themselves, and that decodes what fits.\<close>

definition plain_serde :: "structs \<Rightarrow> gval serde" where
  "plain_serde S = text_serde\<lparr>ser_val := (\<lambda>v. Inr [v]),
     de_val := (\<lambda>ty bs. case bs of [v] \<Rightarrow> if fits S v ty then Inr v else Inl (ErrMsg ''type'') | _ \<Rightarrow> Inl (ErrMsg ''bytes''))\<rparr>"

lemma plain_serde_fits: "decodes_fitting S (plain_serde S)"
  by (auto simp: decodes_fitting_def plain_serde_def split: list.splits if_splits)

lemma demo_order_run:
  "\<exists>c' a. run_prog (order_workflow [GStr ''Bob'', GStr ''widget'', GF64 (Fin 10), GInt IInt 2]) (\<lambda>_. [])
     (Some sd) (\<lambda>_. 0) (context_after [demo_started]) [] = (c', Panicked BlockingFuture) \<and>
     ActivityScheduled a \<in> set (root_uncommitted c') \<and> as_fn a = order_fn ''ChargeCreditCardActivity'' \<and>
     as_input a = [GStr ''Bob'', GF64 (Fin 10)]"
proof -
  have input: "as_input (schedule_event now s fn args opts) = args" for now s fn args opts by (simp add: schedule_event_def)
  show ?thesis
    by (simp add: order_workflow_def require_def call_activity_def demo_started_def context_after_def step_of_def input
        execute_fresh Let_def replay_of_def empty_state_def set_ident_def get_activity_options_def ctx_lookup_def
        with_activity_options_def with_value_def consume_def)
qed

theorem scheduled_inputs_fit_witness:
  "\<exists>ma g. sc_activities (order_scenario demo_world) (\<lambda>_. []) Map.empty = Inr (ma, None) \<and>
    ma (order_fn ''ChargeCreditCardActivity'') = Some (FnValue (order_fn ''ChargeCreditCardActivity'') g) \<and>
    list_all2 (fits (program_structs ''order'')) [GStr ''Bob'', GF64 (Fin 10)] (tl (afn_in g))"
proof -
  let ?S = "program_structs ''order''"
  let ?args = "[GStr ''Bob'', GStr ''widget'', GF64 (Fin 10), GInt IInt 2]"
  let ?f = "\<lparr>wfn_in = [TWfCtx, TStr, TStr, TF64, TIntT IInt], wfn_body = order_workflow\<rparr>"
  obtain ma where ma: "sc_activities (order_scenario demo_world) (\<lambda>_. []) Map.empty = Inr (ma, None)"
    using order_registered [of demo_world] by (auto simp: order_scenario_def)
  have ex: "scenarios_get (program_scenarios (\<lambda>_. 0) demo_world 0) ''order'' = Some (order_scenario demo_world)"
    by (simp add: get_of_program)
  have mw: "sc_workflows (order_scenario demo_world) (\<lambda>_. []) Map.empty =
      Inr ([order_fn ''OrderWorkflow'' \<mapsto> FnValue (order_fn ''OrderWorkflow'') ?f], None)"
    by (simp add: order_scenario_def workflows_registered)
  have args: "list_all2 (fits ?S) ?args (tl (wfn_in ?f))" by simp
  obtain c' a where run: "run_prog (wfn_body ?f ?args) (\<lambda>_. []) (Some (plain_serde ?S)) (\<lambda>_. 0) (context_after [demo_started]) []
      = (c', Panicked BlockingFuture)" "ActivityScheduled a \<in> set (root_uncommitted c')"
      "as_fn a = order_fn ''ChargeCreditCardActivity''" "as_input a = [GStr ''Bob'', GF64 (Fin 10)]"
    using demo_order_run [of "plain_serde ?S"] by auto
  have "root_uncommitted (context_after [demo_started]) = []" by (simp add: context_after_def)
  from scheduled_inputs_fit [OF ex mw ma _ args plain_serde_fits run(1) this run(2), of "order_fn ''OrderWorkflow''" "order_fn ''OrderWorkflow''"] run(3,4) ma
  show ?thesis by auto
qed

text \<open>The order workflow asks for the result of its charge, which the activity returns as \<open>any\<close>.\<close>

lemma demo_order_asks:
  "\<exists>k c futs. at_point (order_workflow [GStr ''Bob'', GStr ''widget'', GF64 (Fin 10), GInt IInt 2]) (\<lambda>_. []) (Some sd) (\<lambda>_. 0)
     [demo_started] (PGet 0 (Some (TStruct ''ChargeResult'')) k) c futs [(order_fn ''ChargeCreditCardActivity'', 0)]"
proof -
  let ?p = "order_workflow [GStr ''Bob'', GStr ''widget'', GF64 (Fin 10), GInt IInt 2]"
  obtain cx args k where p: "?p = PExec cx (Inr (order_fn ''ChargeCreditCardActivity'')) args (\<lambda>h. PGet h (Some (TStruct ''ChargeResult'')) k)"
    "get_activity_options cx = Inr (Some charge_options)"
    by (simp add: order_workflow_def require_def call_activity_def get_activity_options_def ctx_lookup_def
        with_activity_options_def with_value_def Let_def)
  obtain c1 where "execute_activity 0 cx (Inr (order_fn ''ChargeCreditCardActivity'')) args (context_after [demo_started]) = (c1, Inr open_future)"
    using p(2) by (simp add: execute_fresh demo_started_def Let_def)
  with at_point.exec [OF at_point.start [of ?p "\<lambda>_. []" "Some sd" "\<lambda>_. 0" "[demo_started]", unfolded p(1)]]
  show ?thesis by (auto simp: p(1))
qed

theorem activity_results_fit_witness:
  "\<exists>ma g. sc_activities (order_scenario demo_world) (\<lambda>_. []) Map.empty = Inr (ma, None) \<and>
    ma (order_fn ''ChargeCreditCardActivity'') = Some (FnValue (order_fn ''ChargeCreditCardActivity'') g) \<and>
    (\<forall>as. list_all2 (fits (program_structs ''order'')) as (tl (afn_in g)) \<longrightarrow>
      (\<exists>v e. afn_call g as = Inr [v, e] \<and>
        (e = GNil \<and> fits (program_structs ''order'') v (TStruct ''ChargeResult'') \<or>
         (\<exists>m. e = GErr m) \<and> (v = GNil \<or> v = GStruct ''ChargeResult'' []))))"
proof -
  let ?S = "program_structs ''order''"
  let ?f = "\<lparr>wfn_in = [TWfCtx, TStr, TStr, TF64, TIntT IInt], wfn_body = order_workflow\<rparr>"
  obtain ma where ma: "sc_activities (order_scenario demo_world) (\<lambda>_. []) Map.empty = Inr (ma, None)"
    using order_registered [of demo_world] by (auto simp: order_scenario_def)
  have ex: "scenarios_get (program_scenarios (\<lambda>_. 0) demo_world 0) ''order'' = Some (order_scenario demo_world)"
    by (simp add: get_of_program)
  have mw: "sc_workflows (order_scenario demo_world) (\<lambda>_. []) Map.empty =
      Inr ([order_fn ''OrderWorkflow'' \<mapsto> FnValue (order_fn ''OrderWorkflow'') ?f], None)"
    by (simp add: order_scenario_def workflows_registered)
  have f: "[order_fn ''OrderWorkflow'' \<mapsto> FnValue (order_fn ''OrderWorkflow'') ?f] (order_fn ''OrderWorkflow'')
      = Some (FnValue (order_fn ''OrderWorkflow'') ?f)" by simp
  obtain k c futs where "at_point (wfn_body ?f [GStr ''Bob'', GStr ''widget'', GF64 (Fin 10), GInt IInt 2]) (\<lambda>_. [])
      (Some (plain_serde ?S)) (\<lambda>_. 0) [demo_started] (PGet 0 (Some (TStruct ''ChargeResult'')) k) c futs
      [(order_fn ''ChargeCreditCardActivity'', 0)]"
    using demo_order_asks [of "plain_serde ?S"] by auto
  from activity_results_fit [OF ex mw ma f plain_serde_fits this] ma show ?thesis by auto
qed

end
