(* ===== verification/DF_Config.thy ===== *)
theory DF_Config
  imports DF_Conn
begin

text \<open>
  The configuration of the server, \<open>internal/server/config\<close>: loading and validation
  (\<open>config.go\<close>, \<open>nats.go\<close>) and the outputs, levels and fields of the log
  (\<open>logging.go\<close>); and that of the SDK, \<open>sdk/config/config.go\<close>. The library that reads
  the environment into a record is third-party code: a parameter from the preset record to the
  one read. What opening a log file answers is a parameter too.
\<close>

section \<open>Records\<close>

datatype log_writer = StdoutW | StderrW | FileW string

record nats_config =
  nt_url :: string
  nt_host :: string
  nt_port :: string
  nt_max_reconnects :: i64
  nt_reconnect_wait :: i64
  nt_drain_timeout :: i64
  nt_ping_interval :: i64
  nt_max_pings_out :: i64
  nt_client_name :: string

record server_config =
  sv_host :: string
  sv_port :: string

text \<open>\<open>lc_file\<close> is the open file; two handles of one path are not told apart.\<close>

record logger_config =
  lc_level :: string
  lc_format :: string
  lc_output :: string
  lc_file_path :: string
  lc_file_mode :: "32 word"
  lc_sample_rate :: f64
  lc_extra_raw :: string
  lc_otel_exporter :: string
  lc_otel_endpoint :: string
  lc_correlation :: bool
  lc_file :: "log_writer option"

record app_config =
  ac_service :: string
  ac_version :: string
  ac_mode :: string
  ac_nats :: nats_config
  ac_server :: server_config
  ac_request_timeout :: i64
  ac_logger :: logger_config

definition mode_debug :: string where "mode_debug = ''debug''"
definition mode_release :: string where "mode_release = ''release''"

section \<open>Loading and validation\<close>

definition seconds_ns :: "int \<Rightarrow> i64" where
  "seconds_ns n = word_of_int (n * 1000000000)"

text \<open>The presets, by the name of the client.\<close>

definition default_nats :: "string \<Rightarrow> nats_config" where
  "default_nats client = \<lparr>nt_url = [], nt_host = ''localhost'', nt_port = ''4222'', nt_max_reconnects = - 1,
     nt_reconnect_wait = seconds_ns 2, nt_drain_timeout = seconds_ns 30, nt_ping_interval = seconds_ns 120,
     nt_max_pings_out = 2, nt_client_name = client\<rparr>"

definition preset_config :: app_config where
  "preset_config = \<lparr>ac_service = [], ac_version = [], ac_mode = [], ac_nats = default_nats ''durablefuture'',
     ac_server = \<lparr>sv_host = [], sv_port = []\<rparr>, ac_request_timeout = seconds_ns 10,
     ac_logger = \<lparr>lc_level = [], lc_format = [], lc_output = [], lc_file_path = [], lc_file_mode = 0,
       lc_sample_rate = Fin 0, lc_extra_raw = [], lc_otel_exporter = [], lc_otel_endpoint = [],
       lc_correlation = False, lc_file = None\<rparr>\<rparr>"

definition validate :: "app_config \<Rightarrow> gerr option" where
  "validate c =
     (let n = ac_nats c; s = ac_server c in
      if ac_service c = [] then Some (ErrMsg ''service name is required'')
      else if ac_version c = [] then Some (ErrMsg ''version is required'')
      else if nt_host n = [] then Some (ErrMsg ''NATS host is required'')
      else if nt_port n = [] then Some (ErrMsg ''NATS port is required'')
      else if \<not> atoi_ok (nt_port n) then
        Some (ErrMsg (''invalid NATS port '' @ quote1 (nt_port n) @ '': must be a number''))
      else if nt_url n = [] then Some (ErrMsg ''NATS URL is required'')
      else if sint (nt_max_reconnects n) < - 1 then Some (ErrMsg ''NATS max reconnects must be >= -1'')
      else if sint (nt_reconnect_wait n) \<le> 0 then Some (ErrMsg ''NATS reconnect wait must be positive'')
      else if sint (nt_drain_timeout n) \<le> 0 then Some (ErrMsg ''NATS drain timeout must be positive'')
      else if sv_host s = [] then Some (ErrMsg ''server host is required'')
      else if sv_port s = [] then Some (ErrMsg ''server port is required'')
      else if \<not> atoi_ok (sv_port s) then
        Some (ErrMsg (''invalid server port '' @ quote1 (sv_port s) @ '': must be a number''))
      else None)"

definition nats_url :: "string \<Rightarrow> string \<Rightarrow> string" where
  "nats_url host port = ''nats://'' @ host @ '':'' @ port"

definition load_config :: "(app_config \<Rightarrow> gerr + app_config) \<Rightarrow> gerr + app_config" where
  "load_config env_parse =
     (case env_parse preset_config of
        Inl e \<Rightarrow> Inl (ErrWrap ''failed to parse config'' e)
      | Inr c \<Rightarrow>
         (let n = ac_nats c;
              c' = (if nt_url n = [] then c\<lparr>ac_nats := n\<lparr>nt_url := nats_url (nt_host n) (nt_port n)\<rparr>\<rparr> else c)
          in case validate c' of
               Some e \<Rightarrow> Inl (ErrWrap ''invalid configuration'' e)
             | None \<Rightarrow> Inr c'))"

text \<open>What the configuration tells the connection.\<close>

definition conn_of :: "nats_config \<Rightarrow> conn_config" where
  "conn_of n = \<lparr>cf_endpoint = nt_url n, cf_max_reconnects = nt_max_reconnects n,
     cf_reconnect_wait = nt_reconnect_wait n, cf_drain_timeout = nt_drain_timeout n,
     cf_ping_interval = nt_ping_interval n, cf_max_pings_out = nt_max_pings_out n,
     cf_client_name = nt_client_name n\<rparr>"

text \<open>The configuration of the SDK: the connection and the request timeout, without validation.\<close>

record sdk_config =
  sc_nats :: nats_config
  sc_request_timeout :: i64

definition sdk_preset :: sdk_config where
  "sdk_preset = \<lparr>sc_nats = default_nats ''durablefuture-sdk'', sc_request_timeout = seconds_ns 10\<rparr>"

definition load_sdk_config :: "(sdk_config \<Rightarrow> gerr + sdk_config) \<Rightarrow> gerr + sdk_config" where
  "load_sdk_config env_parse =
     (case env_parse sdk_preset of
        Inl e \<Rightarrow> Inl e
      | Inr c \<Rightarrow>
         (let n = sc_nats c in
          Inr (if nt_url n = [] then c\<lparr>sc_nats := n\<lparr>nt_url := nats_url (nt_host n) (nt_port n)\<rparr>\<rparr> else c)))"

definition sdk_conn_of :: "sdk_config \<Rightarrow> conn_config" where
  "sdk_conn_of c =
     \<lparr>cf_endpoint = nt_url (sc_nats c), cf_max_reconnects = nt_max_reconnects (sc_nats c),
      cf_reconnect_wait = nt_reconnect_wait (sc_nats c), cf_drain_timeout = nt_drain_timeout (sc_nats c),
      cf_ping_interval = nt_ping_interval (sc_nats c), cf_max_pings_out = nt_max_pings_out (sc_nats c),
      cf_client_name = nt_client_name (sc_nats c)\<rparr>"

section \<open>The outputs of the log\<close>

text \<open>\<open>openFile\<close> keeps the last file it opened, and its path as the configured one.\<close>

definition open_file :: "(string \<Rightarrow> gerr option) \<Rightarrow> string \<Rightarrow> logger_config \<Rightarrow> logger_config \<times> log_writer option" where
  "open_file open_err path c =
     (if path = [] then (c, None)
      else if lc_file c \<noteq> None \<and> lc_file_path c = path then (c, lc_file c)
      else (case open_err path of
        Some e \<Rightarrow> (c, None)
      | None \<Rightarrow> (c\<lparr>lc_file_path := path, lc_file := Some (FileW path)\<rparr>, Some (FileW path))))"

definition add_writer :: "string \<Rightarrow> log_writer option \<Rightarrow> string list \<times> log_writer list \<Rightarrow> string list \<times> log_writer list" where
  "add_writer key w acc =
     (case acc of (seen, ws) \<Rightarrow>
        (case w of
           None \<Rightarrow> acc
         | Some w' \<Rightarrow> if key \<in> set seen then acc else (key # seen, ws @ [w'])))"

definition writers_entry ::
    "(string \<Rightarrow> gerr option) \<Rightarrow> string \<Rightarrow> logger_config \<times> string list \<times> log_writer list
      \<Rightarrow> logger_config \<times> string list \<times> log_writer list" where
  "writers_entry open_err entry st =
     (case st of (c, acc) \<Rightarrow>
       (let raw = trim_space entry; lower = to_lower raw in
        if raw = [] then (c, acc)
        else if starts_with ''file:'' lower then
          (let path = trim_prefix ''file:'' raw in
           case open_file open_err path c of (c', w) \<Rightarrow> (c', add_writer (''file:'' @ path) w acc))
        else if lower = ''stdout'' then (c, add_writer ''stdout'' (Some StdoutW) acc)
        else if lower = ''stderr'' then (c, add_writer ''stderr'' (Some StderrW) acc)
        else if lower = ''file'' then
          (if lc_file_path c = [] then (c, acc)
           else (case open_file open_err (lc_file_path c) c of
             (c', w) \<Rightarrow> (c', add_writer (''file:'' @ lc_file_path c') w acc)))
        else (c, acc)))"

definition writers :: "(string \<Rightarrow> gerr option) \<Rightarrow> logger_config \<Rightarrow> logger_config \<times> log_writer list" where
  "writers open_err c =
     (let outputs = trim_space (lc_output c) in
      if outputs = [] then (c, [StdoutW])
      else (case fold (writers_entry open_err) (go_split CHR '','' outputs) (c, [], []) of
        (c', seen, ws) \<Rightarrow> (c', if ws = [] then [StdoutW] else ws)))"

definition primary_writer :: "(string \<Rightarrow> gerr option) \<Rightarrow> logger_config \<Rightarrow> logger_config \<times> log_writer" where
  "primary_writer open_err c =
     (case writers open_err c of (c', ws) \<Rightarrow> (c', if ws = [] then StdoutW else ws ! 0))"

section \<open>Fields, rate and level\<close>

text \<open>The receivers of these three may be nil.\<close>

definition extra_pair :: "string \<Rightarrow> (string \<rightharpoonup> string) \<Rightarrow> (string \<rightharpoonup> string)" where
  "extra_pair entry res =
     (let p = trim_space entry in
      if p = [] then res
      else (case split_first CHR ''='' p of
        [l, r] \<Rightarrow>
          (let k = trim_space l; v = trim_space r in if k \<noteq> [] then res(k \<mapsto> v) else res)
      | _ \<Rightarrow> res))"

definition parse_extra_fields :: "logger_config option \<Rightarrow> (string \<rightharpoonup> string)" where
  "parse_extra_fields lc =
     (case lc of
        None \<Rightarrow> Map.empty
      | Some c \<Rightarrow>
         (if lc_extra_raw c = [] then Map.empty else fold extra_pair (go_split CHR '','' (lc_extra_raw c)) Map.empty))"

definition f64_lt :: "f64 \<Rightarrow> f64 \<Rightarrow> bool" where
  "f64_lt a b \<longleftrightarrow> f64_le a b \<and> \<not> f64_le b a"

definition parse_sample_rate :: "logger_config option \<Rightarrow> f64" where
  "parse_sample_rate lc =
     (case lc of
        None \<Rightarrow> Fin 1
      | Some c \<Rightarrow>
         (let r = lc_sample_rate c in
          if f64_lt r (Fin 0) then Fin 0 else if f64_lt (Fin 1) r then Fin 1 else r))"

definition parse_level :: "logger_config option \<Rightarrow> string" where
  "parse_level lc =
     (case lc of
        None \<Rightarrow> ''info''
      | Some c \<Rightarrow>
         (let lvl = to_lower (trim_space (lc_level c)) in
          if lvl \<in> {''trace'', ''debug'', ''info'', ''warn'', ''error''} then lvl else ''info''))"

definition log_level :: "app_config \<Rightarrow> int" where
  "log_level c =
     (let l = parse_level (Some (ac_logger c)) in
      if l = ''trace'' then - 8 else if l = ''debug'' then - 4 else if l = ''info'' then 0
      else if l = ''warn'' then 4 else if l = ''error'' then 8 else 0)"

section \<open>Lemmas\<close>

text \<open>The key under which a writer is kept, and what the outputs keep.\<close>

fun writer_key :: "log_writer \<Rightarrow> string" where
  "writer_key StdoutW = ''stdout''"
| "writer_key StderrW = ''stderr''"
| "writer_key (FileW p) = ''file:'' @ p"

lemma writer_key_inject [simp]: "writer_key v = writer_key w \<longleftrightarrow> v = w"
  by (cases v; cases w) simp_all

definition file_ok :: "logger_config \<Rightarrow> bool" where
  "file_ok c \<longleftrightarrow> lc_file c = None \<or> lc_file c = Some (FileW (lc_file_path c))"

text \<open>A file that can be written to: it opens, or it was open before.\<close>

definition usable :: "(string \<Rightarrow> gerr option) \<Rightarrow> log_writer option \<Rightarrow> log_writer \<Rightarrow> bool" where
  "usable open_err file0 w \<longleftrightarrow> (\<forall>p. w = FileW p \<longrightarrow> open_err p = None \<or> file0 = Some w)"

definition outputs_ok :: "(string \<Rightarrow> gerr option) \<Rightarrow> log_writer option \<Rightarrow> logger_config \<times> string list \<times> log_writer list \<Rightarrow> bool" where
  "outputs_ok open_err file0 st \<longleftrightarrow> (case st of (c, seen, ws) \<Rightarrow>
     file_ok c \<and> (\<forall>w. lc_file c = Some w \<longrightarrow> usable open_err file0 w) \<and>
     seen = rev (map writer_key ws) \<and> distinct ws \<and> list_all (usable open_err file0) ws)"

lemma open_file_ok:
  assumes "file_ok c" and "\<And>w. lc_file c = Some w \<Longrightarrow> usable open_err file0 w" and "open_file open_err path c = (c', r)"
  shows "file_ok c' \<and> (\<forall>w. lc_file c' = Some w \<longrightarrow> usable open_err file0 w) \<and>
    (\<forall>w. r = Some w \<longrightarrow> w = FileW path \<and> lc_file_path c' = path \<and> usable open_err file0 w) \<and> lc_output c' = lc_output c"
  using assms unfolding open_file_def file_ok_def usable_def
  by (auto split: if_splits option.splits)

lemma add_writer_ok:
  assumes "outputs_ok open_err file0 (c, acc)" and "\<And>v. w = Some v \<Longrightarrow> key = writer_key v \<and> usable open_err file0 v"
  shows "outputs_ok open_err file0 (c, add_writer key w acc)"
  using assms by (cases acc; cases w) (auto simp: outputs_ok_def add_writer_def)

lemma outputs_if: "outputs_ok open_err file0 a \<Longrightarrow> outputs_ok open_err file0 b \<Longrightarrow> outputs_ok open_err file0 (if P then a else b)"
  by simp

lemma writers_entry_ok:
  assumes "outputs_ok open_err file0 st"
  shows "outputs_ok open_err file0 (writers_entry open_err entry st)"
proof -
  obtain c seen ws where st: "st = (c, seen, ws)" using prod_cases3 by blast
  have kept: "outputs_ok open_err file0 (c', add_writer key r (seen, ws))"
    if of: "open_file open_err path c = (c', r)" and key: "r \<noteq> None \<Longrightarrow> lc_file_path c' = path \<Longrightarrow> key = ''file:'' @ path"
    for path c' r key
  proof -
    note new = open_file_ok [OF _ _ of, of file0]
    have inv: "file_ok c" "\<And>w. lc_file c = Some w \<Longrightarrow> usable open_err file0 w"
      using assms by (simp_all add: st outputs_ok_def)
    have "outputs_ok open_err file0 (c', seen, ws)"
      using assms new [OF inv] by (simp add: st outputs_ok_def)
    then show ?thesis by (rule add_writer_ok) (use new [OF inv] key in auto)
  qed
  have std: "outputs_ok open_err file0 (c, add_writer (writer_key v) (Some v) (seen, ws))" if "usable open_err file0 v" for v
    using assms that unfolding st by (intro add_writer_ok) auto
  have same: "outputs_ok open_err file0 (c, seen, ws)" using assms by (simp add: st)
  note std [of StdoutW, unfolded writer_key.simps] std [of StderrW, unfolded writer_key.simps]
  moreover have "usable open_err file0 StdoutW" "usable open_err file0 StderrW" by (simp_all add: usable_def)
  ultimately show ?thesis
    unfolding writers_entry_def st Let_def prod.case
    by (intro outputs_if same) (auto intro!: kept split: prod.split simp del: append.simps)
qed

lemma outputs_fold_ok:
  "outputs_ok open_err file0 st \<Longrightarrow> outputs_ok open_err file0 (fold (writers_entry open_err) es st)"
  by (induction es arbitrary: st) (simp_all add: writers_entry_ok)

lemma usable_std [simp]: "usable open_err file0 StdoutW" "usable open_err file0 StderrW"
  by (simp_all add: usable_def)

lemma writers_ok:
  assumes "file_ok c" and "writers open_err c = (c', ws)"
  shows "file_ok c' \<and> ws \<noteq> [] \<and> distinct ws \<and> list_all (usable open_err (lc_file c)) ws"
proof (cases "trim_space (lc_output c) = []")
  case True
  with assms show ?thesis by (auto simp: writers_def)
next
  case False
  have "outputs_ok open_err (lc_file c) (c, [], [])" using assms(1) by (auto simp: outputs_ok_def usable_def)
  then have "outputs_ok open_err (lc_file c)
    (fold (writers_entry open_err) (go_split CHR '','' (trim_space (lc_output c))) (c, [], []))"
    by (rule outputs_fold_ok)
  with False assms(2) show ?thesis
    by (auto simp: writers_def Let_def outputs_ok_def split: prod.splits if_splits)
qed

lemma validate_None:
  "validate c = None \<longleftrightarrow> ac_service c \<noteq> [] \<and> ac_version c \<noteq> [] \<and> nt_host (ac_nats c) \<noteq> [] \<and>
     nt_port (ac_nats c) \<noteq> [] \<and> atoi_ok (nt_port (ac_nats c)) \<and> nt_url (ac_nats c) \<noteq> [] \<and>
     - 1 \<le> sint (nt_max_reconnects (ac_nats c)) \<and> 0 < sint (nt_reconnect_wait (ac_nats c)) \<and>
     0 < sint (nt_drain_timeout (ac_nats c)) \<and> sv_host (ac_server c) \<noteq> [] \<and> sv_port (ac_server c) \<noteq> [] \<and>
     atoi_ok (sv_port (ac_server c))"
  unfolding validate_def Let_def by (simp only: if_split_eq1 option.simps simp_thms) linarith

section \<open>Properties\<close>

text \<open>
  Whatever the output text says, the log has at least one output and no output
  twice, each file among them could be opened (or was open before), and the file that the configuration keeps is
  the one at the path it keeps, so the same holds when the outputs are asked for again.
\<close>

theorem log_outputs_proper:
  assumes "file_ok c" and "writers open_err c = (c', ws)"
  shows "ws \<noteq> [] \<and> distinct ws \<and> list_all (usable open_err (lc_file c)) ws \<and> file_ok c'"
  using writers_ok [OF assms] by blast

definition demo_logger :: logger_config where
  "demo_logger = \<lparr>lc_level = ''error'', lc_format = ''auto'', lc_output = ''file,file:/a'', lc_file_path = ''/b'',
     lc_file_mode = 420, lc_sample_rate = Fin 1, lc_extra_raw = [], lc_otel_exporter = ''none'',
     lc_otel_endpoint = [], lc_correlation = True, lc_file = None\<rparr>"

theorem log_outputs_proper_witness:
  "file_ok demo_logger \<and> snd (writers (\<lambda>_. None) demo_logger) \<noteq> [] \<and> distinct (snd (writers (\<lambda>_. None) demo_logger))"
proof -
  have ok: "file_ok demo_logger" by (simp add: file_ok_def demo_logger_def)
  from log_outputs_proper [OF ok, of "\<lambda>_. None"] ok show ?thesis by (metis prod.collapse)
qed

text \<open>
  A configuration that loads is valid: names, hosts and URL are there,
  both ports are numbers, the waiting times are positive as 64-bit values, reconnects are at least -1. The URL is
  the one of the environment or made from host and port. Everything else is as the environment says.
\<close>

theorem loaded_configuration_valid:
  assumes "load_config env_parse = Inr c"
  shows "\<exists>c0. env_parse preset_config = Inr c0 \<and>
    c = c0\<lparr>ac_nats := (ac_nats c0)\<lparr>nt_url := nt_url (ac_nats c)\<rparr>\<rparr> \<and>
    nt_url (ac_nats c) = (if nt_url (ac_nats c0) = [] then nats_url (nt_host (ac_nats c)) (nt_port (ac_nats c))
      else nt_url (ac_nats c0)) \<and>
    ac_service c \<noteq> [] \<and> ac_version c \<noteq> [] \<and> nt_host (ac_nats c) \<noteq> [] \<and> atoi_ok (nt_port (ac_nats c)) \<and>
    sv_host (ac_server c) \<noteq> [] \<and> atoi_ok (sv_port (ac_server c)) \<and>
    - 1 \<le> sint (nt_max_reconnects (ac_nats c)) \<and> 0 < sint (nt_reconnect_wait (ac_nats c)) \<and>
    0 < sint (nt_drain_timeout (ac_nats c))"
proof -
  obtain c0 where env: "env_parse preset_config = Inr c0" using assms by (auto simp: load_config_def split: sum.splits)
  then have valid: "validate c = None"
    and c: "c = (if nt_url (ac_nats c0) = []
      then c0\<lparr>ac_nats := (ac_nats c0)\<lparr>nt_url := nats_url (nt_host (ac_nats c0)) (nt_port (ac_nats c0))\<rparr>\<rparr> else c0)"
    using assms by (auto simp: load_config_def Let_def split: option.splits if_splits)
  have "nt_url (ac_nats c) = (if nt_url (ac_nats c0) = [] then nats_url (nt_host (ac_nats c)) (nt_port (ac_nats c))
      else nt_url (ac_nats c0)) \<and> c = c0\<lparr>ac_nats := (ac_nats c0)\<lparr>nt_url := nt_url (ac_nats c)\<rparr>\<rparr>"
    using c by (cases "nt_url (ac_nats c0) = []") simp_all
  with env valid [unfolded validate_None] show ?thesis by blast
qed

definition demo_environment :: "app_config \<Rightarrow> gerr + app_config" where
  "demo_environment c = Inr (c\<lparr>ac_service := ''df'', ac_version := ''v0.1.0-alpha1'', ac_mode := mode_debug,
     ac_server := \<lparr>sv_host = ''localhost'', sv_port = ''8080''\<rparr>, ac_logger := demo_logger\<rparr>)"

definition demo_config :: app_config where
  "demo_config = preset_config\<lparr>ac_service := ''df'', ac_version := ''v0.1.0-alpha1'', ac_mode := mode_debug,
     ac_server := \<lparr>sv_host = ''localhost'', sv_port = ''8080''\<rparr>, ac_logger := demo_logger,
     ac_nats := (default_nats ''durablefuture'')\<lparr>nt_url := ''nats://localhost:4222''\<rparr>\<rparr>"

lemma demo_config_loads: "load_config demo_environment = Inr demo_config"
proof -
  have "validate demo_config = None"
    unfolding validate_None
    by (intro conjI) (simp_all add: demo_config_def preset_config_def default_nats_def atoi_ok_def seconds_ns_def
      is_digit_def digits_val_def char_digit_def)
  moreover have "nats_url ''localhost'' ''4222'' = ''nats://localhost:4222''" by (simp add: nats_url_def)
  ultimately show ?thesis
    by (simp add: load_config_def demo_environment_def demo_config_def preset_config_def default_nats_def)
qed

theorem loaded_configuration_valid_witness:
  "\<exists>c0. demo_environment preset_config = Inr c0 \<and> nt_url (ac_nats demo_config) = nats_url ''localhost'' ''4222''"
proof -
  have "nt_host (ac_nats demo_config) = ''localhost''" "nt_port (ac_nats demo_config) = ''4222''"
    by (simp_all add: demo_config_def default_nats_def)
  moreover have "nt_url (ac_nats c0) = []" if "demo_environment preset_config = Inr c0" for c0
    using that by (auto simp: demo_environment_def preset_config_def default_nats_def)
  ultimately show ?thesis using loaded_configuration_valid [OF demo_config_loads] by auto
qed

end
