(* ===== verification/DF_Logger.thy ===== *)
theory DF_Logger
  imports DF_Config
begin

text \<open>
  The log of the server, \<open>internal/server/logger/logger.go\<close>, and its start,
  \<open>internal/server/app/run.go\<close> with the flags of
  \<open>cmd/durablefuture-server/main.go\<close>. The OpenTelemetry exporter and the colours are
  third-party code: \<open>otel\<close> and \<open>paint\<close>. The formats of the standard library that
  only produce text are the fields of \<open>fmts\<close>. Levels are integers, as \<open>slog.Level\<close>.
\<close>

section \<open>Attributes as text\<close>

text \<open>
  A value of the log, by its kind. \<open>VMap\<close> is a value of type \<open>map[string]string\<close>, in
  the order in which it is iterated; \<open>VValuer\<close> one that has a value to log of its own.
\<close>

datatype log_value =
    VString string
  | VInt64 i64
  | VUint64 u64
  | VFloat64 f64
  | VBool bool
  | VDuration i64
  | VTime i64
  | VMap "(string \<times> string) list"
  | VAny gval
  | VGroup "(string \<times> gval) list"
  | VValuer log_value

type_synonym log_attr = "string \<times> log_value"

record fmts =
  fm_quote :: "string \<Rightarrow> string"
  fm_float :: "f64 \<Rightarrow> string"
  fm_duration :: "i64 \<Rightarrow> string"
  fm_rfc3339 :: "i64 \<Rightarrow> string"
  fm_clock :: "i64 \<Rightarrow> string"
  fm_any :: "gval \<Rightarrow> string"
  fm_group :: "(string \<times> gval) list \<Rightarrow> string"

fun format_attr_value :: "fmts \<Rightarrow> log_value \<Rightarrow> string" where
  "format_attr_value fm (VValuer v) = format_attr_value fm v"
| "format_attr_value fm (VString s) = fm_quote fm s"
| "format_attr_value fm (VInt64 i) = int_str (sint i)"
| "format_attr_value fm (VUint64 u) = int_str (uint u)"
| "format_attr_value fm (VFloat64 f) = fm_float fm f"
| "format_attr_value fm (VBool b) = (if b then ''true'' else ''false'')"
| "format_attr_value fm (VDuration d) = fm_duration fm d"
| "format_attr_value fm (VTime t) = fm_rfc3339 fm t"
| "format_attr_value fm (VMap kvs) = go_join '' '' (map (\<lambda>(k, v). k @ '':'' @ v) kvs)"
| "format_attr_value fm (VAny v) = fm_any fm v"
| "format_attr_value fm (VGroup g) = fm_group fm g"

definition format_attributes :: "fmts \<Rightarrow> log_attr list \<Rightarrow> string" where
  "format_attributes fm attrs =
     (if attrs = [] then []
      else '' '' @ go_join '' '' (map (\<lambda>(k, v). k @ ''='' @ format_attr_value fm v) attrs))"

text \<open>\<open>slog.Level.String\<close>, and the colours of a level.\<close>

definition level_offset :: "string \<Rightarrow> int \<Rightarrow> string" where
  "level_offset base d = (if d = 0 then base else base @ (if 0 < d then ''+'' else []) @ int_str d)"

definition level_string :: "int \<Rightarrow> string" where
  "level_string l =
     (if l < 0 then level_offset ''DEBUG'' (l + 4)
      else if l < 4 then level_offset ''INFO'' l
      else if l < 8 then level_offset ''WARN'' (l - 4)
      else level_offset ''ERROR'' (l - 8))"

datatype colour = BgMagenta | BgBlue | BgYellow | BgRed | BgWhite | FgWhite | FgBlack | FgHiBlack | Bold

definition level_color :: "(colour list \<Rightarrow> string \<Rightarrow> string) \<Rightarrow> int \<Rightarrow> string" where
  "level_color paint l =
     (let (bg, fg) = (if l = - 4 then (BgMagenta, FgWhite) else if l = 0 then (BgBlue, FgWhite)
        else if l = 4 then (BgYellow, FgBlack) else if l = 8 then (BgRed, FgWhite) else (BgWhite, FgBlack))
      in paint [bg, fg, Bold] ('' '' @ level_string l @ '' ''))"

section \<open>Handlers\<close>

text \<open>
  The handlers of a logger: the one of this file, the JSON handler of the standard library, and the
  exporter's, of which \<open>ot_enabled\<close> and \<open>ot_with\<close> are all that is used. \<open>root\<close> is the
  \<open>MultiHandler\<close>: a list of them.
\<close>

datatype 'o log_handler =
    DebugHandler log_writer "log_attr list" int
  | JsonHandler log_writer "log_attr list" int
  | OtelHandler 'o

record 'o otel =
  ot_new :: "string \<Rightarrow> string \<Rightarrow> gerr + 'o"
  ot_enabled :: "'o \<Rightarrow> int \<Rightarrow> bool"
  ot_with :: "'o \<Rightarrow> log_attr list \<Rightarrow> 'o"
  ot_group :: "'o \<Rightarrow> string \<Rightarrow> 'o"

definition debug_with_attrs :: "log_writer \<Rightarrow> log_attr list \<Rightarrow> int \<Rightarrow> log_attr list \<Rightarrow> 'o log_handler" where
  "debug_with_attrs out attrs level new = DebugHandler out (attrs @ new) 0"

definition debug_enabled :: "int \<Rightarrow> int \<Rightarrow> bool" where
  "debug_enabled h_level level \<longleftrightarrow> h_level \<le> level"

record log_record =
  lr_time :: i64
  lr_level :: int
  lr_message :: string
  lr_attrs :: "log_attr list"

definition debug_handle ::
    "fmts \<Rightarrow> (colour list \<Rightarrow> string \<Rightarrow> string) \<Rightarrow> log_writer \<Rightarrow> log_attr list \<Rightarrow> log_record \<Rightarrow> log_writer \<times> string" where
  "debug_handle fm paint out attrs r =
     (out, paint [FgHiBlack] (fm_clock fm (lr_time r)) @ '' '' @ level_color paint (lr_level r) @ '' '' @
        lr_message r @ format_attributes fm (attrs @ lr_attrs r) @ [CHR 0x0A])"

fun with_attrs :: "'o otel \<Rightarrow> log_attr list \<Rightarrow> 'o log_handler \<Rightarrow> 'o log_handler" where
  "with_attrs ot new (DebugHandler out attrs l) = debug_with_attrs out attrs l new"
| "with_attrs ot new (JsonHandler out attrs l) = JsonHandler out (attrs @ new) l"
| "with_attrs ot new (OtelHandler q) = OtelHandler (ot_with ot q new)"

fun enabled :: "'o otel \<Rightarrow> int \<Rightarrow> 'o log_handler \<Rightarrow> bool" where
  "enabled ot level (DebugHandler out attrs l) = debug_enabled l level"
| "enabled ot level (JsonHandler out attrs l) = (l \<le> level)"
| "enabled ot level (OtelHandler q) = ot_enabled ot q level"

fun multi_enabled :: "'o otel \<Rightarrow> int \<Rightarrow> 'o log_handler list \<Rightarrow> bool" where
  "multi_enabled ot level [] = False"
| "multi_enabled ot level (h # hs) = (if enabled ot level h then True else multi_enabled ot level hs)"

definition multi_with_attrs :: "'o otel \<Rightarrow> log_attr list \<Rightarrow> 'o log_handler list \<Rightarrow> 'o log_handler list" where
  "multi_with_attrs ot new hs = map (with_attrs ot new) hs"

text \<open>A group does not change the handler of this file; \<open>lib_group\<close> is what it does to one of a library.\<close>

definition debug_with_group :: "log_writer \<Rightarrow> log_attr list \<Rightarrow> int \<Rightarrow> string \<Rightarrow> 'o log_handler" where
  "debug_with_group out attrs level name = DebugHandler out attrs level"

definition multi_with_group :: "(string \<Rightarrow> 'o log_handler \<Rightarrow> 'o log_handler) \<Rightarrow> string \<Rightarrow> 'o log_handler list \<Rightarrow> 'o log_handler list" where
  "multi_with_group lib_group name hs =
     map (\<lambda>h. case h of DebugHandler out attrs l \<Rightarrow> debug_with_group out attrs l name | _ \<Rightarrow> lib_group name h) hs"

text \<open>Every handler gets the record; a failure is logged and does not stop the others.\<close>

definition multi_handle :: "('o log_handler \<Rightarrow> log_record \<Rightarrow> gerr option) \<Rightarrow> log_record \<Rightarrow> 'o log_handler list \<Rightarrow> gerr list \<times> gerr option" where
  "multi_handle handle r hs = (List.map_filter (\<lambda>h. handle h r) hs, None)"

text \<open>A log call reaches the handlers when the root is enabled at its level.\<close>

definition log_call ::
    "'o otel \<Rightarrow> ('o log_handler \<Rightarrow> log_record \<Rightarrow> gerr option) \<Rightarrow> log_record \<Rightarrow> 'o log_handler list \<Rightarrow> 'o log_handler list" where
  "log_call ot handle r hs = (if multi_enabled ot (lr_level r) hs then hs else [])"

section \<open>Building the logger\<close>

definition log_format :: "app_config \<Rightarrow> string" where
  "log_format c =
     (let format = to_lower (lc_format (ac_logger c)) in
      if format = ''auto'' then (if ac_mode c = mode_debug then ''pretty'' else ''json'') else format)"

definition base_handler :: "app_config \<Rightarrow> log_writer \<Rightarrow> 'o log_handler" where
  "base_handler c w =
     (if log_format c \<in> {''pretty'', ''text''} then DebugHandler w [] (log_level c) else JsonHandler w [] (log_level c))"

text \<open>\<open>res_err\<close>: the error of merging the resource. An exporter that cannot be made is left out.\<close>

definition otel_handlers :: "'o otel \<Rightarrow> gerr option \<Rightarrow> app_config \<Rightarrow> 'o log_handler list" where
  "otel_handlers ot res_err c =
     (if ac_mode c \<noteq> mode_release \<or> res_err \<noteq> None then []
      else
        (let made = (if lc_otel_exporter (ac_logger c) \<in> {''otlp-http'', ''otlp-grpc''}
             then ot_new ot (lc_otel_exporter (ac_logger c)) (lc_otel_endpoint (ac_logger c))
             else Inl (ErrMsg (''unsupported otel exporter: '' @ lc_otel_exporter (ac_logger c))))
         in case made of Inl e \<Rightarrow> [] | Inr q \<Rightarrow> [OtelHandler q]))"

definition root_attrs :: "app_config \<Rightarrow> log_attr list" where
  "root_attrs c = [(''service.name'', VString (ac_service c)), (''service.version'', VString (ac_version c)),
     (''env'', VString (ac_mode c))]"

text \<open>
  \<open>NewLogger\<close> asks for the outputs three times: twice to see that there are some (the first
  answer is only compared with nil, which a list of outputs never is), once to use them.
\<close>

definition new_logger ::
    "'o otel \<Rightarrow> gerr option \<Rightarrow> (string \<Rightarrow> gerr option) \<Rightarrow> app_config \<Rightarrow> app_config \<times> (gerr + 'o log_handler list)" where
  "new_logger ot res_err open_err c =
     (let (l1, ws1) = writers open_err (ac_logger c); (l2, ws2) = writers open_err l1 in
      if ws2 = [] then (c\<lparr>ac_logger := l2\<rparr>, Inl (ErrMsg ''no log writer''))
      else
        (let (l3, ws) = writers open_err l2;
             c' = c\<lparr>ac_logger := l3\<rparr>;
             hs = otel_handlers ot res_err c @ map (base_handler c) ws
         in (c', Inr (multi_with_attrs ot (root_attrs c) hs))))"

section \<open>Starting the server\<close>

record run_options =
  ro_nats_host :: string
  ro_nats_port :: string
  ro_http_port :: string

text \<open>The options that the flags of the program give when none is set.\<close>

definition flag_defaults :: run_options where
  "flag_defaults = \<lparr>ro_nats_host = ''localhost'', ro_nats_port = ''4222'', ro_http_port = ''8080''\<rparr>"

definition override_nats :: "run_options \<Rightarrow> nats_config \<Rightarrow> nats_config" where
  "override_nats opts n =
     (let n1 = (if ro_nats_host opts \<noteq> [] then n\<lparr>nt_host := ro_nats_host opts\<rparr> else n);
          n2 = (if ro_nats_port opts \<noteq> [] then n1\<lparr>nt_port := ro_nats_port opts\<rparr> else n1)
      in n2\<lparr>nt_url := nats_url (nt_host n2) (nt_port n2)\<rparr>)"

text \<open>What ends the server: a signal, or the manager with its result.\<close>

datatype run_end = Signalled | ManagerDone "gerr option"

definition run_server ::
    "(app_config \<Rightarrow> gerr + app_config) \<Rightarrow> 'o otel \<Rightarrow> gerr option \<Rightarrow> (string \<Rightarrow> gerr option)
      \<Rightarrow> (conn_config \<Rightarrow> gerr option) \<Rightarrow> gerr option \<Rightarrow> bool \<Rightarrow> ('s, 'x) js_client \<Rightarrow> run_options \<Rightarrow> run_end \<Rightarrow> 's
      \<Rightarrow> 's \<times> conn_effect list \<times> string option \<times> gerr option" where
  "run_server env_parse ot res_err open_err dial js_new online js opts run_end s =
     (case load_config env_parse of
        Inl e \<Rightarrow> (s, [], None, Some e)
      | Inr c0 \<Rightarrow>
         (let c1 = c0\<lparr>ac_nats := override_nats opts (ac_nats c0)\<rparr> in
          case new_logger ot res_err open_err c1 of
            (c2, Inl e) \<Rightarrow> (s, [], None, Some e)
          | (c2, Inr hs) \<Rightarrow>
             (let http = (if ro_http_port opts = [] then ''8080'' else ro_http_port opts) in
              case new_manager dial js_new online js (Some (conn_of (ac_nats c2))) s of
                (s', fx, Some e) \<Rightarrow> (s', fx, None, Some e)
              | (s', fx, None) \<Rightarrow>
                 (s', fx, Some http, (case run_end of Signalled \<Rightarrow> None | ManagerDone r \<Rightarrow> r)))))"

text \<open>The program of the server: the exit status, given its flags.\<close>

definition server_main ::
    "(app_config \<Rightarrow> gerr + app_config) \<Rightarrow> 'o otel \<Rightarrow> gerr option \<Rightarrow> (string \<Rightarrow> gerr option)
      \<Rightarrow> (conn_config \<Rightarrow> gerr option) \<Rightarrow> gerr option \<Rightarrow> bool \<Rightarrow> ('s, 'x) js_client \<Rightarrow> run_options \<Rightarrow> run_end \<Rightarrow> 's
      \<Rightarrow> 's \<times> conn_effect list \<times> nat" where
  "server_main env_parse ot res_err open_err dial js_new online js opts run_end s =
     (case run_server env_parse ot res_err open_err dial js_new online js opts run_end s of
        (s', fx, _, Some e) \<Rightarrow> (s', fx, 1)
      | (s', fx, _, None) \<Rightarrow> (s', fx, 0))"

section \<open>Lemmas\<close>

lemma multi_enabled_iff: "multi_enabled ot level hs \<longleftrightarrow> (\<exists>h \<in> set hs. enabled ot level h)"
  by (induction hs) auto

text \<open>The level from which a handler lets records through once attributes are added.\<close>

definition threshold :: "app_config \<Rightarrow> int" where
  "threshold c = (if log_format c \<in> {''pretty'', ''text''} then 0 else log_level c)"

lemma base_handler_enabled:
  "enabled ot level (with_attrs ot new (base_handler c w)) \<longleftrightarrow> threshold c \<le> level"
  by (simp add: base_handler_def threshold_def debug_with_attrs_def debug_enabled_def)

lemma new_logger_handlers:
  assumes "file_ok (ac_logger c)"
  shows "\<exists>c' ws. ws \<noteq> [] \<and>
    new_logger ot res_err open_err c =
      (c', Inr (multi_with_attrs ot (root_attrs c) (otel_handlers ot res_err c @ map (base_handler c) ws)))"
proof -
  obtain l1 ws1 where w1: "writers open_err (ac_logger c) = (l1, ws1)" by fastforce
  obtain l2 ws2 where w2: "writers open_err l1 = (l2, ws2)" by fastforce
  obtain l3 ws where w3: "writers open_err l2 = (l3, ws)" by fastforce
  note ok1 = writers_ok [OF assms w1]
  note ok2 = writers_ok [OF conjunct1 [OF ok1] w2]
  note ok3 = writers_ok [OF conjunct1 [OF ok2] w3]
  from ok2 ok3 have "ws2 \<noteq> []" "ws \<noteq> []" by simp_all
  then show ?thesis by (auto simp: new_logger_def w1 w2 w3)
qed

lemma override_nats_url:
  "nt_url (override_nats opts n) =
     nats_url (if ro_nats_host opts \<noteq> [] then ro_nats_host opts else nt_host n)
       (if ro_nats_port opts \<noteq> [] then ro_nats_port opts else nt_port n)"
  by (simp add: override_nats_def Let_def)

lemma connect_dials: "Dial cc \<in> set (fst (connect dial js_new (Some n))) \<Longrightarrow> cf_endpoint cc = cf_endpoint n"
  by (auto simp: connect_def Let_def split: option.splits)

lemma new_manager_dials:
  assumes "new_manager dial js_new online js (Some n) s = (s', fx, r)" and "Dial cc \<in> set fx"
  shows "cf_endpoint cc = cf_endpoint n"
proof -
  obtain fx0 r0 where conn: "connect dial js_new (Some n) = (fx0, r0)" by fastforce
  with assms(1) have "set fx \<subseteq> set fx0 \<union> {CloseConn}"
    by (auto simp: new_manager_def split: option.splits prod.splits if_splits)
  with assms(2) have "Dial cc \<in> set fx0" by auto
  with connect_dials [of cc dial js_new n] conn show ?thesis by simp
qed

lemma new_logger_nats: "new_logger ot res_err open_err c = (c', r) \<Longrightarrow> ac_nats c' = ac_nats c"
  by (auto simp: new_logger_def Let_def split: prod.splits if_splits)

section \<open>Properties\<close>

text \<open> The level of the configuration has no effect in the formats \<open>pretty\<close>
  and \<open>text\<close>, nor in \<open>auto\<close> in debug mode: adding the service attributes makes new
  handlers without a level, so records from \<open>info\<close> on are written, and only those, whatever
  \<open>LOG_LEVEL\<close> says. In the other formats the configured level decides.
\<close>

theorem pretty_log_ignores_level:
  assumes "file_ok (ac_logger c)" and "otel_handlers ot res_err c = []"
    and "new_logger ot res_err open_err c = (c', Inr hs)"
  shows "multi_enabled ot level hs \<longleftrightarrow>
    (if log_format c = ''pretty'' \<or> log_format c = ''text'' then 0 \<le> level else log_level c \<le> level)"
proof -
  obtain ws where ws: "ws \<noteq> []" "hs = multi_with_attrs ot (root_attrs c) (map (base_handler c) ws)"
    using new_logger_handlers [OF assms(1), of ot res_err open_err] assms(2,3) by auto
  have "multi_enabled ot level hs \<longleftrightarrow> (\<exists>w \<in> set ws. threshold c \<le> level)"
    by (simp add: ws(2) multi_with_attrs_def multi_enabled_iff base_handler_enabled)
  also have "\<dots> \<longleftrightarrow> threshold c \<le> level" using ws(1) by (cases ws) auto
  finally show ?thesis by (simp add: threshold_def)
qed

text \<open> The server connects to the host and port of its options, and where these are
  empty to those of the environment; a URL in the environment is overwritten. As the flags of the
  program preset both, the started program connects to the local port 4222 whatever the environment says.
\<close>

theorem server_ignores_configured_url:
  assumes "run_server env_parse ot res_err open_err dial js_new online js opts run_end s = (s', fx, http, r)"
    and "Dial cc \<in> set fx"
  shows "(\<exists>c0. load_config env_parse = Inr c0 \<and> cf_endpoint cc =
      nats_url (if ro_nats_host opts \<noteq> [] then ro_nats_host opts else nt_host (ac_nats c0))
        (if ro_nats_port opts \<noteq> [] then ro_nats_port opts else nt_port (ac_nats c0))) \<and>
    (opts = flag_defaults \<longrightarrow> cf_endpoint cc = ''nats://localhost:4222'')"
proof -
  obtain c0 where c0: "load_config env_parse = Inr c0"
    using assms by (auto simp: run_server_def split: sum.splits)
  let ?c1 = "c0\<lparr>ac_nats := override_nats opts (ac_nats c0)\<rparr>"
  obtain c2 lr where logger: "new_logger ot res_err open_err ?c1 = (c2, lr)" by fastforce
  obtain s1 fx1 r1 where mgr: "new_manager dial js_new online js (Some (conn_of (ac_nats c2))) s = (s1, fx1, r1)"
    using prod_cases3 by blast
  have "fx = [] \<or> fx = fx1"
    using assms(1) c0 logger mgr by (auto simp: run_server_def Let_def split: sum.splits option.splits)
  with assms(2) have "Dial cc \<in> set fx1" by auto
  from new_manager_dials [OF mgr this] new_logger_nats [OF logger]
  have url: "cf_endpoint cc = nats_url (if ro_nats_host opts \<noteq> [] then ro_nats_host opts else nt_host (ac_nats c0))
        (if ro_nats_port opts \<noteq> [] then ro_nats_port opts else nt_port (ac_nats c0))"
    by (simp add: conn_of_def override_nats_url)
  then have "cf_endpoint cc = ''nats://localhost:4222''" if "opts = flag_defaults"
    using that by (simp add: flag_defaults_def nats_url_def)
  with c0 url show ?thesis by blast
qed

text \<open>One entry for the configured file, then one for another: the next time the first is the second.\<close>

lemma trim_file_entry:
  assumes "p \<noteq> []" and "list_all printable p"
  shows "trim_space (''file:'' @ p) = ''file:'' @ p" "trim_space (''file,file:'' @ p) = ''file,file:'' @ p"
  using assms by (intro trim_space_printable; simp add: printable_def list_all_iff)+

lemma file_entry_prefix: "starts_with ''file:'' (to_lower (''file:'' @ p))"
  by (simp add: to_lower_ascii lower_char_def)

lemma file_entry_open:
  assumes "p \<noteq> []" and "list_all printable p"
  shows "writers_entry open_err (''file:'' @ p) (c, acc) =
    (case open_file open_err p c of (c', w) \<Rightarrow> (c', add_writer (''file:'' @ p) w acc))"
  unfolding writers_entry_def trim_file_entry(1) [OF assms] Let_def prod.case
  using file_entry_prefix [of p] by (simp add: trim_prefix_def)

lemma plain_entry_open:
  assumes "lc_file_path c \<noteq> []"
  shows "writers_entry open_err ''file'' (c, acc) =
    (case open_file open_err (lc_file_path c) c of (c', w) \<Rightarrow> (c', add_writer (''file:'' @ lc_file_path c') w acc))"
proof -
  have "trim_space ''file'' = ''file''" by (rule trim_space_printable) (simp add: printable_def)
  moreover have "to_lower ''file'' = ''file''" by (simp add: to_lower_ascii lower_char_def)
  ultimately show ?thesis using assms by (simp add: writers_entry_def Let_def)
qed

lemma two_file_writers:
  assumes p: "p \<noteq> []" "list_all printable p" "CHR '','' \<notin> set p" and opens: "\<And>x. open_err x = None"
    and c: "lc_output c = ''file,file:'' @ p" "lc_file_path c = q" "q \<noteq> []" "lc_file c = None \<or> lc_file c = Some (FileW q)"
  shows "writers open_err c =
    (c\<lparr>lc_file_path := p, lc_file := Some (FileW p)\<rparr>, if q = p then [FileW p] else [FileW q, FileW p])"
proof -
  let ?c1 = "c\<lparr>lc_file_path := q, lc_file := Some (FileW q)\<rparr>"
  define e where "e = ''file:'' @ p"
  define outs where "outs = ''file,file:'' @ p"
  have split: "go_split CHR '','' outs = [''file'', e]" unfolding outs_def e_def
    using go_split_append [of "CHR '',''" "''file''" "''file:'' @ p"] go_split_no_sep [of "CHR '',''" "''file:'' @ p"] p(3)
    by simp
  have first: "open_file open_err q c = (?c1, Some (FileW q))"
    using c opens by (auto simp: open_file_def)
  have second: "open_file open_err p ?c1 = (c\<lparr>lc_file_path := p, lc_file := Some (FileW p)\<rparr>, Some (FileW p))"
    using p(1) opens by (simp add: open_file_def)
  have "writers_entry open_err ''file'' (c, [], []) = (?c1, [''file:'' @ q], [FileW q])"
    using plain_entry_open [of c open_err "([], [])"] c(2,3) first by (simp add: add_writer_def)
  moreover have "writers_entry open_err e (?c1, [''file:'' @ q], [FileW q]) =
      (c\<lparr>lc_file_path := p, lc_file := Some (FileW p)\<rparr>,
       if q = p then ([''file:'' @ q], [FileW q]) else ([''file:'' @ p, ''file:'' @ q], [FileW q, FileW p]))"
    unfolding e_def file_entry_open [OF p(1,2)] second by (simp add: add_writer_def)
  moreover have "trim_space (lc_output c) = outs"
    unfolding c(1) outs_def by (rule trim_file_entry(2) [OF p(1,2)])
  moreover have "outs \<noteq> []" by (simp add: outs_def)
  ultimately show ?thesis by (cases "q = p") (simp_all add: writers_def split)
qed

text \<open>
  With the output \<open>file,file:p\<close>, the log of the server never goes to the
  configured file \<open>q\<close>: asking for the outputs the first time gives both files, but it makes
  \<open>p\<close> the configured one, and the outputs that the logger uses are those of the third time, which are only
  \<open>p\<close>.
\<close>

theorem configured_log_file_lost:
  assumes "p \<noteq> []" and "list_all printable p" and "CHR '','' \<notin> set p" and "\<And>x. open_err x = None"
    and "lc_output (ac_logger c) = ''file,file:'' @ p" and "lc_file_path (ac_logger c) = q" and "q \<noteq> []" and "q \<noteq> p"
    and "lc_file (ac_logger c) = None" and "ac_mode c \<noteq> mode_release"
  shows "snd (writers open_err (ac_logger c)) = [FileW q, FileW p] \<and>
    snd (new_logger ot res_err open_err c) = Inr [with_attrs ot (root_attrs c) (base_handler c (FileW p))]"
proof -
  let ?l1 = "(ac_logger c)\<lparr>lc_file_path := p, lc_file := Some (FileW p)\<rparr>"
  have first: "writers open_err (ac_logger c) = (?l1, [FileW q, FileW p])"
    using two_file_writers [OF assms(1-4,5-7)] assms(8,9) by simp
  have again: "writers open_err ?l1 = (?l1, [FileW p])"
    using two_file_writers [OF assms(1-4), of ?l1 p] assms(1,5) by simp
  have "otel_handlers ot res_err c = []" using assms(10) by (simp add: otel_handlers_def)
  with first again show ?thesis by (simp add: new_logger_def multi_with_attrs_def)
qed

section \<open>Witnesses\<close>

definition demo_otel :: "unit otel" where
  "demo_otel = \<lparr>ot_new = (\<lambda>_ _. Inr ()), ot_enabled = (\<lambda>_ _. True), ot_with = (\<lambda>_ _. ()), ot_group = (\<lambda>_ _. ())\<rparr>"

lemma demo_no_exporter: "otel_handlers demo_otel None demo_config = []"
  by (simp add: otel_handlers_def demo_config_def mode_debug_def mode_release_def)

lemma demo_file_ok: "file_ok (ac_logger demo_config)"
  by (simp add: file_ok_def demo_config_def demo_logger_def)

theorem pretty_log_ignores_level_witness:
  "log_level demo_config = 8 \<and> (\<exists>c' hs. new_logger demo_otel None (\<lambda>_. None) demo_config = (c', Inr hs) \<and> multi_enabled demo_otel 0 hs)"
proof -
  obtain c' hs where logger: "new_logger demo_otel None (\<lambda>_. None) demo_config = (c', Inr hs)"
    using new_logger_handlers [OF demo_file_ok] by blast
  have "trim_space ''error'' = ''error''" by (rule trim_space_printable) (simp add: printable_def)
  then have "log_level demo_config = 8"
    by (simp add: log_level_def parse_level_def demo_config_def demo_logger_def to_lower_ascii lower_char_def)
  moreover have "log_format demo_config = ''pretty''"
    by (simp add: log_format_def demo_config_def demo_logger_def to_lower_ascii lower_char_def)
  ultimately show ?thesis
    using pretty_log_ignores_level [OF demo_file_ok demo_no_exporter logger, of 0] logger by auto
qed

theorem configured_log_file_lost_witness:
  "snd (new_logger demo_otel None (\<lambda>_. None) demo_config)
    = Inr [with_attrs demo_otel (root_attrs demo_config) (base_handler demo_config (FileW ''/a''))]"
  using configured_log_file_lost [of "''/a''" "\<lambda>_. None" demo_config "''/b''" demo_otel None]
  by (simp add: demo_config_def demo_logger_def printable_def mode_debug_def mode_release_def)

lemma demo_server_run:
  "\<exists>s' r. run_server demo_environment demo_otel None (\<lambda>_. None) (\<lambda>_. None) (Some ErrNoEvents) True demo_js flag_defaults
     Signalled (Map.empty, {}) = (s', [Dial (conn_of (override_nats flag_defaults (ac_nats demo_config))), CloseConn], None, r)"
proof -
  have ok: "file_ok (ac_logger (demo_config\<lparr>ac_nats := n\<rparr>))" for n using demo_file_ok by simp
  have "cf_client_name (conn_of (override_nats flag_defaults (ac_nats demo_config))) = ''durablefuture''"
    by (simp add: conn_of_def override_nats_def flag_defaults_def demo_config_def default_nats_def Let_def)
  then have conn: "connect (\<lambda>_. None) (Some ErrNoEvents) (Some (conn_of (override_nats flag_defaults (ac_nats demo_config)))) =
      ([Dial (conn_of (override_nats flag_defaults (ac_nats demo_config))), CloseConn], Some (ErrWrap ''failed to create JetStream context'' ErrNoEvents))"
    by (simp add: connect_def Let_def)
  obtain c2 hs where "new_logger demo_otel None (\<lambda>_. None)
      (demo_config\<lparr>ac_nats := override_nats flag_defaults (ac_nats demo_config)\<rparr>) = (c2, Inr hs)"
    using new_logger_handlers [OF ok] by blast
  moreover from new_logger_nats [OF this] have "ac_nats c2 = override_nats flag_defaults (ac_nats demo_config)" by simp
  ultimately show ?thesis by (simp add: run_server_def demo_config_loads new_manager_def conn)
qed

theorem server_ignores_configured_url_witness:
  "cf_endpoint (conn_of (override_nats flag_defaults (ac_nats demo_config))) = ''nats://localhost:4222''"
proof -
  obtain s' r where run: "run_server demo_environment demo_otel None (\<lambda>_. None) (\<lambda>_. None) (Some ErrNoEvents) True demo_js
     flag_defaults Signalled (Map.empty, {}) = (s', [Dial (conn_of (override_nats flag_defaults (ac_nats demo_config))), CloseConn], None, r)"
    using demo_server_run by blast
  show ?thesis
    using server_ignores_configured_url [OF run, of "conn_of (override_nats flag_defaults (ac_nats demo_config))"] by simp
qed

end
