(* ===== verification/DF_Snapshot.thy ===== *)
theory DF_Snapshot
  imports DF_Replay
begin

text \<open>
  The decorators of a repository: snapshots (\<open>aggregate/snapshot.go\<close>,
  \<open>aggregate/snapshot_strategy.go\<close>, \<open>aggregate/repository_snapshot.go\<close>,
  \<open>snapshotstore/memory.go\<close>) and retries on conflicts
  (\<open>aggregate/repository_conflict_retry.go\<close>). The snapshotter is code of the user, the retry
  loop that of a third-party package: parameters, with what their documentation promises as
  hypotheses.
\<close>

section \<open>Repositories\<close>

text \<open>The operations of the interface \<open>Repository\<close>, and the event-sourced one as an instance.\<close>

record ('l, 's, 'e) repository =
  rp_get :: "'l \<Rightarrow> string \<Rightarrow> gerr + ('s, 'e) root"
  rp_get_version :: "'l \<Rightarrow> string \<Rightarrow> selector \<Rightarrow> gerr + ('s, 'e) root"
  rp_load :: "'l \<Rightarrow> ('s, 'e) root \<Rightarrow> string \<Rightarrow> selector \<Rightarrow> ('s, 'e) root \<times> gerr option"
  rp_save :: "'l \<Rightarrow> ('s, 'e) root \<Rightarrow> 'l \<times> ('s, 'e) root \<times> (gerr + version \<times> 'e list)"

definition es_repository ::
    "('l \<Rightarrow> string \<Rightarrow> check \<Rightarrow> 'x raw list \<Rightarrow> 'l \<times> (gerr + version)) \<Rightarrow> ('l \<Rightarrow> string \<Rightarrow> selector \<Rightarrow> 'x records)
      \<Rightarrow> ('s, 'e) applier \<Rightarrow> ('s \<Rightarrow> string) \<Rightarrow> ('s, 'e, 'k, 'x) es_repo \<Rightarrow> ('l, 's, 'e) repository" where
  "es_repository append_to read app ident repo =
     \<lparr>rp_get = repo_get read app repo, rp_get_version = repo_get_version read app repo,
      rp_load = repo_load_aggregate read app repo, rp_save = repo_save append_to ident repo\<rparr>"

lemma es_repository_sel [simp]:
  "rp_get (es_repository append_to read app ident repo) = repo_get read app repo"
  "rp_get_version (es_repository append_to read app ident repo) = repo_get_version read app repo"
  "rp_load (es_repository append_to read app ident repo) = repo_load_aggregate read app repo"
  "rp_save (es_repository append_to read app ident repo) = repo_save append_to ident repo"
  by (simp_all add: es_repository_def)

section \<open>Snapshots and their store\<close>

text \<open>\<open>sh_id\<close> and \<open>sh_version\<close> are the methods of a snapshot \<open>'t\<close>.\<close>

record ('s, 'e, 't) snapshotter =
  sh_to :: "('s, 'e) root \<Rightarrow> gerr + 't"
  sh_from :: "'t \<Rightarrow> gerr + ('s, 'e) root"
  sh_id :: "'t \<Rightarrow> string"
  sh_version :: "'t \<Rightarrow> version"

record ('t, 'y) snap_store =
  ss_ser :: "'t \<Rightarrow> gerr + 'y list"
  ss_de :: "'y list \<Rightarrow> gerr + 't"
  ss_snapshots :: "string \<rightharpoonup> 'y list"

definition new_memory_store :: "('t \<Rightarrow> gerr + 'y list) \<Rightarrow> ('y list \<Rightarrow> gerr + 't) \<Rightarrow> ('t, 'y) snap_store" where
  "new_memory_store ser de = \<lparr>ss_ser = ser, ss_de = de, ss_snapshots = Map.empty\<rparr>"

text \<open>\<open>ctx\<close>: the error of the context, sampled once.\<close>

definition save_snapshot ::
    "gerr option \<Rightarrow> ('s, 'e, 't) snapshotter \<Rightarrow> ('t, 'y) snap_store \<Rightarrow> 't \<Rightarrow> ('t, 'y) snap_store \<times> gerr option" where
  "save_snapshot ctx sh st t =
     (case ctx of
        Some e \<Rightarrow> (st, Some e)
      | None \<Rightarrow>
         (case ss_ser st t of
            Inl e \<Rightarrow> (st, Some (ErrWrap ''save snapshot: marshal'' e))
          | Inr d \<Rightarrow> (st\<lparr>ss_snapshots := (ss_snapshots st)(sh_id sh t \<mapsto> d)\<rparr>, None)))"

definition get_snapshot :: "gerr option \<Rightarrow> ('t, 'y) snap_store \<Rightarrow> string \<Rightarrow> gerr + 't option" where
  "get_snapshot ctx st lg =
     (case ctx of
        Some e \<Rightarrow> Inl e
      | None \<Rightarrow>
         (case ss_snapshots st lg of
            None \<Rightarrow> Inr None
          | Some d \<Rightarrow>
             (case ss_de st d of
                Inl e \<Rightarrow> Inl (ErrWrap ''get snapshot: unmarshal'' e)
              | Inr t \<Rightarrow> Inr (Some t))))"

definition load_from_snapshot ::
    "gerr option \<Rightarrow> ('s, 'e, 't) snapshotter \<Rightarrow> ('t, 'y) snap_store \<Rightarrow> string \<Rightarrow> gerr + ('s, 'e) root option" where
  "load_from_snapshot ctx sh st lg =
     (case get_snapshot ctx st lg of
        Inl e \<Rightarrow> Inl (ErrWrap ''load from snapshot: get snapshot'' e)
      | Inr None \<Rightarrow> Inr None
      | Inr (Some t) \<Rightarrow>
         (case sh_from sh t of
            Inl e \<Rightarrow> Inl (ErrWrap ''load from snapshot: convert from snapshot'' e)
          | Inr r \<Rightarrow> Inr (Some (set_version r (sh_version sh t)))))"

section \<open>Strategies\<close>

datatype ('s, 'e) strategy =
    EveryNEvents u64
  | OnEvents "string list"
  | Custom "(('s, 'e) root \<Rightarrow> version \<Rightarrow> version \<Rightarrow> 'e list \<Rightarrow> bool) option"
  | AfterCommit
  | AnyOf "('s, 'e) strategy list"
  | AllOf "('s, 'e) strategy list"

fun should_snapshot ::
    "('e \<Rightarrow> string) \<Rightarrow> ('s, 'e) root \<Rightarrow> version \<Rightarrow> version \<Rightarrow> 'e list \<Rightarrow> ('s, 'e) strategy \<Rightarrow> bool" where
  "should_snapshot name r prev new evs (EveryNEvents n) =
     (if n = 0 then False else (prev div n + 1) * n \<le> new)"
| "should_snapshot name r prev new evs (OnEvents names) = list_ex (\<lambda>e. name e \<in> set names) evs"
| "should_snapshot name r prev new evs (Custom f) = (case f of None \<Rightarrow> False | Some g \<Rightarrow> g r prev new evs)"
| "should_snapshot name r prev new evs AfterCommit = (0 < length evs)"
| "should_snapshot name r prev new evs (AnyOf ss) = list_ex (should_snapshot name r prev new evs) ss"
| "should_snapshot name r prev new evs (AllOf ss) = list_all (should_snapshot name r prev new evs) ss"

section \<open>The repository with snapshots\<close>

record ('s, 'e, 't) snap_options =
  so_snapshotter :: "('s, 'e, 't) snapshotter"
  so_strategy :: "('s, 'e) strategy"
  so_on_err :: "(gerr \<Rightarrow> gerr option) option"
  so_enabled :: bool

datatype snap_option = OnSnapshotError "(gerr \<Rightarrow> gerr option) option" | SnapshotSaveEnabled bool

fun apply_snap_option :: "snap_option \<Rightarrow> ('s, 'e, 't) snap_options \<Rightarrow> ('s, 'e, 't) snap_options" where
  "apply_snap_option (OnSnapshotError f) so = so\<lparr>so_on_err := f\<rparr>"
| "apply_snap_option (SnapshotSaveEnabled b) so = so\<lparr>so_enabled := b\<rparr>"

definition new_snap_repo ::
    "('s, 'e, 't) snapshotter \<Rightarrow> ('s, 'e) strategy \<Rightarrow> snap_option list \<Rightarrow> ('s, 'e, 't) snap_options" where
  "new_snap_repo sh strategy opts =
     fold apply_snap_option opts
       \<lparr>so_snapshotter = sh, so_strategy = strategy, so_on_err = Some (\<lambda>e. Some e), so_enabled = True\<rparr>"

definition snap_get ::
    "gerr option \<Rightarrow> ('l, 's, 'e) repository \<Rightarrow> ('s, 'e, 't) snap_options \<Rightarrow> ('t, 'y) snap_store \<Rightarrow> 'l \<Rightarrow> string
      \<Rightarrow> gerr + ('s, 'e) root" where
  "snap_get ctx rp so st l lg =
     (case load_from_snapshot ctx (so_snapshotter so) st lg of
        Inl e \<Rightarrow> Inl (ErrWrap ''snapshot repo get: could not retrieve snapshot'' e)
      | Inr None \<Rightarrow> rp_get rp l lg
      | Inr (Some r) \<Rightarrow>
         (case rp_load rp l r lg \<lparr>sel_from = root_version r + 1, sel_to = 0\<rparr> of
            (r', Some e) \<Rightarrow> Inl (ErrWrap ''snapshot repo get: failed to load events after snapshot'' e)
          | (r', None) \<Rightarrow> Inr r'))"

definition snap_get_version ::
    "gerr option \<Rightarrow> ('l, 's, 'e) repository \<Rightarrow> ('s, 'e, 't) snap_options \<Rightarrow> ('t, 'y) snap_store \<Rightarrow> 'l \<Rightarrow> string
      \<Rightarrow> selector \<Rightarrow> gerr + ('s, 'e) root" where
  "snap_get_version ctx rp so st l lg sel =
     (if 1 < sel_from sel then rp_get_version rp l lg sel
      else (case load_from_snapshot ctx (so_snapshotter so) st lg of
        Inl e \<Rightarrow> Inl (ErrWrap ''snapshot repo get-version: failed to retrieve snapshot'' e)
      | Inr None \<Rightarrow> rp_get_version rp l lg sel
      | Inr (Some r) \<Rightarrow>
         (if 0 < sel_to sel \<and> sel_to sel \<le> root_version r then rp_get_version rp l lg sel
          else if 0 < sel_to sel \<and> root_version r = sel_to sel then Inr r
          else (case rp_load rp l r lg \<lparr>sel_from = root_version r + 1, sel_to = sel_to sel\<rparr> of
            (r', Some e) \<Rightarrow> Inl (ErrWrap ''snapshot repo get-version: failed to load events after snapshot'' e)
          | (r', None) \<Rightarrow> Inr r'))))"

text \<open>The results of \<open>Save\<close>: an error may come with the version and the events that were committed.\<close>

definition snap_save ::
    "gerr option \<Rightarrow> ('l, 's, 'e) repository \<Rightarrow> ('e \<Rightarrow> string) \<Rightarrow> ('s, 'e, 't) snap_options \<Rightarrow> ('t, 'y) snap_store \<Rightarrow> 'l
      \<Rightarrow> ('s, 'e) root \<Rightarrow> 'l \<times> ('t, 'y) snap_store \<times> ('s, 'e) root \<times> (version \<times> 'e list) \<times> gerr option" where
  "snap_save ctx rp name so st l r =
     (case rp_save rp l r of
        (l', r', Inl e) \<Rightarrow> (l', st, r', (0, []), Some (ErrWrap ''snapshot repo save'' e))
      | (l', r', Inr (v, evs)) \<Rightarrow>
         (if evs = [] then (l', st, r', (v, evs), None)
          else if \<not> so_enabled so then (l', st, r', (v, evs), None)
          else if \<not> should_snapshot name r' (v - of_nat (length evs)) v evs (so_strategy so) then
            (l', st, r', (v, evs), None)
          else (case sh_to (so_snapshotter so) r' of
            Inl e \<Rightarrow> (l', st, r', (v, evs), Some (ErrWrap ''snapshot repo save: convert to snapshot'' e))
          | Inr t \<Rightarrow>
             (case save_snapshot ctx (so_snapshotter so) st t of
                (st', None) \<Rightarrow> (l', st', r', (v, evs), None)
              | (st', Some e) \<Rightarrow>
                 (case so_on_err so of
                    None \<Rightarrow> (l', st', r', (v, evs), None)
                  | Some f \<Rightarrow>
                     (l', st', r', (v, evs), map_option (ErrWrap ''snapshot repo save: save snapshot'') (f e)))))))"

section \<open>The repository with retries\<close>

record retry_config =
  rc_attempts :: nat
  rc_retry_if :: "gerr \<Rightarrow> bool"

definition retry_defaults :: retry_config where
  "retry_defaults = \<lparr>rc_attempts = 3, rc_retry_if = (\<lambda>e. as_conflict e \<noteq> None)\<rparr>"

text \<open>
  \<open>do_retry\<close> is \<open>retry.DoWithData\<close>; the root is a pointer, so an attempt sees what the one
  before made of it. Options of the user come after the defaults.
\<close>

definition retry_save ::
    "(retry_config \<Rightarrow> ('l \<times> ('s, 'e) root \<Rightarrow> ('l \<times> ('s, 'e) root) \<times> (gerr + version \<times> 'e list))
        \<Rightarrow> 'l \<times> ('s, 'e) root \<Rightarrow> ('l \<times> ('s, 'e) root) \<times> (gerr + version \<times> 'e list))
      \<Rightarrow> (retry_config \<Rightarrow> retry_config) list \<Rightarrow> ('l, 's, 'e) repository \<Rightarrow> 'l \<Rightarrow> ('s, 'e) root
      \<Rightarrow> 'l \<times> ('s, 'e) root \<times> (gerr + version \<times> 'e list)" where
  "retry_save do_retry opts rp l r =
     (case do_retry (fold (\<lambda>opt c. opt c) opts retry_defaults)
        (\<lambda>(l, r). case rp_save rp l r of (l', r', res) \<Rightarrow> ((l', r'), res)) (l, r) of
        ((l', r'), Inl e) \<Rightarrow> (l', r', Inl e)
      | ((l', r'), Inr x) \<Rightarrow> (l', r', Inr x))"

text \<open>
  What the package documents of a loop whose context is not done: a success ends it; an error that
  \<open>RetryIf\<close> accepts is followed by the next attempt while there is one; any other ends it.
\<close>

definition retries :: "(retry_config \<Rightarrow> ('a \<Rightarrow> 'a \<times> (gerr + 'b)) \<Rightarrow> 'a \<Rightarrow> 'a \<times> (gerr + 'b)) \<Rightarrow> bool" where
  "retries do_retry \<longleftrightarrow>
     (\<forall>c f s s' x. 0 < rc_attempts c \<longrightarrow> f s = (s', Inr x) \<longrightarrow> do_retry c f s = (s', Inr x)) \<and>
     (\<forall>c f s s' e. 1 < rc_attempts c \<longrightarrow> f s = (s', Inl e) \<longrightarrow> rc_retry_if c e \<longrightarrow>
        fst (do_retry c f s) = fst (do_retry (c\<lparr>rc_attempts := rc_attempts c - 1\<rparr>) f s') \<and>
        (\<forall>x. snd (do_retry c f s) = Inr x \<longleftrightarrow> snd (do_retry (c\<lparr>rc_attempts := rc_attempts c - 1\<rparr>) f s') = Inr x)) \<and>
     (\<forall>c f s s' e. 0 < rc_attempts c \<longrightarrow> f s = (s', Inl e) \<longrightarrow> \<not> rc_retry_if c e \<or> rc_attempts c = 1 \<longrightarrow>
        fst (do_retry c f s) = s' \<and> (\<exists>e'. snd (do_retry c f s) = Inl e'))"

section \<open>Lemmas\<close>

lemma traverse_slice:
  "traverse f xs = Inr ys \<Longrightarrow> traverse f (drop n (take m xs)) = Inr (drop n (take m ys))"
  unfolding traverse_Inr_iff by (intro list_all2_dropI list_all2_takeI)

lemma filter_eq_slice:
  assumes "\<And>i. i < length xs \<Longrightarrow> P (xs ! i) \<longleftrightarrow> n \<le> i \<and> i < m"
  shows "filter P xs = drop n (take m xs)"
proof -
  have "filter P (take m xs) = drop n (take m xs)" by (rule filter_eq_drop) (simp add: assms)
  moreover have "filter P (drop m xs) = []"
    using assms by (auto simp: filter_empty_conv in_set_conv_nth)
  ultimately have "filter P (take m xs @ drop m xs) = drop n (take m xs)" by (simp only: filter_append append_Nil2)
  then show ?thesis by simp
qed

lemma to_records_slice:
  "drop n (take m (to_records cs lg 0)) = to_records (drop n (take m cs)) lg (of_nat n)"
proof (intro nth_equalityI)
  fix i
  assume "i < length (drop n (take m (to_records cs lg 0)))"
  then have "n \<le> length (take m cs)" "n \<le> length (take m (to_records cs lg 0))" "n + i < length cs" "n + i < m"
    "i < length (drop n (take m cs))" by auto
  then show "drop n (take m (to_records cs lg 0)) ! i = to_records (drop n (take m cs)) lg (of_nat n) ! i"
    by (simp add: to_records_nth algebra_simps)
qed simp

text \<open>The last version that a selector lets through in a stream of \<open>k\<close> events.\<close>

definition upto_version :: "selector \<Rightarrow> nat \<Rightarrow> nat" where
  "upto_version sel k = (if sel_to sel = 0 then k else min (unat (sel_to sel)) k)"

lemma in_range_index:
  assumes "i < k" and "k < 2 ^ 64" and "sel_from sel \<le> of_nat (Suc i) \<longleftrightarrow> n \<le> i"
  shows "in_range sel (of_nat (i + 1)) \<longleftrightarrow> n \<le> i \<and> i < upto_version sel k"
proof -
  have "unat (of_nat (Suc i) :: u64) = Suc i" using assms(1,2) by (intro unat_of_nat_u64) simp
  then have "(of_nat (Suc i) :: u64) \<le> sel_to sel \<longleftrightarrow> Suc i \<le> unat (sel_to sel)"
    by (simp only: word_le_nat_alt)
  with assms(1,3) show ?thesis by (auto simp: in_range_def upto_version_def)
qed

text \<open>
  Every stored snapshot is one of its aggregate: it decodes to the root that some part of the
  stream, from its beginning on, leads to, and has the version of that part.
\<close>

definition snapshot_of ::
    "(string \<Rightarrow> gerr + 'e list) \<Rightarrow> ('s, 'e) applier \<Rightarrow> 's \<Rightarrow> ('s, 'e, 't) snapshotter \<Rightarrow> 't \<Rightarrow> string \<Rightarrow> bool" where
  "snapshot_of stream app s0 sh t lg \<longleftrightarrow>
     (\<exists>r es n. sh_from sh t = Inr r \<and> stream lg = Inr es \<and> 0 < n \<and> n \<le> length es \<and> sh_version sh t = of_nat n \<and>
        root_state r = fold (step_of app) (take n es) s0 \<and> root_uncommitted r = [])"

definition snapshots_ok ::
    "(string \<Rightarrow> gerr + 'e list) \<Rightarrow> ('s, 'e) applier \<Rightarrow> 's \<Rightarrow> ('s, 'e, 't) snapshotter \<Rightarrow> ('t, 'y) snap_store \<Rightarrow> bool" where
  "snapshots_ok stream app s0 sh st \<longleftrightarrow>
     (\<forall>lg d. ss_snapshots st lg = Some d \<longrightarrow> (\<exists>t. ss_de st d = Inr t \<and> snapshot_of stream app s0 sh t lg))"

text \<open>What the documentation asks of a snapshotter, and of the serializer of the store.\<close>

definition lawful_snapshots :: "('s \<Rightarrow> string) \<Rightarrow> ('s, 'e, 't) snapshotter \<Rightarrow> ('t, 'y) snap_store \<Rightarrow> bool" where
  "lawful_snapshots ident sh st \<longleftrightarrow>
     (\<forall>r t. sh_to sh r = Inr t \<longrightarrow> sh_id sh t = ident (root_state r) \<and> sh_version sh t = root_version r \<and>
        (\<exists>r'. sh_from sh t = Inr r' \<and> root_state r' = root_state r \<and> root_uncommitted r' = [])) \<and>
     (\<forall>t d. ss_ser st t = Inr d \<longrightarrow> ss_de st d = Inr t)"

lemma save_snapshot_cases:
  obtains (kept) e where "save_snapshot ctx sh st t = (st, Some e)"
  | (stored) d where "ss_ser st t = Inr d"
      "save_snapshot ctx sh st t = (st\<lparr>ss_snapshots := (ss_snapshots st)(sh_id sh t \<mapsto> d)\<rparr>, None)"
  by (cases ctx; cases "ss_ser st t") (auto simp: save_snapshot_def)

text \<open>What \<open>Save\<close> makes of the store once the events are committed.\<close>

lemma snap_save_cases:
  assumes "rp_save rp l r = (l1, r1, Inr (v1, evs1))" and "snap_save ctx rp name so st l r = (l', st', r', (v, evs), err)"
  shows "l' = l1 \<and> r' = r1 \<and> v = v1 \<and> evs = evs1 \<and>
    (st' = st \<or> (evs \<noteq> [] \<and> (\<exists>t d. sh_to (so_snapshotter so) r1 = Inr t \<and> ss_ser st t = Inr d \<and>
       st' = st\<lparr>ss_snapshots := (ss_snapshots st)(sh_id (so_snapshotter so) t \<mapsto> d)\<rparr>)))"
proof (cases "evs1 = [] \<or> \<not> so_enabled so \<or>
    \<not> should_snapshot name r1 (v1 - of_nat (length evs1)) v1 evs1 (so_strategy so)")
  case True
  with assms show ?thesis by (auto simp: snap_save_def split: if_splits)
next
  case False
  show ?thesis
  proof (cases "sh_to (so_snapshotter so) r1")
    case (Inl e)
    with False assms show ?thesis by (simp add: snap_save_def)
  next
    case (Inr t)
    then show ?thesis
      using False assms by (cases rule: save_snapshot_cases [of ctx "so_snapshotter so" st t])
        (auto simp: snap_save_def split: option.splits)
  qed
qed

context event_repository
begin

abbreviation start :: 's where "start \<equiv> root_state (repo_create repo)"

text \<open>Loading the events after the \<open>n\<close>-th into a root that stands after the \<open>n\<close>-th.\<close>

lemma load_after:
  assumes inv: "invar l" and dec: "decoded l lg = Inr es"
    and r: "root_state r = fold (step_of app) (take n es) start" "root_version r = of_nat n" "root_uncommitted r = []"
    and lower: "\<And>i. i < length es \<Longrightarrow> sel_from sel \<le> of_nat (Suc i) \<longleftrightarrow> n \<le> i"
    and m: "m = upto_version sel (length es)" "n \<le> m" "0 < m"
  shows "repo_load_aggregate read app repo l r lg sel = (replayed app repo (take m es), None)"
proof -
  have len: "length es = length (contents l lg)" by (rule decoded_length [OF dec])
  have small: "length es < 2 ^ 64" using contents_total [OF inv, of lg] total_bound [OF inv] len by simp
  have mk: "m \<le> length es" using m(1) by (simp add: upto_version_def)
  let ?cs = "drop n (take m (contents l lg))"
  let ?rs = "to_records ?cs lg (of_nat n)"
  have "filter (\<lambda>x. in_range sel (rec_version x)) (to_records (contents l lg) lg 0) = drop n (take m (to_records (contents l lg) lg 0))"
    unfolding m(1)
    by (rule filter_eq_slice) (use lower small in_range_index in \<open>simp add: to_records_nth len del: of_nat_Suc\<close>)
  then have read: "read l lg sel = map Inr ?rs"
    by (simp add: read_contents [OF inv] to_records_slice)
  have slice: "traverse (decode_raw (repo_registry repo) (repo_codec repo)) (map rec_raw ?rs) = Inr (drop n (take m es))"
    using traverse_slice [OF dec [unfolded decoded_def]] by simp
  from decode_records_Inr [OF slice, of "[]" 0]
  have d: "decode_records (repo_registry repo) (repo_codec repo) [] 0 (read l lg sel)
      = Inr (drop n (take m es), if ?rs = [] then 0 else rec_version (List.last ?rs))"
    by (simp add: read)
  have ne: "?rs = [] \<longleftrightarrow> m = n"
    using m(2) mk len length_to_records [of ?cs lg "of_nat n"] by (auto simp flip: length_0_conv simp del: length_to_records)
  have lastv: "rec_version (List.last ?rs) = of_nat m" if "m \<noteq> n"
  proof -
    have "?rs \<noteq> []" using ne that by blast
    moreover have "length ?rs = m - n" using mk len by (simp add: min_def)
    ultimately have "List.last ?rs = ?rs ! (m - n - 1)" using last_conv_nth [of ?rs] by simp
    moreover have "m - n - 1 < length ?cs" "of_nat n + of_nat (m - n - 1 + 1) = (of_nat m :: u64)"
      using that m(2) mk len by (simp_all flip: of_nat_add)
    ultimately show ?thesis by (simp add: to_records_nth)
  qed
  have ids: "take n es @ drop n (take m es) = take m es"
    using m(2) by (metis append_take_drop_id min.absorb1 take_take)
  have state: "fold (step_of app) (drop n (take m es)) (root_state r) = fold (step_of app) (take m es) start"
    unfolding r(1) using ids by (metis fold_append comp_apply)
  have drop_nil: "drop n (take m es) = [] \<longleftrightarrow> m = n" using m(2) mk by auto
  have load: "load_from_records app (repo_registry repo) (repo_codec repo) [] r (read l lg sel)
      = (replayed app repo (take m es), None)"
  proof (cases "m = n")
    case True
    then have nil: "drop n (take m es) = []" by (simp add: drop_nil)
    have "r = replayed app repo (take m es)"
      using r True mk fresh_root(2) by (simp add: replayed_def)
    with nil show ?thesis by (simp add: load_from_records_def d)
  next
    case False
    then have "drop n (take m es) \<noteq> []" "?rs \<noteq> []" using drop_nil ne by blast+
    then show ?thesis
      using lastv [OF False] state r(3) mk fresh_root(2)
      by (simp add: load_from_records_def d apply_loaded_total [OF apply_total] set_version_def replayed_def)
  qed
  have "root_version (replayed app repo (take m es)) \<noteq> 0"
    using of_nat_u64_inj [of m 0] m(3) mk small by (simp add: replayed_def)
  with load show ?thesis
    by (simp add: repo_load_aggregate_def read_and_load_from_store_def no_transformers)
qed

lemma snapshot_found:
  assumes inv: "invar l" and room: "Suc (total l) < 2 ^ 64" and dec: "decoded l lg = Inr es"
    and snap: "snapshot_of (decoded l) app start sh t lg"
  obtains r n where "sh_from sh t = Inr r" "0 < n" "n \<le> length es" "sh_version sh t = of_nat n" "es \<noteq> []"
    "\<And>sel to. sel = \<lparr>sel_from = of_nat n + 1, sel_to = to\<rparr> \<Longrightarrow> to = 0 \<or> n < unat to \<Longrightarrow>
      repo_load_aggregate read app repo l (set_version r (of_nat n)) lg sel
        = (replayed app repo (take (upto_version sel (length es)) es), None)"
proof -
  obtain r n where rn: "sh_from sh t = Inr r" "0 < n" "n \<le> length es" "sh_version sh t = of_nat n"
    "root_state r = fold (step_of app) (take n es) start" "root_uncommitted r = []"
    using snap dec by (auto simp: snapshot_of_def)
  have small: "Suc (length es) < 2 ^ 64"
    using contents_total [OF inv, of lg] decoded_length [OF dec] room by simp
  have lower: "(of_nat n + 1 :: u64) \<le> of_nat (Suc i) \<longleftrightarrow> n \<le> i" if "i < length es" for i
  proof -
    have "unat (of_nat (Suc n) :: u64) = Suc n" "unat (of_nat (Suc i) :: u64) = Suc i"
      using that rn(3) small by (intro unat_of_nat_u64; simp)+
    then have "(of_nat (Suc n) :: u64) \<le> of_nat (Suc i) \<longleftrightarrow> n \<le> i" by (simp only: word_le_nat_alt Suc_le_mono)
    then show ?thesis by (simp add: add.commute)
  qed
  have loads: "repo_load_aggregate read app repo l (set_version r (of_nat n)) lg sel
        = (replayed app repo (take (upto_version sel (length es)) es), None)"
    if "sel = \<lparr>sel_from = of_nat n + 1, sel_to = to\<rparr>" "to = 0 \<or> n < unat to" for sel to
    by (rule load_after [OF inv dec, where n = n])
      (use that rn lower in \<open>auto simp: set_version_def upto_version_def unat_eq_zero\<close>)
  from rn(2,3) have "es \<noteq> []" by auto
  with that rn loads show thesis by blast
qed

text \<open>Whether a snapshot is used or not, the same root is read.\<close>

lemma snap_get_agrees:
  assumes inv: "invar l" and room: "Suc (total l) < 2 ^ 64" and dec: "decoded l lg = Inr es"
    and ok: "snapshots_ok (decoded l) app start (so_snapshotter so) st"
  shows "snap_get None (es_repository append read app ident repo) so st l lg = repo_get read app repo l lg"
proof (cases "ss_snapshots st lg")
  case None
  then show ?thesis by (simp add: snap_get_def load_from_snapshot_def get_snapshot_def)
next
  case (Some d)
  then obtain t where t: "ss_de st d = Inr t" "snapshot_of (decoded l) app start (so_snapshotter so) t lg"
    using ok by (auto simp: snapshots_ok_def)
  from snapshot_found [OF inv room dec t(2)] obtain r n where rn: "sh_from (so_snapshotter so) t = Inr r"
    "sh_version (so_snapshotter so) t = of_nat n" "es \<noteq> []"
    "repo_load_aggregate read app repo l (set_version r (of_nat n)) lg \<lparr>sel_from = of_nat n + 1, sel_to = 0\<rparr>
      = (replayed app repo es, None)"
    by (metis (no_types, lifting) upto_version_def order_refl take_all selector.select_convs(2))
  have "root_version (set_version r (of_nat n)) = of_nat n" by (simp add: set_version_def)
  with Some t(1) rn show ?thesis
    by (simp add: snap_get_def load_from_snapshot_def get_snapshot_def get_decoded [OF inv dec])
qed

lemma snap_get_version_agrees:
  assumes inv: "invar l" and room: "Suc (total l) < 2 ^ 64" and dec: "decoded l lg = Inr es"
    and ok: "snapshots_ok (decoded l) app start (so_snapshotter so) st"
  shows "snap_get_version None (es_repository append read app ident repo) so st l lg sel
    = repo_get_version read app repo l lg sel"
proof (cases "sel_from sel > 1 \<or> ss_snapshots st lg = None")
  case True
  then show ?thesis by (auto simp: snap_get_version_def load_from_snapshot_def get_snapshot_def)
next
  case False
  then obtain d where d: "ss_snapshots st lg = Some d" and low: "sel_from sel \<le> 1" by auto
  then obtain t where t: "ss_de st d = Inr t" "snapshot_of (decoded l) app start (so_snapshotter so) t lg"
    using ok by (auto simp: snapshots_ok_def)
  from snapshot_found [OF inv room dec t(2)] obtain r n where rn: "sh_from (so_snapshotter so) t = Inr r" "0 < n"
    "n \<le> length es" "sh_version (so_snapshotter so) t = of_nat n" "es \<noteq> []"
    "\<And>sel to. sel = \<lparr>sel_from = of_nat n + 1, sel_to = to\<rparr> \<Longrightarrow> to = 0 \<or> n < unat to \<Longrightarrow>
      repo_load_aggregate read app repo l (set_version r (of_nat n)) lg sel
        = (replayed app repo (take (upto_version sel (length es)) es), None)" by blast
  have ver: "root_version (set_version r (of_nat n)) = of_nat n" by (simp add: set_version_def)
  have found: "load_from_snapshot None (so_snapshotter so) st lg = Inr (Some (set_version r (of_nat n)))"
    using d t(1) rn(1,4) by (simp add: load_from_snapshot_def get_snapshot_def)
  show ?thesis
  proof (cases "0 < sel_to sel \<and> sel_to sel \<le> of_nat n")
    case True
    then show ?thesis using False by (simp add: snap_get_version_def found ver)
  next
    case later: False
    have "unat (of_nat n :: u64) = n"
      using rn(3) contents_total [OF inv, of lg] decoded_length [OF dec] room by (intro unat_of_nat_u64) simp
    then have to: "sel_to sel = 0 \<or> n < unat (sel_to sel)"
      using later by (auto simp: word_le_nat_alt word_gt_0 not_le)
    let ?sel = "\<lparr>sel_from = of_nat n + 1, sel_to = sel_to sel\<rparr>"
    have snap: "repo_load_aggregate read app repo l (set_version r (of_nat n)) lg ?sel
        = (replayed app repo (take (upto_version sel (length es)) es), None)"
      using rn(6) [OF refl to] by (simp add: upto_version_def)
    have "sel_from sel \<le> of_nat (Suc i)" if "i < length es" for i
    proof -
      have "unat (of_nat (Suc i) :: u64) = Suc i"
        using that contents_total [OF inv, of lg] decoded_length [OF dec] room by (intro unat_of_nat_u64) simp
      then have "1 \<le> (of_nat (Suc i) :: u64)" by (simp add: word_le_nat_alt)
      with low show ?thesis by (rule order_trans)
    qed
    then have base: "repo_load_aggregate read app repo l (repo_create repo) lg sel
        = (replayed app repo (take (upto_version sel (length es)) es), None)"
      by (intro load_after [OF inv dec, where n = 0])
        (use rn(5) to in \<open>auto simp: fresh_root upto_version_def unat_eq_zero\<close>)
    have "(0 < sel_to sel \<and> sel_to sel \<le> of_nat n) = False" "(0 < sel_to sel \<and> of_nat n = sel_to sel) = False"
      using later by auto
    note dead = this
    have "\<not> 1 < sel_from sel" using False by blast
    then show ?thesis
      by (simp add: snap_get_version_def found ver snap repo_get_version_def base dead del: not_less)
  qed
qed

text \<open>A save keeps the snapshots in step with the streams, whether it stores one or not.\<close>

lemma snap_save_keeps:
  assumes inv: "invar l" and sync: "synced l lg r" and lg: "ident (root_state r) = lg"
    and bound: "total l + length (root_uncommitted r) < 2 ^ 64"
    and surv: "list_all (survives (repo_registry repo) (repo_codec repo)) (root_uncommitted r)"
    and ok: "snapshots_ok (decoded l) app start (so_snapshotter so) st"
    and lawful: "lawful_snapshots ident (so_snapshotter so) st"
    and save: "snap_save ctx (es_repository append read app ident repo) name so st l r = (l', st', r', (v, evs), err)"
  shows "snapshots_ok (decoded l') app start (so_snapshotter so) st' \<and> lawful_snapshots ident (so_snapshotter so) st' \<and>
    invar l' \<and> total l' = total l + length (root_uncommitted r) \<and> (\<forall>es. decoded l lg = Inr es \<longrightarrow> decoded l' lg = Inr (es @ root_uncommitted r)) \<and> evs = root_uncommitted r"
proof -
  let ?us = "root_uncommitted r" and ?sh = "so_snapshotter so"
  obtain es where es: "decoded l lg = Inr es" "root_state r = fold (step_of app) (es @ ?us) start"
    "root_version r = of_nat (length es + length ?us)"
    using sync by (auto simp: synced_def)
  show ?thesis
  proof (cases "?us = []")
    case True
    then have "repo_save append ident repo l r = (l, r, Inr (0, []))"
      by (simp add: repo_save_def commit_events_def flush_uncommitted_events_def)
    with save have "l' = l" "st' = st" "evs = []" by (simp_all add: snap_save_def)
    with ok lawful inv sync True show ?thesis by simp
  next
    case False
    obtain l1 where l1: "repo_save append ident repo l r = (l1, r\<lparr>root_uncommitted := []\<rparr>, Inr (root_version r, ?us))"
      "invar l1" "total l1 = total l + length ?us" "\<And>j. j \<noteq> lg \<Longrightarrow> contents l1 j = contents l j"
      "decoded l1 lg = Inr (es @ ?us)"
      using save_stores [OF inv lg es(3) bound surv False es(1)] by blast
    let ?r1 = "r\<lparr>root_uncommitted := []\<rparr>"
    have "rp_save (es_repository append read app ident repo) l r = (l1, ?r1, Inr (root_version r, ?us))"
      using l1(1) by simp
    note out = snap_save_cases [OF this save]
    have grown: "snapshot_of (decoded l1) app start ?sh t j" if "snapshot_of (decoded l) app start ?sh t j" for t j
    proof (cases "j = lg")
      case True
      from that True es(1) obtain ra n where "sh_from ?sh t = Inr ra" "0 < n" "n \<le> length es" "sh_version ?sh t = of_nat n"
        "root_state ra = fold (step_of app) (take n es) start" "root_uncommitted ra = []"
        by (auto simp: snapshot_of_def)
      with True l1(5) show ?thesis
        unfolding snapshot_of_def by (intro exI [of _ ra] exI [of _ "es @ ?us"] exI [of _ n]) simp
    next
      case other: False
      then have "decoded l1 j = decoded l j" by (simp add: decoded_def l1(4))
      with that show ?thesis by (simp add: snapshot_of_def)
    qed
    then have kept: "snapshots_ok (decoded l1) app start ?sh st"
      using ok unfolding snapshots_ok_def by blast
    have "snapshots_ok (decoded l1) app start ?sh st' \<and> lawful_snapshots ident ?sh st'"
    proof (cases "st' = st")
      case True
      with kept lawful show ?thesis by simp
    next
      case stored: False
      then obtain t d where t: "sh_to ?sh ?r1 = Inr t" "ss_ser st t = Inr d"
        "st' = st\<lparr>ss_snapshots := (ss_snapshots st)(sh_id ?sh t \<mapsto> d)\<rparr>"
        using out by blast
      have "sh_id ?sh t = ident (root_state ?r1) \<and> sh_version ?sh t = root_version ?r1 \<and>
          (\<exists>r'. sh_from ?sh t = Inr r' \<and> root_state r' = root_state ?r1 \<and> root_uncommitted r' = [])" "ss_de st d = Inr t"
        using lawful t(1,2) unfolding lawful_snapshots_def by blast+
      then obtain r2 where r2: "sh_id ?sh t = lg" "sh_version ?sh t = root_version r" "sh_from ?sh t = Inr r2"
        "root_state r2 = root_state r" "root_uncommitted r2 = []" "ss_de st d = Inr t"
        using lg by auto
      have "snapshot_of (decoded l1) app start ?sh t lg"
        unfolding snapshot_of_def
        by (intro exI [of _ r2] exI [of _ "es @ ?us"] exI [of _ "length (es @ ?us)"])
          (use r2 l1(5) es False in simp)
      with kept r2(1,6) t(3) have "snapshots_ok (decoded l1) app start ?sh st'" by (auto simp: snapshots_ok_def)
      moreover have "lawful_snapshots ident ?sh st'" using lawful t(3) by (simp add: lawful_snapshots_def)
      ultimately show ?thesis ..
    qed
    then show ?thesis using out l1(2,3,5) es(1) by simp
  qed
qed

end

text \<open>A retried save whose first attempt fails with a conflict.\<close>

lemma retry_after_conflict:
  assumes law: "retries do_retry"
    and fail: "repo_save append_to ident repo l r = (l', r', Inl e)" and conflict: "as_conflict e \<noteq> None"
  shows "retry_save do_retry [] (es_repository append_to read app ident repo) l r = (l', r', Inr (0, []))"
proof -
  let ?f = "\<lambda>(l, r). case rp_save (es_repository append_to read app ident repo) l r of (l', r', res) \<Rightarrow> ((l', r'), res)"
  let ?c = "retry_defaults\<lparr>rc_attempts := rc_attempts retry_defaults - 1\<rparr>"
  have first: "?f (l, r) = ((l', r'), Inl e)" using fail by simp
  have "?f (l', r') = ((l', r'), Inr (0, []))" using resave_is_silent [OF fail] by simp
  then have second: "do_retry ?c ?f (l', r') = ((l', r'), Inr (0, []))"
    using law by (simp add: retries_def retry_defaults_def)
  have accepted: "1 < rc_attempts retry_defaults" "rc_retry_if retry_defaults e"
    using conflict by (simp_all add: retry_defaults_def)
  have again: "fst (do_retry c f s) = fst (do_retry (c\<lparr>rc_attempts := rc_attempts c - 1\<rparr>) f s') \<and>
      (\<forall>x. snd (do_retry c f s) = Inr x \<longleftrightarrow> snd (do_retry (c\<lparr>rc_attempts := rc_attempts c - 1\<rparr>) f s') = Inr x)"
    if "1 < rc_attempts c" "f s = (s', Inl e')" "rc_retry_if c e'" for c f s s' e'
    using law that unfolding retries_def by blast
  from again [where f = ?f, OF accepted(1) first accepted(2)] second
  have "do_retry retry_defaults ?f (l, r) = ((l', r'), Inr (0, []))" by (simp add: prod_eq_iff)
  then show ?thesis by (simp add: retry_save_def)
qed

section \<open>Properties\<close>

abbreviation wf_repository :: "'x serde \<Rightarrow> ('x memory, wf_state, wf_event) repository" where
  "wf_repository sd \<equiv> es_repository (mem_append_events None) (mem_read_events None) wf_apply st_id (wf_repo sd)"

text \<open>
  (C31) Snapshots do not change what is read: a repository with snapshots that belong
  to their streams returns the same workflow as one that replays the whole stream, for \<open>Get\<close> and for
  \<open>GetVersion\<close> with any selector.
\<close>

theorem snapshot_reads_agree:
  assumes "mem_wf (\<lambda>_. 0) mem" and "Suc (mem_total mem) < 2 ^ 64" and "stream_events sd mem wid = Inr es"
    and "snapshots_ok (stream_events sd mem) wf_apply empty_state (so_snapshotter so) st"
  shows "snap_get None (wf_repository sd) so st mem wid = wf_get sd mem wid \<and>
    snap_get_version None (wf_repository sd) so st mem wid sel
      = repo_get_version (mem_read_events None) wf_apply (wf_repo sd) mem wid sel"
proof -
  have dec: "wfmem.decoded sd mem = stream_events sd mem" by (rule ext) (rule stream_events_decoded)
  have start: "root_state (repo_create (wf_repo sd)) = empty_state" by (simp add: new_empty_workflow_context_def)
  have stream: "wfmem.decoded sd mem wid = Inr es" by (simp add: dec assms(3))
  have ok: "snapshots_ok (wfmem.decoded sd mem) wf_apply (root_state (repo_create (wf_repo sd))) (so_snapshotter so) st"
    unfolding start dec by (rule assms(4))
  show ?thesis
    using wfmem.snap_get_agrees [OF assms(1,2) stream ok] wfmem.snap_get_version_agrees [OF assms(1,2) stream ok] by simp
qed

text \<open> Saving a workflow through a repository with snapshots commits its events
  whether or not a snapshot is made, fails to be stored or is not wanted, and keeps every stored snapshot in
  step with its stream: the next \<open>Get\<close> returns what was saved.
\<close>

theorem snapshot_saves_agree:
  assumes wf: "mem_wf (\<lambda>_. 0) mem" and es: "stream_events sd mem wid = Inr es" "es \<noteq> []"
    and new: "st_id (fold wf_step (es @ new) empty_state) = wid"
    and surv: "list_all (survives wf_registry (wf_codec sd)) new" and room: "Suc (mem_total mem + length new) < 2 ^ 64"
    and ok: "snapshots_ok (stream_events sd mem) wf_apply empty_state (so_snapshotter so) st"
    and lawful: "lawful_snapshots st_id (so_snapshotter so) st"
    and save: "snap_save ctx (wf_repository sd) event_name so st mem (fst (record_that wf_apply (context_after es) new))
      = (mem', st', c', (v, evs), err)"
  shows "evs = new \<and> snapshots_ok (stream_events sd mem') wf_apply empty_state (so_snapshotter so) st' \<and>
    snap_get None (wf_repository sd) so st' mem' wid = Inr (context_after (es @ new))"
proof -
  let ?r = "fst (record_that wf_apply (context_after es) new)"
  have dec: "wfmem.decoded sd m = stream_events sd m" for m by (rule ext) (rule stream_events_decoded)
  have start: "root_state (repo_create (wf_repo sd)) = empty_state" by (simp add: new_empty_workflow_context_def)
  have r: "root_uncommitted ?r = new" "root_state ?r = fold wf_step (es @ new) empty_state"
    "root_version ?r = of_nat (length es + length new)"
    by (simp_all add: record_that_total context_after_def)
  have stream: "wfmem.decoded sd mem wid = Inr es" by (simp add: dec es(1))
  have sync: "wfmem.synced sd mem wid ?r"
    using wfmem.record_synced(2) [OF wfmem.replayed_synced [OF stream], of new] by (simp add: replayed_context)
  have bound: "mem_total mem + length (root_uncommitted ?r) < 2 ^ 64" using room by (simp add: r)
  have surv': "list_all (survives (repo_registry (wf_repo sd)) (repo_codec (wf_repo sd))) (root_uncommitted ?r)"
    using surv by (simp add: r)
  have ok': "snapshots_ok (wfmem.decoded sd mem) wf_apply (root_state (repo_create (wf_repo sd))) (so_snapshotter so) st"
    unfolding start dec by (rule ok)
  have ident: "st_id (root_state ?r) = wid" using new by (simp only: r)
  note kept = wfmem.snap_save_keeps [OF wf sync ident bound surv' ok' lawful save]
  have wf': "mem_wf (\<lambda>_. 0) mem'" and room': "Suc (mem_total mem') < 2 ^ 64"
    and ok2: "snapshots_ok (wfmem.decoded sd mem') wf_apply (root_state (repo_create (wf_repo sd))) (so_snapshotter so) st'"
    using kept room by (simp_all add: r)
  have stream': "wfmem.decoded sd mem' wid = Inr (es @ new)" using kept stream by (simp add: r)
  have "wf_get sd mem' wid = Inr (context_after (es @ new))"
    using wfmem.get_decoded [OF wf' stream'] es(2) by (simp add: replayed_context)
  with wfmem.snap_get_agrees [OF wf' room' stream' ok2]
  have "snap_get None (wf_repository sd) so st' mem' wid = Inr (context_after (es @ new))" by simp
  with ok2 kept show ?thesis unfolding start dec by (simp add: r)
qed

text \<open> The repository with retries hides the conflicts that it is there
  for: a save that a conflict refuses is tried again on the same root, whose events the first attempt has
  flushed, so the second attempt has nothing to store and reports success, with version 0 and no events.
\<close>

theorem retried_conflict_reports_success:
  assumes "retries do_retry" and "wf_save sd mem c = (mem', c', Inl e)" and "as_conflict e \<noteq> None"
  shows "retry_save do_retry [] (wf_repository sd) mem c = (mem, c', Inr (0, []))"
proof -
  have "mem' = mem"
    using assms(2)
    by (auto simp: repo_save_def commit_events_def flush_uncommitted_events_def Let_def mem_append_cases
        split: if_splits sum.splits prod.splits)
  with retry_after_conflict [OF assms] show ?thesis by simp
qed


text \<open>
  The strategy \<open>EveryNEvents\<close>: a save makes a snapshot exactly when the versions it adds reach a
  multiple of \<open>n\<close>, as long as that multiple is a 64-bit number.
\<close>

theorem every_n_events_crosses:
  assumes "0 < n" and "(unat prev div unat n + 1) * unat n < 2 ^ 64"
  shows "should_snapshot name r prev new evs (EveryNEvents n) \<longleftrightarrow> unat prev div unat n < unat new div unat n"
proof -
  have n: "0 < unat n" using assms(1) by (simp add: word_gt_0 unat_gt_0)
  let ?k = "unat prev div unat n + 1"
  have "(prev div n + 1) * n = of_nat (?k * unat n)"
    by (simp add: algebra_simps flip: unat_div)
  then have "unat ((prev div n + 1) * n) = ?k * unat n" using assms(2) unat_of_nat_u64 by metis
  then have "(prev div n + 1) * n \<le> new \<longleftrightarrow> ?k * unat n \<le> unat new" by (simp only: word_le_nat_alt)
  also have "\<dots> \<longleftrightarrow> ?k \<le> unat new div unat n" using n by (simp only: less_eq_div_iff_mult_less_eq)
  finally show ?thesis using assms(1) by auto
qed

section \<open>Witnesses\<close>

definition demo_snapshotter :: "(wf_state, wf_event, workflow_context) snapshotter" where
  "demo_snapshotter = \<lparr>sh_to = (\<lambda>r. Inr (r\<lparr>root_uncommitted := []\<rparr>)), sh_from = Inr,
     sh_id = (\<lambda>t. st_id (root_state t)), sh_version = root_version\<rparr>"

definition demo_snap_options :: "(wf_state, wf_event, workflow_context) snap_options" where
  "demo_snap_options = new_snap_repo demo_snapshotter (EveryNEvents 2) []"

definition demo_snapshots :: "wf_event list \<Rightarrow> (workflow_context, workflow_context) snap_store" where
  "demo_snapshots es = (new_memory_store (\<lambda>t. Inr [t]) (\<lambda>ts. Inr (hd ts)))
     \<lparr>ss_snapshots := [''w1'' \<mapsto> [context_after es]]\<rparr>"

lemma demo_snapshots_ok:
  assumes "stream_events demo_serde mem ''w1'' = Inr (es @ es')" and "es \<noteq> []"
  shows "snapshots_ok (stream_events demo_serde mem) wf_apply empty_state (so_snapshotter demo_snap_options) (demo_snapshots es)"
proof -
  have "snapshot_of (stream_events demo_serde mem) wf_apply empty_state demo_snapshotter (context_after es) ''w1''"
    unfolding snapshot_of_def
    by (intro exI [of _ "context_after es"] exI [of _ "es @ es'"] exI [of _ "length es"])
      (use assms in \<open>simp add: demo_snapshotter_def context_after_def\<close>)
  then show ?thesis
    by (simp add: snapshots_ok_def demo_snapshots_def new_memory_store_def demo_snap_options_def new_snap_repo_def)
qed

lemma demo_snapshots_lawful: "lawful_snapshots st_id (so_snapshotter demo_snap_options) (demo_snapshots es)"
  by (simp add: lawful_snapshots_def demo_snap_options_def new_snap_repo_def demo_snapshotter_def demo_snapshots_def
      new_memory_store_def)

fun retry_loop :: "(gerr \<Rightarrow> bool) \<Rightarrow> ('a \<Rightarrow> 'a \<times> (gerr + 'b)) \<Rightarrow> nat \<Rightarrow> 'a \<Rightarrow> 'a \<times> (gerr + 'b)" where
  "retry_loop p f 0 s = (s, Inl ErrNoEvents)"
| "retry_loop p f (Suc n) s =
     (case f s of (s', Inr x) \<Rightarrow> (s', Inr x) | (s', Inl e) \<Rightarrow> if p e \<and> n \<noteq> 0 then retry_loop p f n s' else (s', Inl e))"

definition demo_retry :: "retry_config \<Rightarrow> ('a \<Rightarrow> 'a \<times> (gerr + 'b)) \<Rightarrow> 'a \<Rightarrow> 'a \<times> (gerr + 'b)" where
  "demo_retry c f s = retry_loop (rc_retry_if c) f (rc_attempts c) s"

lemma demo_retry_ok: "retries demo_retry"
proof -
  have step: "retry_loop p f n s =
      (case f s of (s', Inr x) \<Rightarrow> (s', Inr x) | (s', Inl e) \<Rightarrow> if p e \<and> n - 1 \<noteq> 0 then retry_loop p f (n - 1) s' else (s', Inl e))"
    if "0 < n" for p :: "gerr \<Rightarrow> bool" and f :: "'a \<Rightarrow> 'a \<times> (gerr + 'b)" and n s
    using that by (cases n) (auto split: sum.splits prod.splits)
  show ?thesis
    unfolding retries_def demo_retry_def by (auto simp: step)
qed

theorem retried_conflict_reports_success_witness:
  "retry_save demo_retry [] (wf_repository demo_serde) new_memory demo_stale
    = (new_memory, demo_stale\<lparr>root_uncommitted := []\<rparr>, Inr (0, []))"
proof -
  obtain e where e: "wf_save demo_serde new_memory demo_stale = (new_memory, demo_stale\<lparr>root_uncommitted := []\<rparr>, Inl e)"
    "as_conflict e \<noteq> None"
    by (simp add: repo_save_def commit_events_def flush_uncommitted_events_def Let_def demo_stale_def
        raw_events_from_uncommitted_def wf_codec_def demo_serde_def mem_append_cases context_after_def)
  show ?thesis by (rule retried_conflict_reports_success [OF demo_retry_ok e])
qed

theorem snapshot_reads_agree_witness:
  "snap_get None (wf_repository demo_serde) demo_snap_options (demo_snapshots [demo_started])
     (demo_store [demo_started, demo_completed ''hi'']) ''w1''
    = wf_get demo_serde (demo_store [demo_started, demo_completed ''hi'']) ''w1''"
proof -
  let ?es = "[demo_started, demo_completed ''hi'']"
  have stream: "stream_events demo_serde (demo_store ?es) ''w1'' = Inr ([demo_started] @ [demo_completed ''hi''])"
    using demo_store_facts(2) [of ?es] by simp
  have room: "Suc (mem_total (demo_store ?es)) < 2 ^ 64" using demo_store_facts(3) [of ?es] by simp
  show ?thesis
    using snapshot_reads_agree [OF demo_store_facts(1) room stream demo_snapshots_ok [OF stream]] by simp
qed

theorem snapshot_saves_agree_witness:
  "\<exists>mem' (st' :: (workflow_context, workflow_context) snap_store).
     snap_get None (wf_repository demo_serde) demo_snap_options st' mem' ''w1''
     = Inr (context_after [demo_started, demo_scheduled ''bob''])"
proof -
  let ?new = "[demo_scheduled ''bob'']" and ?mem = "demo_store [demo_started]"
  obtain mem' st' c' v evs err where save: "snap_save None (wf_repository demo_serde) event_name demo_snap_options
      (demo_snapshots [demo_started]) ?mem (fst (record_that wf_apply (context_after [demo_started]) ?new))
    = (mem', st', c', (v, evs), err)"
    by (metis prod.exhaust_sel)
  have stream: "stream_events demo_serde ?mem ''w1'' = Inr [demo_started]" using demo_store_facts(2) [of "[demo_started]"] by simp
  then have stream': "stream_events demo_serde ?mem ''w1'' = Inr ([demo_started] @ [])" by simp
  have wid: "st_id (fold wf_step ([demo_started] @ ?new) empty_state) = ''w1''" by (simp add: demo_scheduled_def)
  have room: "Suc (mem_total ?mem + length ?new) < 2 ^ 64" using demo_store_facts(3) [of "[demo_started]"] by simp
  have surv: "list_all (survives wf_registry (wf_codec demo_serde)) ?new" by simp
  have ne: "[demo_started] \<noteq> []" by simp
  note res = snapshot_saves_agree [OF demo_store_facts(1) stream ne wid surv room demo_snapshots_ok [OF stream' ne]
      demo_snapshots_lawful save]
  show ?thesis using res by (intro exI [of _ mem'] exI [of _ st']) auto
qed

theorem every_n_events_crosses_witness:
  "should_snapshot event_name demo_stale 3 5 [] (EveryNEvents 4) \<longleftrightarrow> unat (3 :: u64) div unat (4 :: u64) < unat (5 :: u64) div unat (4 :: u64)"
  by (rule every_n_events_crosses) simp_all

end
