(* ===== verification/DF_Transact.thy ===== *)
theory DF_Transact
  imports DF_Repo DF_MemLog
begin

text \<open>
  Saving in a transaction: the transactional log of \<open>event/event_processor.go\<close>, \<open>CommitEventsWithTX\<close>
  of \<open>aggregate/aggregate.go\<close>, the processors of \<open>aggregate/repository_processor.go\<close> and the
  repository of \<open>aggregate/repository_transactional.go\<close>. \<open>within\<close> is \<open>WithinTx\<close>: it runs a body on
  the state of the database, which holds the log and whatever the processors write. The handle of the transaction
  is that state, and what the body assigns to the variables around it is its result.
\<close>

section \<open>The transactional log\<close>

type_synonym ('d, 'r) within_tx = "('d \<Rightarrow> 'd \<times> (gerr + 'r)) \<Rightarrow> 'd \<Rightarrow> 'd \<times> (gerr + 'r)"

type_synonym ('d, 'x) append_in_tx = "'d \<Rightarrow> string \<Rightarrow> check \<Rightarrow> 'x raw list \<Rightarrow> 'd \<times> (gerr + version \<times> 'x rec list)"

definition transactable_append ::
    "('d, version) within_tx \<Rightarrow> ('d, 'x) append_in_tx \<Rightarrow> ('d \<Rightarrow> 'x rec list \<Rightarrow> 'd \<times> gerr option) option
      \<Rightarrow> 'd \<Rightarrow> string \<Rightarrow> check \<Rightarrow> 'x raw list \<Rightarrow> 'd \<times> (gerr + version)" where
  "transactable_append within append_in processor d lg expected events =
     within
       (\<lambda>d. case append_in d lg expected events of
          (d1, Inl e) \<Rightarrow> (d1, Inl (ErrWrap ''transactable log'' e))
        | (d1, Inr (v, records)) \<Rightarrow>
           (case processor of
              None \<Rightarrow> (d1, Inr v)
            | Some p \<Rightarrow>
               (case p d1 records of
                  (d2, Some e) \<Rightarrow> (d2, Inl (ErrWrap ''transactable log: process records'' e))
                | (d2, None) \<Rightarrow> (d2, Inr v)))) d"

section \<open>Processors\<close>

text \<open>A processor sees the root, which it is documented not to change, and the committed events.\<close>

type_synonym ('d, 's, 'e) processor = "'d \<Rightarrow> ('s, 'e) root \<Rightarrow> 'e list \<Rightarrow> 'd \<times> gerr option"

fun chain_process :: "('d, 's, 'e) processor list \<Rightarrow> ('d, 's, 'e) processor" where
  "chain_process [] d r events = (d, None)"
| "chain_process (p # ps) d r events =
     (case p d r events of
        (d', Some e) \<Rightarrow> (d', Some e)
      | (d', None) \<Rightarrow> chain_process ps d' r events)"

section \<open>Committing\<close>

definition commit_events_with_tx ::
    "('d, version \<times> 'e list) within_tx \<Rightarrow> ('d, 'x) append_in_tx \<Rightarrow> ('d, 's, 'e) processor option \<Rightarrow> ('s \<Rightarrow> string)
      \<Rightarrow> ('e, 'k, 'x) codec \<Rightarrow> 'e transformer list \<Rightarrow> 'd \<Rightarrow> ('s, 'e) root
      \<Rightarrow> 'd \<times> ('s, 'e) root \<times> (gerr + version \<times> 'e list)" where
  "commit_events_with_tx within append_in processor ident c ts d r =
     (case flush_uncommitted_events r of (r', uncommitted) \<Rightarrow>
        if uncommitted = [] then (d, r', Inr (root_version r', []))
        else (let log_id = ident (root_state r');
                  expected = CheckExact (root_version r' - of_nat (length uncommitted))
              in case raw_events_from_uncommitted c ts uncommitted of
                   Inl e \<Rightarrow> (d, r', Inl (ErrWrap ''aggregate commit with tx: events to raw'' e))
                 | Inr raws \<Rightarrow>
                    (case within
                       (\<lambda>d. case append_in d log_id expected raws of
                          (d1, Inl e) \<Rightarrow> (d1, Inl (ErrWrap ''append events in tx'' e))
                        | (d1, Inr (v, _)) \<Rightarrow>
                           (case processor of
                              None \<Rightarrow> (d1, Inr (v, uncommitted))
                            | Some p \<Rightarrow>
                               (case p d1 r' uncommitted of
                                  (d2, Some e) \<Rightarrow> (d2, Inl (ErrWrap ''aggregate processor'' e))
                                | (d2, None) \<Rightarrow> (d2, Inr (v, uncommitted))))) d of
                       (d', Inl e) \<Rightarrow> (d', r', Inl (ErrWrap ''aggregate commit with tx'' e))
                     | (d', Inr res) \<Rightarrow> (d', r', Inr res))))"

section \<open>The repository\<close>

text \<open>
  The fields it shares with the plain repository are those of \<open>es_repo\<close>; its reads go through a
  transactional log without a processor, which forwards them.
\<close>

definition new_tx_repo ::
    "('k \<Rightarrow> string) \<Rightarrow> 'k list \<Rightarrow> bool \<Rightarrow> ('e, 'k, 'x) codec \<Rightarrow> ('s, 'e) root \<Rightarrow> 'e transformer list
      \<Rightarrow> gerr + ('s, 'e, 'k, 'x) es_repo" where
  "new_tx_repo kind_name kinds should_register c create ts =
     (let repo = \<lparr>repo_registry = Map.empty, repo_codec = c, repo_create = create, repo_transformers = ts\<rparr> in
      if should_register then
        (case register_events kind_name Map.empty kinds of
           (reg, Some e) \<Rightarrow> Inl (ErrWrap ''new transactional repository'' e)
         | (reg, None) \<Rightarrow> Inr (repo\<lparr>repo_registry := reg\<rparr>))
      else Inr repo)"

definition tx_save ::
    "('d, version \<times> 'e list) within_tx \<Rightarrow> ('d, 'x) append_in_tx \<Rightarrow> ('d, 's, 'e) processor option \<Rightarrow> ('s \<Rightarrow> string)
      \<Rightarrow> ('s, 'e, 'k, 'x) es_repo \<Rightarrow> 'd \<Rightarrow> ('s, 'e) root \<Rightarrow> 'd \<times> ('s, 'e) root \<times> (gerr + version \<times> 'e list)" where
  "tx_save within append_in processor ident repo d r =
     (case commit_events_with_tx within append_in processor ident (repo_codec repo) (repo_transformers repo) d r of
        (d', r', Inl e) \<Rightarrow> (d', r', Inl (ErrWrap ''repo save'' e))
      | (d', r', Inr res) \<Rightarrow> (d', r', Inr res))"

definition tx_load_aggregate ::
    "('d \<Rightarrow> string \<Rightarrow> selector \<Rightarrow> 'x records) \<Rightarrow> ('s, 'e) applier \<Rightarrow> ('s, 'e, 'k, 'x) es_repo \<Rightarrow> 'd
      \<Rightarrow> ('s, 'e) root \<Rightarrow> string \<Rightarrow> selector \<Rightarrow> ('s, 'e) root \<times> gerr option" where
  "tx_load_aggregate read apply repo d r lg sel =
     read_and_load_from_store read apply (repo_registry repo) (repo_codec repo) (repo_transformers repo) d r lg sel"

definition tx_get_version ::
    "('d \<Rightarrow> string \<Rightarrow> selector \<Rightarrow> 'x records) \<Rightarrow> ('s, 'e) applier \<Rightarrow> ('s, 'e, 'k, 'x) es_repo \<Rightarrow> 'd
      \<Rightarrow> string \<Rightarrow> selector \<Rightarrow> gerr + ('s, 'e) root" where
  "tx_get_version read apply repo d lg sel =
     (case tx_load_aggregate read apply repo d (repo_create repo) lg sel of
        (r, Some e) \<Rightarrow> Inl (ErrWrap (''repo get version '' @ format_uint (sel_from sel)) e)
      | (r, None) \<Rightarrow> Inr r)"

definition tx_get ::
    "('d \<Rightarrow> string \<Rightarrow> selector \<Rightarrow> 'x records) \<Rightarrow> ('s, 'e) applier \<Rightarrow> ('s, 'e, 'k, 'x) es_repo \<Rightarrow> 'd
      \<Rightarrow> string \<Rightarrow> gerr + ('s, 'e) root" where
  "tx_get read apply repo d lg = tx_get_version read apply repo d lg select_from_beginning"

section \<open>The in-memory log as a transaction\<close>

text \<open>\<open>WithinTx\<close> only holds the lock.\<close>

definition mem_within_tx :: "('d, 'r) within_tx" where
  "mem_within_tx body d = body d"

section \<open>Transactions that roll back\<close>

text \<open>
  What a transactor promises: after an error of the body nothing is kept, and a body without an error
  is either kept, with its result, or refused as a whole.
\<close>

locale transactor =
  fixes within :: "('d, 'r) within_tx"
  assumes rolls_back: "body d = (d', Inl e) \<Longrightarrow> \<exists>e'. within body d = (d, Inl e')"
    and commits: "body d = (d', Inr r) \<Longrightarrow> within body d = (d', Inr r) \<or> (\<exists>e. within body d = (d, Inl e))"
begin

lemma error_keeps_nothing: "within body d = (d', Inl e) \<Longrightarrow> d' = d"
proof -
  assume w: "within body d = (d', Inl e)"
  show ?thesis
  proof (cases "body d")
    case (Pair d1 res)
    with w rolls_back [of body d d1] commits [of body d d1] show ?thesis by (cases res) auto
  qed
qed

lemma success_keeps_all: "within body d = (d', Inr r) \<Longrightarrow> body d = (d', Inr r)"
proof -
  assume w: "within body d = (d', Inr r)"
  show ?thesis
  proof (cases "body d")
    case (Pair d1 res)
    with w rolls_back [of body d d1] commits [of body d d1] show ?thesis by (cases res) fastforce+
  qed
qed

end

end
