(* ===== verification/DF_Keys.thy ===== *)
theory DF_Keys
  imports DF_Records "HOL-Library.List_Lexorder" "HOL-Library.Char_ord"
begin

text \<open>
  The keys of the Pebble event log \<open>eventlog/pebble.go\<close>: versions as eight big-endian bytes, the keys of events,
  versions and the global index, their parsers, and the end of a prefix scan. A \<open>[]byte\<close> is a string,
  and the bytewise order of Pebble is the lexicographic order of strings.
\<close>

section \<open>Versions as bytes\<close>

text \<open>\<open>binary.BigEndian\<close>: byte \<open>k\<close> from the right is \<open>byte(v >> (8 * k))\<close>.\<close>

fun be_bytes :: "nat \<Rightarrow> nat \<Rightarrow> string" where
  "be_bytes 0 n = []"
| "be_bytes (Suc k) n = char_of (n div 256 ^ k mod 256) # be_bytes k n"

definition be_uint64 :: "u64 \<Rightarrow> string" where
  "be_uint64 v = be_bytes 8 (unat v)"

definition uint64_be :: "string \<Rightarrow> u64" where
  "uint64_be s = of_nat (foldl (\<lambda>a c. 256 * a + of_char c) 0 (take 8 s))"

lemma length_be_bytes [simp]: "length (be_bytes k n) = k"
  by (induction k) auto

lemma length_be_uint64 [simp]: "length (be_uint64 v) = 8"
  by (simp add: be_uint64_def)

lemma be_bytes_val: "foldl (\<lambda>a c. 256 * a + of_char c) b (be_bytes k n) = b * 256 ^ k + n mod 256 ^ k"
proof (induction k arbitrary: b)
  case (Suc k)
  have "n mod (256 ^ k * 256) = 256 ^ k * (n div 256 ^ k mod 256) + n mod 256 ^ k" by (rule mod_mult2_eq)
  with Suc show ?case by (simp add: algebra_simps)
qed simp

lemma unat_mod_u64: "unat (v :: u64) mod 256 ^ 8 = unat v"
proof -
  have "unat v < 2 ^ 64" using unsigned_less [of v] by simp
  then show ?thesis by simp
qed

lemma uint64_be_inverse [simp]: "uint64_be (be_uint64 v) = v"
  using be_bytes_val [of 0 8 "unat v"] by (simp only: uint64_be_def be_uint64_def unat_mod_u64) simp

lemma be_uint64_inj [simp]: "be_uint64 v = be_uint64 w \<longleftrightarrow> v = w"
  by (metis uint64_be_inverse)

lemma less_char_of: "(char_of m :: char) < char_of n \<longleftrightarrow> m mod 256 < n mod (256 :: nat)"
  by (simp add: less_char_def)

lemma be_bytes_less: "be_bytes k m < be_bytes k n \<longleftrightarrow> m mod 256 ^ k < n mod 256 ^ k"
proof (induction k)
  case (Suc k)
  have split: "i mod (256 ^ k * 256) = 256 ^ k * (i div 256 ^ k mod 256) + i mod 256 ^ k" for i :: nat by (rule mod_mult2_eq)
  let ?a = "m div 256 ^ k mod 256" and ?b = "n div 256 ^ k mod 256" and ?r = "m mod 256 ^ k" and ?s = "n mod 256 ^ k"
  have rs: "?r < 256 ^ k" "?s < 256 ^ k" by simp_all
  have step: "256 ^ k * a + r < 256 ^ k * b + s" if "a < b" "r < 256 ^ k" for a b r s :: nat
  proof -
    have "256 ^ k * Suc a \<le> 256 ^ k * b" using that(1) by (intro mult_le_mono2) simp
    with that(2) show ?thesis by simp
  qed
  have digits: "256 ^ k * ?a + ?r < 256 ^ k * ?b + ?s \<longleftrightarrow> ?a < ?b \<or> ?a = ?b \<and> ?r < ?s"
    using step [of ?a ?b ?r ?s] step [of ?b ?a ?s ?r] rs by (cases ?a ?b rule: linorder_cases) auto
  have chars: "(char_of ?a :: char) = char_of ?b \<longleftrightarrow> ?a = ?b"
    by (metis of_char_of mod_mod_trivial)
  show ?case using Suc digits chars by (simp add: less_char_of split mult.commute [of 256])
qed simp

lemma be_uint64_less [simp]: "be_uint64 v < be_uint64 w \<longleftrightarrow> v < w"
  by (simp only: be_uint64_def be_bytes_less unat_mod_u64 word_less_nat_alt)

lemma be_uint64_le [simp]: "be_uint64 v \<le> be_uint64 w \<longleftrightarrow> v \<le> w"
  by (simp add: linorder_not_less [symmetric])

lemma be_uint64_0: "be_uint64 0 = replicate 8 (CHR 0x00)"
proof -
  have "be_bytes k 0 = replicate k (char_of (0 :: nat))" for k by (induction k) auto
  moreover have "(char_of (0 :: nat) :: char) = CHR 0x00" by code_simp
  ultimately show ?thesis by (simp add: be_uint64_def)
qed

section \<open>Keys\<close>

definition event_key_prefix :: string where "event_key_prefix = ''e/''"
definition version_key_prefix :: string where "version_key_prefix = ''v/''"
definition global_event_key_prefix :: string where "global_event_key_prefix = ''ge/''"
definition global_version_key :: string where "global_version_key = ''g_version''"

lemmas key_prefix_defs = event_key_prefix_def version_key_prefix_def global_event_key_prefix_def global_version_key_def

definition version_key_for :: "string \<Rightarrow> string" where
  "version_key_for lg = version_key_prefix @ lg"

definition event_key_prefix_for :: "string \<Rightarrow> string" where
  "event_key_prefix_for lg = event_key_prefix @ lg @ ''/''"

definition event_key_for :: "string \<Rightarrow> version \<Rightarrow> string" where
  "event_key_for lg v = event_key_prefix @ lg @ ''/'' @ be_uint64 v"

definition global_event_key_for :: "version \<Rightarrow> string" where
  "global_event_key_for v = global_event_key_prefix @ be_uint64 v"

text \<open>\<open>quote\<close> is the verb \<open>%q\<close>.\<close>

definition has_prefix :: "string \<Rightarrow> string \<Rightarrow> bool" where
  "has_prefix key p \<longleftrightarrow> take (length p) key = p"

definition parse_event_key :: "(string \<Rightarrow> string) \<Rightarrow> string \<Rightarrow> gerr + string \<times> version" where
  "parse_event_key quote key =
     (if \<not> has_prefix key event_key_prefix then Inl (ErrMsg (''invalid event key prefix: '' @ quote key))
      else if length key < length event_key_prefix + 1 + 8 then Inl (ErrMsg (''invalid event key length: '' @ quote key))
      else (let version_bytes = drop (length key - 8) key;
                id_bytes = drop (length event_key_prefix) (take (length key - 9) key)
            in Inr (id_bytes, uint64_be version_bytes)))"

definition parse_global_event_key :: "(string \<Rightarrow> string) \<Rightarrow> string \<Rightarrow> gerr + version" where
  "parse_global_event_key quote key =
     (if \<not> has_prefix key global_event_key_prefix then Inl (ErrMsg (''invalid global event key prefix: '' @ quote key))
      else if length key \<noteq> length global_event_key_prefix + 8 then Inl (ErrMsg (''invalid global event key length: '' @ quote key))
      else Inr (uint64_be (drop (length global_event_key_prefix) key)))"

text \<open>The loop of \<open>prefixEndKey\<close> over the bytes from the last to the first; \<open>None\<close> is a nil slice.\<close>

fun prefix_end_loop :: "string \<Rightarrow> string option" where
  "prefix_end_loop [] = None"
| "prefix_end_loop (c # cs) =
     (let c' = char_of ((of_char c + 1) mod 256 :: nat) in
      if c' \<noteq> CHR 0x00 then Some (rev (c' # cs)) else prefix_end_loop cs)"

definition prefix_end_key :: "string \<Rightarrow> string option" where
  "prefix_end_key p = prefix_end_loop (rev p)"

section \<open>Order of keys\<close>

lemma append_less_iff [simp]: "p @ x < p @ (y :: string) \<longleftrightarrow> x < y"
  by (induction p) auto

lemma append_le_iff [simp]: "p @ x \<le> p @ (y :: string) \<longleftrightarrow> x \<le> y"
  by (induction p) auto

lemma between_prefix:
  "p @ x \<le> k \<Longrightarrow> k < p @ y \<Longrightarrow> \<exists>z. k = p @ z \<and> x \<le> z \<and> z < (y :: string)"
proof (induction p arbitrary: k)
  case (Cons c p)
  then show ?case by (cases k) auto
qed simp

lemma between_slash:
  assumes "p @ ''/'' @ x \<le> k" and "k < p @ ''0''"
  shows "\<exists>z. k = p @ ''/'' @ z \<and> x \<le> (z :: string)"
proof -
  obtain z where z: "k = p @ z" "''/'' @ x \<le> z" "z < ''0''" using between_prefix assms by blast
  then obtain c z' where cz: "z = c # z'" by (cases z) auto
  have "of_char c < (48 :: nat)" "47 \<le> (of_char c :: nat)"
    using z(2,3) by (auto simp: cz less_char_def)
  then have "of_char c = (of_char (CHR ''/'') :: nat)" by simp
  then have "c = CHR ''/''" by (simp only: of_char_eq_iff)
  with z(1,2) show ?thesis by (simp add: cz)
qed

lemma least_string: "n \<le> length s \<Longrightarrow> replicate n (CHR 0x00) \<le> (s :: string)"
proof (induction n arbitrary: s)
  case (Suc n)
  then obtain c s' where "s = c # s'" "n \<le> length s'" by (cases s) auto
  moreover have "0 < (of_char c :: nat)" if "CHR 0x00 \<noteq> c"
  proof (rule ccontr)
    assume "\<not> 0 < (of_char c :: nat)"
    then have "of_char c = (of_char (CHR 0x00) :: nat)" by simp
    then have "c = CHR 0x00" by (simp only: of_char_eq_iff)
    with that show False by simp
  qed
  ultimately show ?case using Suc.IH [of s'] by (auto simp: less_char_def)
qed simp

lemma prefix_end_events: "prefix_end_key (event_key_prefix_for lg) = Some (event_key_prefix @ lg @ ''0'')"
proof -
  have "(char_of (48 :: nat) :: char) = CHR ''0''" by code_simp
  then show ?thesis by (simp add: prefix_end_key_def event_key_prefix_for_def)
qed

lemma prefix_end_global: "prefix_end_key global_event_key_prefix = Some ''ge0''"
  by code_simp

lemma event_key_inj [simp]: "event_key_for lg v = event_key_for lg' v' \<longleftrightarrow> lg = lg' \<and> v = v'"
  by (auto simp: event_key_for_def)

lemma version_key_inj [simp]: "version_key_for lg = version_key_for lg' \<longleftrightarrow> lg = lg'"
  by (simp add: version_key_for_def)

lemma global_key_inj [simp]: "global_event_key_for v = global_event_key_for v' \<longleftrightarrow> v = v'"
  by (simp add: global_event_key_for_def)

lemma keys_disjoint [simp]:
  "event_key_for lg v \<noteq> version_key_for lg'" "version_key_for lg' \<noteq> event_key_for lg v"
  "event_key_for lg v \<noteq> global_event_key_for w" "global_event_key_for w \<noteq> event_key_for lg v"
  "event_key_for lg v \<noteq> global_version_key" "global_version_key \<noteq> event_key_for lg v"
  "version_key_for lg' \<noteq> global_event_key_for w" "global_event_key_for w \<noteq> version_key_for lg'"
  "version_key_for lg' \<noteq> global_version_key" "global_version_key \<noteq> version_key_for lg'"
  "global_event_key_for w \<noteq> global_version_key" "global_version_key \<noteq> global_event_key_for w"
  by (simp_all add: event_key_for_def version_key_for_def global_event_key_for_def key_prefix_defs)

lemma parse_event_key_for [simp]: "parse_event_key quote (event_key_for lg v) = Inr (lg, v)"
proof -
  have "drop (3 + length lg) (CHR ''e'' # CHR ''/'' # lg @ CHR ''/'' # be_uint64 v) = be_uint64 v"
    by (simp add: numeral_3_eq_3)
  then show ?thesis
    by (simp add: parse_event_key_def event_key_for_def event_key_prefix_def has_prefix_def Let_def)
qed

lemma parse_global_event_key_for [simp]: "parse_global_event_key quote (global_event_key_for v) = Inr v"
  by (simp add: parse_global_event_key_def global_event_key_for_def global_event_key_prefix_def has_prefix_def)

lemma event_key_less [simp]: "event_key_for lg v < event_key_for lg w \<longleftrightarrow> v < w"
  by (simp add: event_key_for_def)

lemma global_key_less [simp]: "global_event_key_for v < global_event_key_for w \<longleftrightarrow> v < w"
  by (simp add: global_event_key_for_def)

text \<open>The keys between two keys of a log, and from a key of a log to the end of its prefix, have its prefix.\<close>

lemma event_keys_between:
  assumes "event_key_for lg v \<le> k" and "k < event_key_for lg w \<or> k < event_key_prefix @ lg @ ''0''"
  shows "\<exists>z. k = event_key_prefix @ lg @ ''/'' @ z"
proof (cases "k < event_key_for lg w")
  case True
  with assms(1) between_prefix [of "event_key_prefix @ lg @ ''/''" "be_uint64 v" k "be_uint64 w"] show ?thesis
    by (auto simp: event_key_for_def)
next
  case False
  with assms between_slash [of "event_key_prefix @ lg" "be_uint64 v" k] show ?thesis
    by (auto simp: event_key_for_def)
qed

lemma same_log:
  assumes "event_key_for lg' v = event_key_prefix @ lg @ ''/'' @ z" and "CHR ''/'' \<notin> set lg" and "CHR ''/'' \<notin> set lg'"
  shows "lg' = lg"
proof -
  have "takeWhile (\<lambda>c. c \<noteq> CHR ''/'') (l @ CHR ''/'' # s) = l" if "CHR ''/'' \<notin> set l" for l s
    using that by (induction l) auto
  moreover have "lg' @ CHR ''/'' # be_uint64 v = lg @ CHR ''/'' # z" using assms(1) by (simp add: event_key_for_def)
  ultimately show ?thesis using assms(2,3) by metis
qed

section \<open>Properties\<close>

text \<open>
  Keys and versions correspond. Parsing the key of an event gives back its log and version, for any
  identifier, with slashes or without; the same for the global index. Within one log, and within the global index, the order of
  the keys is the order of the versions, up to the last \<open>uint64\<close>.
\<close>

theorem event_keys_roundtrip:
  shows "parse_event_key quote (event_key_for lg v) = Inr (lg, v) \<and>
    parse_global_event_key quote (global_event_key_for v) = Inr v \<and>
    (event_key_for lg v < event_key_for lg w \<longleftrightarrow> v < w) \<and> (global_event_key_for v < global_event_key_for w \<longleftrightarrow> v < w)"
  by simp

end
