(* ===== verification/DF_Pebble.thy ===== *)
theory DF_Pebble
  imports DF_Transact DF_Keys DF_Conn
begin

text \<open>
  The Pebble event log \<open>eventlog/pebble.go\<close> over the keys of \<open>DF_Keys\<close>. The database is third-party code: its calls
  are the fields of \<open>kv_db\<close> over an abstract state \<open>'s\<close>, and \<open>ordered_store\<close> is what its documentation
  says of them. \<open>encoding/json\<close> on the two stored structs, and the verb \<open>%q\<close>, are the fields
  of \<open>json_lib\<close>. \<open>cx\<close> is what \<open>ctx.Err()\<close> returns during the call.
\<close>

section \<open>The database\<close>

datatype kv_op = KvSet string string | KvDelete string | KvDeleteRange string string

text \<open>
  \<open>kv_get\<close>: no value is \<open>pebble.ErrNotFound\<close>. \<open>kv_iter\<close>: the entries from the lower to below the upper bound,
  and the error at the end. \<open>kv_refuses\<close>: the error of adding an operation to a batch.
\<close>

record 's kv_db =
  kv_get :: "'s \<Rightarrow> string \<Rightarrow> gerr + string option"
  kv_iter :: "'s \<Rightarrow> string \<Rightarrow> string option \<Rightarrow> gerr + (string \<times> string) list \<times> gerr option"
  kv_refuses :: "kv_op list \<Rightarrow> kv_op \<Rightarrow> gerr option"
  kv_commit :: "'s \<Rightarrow> kv_op list \<Rightarrow> 's \<times> gerr option"

record 'x json_lib =
  jl_event :: "string \<Rightarrow> 'x list \<Rightarrow> gerr + string"
  jl_event_of :: "string \<Rightarrow> gerr + string \<times> 'x list"
  jl_global :: "string \<Rightarrow> version \<Rightarrow> string \<Rightarrow> 'x list \<Rightarrow> gerr + string"
  jl_global_of :: "string \<Rightarrow> gerr + string \<times> version \<times> string \<times> 'x list"
  jl_quote :: "string \<Rightarrow> string"

text \<open>The handle of a transaction: the batch, and the database that reads go to.\<close>

record 's pebble_tx =
  px_db :: 's
  px_batch :: "kv_op list"

definition batch_add :: "'s kv_db \<Rightarrow> kv_op list \<Rightarrow> kv_op \<Rightarrow> kv_op list \<times> gerr option" where
  "batch_add kv b op = (case kv_refuses kv b op of Some e \<Rightarrow> (b, Some e) | None \<Rightarrow> (b @ [op], None))"

section \<open>Appending\<close>

text \<open>\<open>Uint64\<close> panics on a value of fewer than eight bytes, which no operation writes.\<close>

definition read_counter :: "string \<Rightarrow> gerr + version" where
  "read_counter value =
     (if length value < 8 then Inl (ErrMsg ''panic: runtime error: index out of range'') else Inr (uint64_be value))"

definition pebble_global_version :: "'s kv_db \<Rightarrow> 's \<Rightarrow> gerr + version" where
  "pebble_global_version kv s =
     (case kv_get kv s global_version_key of
        Inl e \<Rightarrow> Inl (ErrWrap ''get global version'' e)
      | Inr None \<Rightarrow> Inr 0
      | Inr (Some value) \<Rightarrow> read_counter value)"

definition pebble_log_version :: "'s kv_db \<Rightarrow> 's \<Rightarrow> string \<Rightarrow> gerr + version" where
  "pebble_log_version kv s key =
     (case kv_get kv s key of
        Inl e \<Rightarrow> Inl (ErrWrap ''get log version'' e)
      | Inr None \<Rightarrow> Inr 0
      | Inr (Some value) \<Rightarrow> read_counter value)"

text \<open>The loop over the records; \<open>i\<close> is its index and \<open>g\<close> the global version before it.\<close>

fun pebble_put_records ::
    "'s kv_db \<Rightarrow> 'x json_lib \<Rightarrow> version \<Rightarrow> nat \<Rightarrow> kv_op list \<Rightarrow> 'x rec list \<Rightarrow> kv_op list \<times> gerr option" where
  "pebble_put_records kv j g i b [] = (b, None)"
| "pebble_put_records kv j g i b (r # rs) =
     (case jl_event j (raw_name (rec_raw r)) (raw_data (rec_raw r)) of
        Inl e \<Rightarrow> (b, Some (ErrWrap ''append in tx: could not marshal event data'' e))
      | Inr value \<Rightarrow>
         (case batch_add kv b (KvSet (event_key_for (rec_log r) (rec_version r)) value) of
            (b1, Some e) \<Rightarrow> (b1, Some (ErrWrap ''append in tx: could not add event to batch'' e))
          | (b1, None) \<Rightarrow>
             (let current_global = g + of_nat i + 1 in
              case jl_global j (rec_log r) (rec_version r) (raw_name (rec_raw r)) (raw_data (rec_raw r)) of
                Inl e \<Rightarrow> (b1, Some (ErrWrap ''append in tx: could not marshal global event data'' e))
              | Inr gvalue \<Rightarrow>
                 (case batch_add kv b1 (KvSet (global_event_key_for current_global) gvalue) of
                    (b2, Some e) \<Rightarrow> (b2, Some (ErrWrap ''append in tx: could not add global event to batch'' e))
                  | (b2, None) \<Rightarrow> pebble_put_records kv j g (Suc i) b2 rs))))"

definition pebble_append_in_tx ::
    "gerr option \<Rightarrow> 's kv_db \<Rightarrow> 'x json_lib \<Rightarrow> ('s pebble_tx, 'x) append_in_tx" where
  "pebble_append_in_tx cx kv j d lg expected events =
     (case cx of
        Some e \<Rightarrow> (d, Inl (ErrWrap ''append in tx'' e))
      | None \<Rightarrow>
         if events = [] then (d, Inl (ErrWrap ''append in tx'' ErrNoEvents))
         else
          (case pebble_log_version kv (px_db d) (version_key_for lg) of
             Inl e \<Rightarrow> (d, Inl (ErrWrap ''append in tx'' e))
           | Inr actual \<Rightarrow>
          (case pebble_global_version kv (px_db d) of
             Inl e \<Rightarrow> (d, Inl (ErrWrap ''append in tx: could not get global version'' e))
           | Inr global \<Rightarrow>
          (case expected of
             OtherCheck \<Rightarrow> (d, Inl (ErrWrap ''append in tx'' ErrUnsupportedCheck))
           | CheckExact x \<Rightarrow>
          (case check_exact x actual of
             Some e \<Rightarrow> (d, Inl (ErrWrap ''append in tx'' e))
           | None \<Rightarrow>
              (let records = to_records events lg actual;
                   new_stream_version = actual + of_nat (length events);
                   new_global_version = global + of_nat (length events) in
               case pebble_put_records kv j global 0 (px_batch d) records of
                 (b, Some e) \<Rightarrow> (d\<lparr>px_batch := b\<rparr>, Inl e)
               | (b, None) \<Rightarrow>
              (case batch_add kv b (KvSet (version_key_for lg) (be_uint64 new_stream_version)) of
                 (b1, Some e) \<Rightarrow> (d\<lparr>px_batch := b1\<rparr>, Inl (ErrWrap ''append in tx: could not add version to batch'' e))
               | (b1, None) \<Rightarrow>
              (case batch_add kv b1 (KvSet global_version_key (be_uint64 new_global_version)) of
                 (b2, Some e) \<Rightarrow> (d\<lparr>px_batch := b2\<rparr>, Inl (ErrWrap ''append in tx: could not add global version to batch'' e))
               | (b2, None) \<Rightarrow> (d\<lparr>px_batch := b2\<rparr>, Inr (new_stream_version, records))))))))))"

text \<open>A new batch; what the body adds to it is committed at once, or dropped.\<close>

definition pebble_within_tx :: "'s kv_db \<Rightarrow> ('s pebble_tx, 'r) within_tx" where
  "pebble_within_tx kv body d =
     (case body (d\<lparr>px_batch := []\<rparr>) of
        (_, Inl e) \<Rightarrow> (d, Inl e)
      | (d1, Inr r) \<Rightarrow>
         (case kv_commit kv (px_db d) (px_batch d1) of
            (s', Some e) \<Rightarrow> (d\<lparr>px_db := s'\<rparr>, Inl (ErrWrap ''within tx: commit batch'' e))
          | (s', None) \<Rightarrow> (d\<lparr>px_db := s'\<rparr>, Inr r)))"

definition pebble_append_events ::
    "gerr option \<Rightarrow> 's kv_db \<Rightarrow> 'x json_lib \<Rightarrow> 's pebble_tx \<Rightarrow> string \<Rightarrow> check \<Rightarrow> 'x raw list \<Rightarrow> 's pebble_tx \<times> (gerr + version)" where
  "pebble_append_events cx kv j d lg expected events =
     (case pebble_within_tx kv
        (\<lambda>d. case pebble_append_in_tx cx kv j d lg expected events of
           (d', Inl e) \<Rightarrow> (d', Inl e) | (d', Inr (v, _)) \<Rightarrow> (d', Inr v)) d of
        (d', Inl e) \<Rightarrow> (d', Inl (ErrWrap ''append events'' e))
      | (d', Inr v) \<Rightarrow> (d', Inr v))"

section \<open>Reading\<close>

fun pebble_read_loop :: "gerr option \<Rightarrow> 'x json_lib \<Rightarrow> string \<Rightarrow> gerr option \<Rightarrow> (string \<times> string) list \<Rightarrow> 'x records" where
  "pebble_read_loop cx j lg err [] =
     (case err of None \<Rightarrow> [] | Some e \<Rightarrow> [Inl (ErrWrap ''read events: iterator error'' e)])"
| "pebble_read_loop cx j lg err ((key, value) # kvs) =
     (case cx of
        Some e \<Rightarrow> [Inl e]
      | None \<Rightarrow>
         (case parse_event_key (jl_quote j) key of
            Inl e \<Rightarrow> [Inl (ErrWrap ''read events: could not parse event key'' e)]
          | Inr (_, v) \<Rightarrow>
             (case jl_event_of j value of
                Inl e \<Rightarrow> [Inl (ErrWrap ''read events: could not unmarshal event data'' e)]
              | Inr (name, data) \<Rightarrow> Inr (new_record v lg name data) # pebble_read_loop cx j lg err kvs)))"

definition pebble_read_events ::
    "gerr option \<Rightarrow> 's kv_db \<Rightarrow> 'x json_lib \<Rightarrow> 's pebble_tx \<Rightarrow> string \<Rightarrow> selector \<Rightarrow> 'x records" where
  "pebble_read_events cx kv j d lg sel =
     (let upper = (if sel_to sel > 0 then Some (event_key_for lg (sel_to sel + 1)) else prefix_end_key (event_key_prefix_for lg)) in
      case kv_iter kv (px_db d) (event_key_for lg (sel_from sel)) upper of
        Inl e \<Rightarrow> [Inl (ErrWrap ''read events: create iterator'' e)]
      | Inr (kvs, err) \<Rightarrow> pebble_read_loop cx j lg err kvs)"

fun pebble_read_all_loop :: "gerr option \<Rightarrow> 'x json_lib \<Rightarrow> gerr option \<Rightarrow> (string \<times> string) list \<Rightarrow> (gerr + 'x grec) list" where
  "pebble_read_all_loop cx j err [] =
     (case err of None \<Rightarrow> [] | Some e \<Rightarrow> [Inl (ErrWrap ''read all events: iterator error'' e)])"
| "pebble_read_all_loop cx j err ((key, value) # kvs) =
     (case cx of
        Some e \<Rightarrow> [Inl e]
      | None \<Rightarrow>
         (case parse_global_event_key (jl_quote j) key of
            Inl e \<Rightarrow> [Inl (ErrWrap ''read all events: could not parse global event key'' e)]
          | Inr g \<Rightarrow>
             (case jl_global_of j value of
                Inl e \<Rightarrow> [Inl (ErrWrap ''read all events: could not unmarshal global event data'' e)]
              | Inr (lg, v, name, data) \<Rightarrow> Inr (new_global_record g v lg name data) # pebble_read_all_loop cx j err kvs)))"

definition pebble_read_all_events ::
    "gerr option \<Rightarrow> 's kv_db \<Rightarrow> 'x json_lib \<Rightarrow> 's pebble_tx \<Rightarrow> selector \<Rightarrow> (gerr + 'x grec) list" where
  "pebble_read_all_events cx kv j d sel =
     (let upper = (if sel_to sel > 0 then Some (global_event_key_for (sel_to sel + 1)) else prefix_end_key global_event_key_prefix) in
      case kv_iter kv (px_db d) (global_event_key_for (sel_from sel)) upper of
        Inl e \<Rightarrow> [Inl (ErrWrap ''read all events: create iterator'' e)]
      | Inr (kvs, err) \<Rightarrow> pebble_read_all_loop cx j err kvs)"

section \<open>Deleting\<close>

text \<open>The scan of the global index, which adds the deletions of one log to the batch.\<close>

fun pebble_delete_loop ::
    "gerr option \<Rightarrow> 's kv_db \<Rightarrow> 'x json_lib \<Rightarrow> string \<Rightarrow> version \<Rightarrow> gerr option \<Rightarrow> kv_op list \<Rightarrow> (string \<times> string) list
      \<Rightarrow> gerr + kv_op list" where
  "pebble_delete_loop cx kv j lg v err b [] =
     (case err of
        None \<Rightarrow> Inr b
      | Some e \<Rightarrow> Inl (ErrWrap (''dangerously delete: global events iterator error for log '' @ quote1 lg) e))"
| "pebble_delete_loop cx kv j lg v err b ((key, value) # kvs) =
     (case cx of
        Some e \<Rightarrow> Inl e
      | None \<Rightarrow>
         (case jl_global_of j value of
            Inl e \<Rightarrow> Inl (ErrWrap (''dangerously delete: unmarshal global event data for key '' @ jl_quote j key) e)
          | Inr (l, w, _, _) \<Rightarrow>
             if l = lg \<and> w \<le> v then
               (case batch_add kv b (KvDelete key) of
                  (_, Some e) \<Rightarrow> Inl (ErrWrap (''dangerously delete: add global event key '' @ jl_quote j key @ '' to batch'') e)
                | (b', None) \<Rightarrow> pebble_delete_loop cx kv j lg v err b' kvs)
             else pebble_delete_loop cx kv j lg v err b kvs))"

definition pebble_delete_up_to ::
    "gerr option \<Rightarrow> 's kv_db \<Rightarrow> 'x json_lib \<Rightarrow> 's pebble_tx \<Rightarrow> string \<Rightarrow> version \<Rightarrow> 's pebble_tx \<times> gerr option" where
  "pebble_delete_up_to cx kv j d lg v =
     (case kv_iter kv (px_db d) global_event_key_prefix (prefix_end_key global_event_key_prefix) of
        Inl e \<Rightarrow> (d, Some (ErrWrap (''dangerously delete: create global events iterator for log '' @ quote1 lg) e))
      | Inr (kvs, err) \<Rightarrow>
         (case pebble_delete_loop cx kv j lg v err [] kvs of
            Inl e \<Rightarrow> (d, Some e)
          | Inr b \<Rightarrow>
             (case batch_add kv b (KvDeleteRange (event_key_for lg 1) (event_key_for lg (v + 1))) of
                (_, Some e) \<Rightarrow> (d, Some (ErrWrap (''dangerously delete: add event range to batch for log '' @ quote1 lg) e))
              | (b', None) \<Rightarrow>
                 (case kv_commit kv (px_db d) b' of
                    (s', Some e) \<Rightarrow> (d\<lparr>px_db := s'\<rparr>, Some (ErrWrap (''dangerously delete: commit batch for log '' @ quote1 lg) e))
                  | (s', None) \<Rightarrow> (d\<lparr>px_db := s'\<rparr>, None)))))"

end
