(* ===== verification/DF_PebbleStore.thy ===== *)
theory DF_PebbleStore
  imports DF_Pebble DF_Serde "HOL-Library.Finite_Map"
begin

text \<open>
  What the keys of a Pebble event log hold, and that appending, reading and deleting keep it: the stream of every log, the
  index of all events in commit order, and the two kinds of counters. \<open>lo\<close> counts the events of a log that were deleted.
\<close>

section \<open>What the libraries promise\<close>

fun kv_apply :: "kv_op \<Rightarrow> (string \<rightharpoonup> string) \<Rightarrow> (string \<rightharpoonup> string)" where
  "kv_apply (KvSet k v) m = m(k \<mapsto> v)"
| "kv_apply (KvDelete k) m = m(k := None)"
| "kv_apply (KvDeleteRange a b) m = (\<lambda>k. if a \<le> k \<and> k < b then None else m k)"

text \<open>An ordered store without failures: \<open>sem\<close> is what it maps keys to.\<close>

definition ordered_store :: "'s kv_db \<Rightarrow> ('s \<Rightarrow> (string \<rightharpoonup> string)) \<Rightarrow> bool" where
  "ordered_store kv sem \<longleftrightarrow>
     (\<forall>s k. kv_get kv s k = Inr (sem s k)) \<and>
     (\<forall>b op. kv_refuses kv b op = None) \<and>
     (\<forall>s ops. \<exists>s'. kv_commit kv s ops = (s', None) \<and> sem s' = fold kv_apply ops (sem s)) \<and>
     (\<forall>s lo hi. \<exists>l. kv_iter kv s lo hi = Inr (l, None) \<and> sorted_wrt (<) (map fst l) \<and>
        set l = {(k, v). sem s k = Some v \<and> lo \<le> k \<and> (\<forall>h. hi = Some h \<longrightarrow> k < h)})"

definition valid_utf8 :: "string \<Rightarrow> bool" where
  "valid_utf8 s \<longleftrightarrow> concat (map utf8_encode (utf8_decode s)) = s"

text \<open>Decoding gives back what was encoded; \<open>encoding/json\<close> replaces bytes that are not UTF-8.\<close>

definition json_faithful :: "'x json_lib \<Rightarrow> bool" where
  "json_faithful j \<longleftrightarrow>
     (\<forall>name data. valid_utf8 name \<longrightarrow> (\<exists>b. jl_event j name data = Inr b \<and> jl_event_of j b = Inr (name, data))) \<and>
     (\<forall>lg v name data. valid_utf8 lg \<and> valid_utf8 name \<longrightarrow>
        (\<exists>b. jl_global j lg v name data = Inr b \<and> jl_global_of j b = Inr (lg, v, name, data)))"

definition event_value :: "'x json_lib \<Rightarrow> 'x raw \<Rightarrow> string" where
  "event_value j e = projr (jl_event j (raw_name e) (raw_data e))"

definition global_value :: "'x json_lib \<Rightarrow> 'x rec \<Rightarrow> string" where
  "global_value j r = projr (jl_global j (rec_log r) (rec_version r) (raw_name (rec_raw r)) (raw_data (rec_raw r)))"

lemma event_value_ok:
  "json_faithful j \<Longrightarrow> valid_utf8 (raw_name e) \<Longrightarrow>
    jl_event j (raw_name e) (raw_data e) = Inr (event_value j e) \<and> jl_event_of j (event_value j e) = Inr (raw_name e, raw_data e)"
proof -
  assume "json_faithful j" and "valid_utf8 (raw_name e)"
  then obtain b where "jl_event j (raw_name e) (raw_data e) = Inr b" "jl_event_of j b = Inr (raw_name e, raw_data e)"
    unfolding json_faithful_def by blast
  then show ?thesis by (simp add: event_value_def)
qed

lemma global_value_ok:
  "json_faithful j \<Longrightarrow> valid_utf8 (rec_log r) \<Longrightarrow> valid_utf8 (raw_name (rec_raw r)) \<Longrightarrow>
    jl_global j (rec_log r) (rec_version r) (raw_name (rec_raw r)) (raw_data (rec_raw r)) = Inr (global_value j r) \<and>
    jl_global_of j (global_value j r) = Inr (rec_log r, rec_version r, raw_name (rec_raw r), raw_data (rec_raw r))"
proof -
  assume "json_faithful j" and "valid_utf8 (rec_log r)" and "valid_utf8 (raw_name (rec_raw r))"
  then obtain b where "jl_global j (rec_log r) (rec_version r) (raw_name (rec_raw r)) (raw_data (rec_raw r)) = Inr b"
    "jl_global_of j b = Inr (rec_log r, rec_version r, raw_name (rec_raw r), raw_data (rec_raw r))"
    unfolding json_faithful_def by blast
  then show ?thesis by (simp add: global_value_def)
qed

section \<open>What the store holds\<close>

definition holds_events :: "'x json_lib \<Rightarrow> (string \<Rightarrow> nat) \<Rightarrow> (string \<Rightarrow> 'x raw list) \<Rightarrow> (string \<rightharpoonup> string) \<Rightarrow> bool" where
  "holds_events j lo S m \<longleftrightarrow>
     (\<forall>lg v. m (event_key_for lg v) =
        (if lo lg < unat v \<and> unat v \<le> length (S lg) then Some (event_value j (S lg ! (unat v - 1))) else None)) \<and>
     (\<forall>k. m k \<noteq> None \<and> has_prefix k event_key_prefix \<longrightarrow> (\<exists>lg v. k = event_key_for lg v))"

definition kept :: "(string \<Rightarrow> nat) \<Rightarrow> 'x rec \<Rightarrow> bool" where
  "kept lo r \<longleftrightarrow> lo (rec_log r) < unat (rec_version r)"

definition holds_global :: "'x json_lib \<Rightarrow> (string \<Rightarrow> nat) \<Rightarrow> 'x rec list \<Rightarrow> (string \<rightharpoonup> string) \<Rightarrow> bool" where
  "holds_global j lo G m \<longleftrightarrow>
     (\<forall>v. m (global_event_key_for v) =
        (if 0 < unat v \<and> unat v \<le> length G \<and> kept lo (G ! (unat v - 1)) then Some (global_value j (G ! (unat v - 1))) else None)) \<and>
     (\<forall>k. m k \<noteq> None \<and> has_prefix k global_event_key_prefix \<longrightarrow> (\<exists>v. k = global_event_key_for v))"

definition counter_value :: "nat \<Rightarrow> string option" where
  "counter_value n = (if n = 0 then None else Some (be_uint64 (of_nat n)))"

definition holds_counters :: "(string \<Rightarrow> 'x raw list) \<Rightarrow> 'x rec list \<Rightarrow> (string \<rightharpoonup> string) \<Rightarrow> bool" where
  "holds_counters S G m \<longleftrightarrow>
     (\<forall>lg. m (version_key_for lg) = counter_value (length (S lg))) \<and> m global_version_key = counter_value (length G)"

text \<open>
  The global list has room for its versions, covers the streams, and names and identifiers are UTF-8.
\<close>

definition well_named :: "(string \<Rightarrow> 'x raw list) \<Rightarrow> 'x rec list \<Rightarrow> bool" where
  "well_named S G \<longleftrightarrow>
     length G < 2 ^ 64 \<and> (\<forall>lg. length (S lg) \<le> length G) \<and>
     (\<forall>lg. \<forall>e \<in> set (S lg). valid_utf8 (raw_name e)) \<and>
     (\<forall>r \<in> set G. valid_utf8 (rec_log r) \<and> valid_utf8 (raw_name (rec_raw r)) \<and> unat (rec_version r) \<le> length (S (rec_log r)))"

definition pebble_holds ::
    "'x json_lib \<Rightarrow> (string \<Rightarrow> nat) \<Rightarrow> (string \<Rightarrow> 'x raw list) \<Rightarrow> 'x rec list \<Rightarrow> (string \<rightharpoonup> string) \<Rightarrow> bool" where
  "pebble_holds j lo S G m \<longleftrightarrow> holds_events j lo S m \<and> holds_global j lo G m \<and> holds_counters S G m \<and> well_named S G \<and>
     (\<forall>lg. lo lg \<le> length (S lg))"

lemma empty_holds: "pebble_holds j (\<lambda>_. 0) (\<lambda>_. []) [] Map.empty"
  by (auto simp: pebble_holds_def holds_events_def holds_global_def holds_counters_def counter_value_def well_named_def)

lemma key_has_prefix [simp]:
  "has_prefix (event_key_for lg v) event_key_prefix" "has_prefix (global_event_key_for v) global_event_key_prefix"
  "\<not> has_prefix (event_key_for lg v) global_event_key_prefix" "\<not> has_prefix (global_event_key_for v) event_key_prefix"
  "\<not> has_prefix (version_key_for lg) event_key_prefix" "\<not> has_prefix (version_key_for lg) global_event_key_prefix"
  "\<not> has_prefix global_version_key event_key_prefix" "\<not> has_prefix global_version_key global_event_key_prefix"
  by (simp_all add: has_prefix_def event_key_for_def global_event_key_for_def version_key_for_def key_prefix_defs)

section \<open>Appending\<close>

definition extended :: "(string \<Rightarrow> 'x raw list) \<Rightarrow> string \<Rightarrow> 'x raw list \<Rightarrow> string \<Rightarrow> 'x raw list" where
  "extended S lg es = S(lg := S lg @ es)"

text \<open>The batch of the loop sets, for each record, its event key and its global key.\<close>

definition record_sets :: "'x json_lib \<Rightarrow> version \<Rightarrow> nat \<Rightarrow> 'x rec \<Rightarrow> kv_op list" where
  "record_sets j g i r =
     [KvSet (event_key_for (rec_log r) (rec_version r)) (event_value j (rec_raw r)),
      KvSet (global_event_key_for (g + of_nat i + 1)) (global_value j r)]"

lemma put_records:
  assumes "\<forall>b op. kv_refuses kv b op = None" and "json_faithful j"
    and "\<forall>r \<in> set rs. valid_utf8 (rec_log r) \<and> valid_utf8 (raw_name (rec_raw r))"
  shows "pebble_put_records kv j g i b rs = (b @ concat (map (\<lambda>(k, r). record_sets j g k r) (zip [i..<i + length rs] rs)), None)"
  using assms(3)
proof (induction rs arbitrary: i b)
  case (Cons r rs)
  note ok = event_value_ok [OF assms(2), of "rec_raw r"] global_value_ok [OF assms(2), of r]
  have idx: "[i..<i + length (r # rs)] = i # [Suc i..<Suc i + length rs]" by (simp add: upt_conv_Cons del: upt_Suc)
  show ?case
    using Cons ok unfolding idx by (simp add: batch_add_def assms(1) record_sets_def Let_def del: upt_Suc)
qed simp

lemma unat_of_nat_le: "unat (of_nat n :: u64) \<le> n"
  by (simp add: unat_of_nat)

lemma unat_Suc_of_nat: "n + 1 < 2 ^ 64 \<Longrightarrow> unat (of_nat n + 1 :: u64) = Suc n"
  using unat_of_nat_u64 [of "Suc n"] by (simp add: add.commute)

lemma nth_snoc: "i \<le> length xs \<Longrightarrow> (xs @ [x]) ! i = (if i = length xs then x else xs ! i)"
  by (auto simp: nth_append)

text \<open>One record extends its stream and the index.\<close>

lemma put_one:
  assumes ev: "holds_events j lo S m" and gl: "holds_global j lo G m"
    and r: "r = new_record (of_nat (length (S lg)) + 1) lg (raw_name e) (raw_data e)"
    and room: "length (S lg) + 1 < 2 ^ 64" "length G + 1 < 2 ^ 64" and lo: "lo lg \<le> length (S lg)"
    and m': "m' = m(event_key_for lg (rec_version r) \<mapsto> event_value j e, global_event_key_for (of_nat (length G) + 1) \<mapsto> global_value j r)"
  shows "holds_events j lo (extended S lg [e]) m'" and "holds_global j lo (G @ [r]) m'"
proof -
  let ?n = "of_nat (length (S lg)) + 1 :: u64" and ?g = "of_nat (length G) + 1 :: u64"
  have n: "unat ?n = Suc (length (S lg))" and g: "unat ?g = Suc (length G)"
    using room by (simp_all only: unat_Suc_of_nat)
  have inj: "v = ?n \<longleftrightarrow> unat v = Suc (length (S lg))" "v = ?g \<longleftrightarrow> unat v = Suc (length G)" for v
    by (simp_all only: word_unat_eq_iff n g)
  have k: "kept lo r" using lo by (simp add: kept_def r n)
  have "m' (event_key_for l v) =
      (if lo l < unat v \<and> unat v \<le> length (extended S lg [e] l) then Some (event_value j (extended S lg [e] l ! (unat v - 1))) else None)" for l v
  proof (cases "l = lg \<and> v = ?n")
    case True
    then have "m' (event_key_for l v) = Some (event_value j e)" by (simp add: m' r)
    with True n lo show ?thesis by (simp add: extended_def)
  next
    case False
    then have "m' (event_key_for l v) = m (event_key_for l v)" by (auto simp: m' r)
    moreover have "unat v \<noteq> Suc (length (S lg))" if "l = lg" using False inj(1) [of v] that by simp
    ultimately show ?thesis using ev by (auto simp: holds_events_def extended_def nth_append)
  qed
  moreover have "\<exists>l v. k = event_key_for l v" if "m' k \<noteq> None" "has_prefix k event_key_prefix" for k
    using that ev by (auto simp: m' holds_events_def split: if_splits)
  ultimately show "holds_events j lo (extended S lg [e]) m'" unfolding holds_events_def by blast
  have "m' (global_event_key_for v) =
      (if 0 < unat v \<and> unat v \<le> length (G @ [r]) \<and> kept lo ((G @ [r]) ! (unat v - 1)) then Some (global_value j ((G @ [r]) ! (unat v - 1))) else None)" for v
  proof (cases "v = ?g")
    case True
    then have "m' (global_event_key_for v) = Some (global_value j r)" by (simp add: m')
    with True g k show ?thesis by simp
  next
    case False
    then have "m' (global_event_key_for v) = m (global_event_key_for v)" by (simp add: m')
    moreover have "unat v \<noteq> Suc (length G)" using False inj(2) [of v] by simp
    ultimately show ?thesis using gl by (auto simp: holds_global_def nth_append)
  qed
  moreover have "\<exists>v. k = global_event_key_for v" if "m' k \<noteq> None" "has_prefix k global_event_key_prefix" for k
    using that gl by (auto simp: m' holds_global_def split: if_splits)
  ultimately show "holds_global j lo (G @ [r]) m'" unfolding holds_global_def by blast
qed

lemma extended_simps [simp]:
  "length (extended S lg es lg') = length (S lg') + (if lg' = lg then length es else 0)"
  "extended (extended S lg es) lg es' = extended S lg (es @ es')" "extended S lg [] = S"
  by (simp_all add: extended_def)

definition put_ops :: "'x json_lib \<Rightarrow> version \<Rightarrow> nat \<Rightarrow> 'x rec list \<Rightarrow> kv_op list" where
  "put_ops j g i rs = concat (map (\<lambda>(k, r). record_sets j g k r) (zip [i..<i + length rs] rs))"

lemma put_ops_Cons: "put_ops j g i (r # rs) = record_sets j g i r @ put_ops j g (Suc i) rs"
proof -
  have "[i..<i + length (r # rs)] = i # [Suc i..<Suc i + length rs]" by (simp add: upt_conv_Cons del: upt_Suc)
  then show ?thesis by (simp add: put_ops_def del: upt_Suc)
qed

lemma put_ops_counters: "fold kv_apply (put_ops j g i rs) m (version_key_for lg) = m (version_key_for lg) \<and>
    fold kv_apply (put_ops j g i rs) m global_version_key = m global_version_key"
proof (induction rs arbitrary: i m)
  case Nil
  then show ?case by (simp add: put_ops_def)
next
  case (Cons r rs)
  then show ?case by (simp add: put_ops_Cons record_sets_def)
qed

lemma put_all:
  assumes "holds_events j lo S m" and "holds_global j lo G m" and "g + of_nat i = of_nat (length G)"
    and "length (S lg) + length es < 2 ^ 64" and "length G + length es < 2 ^ 64" and "lo lg \<le> length (S lg)"
    and "m' = fold kv_apply (put_ops j g i (to_records es lg (of_nat (length (S lg))))) m"
  shows "holds_events j lo (extended S lg es) m' \<and> holds_global j lo (G @ to_records es lg (of_nat (length (S lg)))) m'"
  using assms
proof (induction es arbitrary: S G m i)
  case Nil
  then show ?case by (simp add: put_ops_def)
next
  case (Cons e es)
  define r where "r = new_record (of_nat (length (S lg)) + 1) lg (raw_name e) (raw_data e)"
  define m1 where "m1 = m(event_key_for lg (rec_version r) \<mapsto> event_value j e, global_event_key_for (of_nat (length G) + 1) \<mapsto> global_value j r)"
  have room: "length (S lg) + 1 < 2 ^ 64" "length G + 1 < 2 ^ 64" using Cons.prems(4,5) by simp_all
  note one = put_one [OF Cons.prems(1,2) r_def room Cons.prems(6) m1_def]
  have "g + of_nat (Suc i) = of_nat (length (G @ [r]))" using Cons.prems(3) by (simp add: algebra_simps)
  moreover have rec: "to_records (e # es) lg (of_nat (length (S lg))) = r # to_records es lg (of_nat (length (extended S lg [e] lg)))"
    by (simp add: to_records_Cons r_def algebra_simps)
  have "kv_apply (KvSet (global_event_key_for (g + of_nat i + 1)) (global_value j r)) (kv_apply (KvSet (event_key_for (rec_log r) (rec_version r)) (event_value j (rec_raw r))) m) = m1"
    by (simp add: m1_def r_def Cons.prems(3))
  then have "m' = fold kv_apply (put_ops j g (Suc i) (to_records es lg (of_nat (length (extended S lg [e] lg))))) m1"
    using Cons.prems(7) unfolding rec put_ops_Cons record_sets_def by simp
  moreover have "length (extended S lg [e] lg) + length es < 2 ^ 64" "length (G @ [r]) + length es < 2 ^ 64"
    "lo lg \<le> length (extended S lg [e] lg)"
    using Cons.prems(4-6) by simp_all
  ultimately have "holds_events j lo (extended (extended S lg [e]) lg es) m' \<and>
      holds_global j lo ((G @ [r]) @ to_records es lg (of_nat (length (extended S lg [e] lg)))) m'"
    using Cons.IH [OF one, of "Suc i"] by blast
  then show ?case unfolding rec by simp
qed

text \<open>The batch of one append, at the versions that are read.\<close>

definition append_ops :: "'x json_lib \<Rightarrow> nat \<Rightarrow> nat \<Rightarrow> string \<Rightarrow> 'x raw list \<Rightarrow> kv_op list" where
  "append_ops j n g lg es =
     put_ops j (of_nat g) 0 (to_records es lg (of_nat n)) @
     [KvSet (version_key_for lg) (be_uint64 (of_nat (n + length es))), KvSet global_version_key (be_uint64 (of_nat (g + length es)))]"

lemma read_counter_value:
  "(case counter_value n of None \<Rightarrow> Inr 0 | Some v \<Rightarrow> read_counter v) = Inr (of_nat n)"
  by (simp add: counter_value_def read_counter_def)

lemma counters_read:
  assumes "ordered_store kv sem" and "holds_counters S G (sem s)"
  shows "pebble_log_version kv s (version_key_for lg) = Inr (of_nat (length (S lg)))"
    and "pebble_global_version kv s = Inr (of_nat (length G))"
  using assms read_counter_value [of "length (S lg)"] read_counter_value [of "length G"]
  by (auto simp: ordered_store_def holds_counters_def pebble_log_version_def pebble_global_version_def split: option.splits)

lemma append_in_tx_ok:
  assumes st: "ordered_store kv sem" and j: "json_faithful j" and hd: "holds_counters S G (sem (px_db d))"
    and es: "es \<noteq> []" and nm: "valid_utf8 lg" "\<forall>e \<in> set es. valid_utf8 (raw_name e)"
  shows "pebble_append_in_tx None kv j d lg (CheckExact (of_nat (length (S lg)))) es =
    (d\<lparr>px_batch := px_batch d @ append_ops j (length (S lg)) (length G) lg es\<rparr>,
     Inr (of_nat (length (S lg) + length es), to_records es lg (of_nat (length (S lg)))))"
proof -
  have acc: "\<forall>b op. kv_refuses kv b op = None" using st by (simp add: ordered_store_def)
  have "\<forall>r \<in> set (to_records es lg x). valid_utf8 (rec_log r) \<and> valid_utf8 (raw_name (rec_raw r))" for x
    using nm by (auto simp: to_records_def)
  note put = put_records [OF acc j this]
  show ?thesis
    using es by (simp add: pebble_append_in_tx_def counters_read [OF st hd] Let_def put batch_add_def acc append_ops_def put_ops_def)
qed

lemma append_in_tx_conflict:
  assumes st: "ordered_store kv sem" and hd: "holds_counters S G (sem (px_db d))" and es: "es \<noteq> []"
    and x: "x \<noteq> of_nat (length (S lg))"
  shows "pebble_append_in_tx None kv j d lg (CheckExact x) es =
    (d, Inl (ErrWrap ''append in tx'' (ErrConflict x (of_nat (length (S lg))))))"
  using es x by (simp add: pebble_append_in_tx_def counters_read [OF st hd] check_exact_def)

lemma apply_append_ops:
  assumes h: "pebble_holds j lo S G m" and nm: "valid_utf8 lg" "\<forall>e \<in> set es. valid_utf8 (raw_name e)"
    and es: "es \<noteq> []" and room: "length G + length es < 2 ^ 64"
  shows "pebble_holds j lo (extended S lg es) (G @ to_records es lg (of_nat (length (S lg))))
    (fold kv_apply (append_ops j (length (S lg)) (length G) lg es) m)" (is "pebble_holds j lo ?S ?G ?m")
proof -
  let ?put = "fold kv_apply (put_ops j (of_nat (length G)) 0 (to_records es lg (of_nat (length (S lg))))) m"
  have m: "?m = ?put(version_key_for lg \<mapsto> be_uint64 (of_nat (length (S lg) + length es)),
      global_version_key \<mapsto> be_uint64 (of_nat (length G + length es)))"
    by (simp add: append_ops_def)
  have h': "holds_events j lo S m" "holds_global j lo G m" "holds_counters S G m" "well_named S G" "\<And>lg. lo lg \<le> length (S lg)"
    using h by (simp_all add: pebble_holds_def)
  have len: "length (S lg) \<le> length G" using h'(4) by (simp add: well_named_def)
  have "holds_events j lo ?S ?put \<and> holds_global j lo ?G ?put"
    using put_all [OF h'(1,2) _ _ room h'(5) refl, of "of_nat (length G)" 0] room len by simp
  then have "holds_events j lo ?S ?m" "holds_global j lo ?G ?m"
    unfolding m holds_events_def holds_global_def by (auto split: if_splits)
  moreover have "holds_counters ?S ?G ?m"
    using es put_ops_counters [of j "of_nat (length G)" 0 "to_records es lg (of_nat (length (S lg)))" m] h'(3)
    by (auto simp: m holds_counters_def counter_value_def)
  moreover have "\<forall>r \<in> set ?G. valid_utf8 (rec_log r) \<and> valid_utf8 (raw_name (rec_raw r)) \<and> unat (rec_version r) \<le> length (?S (rec_log r))"
  proof
    fix r assume "r \<in> set ?G"
    then consider "r \<in> set G" | i where "i < length es" "r = to_records es lg (of_nat (length (S lg))) ! i"
      by (auto simp: in_set_conv_nth)
    then show "valid_utf8 (rec_log r) \<and> valid_utf8 (raw_name (rec_raw r)) \<and> unat (rec_version r) \<le> length (?S (rec_log r))"
    proof cases
      case 1
      with h'(4) show ?thesis by (auto simp: well_named_def intro: le_trans)
    next
      case 2
      have "unat (of_nat (length (S lg) + (i + 1)) :: u64) \<le> length (S lg) + (i + 1)" by (rule unat_of_nat_le)
      moreover have "rec_version r = of_nat (length (S lg) + (i + 1))" using 2 by (simp add: to_records_nth)
      ultimately have "unat (rec_version r) \<le> length (S lg) + length es" using 2(1) by (simp only:)
      with 2 nm show ?thesis by (simp add: to_records_nth)
    qed
  qed
  then have "well_named ?S ?G"
    using h'(4) nm room by (auto simp: well_named_def extended_def le_SucI trans_le_add1 split: if_splits)
  ultimately show ?thesis using h'(5) by (simp add: pebble_holds_def trans_le_add1)
qed

lemma pebble_append_ok:
  assumes st: "ordered_store kv sem" and j: "json_faithful j" and h: "pebble_holds j lo S G (sem (px_db d))"
    and es: "es \<noteq> []" and nm: "valid_utf8 lg" "\<forall>e \<in> set es. valid_utf8 (raw_name e)" and room: "length G + length es < 2 ^ 64"
  obtains s' where "pebble_append_events None kv j d lg (CheckExact (of_nat (length (S lg)))) es =
      (d\<lparr>px_db := s'\<rparr>, Inr (of_nat (length (S lg) + length es)))"
    and "pebble_holds j lo (extended S lg es) (G @ to_records es lg (of_nat (length (S lg)))) (sem s')"
proof -
  let ?ops = "append_ops j (length (S lg)) (length G) lg es"
  have hc: "holds_counters S G (sem (px_db (d\<lparr>px_batch := []\<rparr>)))" using h by (simp add: pebble_holds_def)
  obtain s' where s': "kv_commit kv (px_db d) ?ops = (s', None)" "sem s' = fold kv_apply ?ops (sem (px_db d))"
    using st unfolding ordered_store_def by blast
  have "pebble_append_events None kv j d lg (CheckExact (of_nat (length (S lg)))) es =
      (d\<lparr>px_db := s'\<rparr>, Inr (of_nat (length (S lg) + length es)))"
    using append_in_tx_ok [OF st j hc es nm] s'(1) by (simp add: pebble_append_events_def pebble_within_tx_def)
  with that apply_append_ops [OF h nm es room] s'(2) show thesis by simp
qed

lemma pebble_append_conflict:
  assumes st: "ordered_store kv sem" and h: "pebble_holds j lo S G (sem (px_db d))" and es: "es \<noteq> []"
    and x: "x \<noteq> of_nat (length (S lg))"
  shows "pebble_append_events None kv j d lg (CheckExact x) es =
    (d, Inl (ErrWrap ''append events'' (ErrWrap ''append in tx'' (ErrConflict x (of_nat (length (S lg)))))))"
proof -
  have hc: "holds_counters S G (sem (px_db (d\<lparr>px_batch := []\<rparr>)))" using h by (simp add: pebble_holds_def)
  show ?thesis using append_in_tx_conflict [OF st hc es x] by (simp add: pebble_append_events_def pebble_within_tx_def)
qed

section \<open>Reading\<close>

lemma listing_unique:
  assumes "sorted_wrt (<) (map fst xs)" and "sorted_wrt (<) (map fst ys)" and "set xs = set ys"
  shows "xs = (ys :: (string \<times> 'b) list)"
proof -
  have "sorted (map fst xs)" "distinct (map fst xs)" "sorted (map fst ys)" "distinct (map fst ys)"
    using assms(1,2) by (auto simp: strict_sorted_iff)
  moreover have "inj_on fst (set xs \<union> set ys)" using assms(3) calculation(2) by (simp add: distinct_map)
  ultimately show ?thesis using assms(3) by (intro map_sorted_distinct_set_unique)
qed

text \<open>Entries at consecutive versions, in the order of a scan.\<close>

lemma iter_indexed:
  assumes st: "ordered_store kv sem" and mono: "\<And>v w. K v < K w \<longleftrightarrow> v < w" and n: "n < 2 ^ 64"
    and vals: "\<And>v :: u64. sem s (K v) = (if 0 < unat v \<and> unat v \<le> n \<and> Q (unat v - 1) then Some (V (unat v - 1)) else None)"
    and bounds: "\<And>v. (lo \<le> K v \<and> (\<forall>h. hi = Some h \<longrightarrow> K v < h)) \<longleftrightarrow> P v"
    and only: "\<And>k x. sem s k = Some x \<Longrightarrow> lo \<le> k \<Longrightarrow> \<forall>h. hi = Some h \<longrightarrow> k < h \<Longrightarrow> \<exists>v. k = K v"
  shows "kv_iter kv s lo hi = Inr (map (\<lambda>i. (K (of_nat (Suc i)), V i)) (filter (\<lambda>i. Q i \<and> P (of_nat (Suc i))) [0..<n]), None)"
proof -
  let ?I = "filter (\<lambda>i. Q i \<and> P (of_nat (Suc i))) [0..<n]"
  let ?L = "map (\<lambda>i. (K (of_nat (Suc i)), V i)) ?I"
  have suc: "unat (of_nat (Suc i) :: u64) = Suc i" if "i < n" for i using that n by (intro unat_of_nat_u64) simp
  obtain l where l: "kv_iter kv s lo hi = Inr (l, None)" "sorted_wrt (<) (map fst l)"
    "set l = {(k, v). sem s k = Some v \<and> lo \<le> k \<and> (\<forall>h. hi = Some h \<longrightarrow> k < h)}"
    using st unfolding ordered_store_def by blast
  have "sorted_wrt (<) ?I" by (intro sorted_wrt_filter) simp
  then have "sorted_wrt (\<lambda>a b. K (of_nat (Suc a)) < K (of_nat (Suc b))) ?I"
    by (rule sorted_wrt_mono_rel [rotated]) (auto simp: mono word_less_nat_alt suc simp del: of_nat_Suc)
  then have "sorted_wrt (<) (map fst ?L)" by (simp add: sorted_wrt_map)
  moreover have "set l = set ?L"
  proof (intro equalityI subsetI)
    fix p assume "p \<in> set l"
    then obtain k x where p: "p = (k, x)" "sem s k = Some x" "lo \<le> k" "\<forall>h. hi = Some h \<longrightarrow> k < h" unfolding l(3) by blast
    then obtain v where k: "k = K v" using only by blast
    with p(2) vals [of v] have v: "0 < unat v" "unat v \<le> n" "Q (unat v - 1)" "x = V (unat v - 1)" by (auto split: if_splits)
    have "of_nat (Suc (unat v - 1)) = v" using v(1) by simp
    moreover have "P v" using bounds [of v] p(3,4) k by blast
    ultimately have "unat v - 1 \<in> set ?I" "p = (K (of_nat (Suc (unat v - 1))), V (unat v - 1))" using v k p(1) by auto
    then show "p \<in> set ?L" by auto
  next
    fix p assume "p \<in> set ?L"
    then obtain i where i: "i < n" "Q i" "P (of_nat (Suc i))" "p = (K (of_nat (Suc i)), V i)" by auto
    with bounds [of "of_nat (Suc i)"] vals [of "of_nat (Suc i)"] suc [OF i(1)] show "p \<in> set l"
      unfolding l(3) by (auto simp del: of_nat_Suc)
  qed
  ultimately have "l = ?L" by (rule listing_unique [OF l(2)])
  with l(1) show ?thesis by simp
qed

lemma le_to_iff: "(t :: u64) \<noteq> - 1 \<Longrightarrow> v < t + 1 \<longleftrightarrow> v \<le> t"
proof -
  assume "t \<noteq> - 1"
  then have "1 + t \<noteq> 0" by (metis add.commute eq_neg_iff_add_eq_0)
  then have "unat (t + 1) = Suc (unat t)" by (metis add.commute unatSuc)
  then show ?thesis by (auto simp: word_less_nat_alt word_le_nat_alt)
qed

definition event_upper :: "string \<Rightarrow> selector \<Rightarrow> string option" where
  "event_upper lg sel =
     (if sel_to sel > 0 then Some (event_key_for lg (sel_to sel + 1)) else prefix_end_key (event_key_prefix_for lg))"

definition global_upper :: "selector \<Rightarrow> string option" where
  "global_upper sel =
     (if sel_to sel > 0 then Some (global_event_key_for (sel_to sel + 1)) else prefix_end_key global_event_key_prefix)"

lemma event_bounds:
  assumes "sel_to sel \<noteq> - 1"
  shows "(event_key_for lg (sel_from sel) \<le> event_key_for lg v \<and> (\<forall>h. event_upper lg sel = Some h \<longrightarrow> event_key_for lg v < h)) \<longleftrightarrow> in_range sel v"
proof -
  have "event_key_for lg v < event_key_prefix @ lg @ ''0''" by (simp add: event_key_for_def less_char_def)
  moreover have "event_key_for lg (sel_from sel) \<le> event_key_for lg v \<longleftrightarrow> sel_from sel \<le> v" by (simp add: event_key_for_def)
  ultimately show ?thesis
    using le_to_iff [OF assms, of v] by (auto simp: event_upper_def prefix_end_events in_range_def word_gt_0)
qed

lemma global_bounds:
  assumes "sel_to sel \<noteq> - 1"
  shows "(global_event_key_for (sel_from sel) \<le> global_event_key_for v \<and> (\<forall>h. global_upper sel = Some h \<longrightarrow> global_event_key_for v < h)) \<longleftrightarrow> in_range sel v"
proof -
  have "global_event_key_for v < ''ge0''" by (simp add: global_event_key_for_def global_event_key_prefix_def less_char_def)
  moreover have "global_event_key_for (sel_from sel) \<le> global_event_key_for v \<longleftrightarrow> sel_from sel \<le> v" by (simp add: global_event_key_for_def)
  ultimately show ?thesis
    using le_to_iff [OF assms, of v] by (auto simp: global_upper_def prefix_end_global in_range_def word_gt_0)
qed

definition slash_free :: "(string \<Rightarrow> 'x raw list) \<Rightarrow> bool" where
  "slash_free S \<longleftrightarrow> (\<forall>lg. S lg \<noteq> [] \<longrightarrow> CHR ''/'' \<notin> set lg)"

definition version_at :: "nat \<Rightarrow> version" where
  "version_at i = of_nat (Suc i)"

lemma unat_version_at: "i < n \<Longrightarrow> n < 2 ^ 64 \<Longrightarrow> unat (version_at i) = Suc i"
  unfolding version_at_def by (intro unat_of_nat_u64) simp

lemma holds_lengths:
  assumes "pebble_holds j lo S G m"
  shows "length (S lg) < 2 ^ 64" and "length G < 2 ^ 64" and "lo lg \<le> length (S lg)" and "length (S lg) \<le> length G"
  using assms by (auto simp: pebble_holds_def well_named_def intro: le_less_trans)

lemma holds_names:
  assumes "pebble_holds j lo S G m"
  shows "i < length (S lg) \<Longrightarrow> valid_utf8 (raw_name (S lg ! i))"
    and "i < length G \<Longrightarrow> valid_utf8 (rec_log (G ! i)) \<and> valid_utf8 (raw_name (rec_raw (G ! i)))"
  using assms unfolding pebble_holds_def well_named_def by (meson nth_mem)+

lemma stored_event:
  assumes "holds_events j lo S m" and "m k = Some x" and "has_prefix k event_key_prefix"
  obtains lg v where "k = event_key_for lg v" and "lo lg < unat v" and "unat v \<le> length (S lg)" and "x = event_value j (S lg ! (unat v - 1))"
proof -
  obtain lg v where k: "k = event_key_for lg v" using assms unfolding holds_events_def by blast
  moreover have "lo lg < unat v \<and> unat v \<le> length (S lg) \<and> x = event_value j (S lg ! (unat v - 1))"
    using assms(1,2) unfolding holds_events_def k by (metis option.discI option.inject)
  ultimately show thesis using that by blast
qed

lemma iter_stream:
  assumes st: "ordered_store kv sem" and h: "pebble_holds j lo S G (sem s)" and slash: "CHR ''/'' \<notin> set lg" "slash_free S"
    and to: "sel_to sel \<noteq> - 1"
  shows "kv_iter kv s (event_key_for lg (sel_from sel)) (event_upper lg sel) =
    Inr (map (\<lambda>i. (event_key_for lg (version_at i), event_value j (S lg ! i)))
      (filter (\<lambda>i. lo lg \<le> i \<and> in_range sel (version_at i)) [0..<length (S lg)]), None)"
  unfolding version_at_def
proof (rule iter_indexed [OF st])
  have ev: "holds_events j lo S (sem s)" using h by (simp add: pebble_holds_def)
  then show "sem s (event_key_for lg v) =
      (if 0 < unat v \<and> unat v \<le> length (S lg) \<and> lo lg \<le> unat v - 1 then Some (event_value j (S lg ! (unat v - 1))) else None)" for v
    by (auto simp: holds_events_def)
  fix k x assume k: "sem s k = Some x" "event_key_for lg (sel_from sel) \<le> k" "\<forall>u. event_upper lg sel = Some u \<longrightarrow> k < u"
  then have "k < event_key_for lg (sel_to sel + 1) \<or> k < event_key_prefix @ lg @ ''0''"
    by (simp add: event_upper_def prefix_end_events split: if_splits)
  then obtain z where z: "k = event_key_prefix @ lg @ ''/'' @ z" using event_keys_between k(2) by blast
  then have "has_prefix k event_key_prefix" by (simp add: has_prefix_def event_key_prefix_def)
  then obtain lg' v where v: "k = event_key_for lg' v" "lo lg' < unat v" "unat v \<le> length (S lg')" using stored_event [OF ev k(1)] by blast
  then have "S lg' \<noteq> []" by auto
  with same_log [of lg' v lg z] z v(1) slash have "lg' = lg" by (simp add: slash_free_def)
  with v(1) show "\<exists>v. k = event_key_for lg v" by blast
qed (use holds_lengths(1) [OF h, of lg] in \<open>simp_all add: event_bounds [OF to]\<close>)

lemma read_loop_entries:
  assumes j: "json_faithful j" and nm: "\<forall>i \<in> set I. valid_utf8 (raw_name (es ! i))"
  shows "pebble_read_loop None j lg None (map (\<lambda>i. (event_key_for l (version_at i), event_value j (es ! i))) I) =
    map (\<lambda>i. Inr (new_record (version_at i) lg (raw_name (es ! i)) (raw_data (es ! i)))) I"
  using nm
proof (induction I)
  case (Cons i I)
  then show ?case using event_value_ok [OF j, of "es ! i"] by simp
qed simp

lemma to_records_at: "to_records es lg 0 = map (\<lambda>i. new_record (version_at i) lg (raw_name (es ! i)) (raw_data (es ! i))) [0..<length es]"
  by (simp add: to_records_def version_at_def)

lemma pebble_read:
  assumes st: "ordered_store kv sem" and j: "json_faithful j" and h: "pebble_holds j lo S G (sem (px_db d))"
    and slash: "CHR ''/'' \<notin> set lg" "slash_free S" and to: "sel_to sel \<noteq> - 1"
  shows "pebble_read_events None kv j d lg sel =
    map Inr (filter (\<lambda>r. kept lo r \<and> in_range sel (rec_version r)) (to_records (S lg) lg 0))"
proof -
  let ?n = "length (S lg)"
  let ?I = "filter (\<lambda>i. lo lg \<le> i \<and> in_range sel (version_at i)) [0..<?n]"
  have nm: "\<forall>i \<in> set ?I. valid_utf8 (raw_name (S lg ! i))" using holds_names(1) [OF h, of _ lg] by simp
  have "filter (\<lambda>i. kept lo (new_record (version_at i) lg (raw_name (S lg ! i)) (raw_data (S lg ! i))) \<and> in_range sel (version_at i)) [0..<?n] = ?I"
    using holds_lengths(1) [OF h, of lg] by (intro filter_cong) (auto simp: kept_def unat_version_at)
  then show ?thesis
    using read_loop_entries [OF j nm, of lg lg] iter_stream [OF st h slash to]
    by (simp add: pebble_read_events_def Let_def event_upper_def to_records_at filter_map o_def)
qed

text \<open>The index: entry \<open>i\<close> is the event that was committed as number \<open>i + 1\<close>.\<close>

definition index_at :: "'x rec list \<Rightarrow> nat \<Rightarrow> 'x grec" where
  "index_at G i = new_global_record (version_at i) (rec_version (G ! i)) (rec_log (G ! i)) (raw_name (rec_raw (G ! i))) (raw_data (rec_raw (G ! i)))"

lemma iter_global:
  assumes st: "ordered_store kv sem" and h: "pebble_holds j lo S G (sem s)"
    and bounds: "\<And>v. (l \<le> global_event_key_for v \<and> (\<forall>u. hi = Some u \<longrightarrow> global_event_key_for v < u)) \<longleftrightarrow> P v"
    and prefix: "\<And>k. l \<le> k \<Longrightarrow> \<forall>u. hi = Some u \<longrightarrow> k < u \<Longrightarrow> has_prefix k global_event_key_prefix"
  shows "kv_iter kv s l hi = Inr (map (\<lambda>i. (global_event_key_for (version_at i), global_value j (G ! i)))
      (filter (\<lambda>i. kept lo (G ! i) \<and> P (version_at i)) [0..<length G]), None)"
  unfolding version_at_def
proof (rule iter_indexed [OF st])
  have gl: "holds_global j lo G (sem s)" using h by (simp add: pebble_holds_def)
  then show "sem s (global_event_key_for v) =
      (if 0 < unat v \<and> unat v \<le> length G \<and> kept lo (G ! (unat v - 1)) then Some (global_value j (G ! (unat v - 1))) else None)" for v
    by (simp add: holds_global_def)
  fix k x assume "sem s k = Some x" "l \<le> k" "\<forall>u. hi = Some u \<longrightarrow> k < u"
  with prefix gl show "\<exists>v. k = global_event_key_for v" unfolding holds_global_def by blast
qed (use holds_lengths(2) [OF h] in \<open>simp_all add: bounds\<close>)

lemma global_prefix:
  assumes "global_event_key_prefix \<le> k" and "k < ''ge0'' \<or> k < global_event_key_for w"
  shows "has_prefix k global_event_key_prefix"
proof (cases "k < ''ge0''")
  case True
  with assms(1) between_slash [of "''ge''" "[]" k] show ?thesis
    by (auto simp: has_prefix_def global_event_key_prefix_def)
next
  case False
  with assms between_prefix [of global_event_key_prefix "[]" k "be_uint64 w"] show ?thesis
    by (auto simp: has_prefix_def global_event_key_for_def)
qed

lemma read_all_loop_entries:
  assumes j: "json_faithful j" and nm: "\<forall>i \<in> set I. valid_utf8 (rec_log (G ! i)) \<and> valid_utf8 (raw_name (rec_raw (G ! i)))"
  shows "pebble_read_all_loop None j None (map (\<lambda>i. (global_event_key_for (version_at i), global_value j (G ! i))) I) =
    map (\<lambda>i. Inr (index_at G i)) I"
  using nm
proof (induction I)
  case (Cons i I)
  then show ?case using global_value_ok [OF j, of "G ! i"] by (simp add: index_at_def)
qed simp

lemma pebble_read_all:
  assumes st: "ordered_store kv sem" and j: "json_faithful j" and h: "pebble_holds j lo S G (sem (px_db d))" and to: "sel_to sel \<noteq> - 1"
  shows "pebble_read_all_events None kv j d sel =
    map (\<lambda>i. Inr (index_at G i)) (filter (\<lambda>i. kept lo (G ! i) \<and> in_range sel (version_at i)) [0..<length G])"
proof -
  let ?I = "filter (\<lambda>i. kept lo (G ! i) \<and> in_range sel (version_at i)) [0..<length G]"
  have nm: "\<forall>i \<in> set ?I. valid_utf8 (rec_log (G ! i)) \<and> valid_utf8 (raw_name (rec_raw (G ! i)))"
    using holds_names(2) [OF h] by simp
  have "global_event_key_prefix \<le> global_event_key_for v" for v
    using append_le_iff [of global_event_key_prefix "[]" "be_uint64 v"] by (simp add: global_event_key_for_def)
  then have low: "global_event_key_prefix \<le> k" if "global_event_key_for (sel_from sel) \<le> k" for k using that by (rule order_trans)
  have "has_prefix k global_event_key_prefix" if "global_event_key_for (sel_from sel) \<le> k" "\<forall>u. global_upper sel = Some u \<longrightarrow> k < u" for k
  proof (rule global_prefix)
    show "k < ''ge0'' \<or> k < global_event_key_for (sel_to sel + 1)"
      using that(2) by (cases "sel_to sel > 0") (simp_all only: global_upper_def prefix_end_global if_True if_False option.inject simp_thms)
  qed (rule low [OF that(1)])
  then have it: "kv_iter kv (px_db d) (global_event_key_for (sel_from sel)) (global_upper sel) =
      Inr (map (\<lambda>i. (global_event_key_for (version_at i), global_value j (G ! i))) ?I, None)"
    by (intro iter_global [OF st h global_bounds [OF to]])
  show ?thesis
    unfolding pebble_read_all_events_def Let_def global_upper_def [symmetric] it sum.case prod.case
    by (rule read_all_loop_entries [OF j nm])
qed

lemma pebble_read_index:
  assumes "ordered_store kv sem" and "json_faithful j" and "pebble_holds j lo S G (sem (px_db d))"
  shows "pebble_read_all_events None kv j d select_from_beginning =
    map (\<lambda>i. Inr (index_at G i)) (filter (\<lambda>i. kept lo (G ! i)) [0..<length G])"
  using pebble_read_all [OF assms, of select_from_beginning] by (simp add: select_from_beginning_def in_range_def)

section \<open>Deleting\<close>

lemma delete_loop_entries:
  assumes acc: "\<forall>b op. kv_refuses kv b op = None" and j: "json_faithful j"
    and nm: "\<forall>i \<in> set I. valid_utf8 (rec_log (G ! i)) \<and> valid_utf8 (raw_name (rec_raw (G ! i)))"
  shows "pebble_delete_loop None kv j lg v None b (map (\<lambda>i. (global_event_key_for (version_at i), global_value j (G ! i))) I) =
    Inr (b @ map (\<lambda>i. KvDelete (global_event_key_for (version_at i))) (filter (\<lambda>i. rec_log (G ! i) = lg \<and> rec_version (G ! i) \<le> v) I))"
  using nm
proof (induction I arbitrary: b)
  case (Cons i I)
  then show ?case using global_value_ok [OF j, of "G ! i"] by (simp add: batch_add_def acc)
qed simp

lemma fold_deletes: "fold kv_apply (map (\<lambda>i. KvDelete (f i)) I) m = (\<lambda>k. if k \<in> f ` set I then None else m k)"
  by (induction I arbitrary: m) auto

definition pruned_to :: "(string \<Rightarrow> nat) \<Rightarrow> (string \<Rightarrow> 'x raw list) \<Rightarrow> string \<Rightarrow> version \<Rightarrow> string \<Rightarrow> nat" where
  "pruned_to lo S lg v = lo(lg := max (lo lg) (min (unat v) (length (S lg))))"

lemma kept_pruned:
  "unat (rec_version r) \<le> length (S (rec_log r)) \<Longrightarrow>
    kept (pruned_to lo S lg v) r \<longleftrightarrow> kept lo r \<and> \<not> (rec_log r = lg \<and> rec_version r \<le> v)"
  by (auto simp: kept_def pruned_to_def word_le_nat_alt)

lemma pruned_holds:
  assumes h: "pebble_holds j lo S G m" and slash: "CHR ''/'' \<notin> set lg" "slash_free S" and v: "v \<noteq> - 1"
    and m': "m' = (\<lambda>k. if event_key_for lg 1 \<le> k \<and> k < event_key_for lg (v + 1) then None
      else if \<exists>i < length G. kept lo (G ! i) \<and> rec_log (G ! i) = lg \<and> rec_version (G ! i) \<le> v \<and> k = global_event_key_for (version_at i) then None
      else m k)"
  shows "pebble_holds j (pruned_to lo S lg v) S G m'"
proof -
  let ?lo = "pruned_to lo S lg v"
  have h': "holds_events j lo S m" "holds_global j lo G m" "holds_counters S G m" "well_named S G" "\<And>lg. lo lg \<le> length (S lg)"
    using h by (simp_all add: pebble_holds_def)
  have outside: "\<not> k < event_key_for lg w" if "k = global_event_key_for x \<or> k = version_key_for l \<or> k = global_version_key" for k w x l
    using that by (auto simp: event_key_for_def global_event_key_for_def version_key_for_def key_prefix_defs less_char_def)
  have counters: "m' (version_key_for l) = m (version_key_for l)" "m' global_version_key = m global_version_key" for l
    using outside by (simp_all add: m')
  have ev: "m' (event_key_for l w) = (if l = lg \<and> w \<le> v then None else m (event_key_for l w))" for l w
  proof (cases "l = lg")
    case True
    have "m (event_key_for lg w) = None" if "\<not> 1 \<le> w"
    proof -
      have "unat w = 0" using that by (simp add: word_le_nat_alt)
      then have "w = 0" by (simp only: unat_eq_zero)
      with h'(1) show ?thesis by (simp add: holds_events_def)
    qed
    moreover have "event_key_for lg 1 \<le> event_key_for lg w \<longleftrightarrow> 1 \<le> w" by (simp add: event_key_for_def)
    ultimately show ?thesis using True le_to_iff [OF v, of w] by (auto simp: m')
  next
    case False
    show ?thesis
    proof (cases "event_key_for lg 1 \<le> event_key_for l w \<and> event_key_for l w < event_key_for lg (v + 1)")
      case True
      then obtain z where z: "event_key_for l w = event_key_prefix @ lg @ ''/'' @ z" using event_keys_between by blast
      with False slash same_log [OF z] have "S l = []" by (auto simp: slash_free_def)
      then have "m (event_key_for l w) = None" using h'(1) by (simp add: holds_events_def)
      with True False show ?thesis by (simp add: m')
    next
      case out: False
      with False show ?thesis by (auto simp: m')
    qed
  qed
  have "holds_events j ?lo S m'"
    unfolding holds_events_def
  proof (intro conjI allI impI)
    show "m' (event_key_for l w) = (if ?lo l < unat w \<and> unat w \<le> length (S l) then Some (event_value j (S l ! (unat w - 1))) else None)" for l w
      using h'(1) ev [of l w] by (auto simp: holds_events_def pruned_to_def word_le_nat_alt)
    show "\<exists>l w. k = event_key_for l w" if "m' k \<noteq> None \<and> has_prefix k event_key_prefix" for k
      using that h'(1) unfolding m' holds_events_def by (metis (lifting))
  qed
  moreover have "holds_global j ?lo G m'"
    unfolding holds_global_def
  proof (intro conjI allI impI)
    fix w :: version
    have one: "(\<exists>i < length G. kept lo (G ! i) \<and> rec_log (G ! i) = lg \<and> rec_version (G ! i) \<le> v \<and> global_event_key_for w = global_event_key_for (version_at i))
        \<longleftrightarrow> 0 < unat w \<and> unat w \<le> length G \<and> kept lo (G ! (unat w - 1)) \<and> rec_log (G ! (unat w - 1)) = lg \<and> rec_version (G ! (unat w - 1)) \<le> v"
      (is "?ex \<longleftrightarrow> ?at")
    proof
      assume ?ex
      then show ?at using unat_version_at [OF _ holds_lengths(2) [OF h]] by auto
    next
      assume ?at
      moreover from this have "w = version_at (unat w - 1)" by (simp add: version_at_def)
      ultimately show ?ex by (intro exI [of _ "unat w - 1"]) auto
    qed
    have val: "m' (global_event_key_for w) = (if 0 < unat w \<and> unat w \<le> length G \<and> kept lo (G ! (unat w - 1)) \<and> rec_log (G ! (unat w - 1)) = lg \<and> rec_version (G ! (unat w - 1)) \<le> v
        then None else m (global_event_key_for w))"
      using outside [of "global_event_key_for w" w undefined "v + 1"] unfolding m' one by simp
    have keep: "kept ?lo (G ! (unat w - 1)) \<longleftrightarrow> kept lo (G ! (unat w - 1)) \<and> \<not> (rec_log (G ! (unat w - 1)) = lg \<and> rec_version (G ! (unat w - 1)) \<le> v)"
      if "0 < unat w" "unat w \<le> length G" using that h'(4) by (intro kept_pruned) (simp add: well_named_def)
    show "m' (global_event_key_for w) =
      (if 0 < unat w \<and> unat w \<le> length G \<and> kept ?lo (G ! (unat w - 1)) then Some (global_value j (G ! (unat w - 1))) else None)"
      using h'(2) keep by (auto simp: val holds_global_def)
  next
    show "\<exists>w. k = global_event_key_for w" if "m' k \<noteq> None \<and> has_prefix k global_event_key_prefix" for k
      using that h'(2) unfolding m' holds_global_def by (metis (lifting))
  qed
  moreover have "holds_counters S G m'" using h'(3) counters by (simp add: holds_counters_def)
  ultimately show ?thesis using h'(4,5) by (simp add: pebble_holds_def pruned_to_def)
qed

lemma pebble_delete_ok:
  assumes st: "ordered_store kv sem" and j: "json_faithful j" and h: "pebble_holds j lo S G (sem (px_db d))"
    and slash: "CHR ''/'' \<notin> set lg" "slash_free S" and v: "v \<noteq> - 1"
  obtains s' where "pebble_delete_up_to None kv j d lg v = (d\<lparr>px_db := s'\<rparr>, None)"
    and "pebble_holds j (pruned_to lo S lg v) S G (sem s')"
proof -
  let ?I = "filter (\<lambda>i. kept lo (G ! i)) [0..<length G]"
  let ?D = "filter (\<lambda>i. rec_log (G ! i) = lg \<and> rec_version (G ! i) \<le> v) ?I"
  let ?ops = "map (\<lambda>i. KvDelete (global_event_key_for (version_at i))) ?D @ [KvDeleteRange (event_key_for lg 1) (event_key_for lg (v + 1))]"
  have nm: "\<forall>i \<in> set ?I. valid_utf8 (rec_log (G ! i)) \<and> valid_utf8 (raw_name (rec_raw (G ! i)))"
    using holds_names(2) [OF h] by simp
  have acc: "\<forall>b op. kv_refuses kv b op = None" using st by (simp add: ordered_store_def)
  have "global_event_key_for w < ''ge0''" "global_event_key_prefix \<le> global_event_key_for w" for w
    using append_le_iff [of global_event_key_prefix "[]" "be_uint64 w"]
    by (simp_all add: global_event_key_for_def global_event_key_prefix_def less_char_def)
  then have it: "kv_iter kv (px_db d) global_event_key_prefix (prefix_end_key global_event_key_prefix) =
      Inr (map (\<lambda>i. (global_event_key_for (version_at i), global_value j (G ! i))) (filter (\<lambda>i. kept lo (G ! i) \<and> True) [0..<length G]), None)"
    by (intro iter_global [OF st h]) (simp_all add: prefix_end_global global_prefix)
  obtain s' where s': "kv_commit kv (px_db d) ?ops = (s', None)" "sem s' = fold kv_apply ?ops (sem (px_db d))"
    using st unfolding ordered_store_def by blast
  have "pebble_delete_up_to None kv j d lg v = (d\<lparr>px_db := s'\<rparr>, None)"
    using it delete_loop_entries [OF acc j nm, of lg v "[]"] s'(1)
    by (simp add: pebble_delete_up_to_def batch_add_def acc)
  moreover have "sem s' = (\<lambda>k. if event_key_for lg 1 \<le> k \<and> k < event_key_for lg (v + 1) then None
      else if \<exists>i < length G. kept lo (G ! i) \<and> rec_log (G ! i) = lg \<and> rec_version (G ! i) \<le> v \<and> k = global_event_key_for (version_at i) then None
      else sem (px_db d) k)"
    unfolding s'(2) by (auto simp: fun_eq_iff fold_deletes)
  ultimately show thesis using that pruned_holds [OF h slash v] by blast
qed

end
