(* ===== verification/DF_PebbleLog.thy ===== *)
theory DF_PebbleLog
  imports DF_PebbleStore
begin

text \<open>
  What the Pebble event log does: it agrees with the in-memory log on identifiers without slashes, keeps an index of
  all events in commit order, and prunes a stream without forgetting its version. Two limits are proved as well: a read takes
  the events of a log whose identifier continues with a slash for its own, and two appends in one
  transaction write the same entries of the index.
\<close>

section \<open>A concrete store\<close>

fun fm_apply :: "kv_op \<Rightarrow> (string, string) fmap \<Rightarrow> (string, string) fmap" where
  "fm_apply (KvSet k v) m = fmupd k v m"
| "fm_apply (KvDelete k) m = fmdrop k m"
| "fm_apply (KvDeleteRange a b) m = fmfilter (\<lambda>k. \<not> (a \<le> k \<and> k < b)) m"

definition fmap_kv :: "(string, string) fmap kv_db" where
  "fmap_kv =
     \<lparr>kv_get = \<lambda>s k. Inr (fmlookup s k),
      kv_iter = \<lambda>s lo hi. Inr (filter (\<lambda>(k, v). lo \<le> k \<and> (case hi of None \<Rightarrow> True | Some h \<Rightarrow> k < h)) (sorted_list_of_fmap s), None),
      kv_refuses = \<lambda>_ _. None,
      kv_commit = \<lambda>s ops. (fold fm_apply ops s, None)\<rparr>"

lemma fm_apply_lookup: "fmlookup (fold fm_apply ops s) = fold kv_apply ops (fmlookup s)"
proof (induction ops arbitrary: s)
  case (Cons op ops)
  have "fmlookup (fm_apply op s) = kv_apply op (fmlookup s)" by (cases op) (auto simp: fun_eq_iff)
  with Cons show ?case by simp
qed simp

lemma fmap_kv_ordered: "ordered_store fmap_kv fmlookup"
proof -
  have "sorted_wrt (<) (map fst (filter P (sorted_list_of_fmap s)))" for P and s :: "(string, string) fmap"
  proof -
    have "sorted_wrt (<) (map fst (sorted_list_of_fmap s))"
      by (simp add: sorted_list_of_fmap_def o_def sorted_list_of_fset.rep_eq strict_sorted_iff)
    then show ?thesis by (simp add: sorted_wrt_map sorted_wrt_filter)
  qed
  moreover have "set (sorted_list_of_fmap s) = {(k, v). fmlookup s k = Some v}" for s :: "(string, string) fmap"
    by (auto simp: sorted_list_of_fmap_def fmlookup_dom_iff)
  ultimately show ?thesis by (auto simp: ordered_store_def fmap_kv_def fm_apply_lookup split: option.splits)
qed

definition pair_str :: "string \<Rightarrow> string \<Rightarrow> string" where
  "pair_str a b = replicate (length a) (CHR ''1'') @ ''0'' @ a @ b"

definition unpair_str :: "string \<Rightarrow> string \<times> string" where
  "unpair_str s = (let n = length (takeWhile (\<lambda>c. c = CHR ''1'') s); t = drop (Suc n) s in (take n t, drop n t))"

lemma unpair_pair [simp]: "unpair_str (pair_str a b) = (a, b)"
  by (simp add: unpair_str_def pair_str_def takeWhile_append)

definition length_json :: "char json_lib" where
  "length_json =
     \<lparr>jl_event = \<lambda>n d. Inr (pair_str n d), jl_event_of = \<lambda>s. Inr (unpair_str s),
      jl_global = \<lambda>lg v n d. Inr (pair_str lg (be_uint64 v @ pair_str n d)),
      jl_global_of = \<lambda>s. (case unpair_str s of (lg, t) \<Rightarrow> (case unpair_str (drop 8 t) of (n, d) \<Rightarrow> Inr (lg, uint64_be (take 8 t), n, d))),
      jl_quote = id\<rparr>"

lemma length_json_faithful: "json_faithful length_json"
  by (simp add: json_faithful_def length_json_def)

definition empty_pebble :: "(string, string) fmap pebble_tx" where
  "empty_pebble = \<lparr>px_db = fmempty, px_batch = []\<rparr>"

lemma empty_pebble_holds: "pebble_holds j (\<lambda>_. 0) (\<lambda>_. []) [] (fmlookup (px_db empty_pebble))"
  using empty_holds by (simp add: empty_pebble_def fmempty.rep_eq)

lemma ascii_valid: "\<forall>c \<in> set s. of_char c < (128 :: nat) \<Longrightarrow> valid_utf8 s"
proof (induction s)
  case (Cons c s)
  then have "utf8_head (c # s) = (byte_val c, 1)" "utf8_encode (byte_val c) = [c]"
    by (simp_all add: utf8_head_def utf8_encode_def byte_val_def byte_def)
  with Cons show ?case by (simp add: valid_utf8_def)
qed (simp add: valid_utf8_def)

lemma ascii_names [simp]: "valid_utf8 ''a''" "valid_utf8 ''added''" "valid_utf8 ''a/b''" "valid_utf8 ''b''"
  by (simp_all add: ascii_valid)

section \<open>Properties\<close>

text \<open>
  (C33) The Pebble log does what the in-memory log does, as long as identifiers have no slash, names are UTF-8 and the upper bound of a read is
  not the last version. On a store with the streams of the memory, an append succeeds in both or in neither, with the same new version or
  a conflict between the same two versions; the streams are again the same; and every read returns the same records.
\<close>

theorem pebble_agrees_with_memory:
  assumes st: "ordered_store kv sem" and j: "json_faithful j" and h: "pebble_holds j (\<lambda>_. 0) (mem_contents mem) G (sem (px_db d))"
    and wf: "mem_wf (\<lambda>_. 0) mem" and es: "es \<noteq> []" and room: "length G + length es < 2 ^ 64" "mem_total mem + length es < 2 ^ 64"
    and nm: "valid_utf8 lg" "\<forall>e \<in> set es. valid_utf8 (raw_name e)"
    and slash: "CHR ''/'' \<notin> set lg" "CHR ''/'' \<notin> set i" "slash_free (mem_contents mem)" and to: "sel_to sel \<noteq> - 1"
    and peb: "pebble_append_events None kv j d lg (CheckExact x) es = (d', r)"
    and ram: "mem_append_events None mem lg (CheckExact x) es = (mem', r')"
  shows "map_sum as_conflict id r = map_sum as_conflict id r' \<and>
    (\<exists>G'. pebble_holds j (\<lambda>_. 0) (mem_contents mem') G' (sem (px_db d'))) \<and>
    pebble_read_events None kv j d' i sel = mem_read_events None mem' i sel"
proof -
  have reads: "pebble_read_events None kv j d i sel = mem_read_events None m i sel"
    if "pebble_holds j (\<lambda>_. 0) (mem_contents m) G' (sem (px_db d))" "mem_wf (\<lambda>_. 0) m" "slash_free (mem_contents m)" for d m G'
  proof -
    have "filter (\<lambda>r. kept (\<lambda>_. 0) r \<and> in_range sel (rec_version r)) (to_records (mem_contents m i) i 0) =
        filter (\<lambda>r. in_range sel (rec_version r)) (to_records (mem_contents m i) i 0)"
      using holds_lengths(1) [OF that(1), of i] by (intro filter_cong) (auto simp: to_records_at kept_def unat_version_at)
    then show ?thesis using pebble_read [OF st j that(1) slash(2) that(3) to] memlog.read_contents [OF that(2)] by simp
  qed
  show ?thesis
  proof (cases "x = of_nat (length (mem_contents mem lg))")
    case True
    obtain s' where s': "pebble_append_events None kv j d lg (CheckExact x) es = (d\<lparr>px_db := s'\<rparr>, Inr (of_nat (length (mem_contents mem lg) + length es)))"
      "pebble_holds j (\<lambda>_. 0) (extended (mem_contents mem) lg es) (G @ to_records es lg (of_nat (length (mem_contents mem lg)))) (sem s')"
      using pebble_append_ok [OF st j h es nm room(1)] unfolding True by blast
    note m = memlog.append_result [OF wf es room(2), of lg] memlog.append_contents [OF wf es room(2), of lg] memlog.append_invar [OF wf es room(2), of lg]
    have mem': "r' = Inr (of_nat (length (mem_contents mem lg) + length es))" "mem_wf (\<lambda>_. 0) mem'"
      "mem_contents mem' = extended (mem_contents mem) lg es"
      using m ram unfolding True by (simp_all add: extended_def)
    moreover have "slash_free (mem_contents mem')" using slash(1,3) by (auto simp: mem'(3) slash_free_def extended_def)
    ultimately show ?thesis using reads [of mem' _ d'] peb s' by auto
  next
    case False
    obtain e where "mem' = mem" "r' = Inl e" "as_conflict e = Some (x, of_nat (length (mem_contents mem lg)))"
      using memlog.append_conflict [OF wf es False] ram by fastforce
    with pebble_append_conflict [OF st h es False] peb reads [OF h wf slash(3)] h show ?thesis by auto
  qed
qed

lemma index_extends:
  fixes j :: "'x json_lib"
  assumes "ordered_store kv sem" and "json_faithful j" and "pebble_holds j lo S G (sem (px_db d))"
    and "pebble_holds j lo S' (G @ R) (sem (px_db d'))" and "\<forall>r \<in> set R. kept lo r"
  shows "pebble_read_all_events None kv j d' select_from_beginning =
    pebble_read_all_events None kv j d select_from_beginning @ map (\<lambda>i. Inr (index_at (G @ R) i)) [length G..<length G + length R]"
proof -
  have "filter (\<lambda>i. kept lo ((G @ R) ! i)) [0..<length G] = filter (\<lambda>i. kept lo (G ! i)) [0..<length G]"
    "map (\<lambda>i. Inr (index_at (G @ R) i) :: gerr + 'x grec) (filter (\<lambda>i. kept lo (G ! i)) [0..<length G]) = map (\<lambda>i. Inr (index_at G i)) (filter (\<lambda>i. kept lo (G ! i)) [0..<length G])"
    by (auto simp: nth_append index_at_def intro: filter_cong)
  moreover have "filter (\<lambda>i. kept lo ((G @ R) ! i)) [length G..<length G + length R] = [length G..<length G + length R]"
    using assms(5) by (auto simp: filter_id_conv nth_append)
  moreover have "[0..<length (G @ R)] = [0..<length G] @ [length G..<length G + length R]"
    unfolding length_append by (rule upt_add_eq_append) simp
  ultimately show ?thesis
    unfolding pebble_read_index [OF assms(1,2,4)] pebble_read_index [OF assms(1-3)] by (simp only: filter_append map_append)
qed

text \<open>
  (C34) The index lists all events in the order of their commits: after an append it reads as before, followed by the
  new events, under the next global versions and the next versions of their log.
\<close>

theorem pebble_index_in_commit_order:
  assumes st: "ordered_store kv sem" and j: "json_faithful j" and h: "pebble_holds j lo S G (sem (px_db d))"
    and es: "es \<noteq> []" and room: "length G + length es < 2 ^ 64" and nm: "valid_utf8 lg" "\<forall>e \<in> set es. valid_utf8 (raw_name e)"
    and run: "pebble_append_events None kv j d lg (CheckExact x) es = (d', Inr v')"
  shows "pebble_read_all_events None kv j d' select_from_beginning =
      pebble_read_all_events None kv j d select_from_beginning @
      map (\<lambda>i. Inr (new_global_record (of_nat (length G + i + 1)) (x + of_nat (i + 1)) lg (raw_name (es ! i)) (raw_data (es ! i)))) [0..<length es] \<and>
    v' = x + of_nat (length es)"
proof -
  let ?n = "length (S lg)" and ?R = "to_records es lg x"
  have x: "x = of_nat ?n" using pebble_append_conflict [OF st h es] run by fastforce
  obtain s' where s': "d' = d\<lparr>px_db := s'\<rparr>" "v' = of_nat (?n + length es)" "pebble_holds j lo (extended S lg es) (G @ to_records es lg (of_nat ?n)) (sem (px_db d'))"
    using pebble_append_ok [OF st j h es nm room] run unfolding x by auto
  have "length (S lg) + length es < 2 ^ 64" using holds_lengths(4) [OF h, of lg] room by simp
  then have ver: "unat (rec_version (?R ! i)) = ?n + i + 1" if "i < length es" for i
  proof -
    have "rec_version (?R ! i) = of_nat (?n + i + 1)" using that by (simp add: to_records_nth x algebra_simps)
    then show ?thesis using that \<open>?n + length es < 2 ^ 64\<close> by (simp only: unat_of_nat_u64)
  qed
  have keep: "kept lo (?R ! i)" if "i < length es" for i
    using that ver [OF that] holds_lengths(3) [OF h, of lg] by (simp add: kept_def to_records_nth)
  have at: "index_at (G @ ?R) (length G + i) = new_global_record (of_nat (length G + i + 1)) (x + of_nat (i + 1)) lg (raw_name (es ! i)) (raw_data (es ! i))"
    if "i < length es" for i
  proof -
    have "Suc (length G + i) = length G + i + 1" by simp
    then show ?thesis using that by (simp add: index_at_def version_at_def to_records_nth del: of_nat_Suc of_nat_add)
  qed
  have new: "map (\<lambda>i. Inr (index_at (G @ ?R) i)) [length G..<length G + length es] =
      map (\<lambda>i. Inr (new_global_record (of_nat (length G + i + 1)) (x + of_nat (i + 1)) lg (raw_name (es ! i)) (raw_data (es ! i)))) [0..<length es]"
  proof -
    have shift: "[length G..<length G + length es] = map (\<lambda>i. length G + i) [0..<length es]" by (rule nth_equalityI) simp_all
    show ?thesis unfolding shift map_map o_def by (rule map_cong [OF refl]) (metis at atLeastLessThan_iff set_upt)
  qed
  have "v' = x + of_nat (length es)" using s'(2) x by simp
  moreover have "\<forall>r \<in> set ?R. kept lo r" using keep by (auto simp: in_set_conv_nth)
  ultimately show ?thesis using index_extends [OF st j h s'(3) [folded x]] new by simp
qed

text \<open>
  (C35) Pruning a stream removes exactly its events up to the given version, from later reads of the stream and from the index,
  and touches no other stream. The log still knows the version: the next append continues at the old length.
\<close>

theorem pebble_delete_keeps_versions:
  assumes st: "ordered_store kv sem" and j: "json_faithful j" and h: "pebble_holds j lo S G (sem (px_db d))"
    and slash: "CHR ''/'' \<notin> set lg" "slash_free S" and v: "v \<noteq> - 1" and to: "sel_to sel \<noteq> - 1"
    and es: "es \<noteq> []" and room: "length G + length es < 2 ^ 64" and nm: "valid_utf8 lg" "\<forall>e \<in> set es. valid_utf8 (raw_name e)"
  shows "\<exists>d' d''. pebble_delete_up_to None kv j d lg v = (d', None) \<and>
    pebble_read_events None kv j d' lg sel =
      filter (\<lambda>x. case x of Inl _ \<Rightarrow> True | Inr r \<Rightarrow> v < rec_version r) (pebble_read_events None kv j d lg sel) \<and>
    (\<forall>i. CHR ''/'' \<notin> set i \<and> i \<noteq> lg \<longrightarrow> pebble_read_events None kv j d' i sel = pebble_read_events None kv j d i sel) \<and>
    pebble_read_all_events None kv j d' select_from_beginning =
      filter (\<lambda>x. case x of Inl _ \<Rightarrow> True | Inr r \<Rightarrow> grec_log r \<noteq> lg \<or> v < grec_version r) (pebble_read_all_events None kv j d select_from_beginning) \<and>
    pebble_append_events None kv j d' lg (CheckExact (of_nat (length (S lg)))) es = (d'', Inr (of_nat (length (S lg) + length es)))"
proof -
  obtain s' where s': "pebble_delete_up_to None kv j d lg v = (d\<lparr>px_db := s'\<rparr>, None)" "pebble_holds j (pruned_to lo S lg v) S G (sem s')"
    by (rule pebble_delete_ok [OF st j h slash v])
  let ?d = "d\<lparr>px_db := s'\<rparr>"
  have h': "pebble_holds j (pruned_to lo S lg v) S G (sem (px_db ?d))" using s'(2) by simp
  have rng: "unat (rec_version r) \<le> length (S (rec_log r))" if "r \<in> set (to_records (S i) i 0)" for r i
    using that holds_lengths(1) [OF h, of i] by (auto simp: to_records_at unat_version_at)
  have rngG: "unat (rec_version (G ! i)) \<le> length (S (rec_log (G ! i)))" if "i < length G" for i
    using that h by (auto simp: pebble_holds_def well_named_def)
  have "filter (\<lambda>r. kept (pruned_to lo S lg v) r \<and> in_range sel (rec_version r)) (to_records (S i) i 0) =
      filter (\<lambda>r. i = lg \<longrightarrow> v < rec_version r) (filter (\<lambda>r. kept lo r \<and> in_range sel (rec_version r)) (to_records (S i) i 0))" for i
    unfolding filter_filter using kept_pruned [of _ S lo lg v, OF rng [of _ i]] rec_log_to_records [of _ "S i" i 0] by (intro filter_cong) auto
  note reads = this pebble_read [OF st j h' _ slash(2) to] pebble_read [OF st j h _ slash(2) to]
  have "filter (\<lambda>i. kept (pruned_to lo S lg v) (G ! i)) [0..<length G] =
      filter (\<lambda>i. rec_log (G ! i) \<noteq> lg \<or> v < rec_version (G ! i)) (filter (\<lambda>i. kept lo (G ! i)) [0..<length G])"
    unfolding filter_filter using kept_pruned [of _ S lo lg v, OF rngG] by (intro filter_cong) auto
  then have "pebble_read_all_events None kv j ?d select_from_beginning =
      filter (\<lambda>x. case x of Inl _ \<Rightarrow> True | Inr r \<Rightarrow> grec_log r \<noteq> lg \<or> v < grec_version r) (pebble_read_all_events None kv j d select_from_beginning)"
    by (simp add: pebble_read_index [OF st j h'] pebble_read_index [OF st j h] filter_map o_def index_at_def new_global_record_def)
  moreover obtain d'' where "pebble_append_events None kv j ?d lg (CheckExact (of_nat (length (S lg)))) es = (d'', Inr (of_nat (length (S lg) + length es)))"
    using pebble_append_ok [OF st j h' es nm room] by blast
  moreover have "pebble_read_events None kv j ?d lg sel =
      filter (\<lambda>x. case x of Inl _ \<Rightarrow> True | Inr r \<Rightarrow> v < rec_version r) (pebble_read_events None kv j d lg sel)"
    using slash(1) by (simp add: reads filter_map o_def)
  moreover have "pebble_read_events None kv j ?d i sel = pebble_read_events None kv j d i sel" if "CHR ''/'' \<notin> set i" "i \<noteq> lg" for i
    using that by (simp add: reads)
  ultimately show ?thesis using s'(1) by blast
qed

text \<open>A read up to the last version finds nothing: the bound after it wraps around to 0.\<close>

lemma pebble_last_bound_reads_nothing:
  assumes "ordered_store kv sem"
  shows "pebble_read_events None kv j d lg \<lparr>sel_from = f, sel_to = - 1\<rparr> = []"
proof -
  have "\<not> event_key_for lg f \<le> k" if "k < event_key_for lg 0" for k
  proof
    assume "event_key_for lg f \<le> k"
    then have "event_key_for lg f < event_key_for lg 0" using that by (rule le_less_trans)
    then show False by simp
  qed
  then have none: "{(k, v). sem (px_db d) k = Some v \<and> event_key_for lg f \<le> k \<and> (\<forall>h. Some (event_key_for lg 0) = Some h \<longrightarrow> k < h)} = {}" by auto
  obtain l where "kv_iter kv (px_db d) (event_key_for lg f) (Some (event_key_for lg 0)) = Inr (l, None)" "set l = {}"
    using assms unfolding ordered_store_def none [symmetric] by blast
  then show ?thesis by (simp add: pebble_read_events_def Let_def word_gt_0)
qed

lemma read_loop_member:
  assumes "\<forall>(k, x) \<in> set l. \<exists>a v n dt. parse_event_key (jl_quote j) k = Inr (a, v) \<and> jl_event_of j x = Inr (n, dt)"
    and "(k, x) \<in> set l" and "parse_event_key (jl_quote j) k = Inr (a, v)" and "jl_event_of j x = Inr (n, dt)"
  shows "Inr (new_record v lg n dt) \<in> set (pebble_read_loop None j lg err l)"
  using assms
proof (induction l)
  case (Cons p l)
  obtain k' x' a' v' n' dt' where p: "p = (k', x')" "parse_event_key (jl_quote j) k' = Inr (a', v')" "jl_event_of j x' = Inr (n', dt')"
    using Cons.prems(1) by (cases p) auto
  show ?case
  proof (cases "(k, x) = p")
    case True
    with p Cons.prems(3,4) show ?thesis by simp
  next
    case False
    with Cons p show ?thesis by auto
  qed
qed simp

text \<open>
  (C38) A read scans all keys that begin with the identifier and a slash, and takes every event it meets for one
  of the log: the first event of a log \<open>lg/sub\<close> is returned by a read of \<open>lg\<close>, under the identifier \<open>lg\<close>.
\<close>

theorem pebble_reads_nested_stream:
  assumes st: "ordered_store kv sem" and j: "json_faithful j" and h: "pebble_holds j lo S G (sem (px_db d))"
    and nested: "S (lg @ ''/'' @ sub) = e # es" "lo (lg @ ''/'' @ sub) = 0"
  shows "Inr (new_record 1 lg (raw_name e) (raw_data e)) \<in> set (pebble_read_events None kv j d lg select_from_beginning)"
proof -
  let ?lo = "event_key_for lg 0" and ?hi = "event_key_prefix @ lg @ ''0''" and ?key = "event_key_for (lg @ ''/'' @ sub) 1"
  have ev: "holds_events j lo S (sem (px_db d))" using h by (simp add: pebble_holds_def)
  obtain l where l: "kv_iter kv (px_db d) ?lo (Some ?hi) = Inr (l, None)"
    "set l = {(k, v). sem (px_db d) k = Some v \<and> ?lo \<le> k \<and> (\<forall>u. Some ?hi = Some u \<longrightarrow> k < u)}"
    using st unfolding ordered_store_def by blast
  have ok: "jl_event_of j (event_value j (S i ! n)) = Inr (raw_name (S i ! n), raw_data (S i ! n))" if "n < length (S i)" for i n
    using event_value_ok [OF j holds_names(1) [OF h that]] by simp
  have parsed: "\<exists>a v n dt. parse_event_key (jl_quote j) k = Inr (a, v) \<and> jl_event_of j x = Inr (n, dt)" if "(k, x) \<in> set l" for k x
  proof -
    have k: "sem (px_db d) k = Some x" "?lo \<le> k" "k < ?hi" using that l(2) by auto
    then obtain z where "k = event_key_prefix @ lg @ ''/'' @ z" using event_keys_between by blast
    then have "has_prefix k event_key_prefix" by (simp add: has_prefix_def event_key_prefix_def)
    then obtain i v where "k = event_key_for i v" "lo i < unat v" "unat v \<le> length (S i)" "x = event_value j (S i ! (unat v - 1))"
      using stored_event [OF ev k(1)] by blast
    moreover from this have "unat v - 1 < length (S i)" by linarith
    ultimately show ?thesis using ok by simp
  qed
  moreover have "(?key, event_value j e) \<in> set l"
  proof -
    have "sem (px_db d) ?key = Some (event_value j e)" using ev nested by (simp add: holds_events_def)
    moreover have "be_uint64 0 \<le> sub @ ''/'' @ be_uint64 1" unfolding be_uint64_0 by (rule least_string) simp
    then have "?lo \<le> ?key" by (simp add: event_key_for_def)
    moreover have "?key < ?hi" by (simp add: event_key_for_def less_char_def)
    ultimately show ?thesis by (simp add: l(2))
  qed
  moreover have "jl_event_of j (event_value j e) = Inr (raw_name e, raw_data e)" using ok [of 0 "lg @ ''/'' @ sub"] nested(1) by simp
  ultimately have "Inr (new_record 1 lg (raw_name e) (raw_data e)) \<in> set (pebble_read_loop None j lg None l)"
    using parsed by (intro read_loop_member [of l j ?key "event_value j e" "lg @ ''/'' @ sub" 1]) auto
  with l(1) show ?thesis by (simp add: pebble_read_events_def Let_def select_from_beginning_def prefix_end_events)
qed

lemma holds_events_cong: "holds_events j lo S m \<Longrightarrow> (\<And>k. has_prefix k event_key_prefix \<Longrightarrow> m' k = m k) \<Longrightarrow> holds_events j lo S m'"
  by (simp add: holds_events_def) metis

lemma holds_global_cong: "holds_global j lo G m \<Longrightarrow> (\<And>k. has_prefix k global_event_key_prefix \<Longrightarrow> m' k = m k) \<Longrightarrow> holds_global j lo G m'"
  by (simp add: holds_global_def) metis

lemma well_named_two:
  assumes h: "pebble_holds j lo S G m" and two: "lg1 \<noteq> lg2" and room: "length G + 2 < 2 ^ 64"
    and nm: "valid_utf8 lg1" "valid_utf8 lg2" "valid_utf8 (raw_name e1)" "valid_utf8 (raw_name e2)"
  shows "well_named (extended (extended S lg1 [e1]) lg2 [e2]) (G @ [new_record (of_nat (length (S lg2)) + 1) lg2 (raw_name e2) (raw_data e2)])"
proof -
  let ?S2 = "extended (extended S lg1 [e1]) lg2 [e2]"
  have named: "well_named S G" using h by (simp add: pebble_holds_def)
  have "unat (of_nat (length (S lg2)) + 1 :: u64) \<le> Suc (length (S lg2))" using unat_of_nat_le [of "length (S lg2) + 1"] by (simp add: add.commute)
  moreover have "length (?S2 l) \<le> Suc (length G)" for l
    using two holds_lengths(4) [OF h, of l] by (auto simp: le_SucI)
  moreover have "unat (rec_version r) \<le> length (?S2 (rec_log r))" if "r \<in> set G" for r
    using that named by (auto simp: well_named_def intro: le_trans)
  moreover have "\<forall>e \<in> set (?S2 l). valid_utf8 (raw_name e)" for l using named nm by (auto simp: well_named_def extended_def)
  ultimately show ?thesis using named nm room two by (auto simp: well_named_def)
qed

lemma has_prefix_distinct [simp]:
  "has_prefix k event_key_prefix \<Longrightarrow> k \<noteq> global_event_key_for w \<and> k \<noteq> version_key_for l \<and> k \<noteq> global_version_key"
  "has_prefix k global_event_key_prefix \<Longrightarrow> k \<noteq> event_key_for l w \<and> k \<noteq> version_key_for l \<and> k \<noteq> global_version_key"
  using key_has_prefix by metis+

text \<open>
  (C39) Appends read the versions from the database, not from the batch. Of two appends of one event each to two logs in one
  transaction, both streams keep their event, but the second takes the global version of the first: the index holds the
  second event only, and counts one.
\<close>

theorem pebble_second_append_hides_first:
  assumes st: "ordered_store kv sem" and j: "json_faithful j" and h: "pebble_holds j lo S G (sem (px_db d))"
    and two: "lg1 \<noteq> lg2" and room: "length G + 2 < 2 ^ 64"
    and nm: "valid_utf8 lg1" "valid_utf8 lg2" "valid_utf8 (raw_name e1)" "valid_utf8 (raw_name e2)"
  defines "body \<equiv> \<lambda>d. case pebble_append_in_tx None kv j d lg1 (CheckExact (of_nat (length (S lg1)))) [e1] of
      (d1, Inl err) \<Rightarrow> (d1, Inl err)
    | (d1, Inr _) \<Rightarrow> pebble_append_in_tx None kv j d1 lg2 (CheckExact (of_nat (length (S lg2)))) [e2]"
  shows "\<exists>d' r. pebble_within_tx kv body d = (d', Inr r) \<and>
    pebble_holds j lo (extended (extended S lg1 [e1]) lg2 [e2]) (G @ to_records [e2] lg2 (of_nat (length (S lg2)))) (sem (px_db d')) \<and>
    pebble_read_all_events None kv j d' select_from_beginning =
      pebble_read_all_events None kv j d select_from_beginning @ [Inr (index_at (G @ to_records [e2] lg2 (of_nat (length (S lg2)))) (length G))]"
proof -
  let ?S1 = "extended S lg1 [e1]" and ?r1 = "new_record (of_nat (length (S lg1)) + 1) lg1 (raw_name e1) (raw_data e1)"
    and ?r2 = "new_record (of_nat (length (S lg2)) + 1) lg2 (raw_name e2) (raw_data e2)"
    and ?ops = "\<lambda>lg e. append_ops j (length (S lg)) (length G) lg [e]" and ?m = "sem (px_db d)" and ?g = "of_nat (length G) + 1 :: u64"
  let ?S2 = "extended ?S1 lg2 [e2]" and ?G2 = "G @ [?r2]"
  have recs: "to_records [e2] lg2 (of_nat (length (S lg2))) = [?r2]" "to_records [e1] lg1 (of_nat (length (S lg1))) = [?r1]"
    by (simp_all add: to_records_Cons)
  have h': "holds_events j lo S ?m" "holds_global j lo G ?m" "holds_counters S G ?m" "well_named S G" "\<And>lg. lo lg \<le> length (S lg)"
    using h by (simp_all add: pebble_holds_def)
  have len: "length (S l) + 1 < 2 ^ 64" "length G + 1 < 2 ^ 64" for l using holds_lengths(4) [OF h, of l] room by simp_all
  obtain s' where s': "kv_commit kv (px_db d) (?ops lg1 e1 @ ?ops lg2 e2) = (s', None)" "sem s' = fold kv_apply (?ops lg1 e1 @ ?ops lg2 e2) ?m"
    using st unfolding ordered_store_def by blast
  let ?d = "d\<lparr>px_db := s'\<rparr>"
  have run: "pebble_within_tx kv body d = (?d, Inr (of_nat (length (S lg2) + 1), [?r2]))"
    using append_in_tx_ok [OF st j, of S G "d\<lparr>px_batch := []\<rparr>" "[e1]" lg1] append_in_tx_ok [OF st j, of S G "d\<lparr>px_batch := ?ops lg1 e1\<rparr>" "[e2]" lg2]
      h'(3) nm s'(1) by (simp add: body_def pebble_within_tx_def recs)
  define m1 where "m1 = ?m(event_key_for lg1 (rec_version ?r1) \<mapsto> event_value j e1, global_event_key_for ?g \<mapsto> global_value j ?r1)"
  define m1' where "m1' = ?m(event_key_for lg1 (rec_version ?r1) \<mapsto> event_value j e1)"
  define m2 where "m2 = m1'(event_key_for lg2 (rec_version ?r2) \<mapsto> event_value j e2, global_event_key_for ?g \<mapsto> global_value j ?r2)"
  have "holds_events j lo ?S1 m1" by (rule put_one(1) [OF h'(1,2) refl len(1) len(2) h'(5) m1_def])
  then have ev: "holds_events j lo ?S1 m1'" by (rule holds_events_cong) (simp add: m1_def m1'_def)
  have gl: "holds_global j lo G m1'" using h'(2) by (rule holds_global_cong) (simp add: m1'_def)
  have "?S1 lg2 = S lg2" using two by (simp add: extended_def)
  then have r2: "?r2 = new_record (of_nat (length (?S1 lg2)) + 1) lg2 (raw_name e2) (raw_data e2)" "length (?S1 lg2) + 1 < 2 ^ 64" "lo lg2 \<le> length (?S1 lg2)"
    using len(1) [of lg2] h'(5) [of lg2] by simp_all
  note both = put_one [OF ev gl r2(1,2) len(2) r2(3) m2_def]
  have sem: "sem s' = m2(version_key_for lg1 \<mapsto> be_uint64 (of_nat (length (S lg1) + 1)), version_key_for lg2 \<mapsto> be_uint64 (of_nat (length (S lg2) + 1)),
      global_version_key \<mapsto> be_uint64 (of_nat (length G + 1)))"
    using two by (auto simp: s'(2) append_ops_def put_ops_Cons record_sets_def recs put_ops_def m2_def m1'_def fun_eq_iff)
  have "holds_events j lo ?S2 (sem s')" using both(1) by (rule holds_events_cong) (simp add: sem)
  moreover have "holds_global j lo ?G2 (sem s')" using both(2) by (rule holds_global_cong) (simp add: sem)
  moreover have "holds_counters ?S2 ?G2 (sem s')"
    using h'(3) two by (auto simp: sem m2_def m1'_def holds_counters_def counter_value_def)
  moreover have "well_named ?S2 ?G2" by (rule well_named_two [OF h two room nm])
  moreover have "\<forall>lg. lo lg \<le> length (?S2 lg)" using h'(5) by (simp add: trans_le_add1)
  ultimately have h2: "pebble_holds j lo ?S2 ?G2 (sem (px_db ?d))" by (simp add: pebble_holds_def)
  have "pebble_read_all_events None kv j ?d select_from_beginning = pebble_read_all_events None kv j d select_from_beginning @ [Inr (index_at ?G2 (length G))]"
    using index_extends [OF st j h h2] len(1) [of lg2] h'(5) [of lg2] by (simp add: kept_def unat_Suc_of_nat)
  with run h2 show ?thesis by (auto simp: recs)
qed

section \<open>Witnesses\<close>

definition one_event :: "char raw" where
  "one_event = \<lparr>raw_name = ''added'', raw_data = ''x''\<rparr>"

lemma one_event_named [simp]: "\<forall>e \<in> set [one_event]. valid_utf8 (raw_name e)" "valid_utf8 (raw_name one_event)"
  by (simp_all add: one_event_def)

lemma one_event_stored:
  assumes "valid_utf8 lg"
  obtains d where "pebble_append_events None fmap_kv length_json empty_pebble lg (CheckExact 0) [one_event] = (d, Inr 1)"
    and "pebble_holds length_json (\<lambda>_. 0) (extended (\<lambda>_. []) lg [one_event]) (to_records [one_event] lg 0) (fmlookup (px_db d))"
proof (rule pebble_append_ok [OF fmap_kv_ordered length_json_faithful empty_pebble_holds _ assms one_event_named(1)])
  fix s' assume "pebble_append_events None fmap_kv length_json empty_pebble lg (CheckExact (of_nat (length ([] :: char raw list)))) [one_event] =
      (empty_pebble\<lparr>px_db := s'\<rparr>, Inr (of_nat (length ([] :: char raw list) + length [one_event])))"
    and "pebble_holds length_json (\<lambda>_. 0) (extended (\<lambda>_. []) lg [one_event]) ([] @ to_records [one_event] lg (of_nat (length ([] :: char raw list)))) (fmlookup s')"
  then show thesis by (intro that [of "empty_pebble\<lparr>px_db := s'\<rparr>"]) simp_all
qed simp_all

theorem pebble_agrees_with_memory_witness:
  "\<exists>d' r mem' r'. pebble_append_events None fmap_kv length_json empty_pebble ''a'' (CheckExact 0) [one_event] = (d', r) \<and>
    mem_append_events None new_memory ''a'' (CheckExact 0) [one_event] = (mem', r') \<and>
    map_sum as_conflict id r = map_sum as_conflict id r' \<and>
    pebble_read_events None fmap_kv length_json d' ''b'' select_from_beginning = mem_read_events None mem' ''b'' select_from_beginning"
proof -
  obtain d' r where peb: "pebble_append_events None fmap_kv length_json empty_pebble ''a'' (CheckExact 0) [one_event] = (d', r)" by fastforce
  obtain mem' r' where ram: "mem_append_events None new_memory ''a'' (CheckExact 0) [one_event] = (mem', r')" by fastforce
  have none: "mem_contents new_memory = (\<lambda>_. [])" by (simp add: fun_eq_iff mem_contents_def mem_stream_def new_memory_def)
  have "pebble_holds length_json (\<lambda>_. 0) (mem_contents new_memory) [] (fmlookup (px_db empty_pebble))" using empty_pebble_holds by (simp only: none)
  moreover have "[one_event] \<noteq> []" "length ([] :: char rec list) + length [one_event] < 2 ^ 64" "mem_total (new_memory :: char memory) + length [one_event] < 2 ^ 64"
    "CHR ''/'' \<notin> set ''a''" "CHR ''/'' \<notin> set ''b''" "sel_to select_from_beginning \<noteq> - 1"
    by (simp_all add: mem_total_def new_memory_def select_from_beginning_def)
  moreover have "slash_free (mem_contents (new_memory :: char memory))" by (simp add: none slash_free_def)
  ultimately show ?thesis
    using pebble_agrees_with_memory [OF fmap_kv_ordered length_json_faithful _ new_memory_wf, of "[]" empty_pebble "[one_event]" "''a''" "''b''" select_from_beginning 0]
      peb ram by simp
qed

theorem pebble_index_in_commit_order_witness:
  "\<exists>d. pebble_append_events None fmap_kv length_json empty_pebble ''a'' (CheckExact 0) [one_event] = (d, Inr 1) \<and>
    pebble_read_all_events None fmap_kv length_json d select_from_beginning = [Inr (new_global_record 1 1 ''a'' ''added'' ''x'')]"
proof -
  obtain d where d: "pebble_append_events None fmap_kv length_json empty_pebble ''a'' (CheckExact 0) [one_event] = (d, Inr 1)"
    using one_event_stored [OF ascii_names(1)] .
  have "[one_event] \<noteq> []" "length ([] :: char rec list) + length [one_event] < 2 ^ 64" by simp_all
  from pebble_index_in_commit_order [OF fmap_kv_ordered length_json_faithful empty_pebble_holds this _ _ d]
    pebble_read_index [OF fmap_kv_ordered length_json_faithful empty_pebble_holds] d
  show ?thesis by (auto simp: one_event_def)
qed

theorem pebble_delete_keeps_versions_witness:
  "\<exists>d d' d''. pebble_delete_up_to None fmap_kv length_json d ''a'' 1 = (d', None) \<and>
    pebble_read_all_events None fmap_kv length_json d select_from_beginning = [Inr (new_global_record 1 1 ''a'' ''added'' ''x'')] \<and>
    pebble_read_all_events None fmap_kv length_json d' select_from_beginning = [] \<and>
    pebble_append_events None fmap_kv length_json d' ''a'' (CheckExact 1) [one_event] = (d'', Inr 2)"
proof -
  obtain d where "pebble_append_events None fmap_kv length_json empty_pebble ''a'' (CheckExact 0) [one_event] = (d, Inr 1)"
    and d: "pebble_holds length_json (\<lambda>_. 0) (extended (\<lambda>_. []) ''a'' [one_event]) (to_records [one_event] ''a'' 0) (fmlookup (px_db d))"
    by (rule one_event_stored [OF ascii_names(1)])
  have "CHR ''/'' \<notin> set ''a''" "slash_free (extended (\<lambda>_. []) ''a'' [one_event])" "(1 :: u64) \<noteq> - 1" "sel_to select_from_beginning \<noteq> - 1"
    "[one_event] \<noteq> []" "length (to_records [one_event] ''a'' 0) + length [one_event] < 2 ^ 64"
    by (simp_all add: slash_free_def extended_def select_from_beginning_def)
  note del = pebble_delete_keeps_versions [OF fmap_kv_ordered length_json_faithful d this]
  have "pebble_read_all_events None fmap_kv length_json d select_from_beginning = [Inr (new_global_record 1 1 ''a'' ''added'' ''x'')]"
    using pebble_read_index [OF fmap_kv_ordered length_json_faithful d]
    by (simp add: kept_def index_at_def to_records_Cons version_at_def one_event_def)
  with del show ?thesis by (auto simp: new_global_record_def)
qed

theorem pebble_reads_nested_stream_witness:
  "\<exists>d. pebble_append_events None fmap_kv length_json empty_pebble ''a/b'' (CheckExact 0) [one_event] = (d, Inr 1) \<and>
    Inr (new_record 1 ''a'' ''added'' ''x'') \<in> set (pebble_read_events None fmap_kv length_json d ''a'' select_from_beginning)"
proof -
  obtain d where d: "pebble_append_events None fmap_kv length_json empty_pebble ''a/b'' (CheckExact 0) [one_event] = (d, Inr 1)"
    "pebble_holds length_json (\<lambda>_. 0) (extended (\<lambda>_. []) ''a/b'' [one_event]) (to_records [one_event] ''a/b'' 0) (fmlookup (px_db d))"
    by (rule one_event_stored [OF ascii_names(3)])
  have "extended (\<lambda>_. []) ''a/b'' [one_event] (''a'' @ ''/'' @ ''b'') = one_event # []" by (simp add: extended_def)
  from pebble_reads_nested_stream [OF fmap_kv_ordered length_json_faithful d(2) this] d(1) show ?thesis by (auto simp: one_event_def)
qed

theorem pebble_second_append_hides_first_witness:
  "\<exists>d' r. pebble_within_tx fmap_kv
      (\<lambda>d. case pebble_append_in_tx None fmap_kv length_json d ''a'' (CheckExact 0) [one_event] of
        (d1, Inl err) \<Rightarrow> (d1, Inl err)
      | (d1, Inr _) \<Rightarrow> pebble_append_in_tx None fmap_kv length_json d1 ''b'' (CheckExact 0) [one_event]) empty_pebble = (d', Inr r) \<and>
    pebble_read_all_events None fmap_kv length_json d' select_from_beginning = [Inr (new_global_record 1 1 ''b'' ''added'' ''x'')]"
proof -
  have "''a'' \<noteq> ''b''" "length ([] :: char rec list) + 2 < 2 ^ 64" by simp_all
  note both = pebble_second_append_hides_first [OF fmap_kv_ordered length_json_faithful empty_pebble_holds this, of one_event one_event]
  have "pebble_read_all_events None fmap_kv length_json empty_pebble select_from_beginning = []"
    using pebble_read_index [OF fmap_kv_ordered length_json_faithful empty_pebble_holds] by simp
  with both show ?thesis by (auto simp: index_at_def to_records_Cons version_at_def one_event_def)
qed

end
