(* ===== verification/DF_Database.thy ===== *)
theory DF_Database
  imports DF_Transact DF_NatsLog DF_Conn
begin

text \<open>
  The SQLite event log \<open>eventlog/sqlite.go\<close>: the table of its schema, the trigger that checks the version of
  each inserted row, its statements, and the operations around them. The rows are those of the
  in-memory log; \<open>'o\<close> are the other tables, those that processors write. The texts that the
  driver puts around an error, and the errors of the calls of \<open>database/sql\<close>, are parameters. Versions are stored as signed
  64-bit integers, and \<open>database/sql\<close> refuses an argument of type \<open>uint64\<close> with the high bit set.
\<close>

section \<open>The table\<close>

record ('x, 'o) sqlite =
  sq_rows :: "'x memrec list"
  sq_seq :: version
  sq_other :: 'o

record sql_errors =
  sql_abort :: "string \<Rightarrow> gerr"
  sql_high_bit :: gerr
  sql_full :: gerr

definition high_bit :: "u64 \<Rightarrow> bool" where
  "high_bit v \<longleftrightarrow> 2 ^ 63 \<le> unat v"

definition new_sqlite :: "'o \<Rightarrow> ('x, 'o) sqlite" where
  "new_sqlite other = \<lparr>sq_rows = [], sq_seq = 0, sq_other = other\<rparr>"

text \<open>\<open>SELECT COALESCE(MAX(version), 0) FROM t WHERE log_id = ?\<close>\<close>

definition max_version :: "'x memrec list \<Rightarrow> string \<Rightarrow> version" where
  "max_version rows lg = fold max (map mr_version (filter (\<lambda>m. mr_log m = lg) rows)) 0"

text \<open>
  The \<open>INSERT\<close>: the trigger runs before it and aborts unless the version is the next one. The global
  version is \<open>AUTOINCREMENT\<close>: one more than any that was ever given, up to \<open>2 ^ 63 - 1\<close>.
\<close>

definition insert_event ::
    "sql_errors \<Rightarrow> ('x, 'o) sqlite \<Rightarrow> string \<Rightarrow> version \<Rightarrow> string \<Rightarrow> 'x list \<Rightarrow> ('x, 'o) sqlite \<times> gerr option" where
  "insert_event q db lg v name data =
     (if high_bit v then (db, Some (sql_high_bit q))
      else
        (let current = max_version (sq_rows db) lg in
         if v \<noteq> current + 1 then (db, Some (sql_abort q (conflict_error_prefix @ format_uint current)))
         else if sq_seq db = 2 ^ 63 - 1 then (db, Some (sql_full q))
         else (db\<lparr>sq_rows := sq_rows db @
                    [\<lparr>mr_log = lg, mr_name = name, mr_data = data, mr_version = v, mr_global = sq_seq db + 1\<rparr>],
                 sq_seq := sq_seq db + 1\<rparr>, None)))"

section \<open>Operations\<close>

text \<open>
  What the context and the calls of \<open>database/sql\<close> report: \<open>None\<close> is a nil error. \<open>sc_next i\<close> is
  the error that \<open>Next\<close> stops with before the \<open>i\<close>-th row, \<open>sc_row i\<close> that of the context when
  the row is there.
\<close>

record sql_calls =
  sc_ctx :: "gerr option"
  sc_begin :: "gerr option"
  sc_prepare :: "gerr option"
  sc_commit :: "gerr option"
  sc_next :: "nat \<Rightarrow> gerr option"
  sc_row :: "nat \<Rightarrow> gerr option"

definition sqlite_within_tx :: "sql_calls \<Rightarrow> ('d, 'r) within_tx" where
  "sqlite_within_tx k body d =
     (case sc_begin k of
        Some e \<Rightarrow> (d, Inl (ErrWrap ''within tx: begin transaction'' e))
      | None \<Rightarrow>
         (case body d of
            (_, Inl e) \<Rightarrow> (d, Inl e)
          | (d', Inr r) \<Rightarrow>
             (case sc_commit k of
                Some e \<Rightarrow> (d, Inl (ErrWrap ''within tx: commit transaction'' e))
              | None \<Rightarrow> (d', Inr r))))"

fun insert_records ::
    "sql_errors \<Rightarrow> version \<Rightarrow> ('x, 'o) sqlite \<Rightarrow> 'x rec list \<Rightarrow> ('x, 'o) sqlite \<times> gerr option" where
  "insert_records q x db [] = (db, None)"
| "insert_records q x db (r # rs) =
     (case insert_event q db (rec_log r) (rec_version r) (raw_name (rec_raw r)) (raw_data (rec_raw r)) of
        (db', Some e) \<Rightarrow>
          (case parse_conflict_error (Some e) of
             Some actual \<Rightarrow> (db', Some (ErrConflict x actual))
           | None \<Rightarrow> (db', Some (ErrWrap ''append in tx: exec statement'' e)))
      | (db', None) \<Rightarrow> insert_records q x db' rs)"

definition sqlite_append_in_tx ::
    "sql_errors \<Rightarrow> sql_calls \<Rightarrow> ('x, 'o) sqlite \<Rightarrow> string \<Rightarrow> check \<Rightarrow> 'x raw list
      \<Rightarrow> ('x, 'o) sqlite \<times> (gerr + version \<times> 'x rec list)" where
  "sqlite_append_in_tx q k db lg expected events =
     (case sc_ctx k of
        Some e \<Rightarrow> (db, Inl (ErrWrap ''append in tx'' e))
      | None \<Rightarrow>
         if events = [] then (db, Inl (ErrWrap ''append in tx'' ErrNoEvents))
         else
           (case expected of
              OtherCheck \<Rightarrow> (db, Inl (ErrWrap ''append in tx'' ErrUnsupportedCheck))
            | CheckExact x \<Rightarrow>
               (case sc_prepare k of
                  Some e \<Rightarrow> (db, Inl (ErrWrap ''append in tx: prepare statement'' e))
                | None \<Rightarrow>
                   (let records = to_records events lg x in
                    case insert_records q x db records of
                      (db', Some e) \<Rightarrow> (db', Inl e)
                    | (db', None) \<Rightarrow> (db', Inr (x + of_nat (length events), records))))))"

definition sqlite_append_events ::
    "sql_errors \<Rightarrow> sql_calls \<Rightarrow> ('x, 'o) sqlite \<Rightarrow> string \<Rightarrow> check \<Rightarrow> 'x raw list \<Rightarrow> ('x, 'o) sqlite \<times> (gerr + version)" where
  "sqlite_append_events q k db lg expected events =
     (case sqlite_within_tx k
        (\<lambda>db. case sqlite_append_in_tx q k db lg expected events of
           (db', Inl e) \<Rightarrow> (db', Inl e) | (db', Inr (v, _)) \<Rightarrow> (db', Inr v)) db of
        (db', Inl e) \<Rightarrow> (db', Inl (ErrWrap ''append events'' e))
      | (db', Inr v) \<Rightarrow> (db', Inr v))"

text \<open>
  The \<open>SELECT\<close> of \<open>ReadEvents\<close>, ordered by version, and the loop over its rows, which looks at the
  context at each. A context that is done when the query starts fails the query.
\<close>

definition select_rows :: "('x memrec \<Rightarrow> version) \<Rightarrow> selector \<Rightarrow> 'x memrec list \<Rightarrow> 'x memrec list" where
  "select_rows key sel rows =
     sort_key key (filter (\<lambda>m. sel_from sel \<le> key m \<and> (sel_to sel = 0 \<or> key m \<le> sel_to sel)) rows)"

fun scan_rows :: "string \<Rightarrow> sql_calls \<Rightarrow> nat \<Rightarrow> 'r list \<Rightarrow> (gerr + 'r) list" where
  "scan_rows txt k i rows =
     (case sc_next k i of
        Some e \<Rightarrow> [Inl (ErrWrap txt e)]
      | None \<Rightarrow>
         (case rows of
            [] \<Rightarrow> []
          | r # rs \<Rightarrow>
             (case sc_row k i of
                Some e \<Rightarrow> [Inl e]
              | None \<Rightarrow> Inr r # scan_rows txt k (Suc i) rs)))"

declare scan_rows.simps [simp del]

definition sqlite_read_events :: "sql_errors \<Rightarrow> sql_calls \<Rightarrow> ('x, 'o) sqlite \<Rightarrow> string \<Rightarrow> selector \<Rightarrow> 'x records" where
  "sqlite_read_events q k db lg sel =
     (case sc_ctx k of
        Some e \<Rightarrow> [Inl (ErrWrap ''read events: query context'' e)]
      | None \<Rightarrow>
         if high_bit (sel_from sel) \<or> high_bit (sel_to sel) then [Inl (ErrWrap ''read events: query context'' (sql_high_bit q))]
         else scan_rows ''read events: rows error'' k 0
           (map (\<lambda>m. new_record (mr_version m) lg (mr_name m) (mr_data m))
             (select_rows mr_version sel (filter (\<lambda>m. mr_log m = lg) (sq_rows db)))))"

definition sqlite_read_all_events ::
    "sql_errors \<Rightarrow> sql_calls \<Rightarrow> ('x, 'o) sqlite \<Rightarrow> selector \<Rightarrow> (gerr + 'x grec) list" where
  "sqlite_read_all_events q k db sel =
     (case sc_ctx k of
        Some e \<Rightarrow> [Inl (ErrWrap ''read all events: query context'' e)]
      | None \<Rightarrow>
         if high_bit (sel_from sel) \<or> high_bit (sel_to sel) then [Inl (ErrWrap ''read all events: query context'' (sql_high_bit q))]
         else scan_rows ''read all events: rows error'' k 0
           (map (\<lambda>m. new_global_record (mr_global m) (mr_version m) (mr_log m) (mr_name m) (mr_data m))
             (select_rows mr_global sel (sq_rows db))))"

definition sqlite_delete_up_to ::
    "sql_errors \<Rightarrow> sql_calls \<Rightarrow> ('x, 'o) sqlite \<Rightarrow> string \<Rightarrow> version \<Rightarrow> ('x, 'o) sqlite \<times> gerr option" where
  "sqlite_delete_up_to q k db lg v =
     (let txt = ''dangerously delete events for log '' @ quote1 lg @ '' up to version '' @ format_uint v in
      case sc_ctx k of
        Some e \<Rightarrow> (db, Some (ErrWrap txt e))
      | None \<Rightarrow>
         if high_bit v then (db, Some (ErrWrap txt (sql_high_bit q)))
         else (db\<lparr>sq_rows := filter (\<lambda>m. \<not> (mr_log m = lg \<and> mr_version m \<le> v)) (sq_rows db)\<rparr>, None))"

section \<open>Well-formed tables\<close>

definition sq_stream :: "('x, 'o) sqlite \<Rightarrow> string \<Rightarrow> 'x memrec list" where
  "sq_stream db lg = filter (\<lambda>m. mr_log m = lg) (sq_rows db)"

definition sq_contents :: "('x, 'o) sqlite \<Rightarrow> string \<Rightarrow> 'x raw list" where
  "sq_contents db lg = map (\<lambda>m. rec_raw (memory_record_to_record m)) (sq_stream db lg)"

text \<open>Without deletions the versions of each stream are 1, 2 and so on, in the order of insertion.\<close>

definition sq_wf :: "('x, 'o) sqlite \<Rightarrow> bool" where
  "sq_wf db \<longleftrightarrow>
     (\<forall>lg. map mr_version (sq_stream db lg) = map (\<lambda>i. of_nat (Suc i)) [0..<length (sq_stream db lg)]) \<and>
     length (sq_rows db) \<le> unat (sq_seq db) \<and> unat (sq_seq db) < 2 ^ 63"

lemma length_sq_contents [simp]: "length (sq_contents db lg) = length (sq_stream db lg)"
  by (simp add: sq_contents_def)

lemma sq_stream_bound: "sq_wf db \<Longrightarrow> length (sq_stream db lg) \<le> unat (sq_seq db) \<and> unat (sq_seq db) < 2 ^ 63"
  using length_filter_le [of "\<lambda>m. mr_log m = lg" "sq_rows db"] by (simp add: sq_wf_def sq_stream_def del: length_filter_le)

lemma fold_max_versions: "n < 2 ^ 64 \<Longrightarrow> fold max (map (\<lambda>i. of_nat (Suc i)) [0..<n]) (0 :: u64) = of_nat n"
proof (induction n)
  case (Suc n)
  then have "(of_nat n :: u64) < of_nat (Suc n)" by (subst of_nat_u64_less) auto
  then have "max (of_nat (Suc n)) (of_nat n) = (of_nat (Suc n) :: u64)" by (intro max_absorb1 less_imp_le)
  with Suc show ?case by (simp del: of_nat_Suc)
qed simp

lemma max_version_full: "sq_wf db \<Longrightarrow> max_version (sq_rows db) lg = of_nat (length (sq_stream db lg))"
  using sq_stream_bound [of db lg] fold_max_versions [of "length (sq_stream db lg)"]
  by (simp add: max_version_def sq_wf_def flip: sq_stream_def)

lemma not_high_bit: "n < 2 ^ 63 \<Longrightarrow> \<not> high_bit (of_nat n)"
  by (simp add: high_bit_def unat_of_nat_u64)

section \<open>Inserting\<close>

definition inserted :: "('x, 'o) sqlite \<Rightarrow> string \<Rightarrow> 'x raw \<Rightarrow> ('x, 'o) sqlite" where
  "inserted db lg e =
     db\<lparr>sq_rows := sq_rows db @ [\<lparr>mr_log = lg, mr_name = raw_name e, mr_data = raw_data e,
          mr_version = of_nat (Suc (length (sq_stream db lg))), mr_global = sq_seq db + 1\<rparr>],
        sq_seq := sq_seq db + 1\<rparr>"

lemma insert_next:
  assumes "sq_wf db" and "unat (sq_seq db) + 1 < 2 ^ 63"
  shows "insert_event q db lg (of_nat (Suc (length (sq_stream db lg)))) (raw_name e) (raw_data e) = (inserted db lg e, None)"
proof -
  have "\<not> high_bit (of_nat (Suc (length (sq_stream db lg))))"
    using sq_stream_bound [OF assms(1), of lg] assms(2) by (intro not_high_bit) simp
  moreover have "sq_seq db \<noteq> 2 ^ 63 - 1"
  proof
    assume "sq_seq db = 2 ^ 63 - 1"
    then have "unat (sq_seq db) = 2 ^ 63 - 1" by simp
    with assms(2) show False by simp
  qed
  ultimately show ?thesis
    by (simp add: insert_event_def Let_def max_version_full [OF assms(1)] inserted_def algebra_simps)
qed

lemma insert_other:
  assumes "sq_wf db" and "v \<noteq> of_nat (Suc (length (sq_stream db lg)))" and "\<not> high_bit v"
  shows "insert_event q db lg v name data =
    (db, Some (sql_abort q (conflict_error_prefix @ format_uint (of_nat (length (sq_stream db lg))))))"
  using assms by (simp add: insert_event_def Let_def max_version_full algebra_simps)

lemma inserted_stream:
  "sq_stream (inserted db lg e) j = (if j = lg then sq_stream db lg @
     [\<lparr>mr_log = lg, mr_name = raw_name e, mr_data = raw_data e,
       mr_version = of_nat (Suc (length (sq_stream db lg))), mr_global = sq_seq db + 1\<rparr>] else sq_stream db j)"
  by (simp add: sq_stream_def inserted_def)

lemma inserted_contents: "sq_contents (inserted db lg e) = (sq_contents db)(lg := sq_contents db lg @ [e])"
  by (auto simp: fun_eq_iff sq_contents_def inserted_stream memory_record_to_record_def new_record_def)

lemma inserted_wf:
  assumes "sq_wf db" and "unat (sq_seq db) + 1 < 2 ^ 63"
  shows "sq_wf (inserted db lg e)" and "unat (sq_seq (inserted db lg e)) = unat (sq_seq db) + 1"
proof -
  have "unat (sq_seq db + of_nat 1) = unat (sq_seq db) + 1" using assms(2) by (intro unat_add_of_nat) simp
  then show seq: "unat (sq_seq (inserted db lg e)) = unat (sq_seq db) + 1" by (simp add: inserted_def)
  show "sq_wf (inserted db lg e)"
    using assms seq by (auto simp: sq_wf_def inserted_stream) (simp add: inserted_def)
qed

lemma insert_all:
  assumes "sq_wf db" and "unat (sq_seq db) + length es < 2 ^ 63"
  shows "\<exists>db'. insert_records q x db (to_records es lg (of_nat (length (sq_stream db lg)))) = (db', None) \<and> sq_wf db' \<and>
    sq_contents db' = (sq_contents db)(lg := sq_contents db lg @ es) \<and> sq_other db' = sq_other db \<and>
    unat (sq_seq db') = unat (sq_seq db) + length es"
  using assms
proof (induction es arbitrary: db)
  case Nil
  then show ?case by (auto simp: to_records_def)
next
  case (Cons e es)
  have room: "unat (sq_seq db) + 1 < 2 ^ 63" using Cons.prems(2) by simp
  let ?db = "inserted db lg e"
  note one = inserted_wf [OF Cons.prems(1) room, of lg e]
  have len: "length (sq_stream ?db lg) = Suc (length (sq_stream db lg))" by (simp add: inserted_stream)
  have bound: "unat (sq_seq ?db) + length es < 2 ^ 63" using one(2) Cons.prems(2) by simp
  have recs: "to_records (e # es) lg (of_nat (length (sq_stream db lg))) =
      new_record (of_nat (Suc (length (sq_stream db lg)))) lg (raw_name e) (raw_data e) #
      to_records es lg (of_nat (length (sq_stream ?db lg)))"
    using to_records_append [of "[e]" es lg "of_nat (length (sq_stream db lg))"]
    by (simp add: len to_records_def algebra_simps)
  obtain db' where "insert_records q x ?db (to_records es lg (of_nat (length (sq_stream ?db lg)))) = (db', None)" "sq_wf db'"
    "sq_contents db' = (sq_contents ?db)(lg := sq_contents ?db lg @ es)" "sq_other db' = sq_other ?db"
    "unat (sq_seq db') = unat (sq_seq ?db) + length es"
    using Cons.IH [OF one(1) bound] by blast
  note ih = this
  have other: "sq_other ?db = sq_other db" by (simp add: inserted_def)
  have "insert_records q x db (to_records (e # es) lg (of_nat (length (sq_stream db lg)))) = (db', None)"
    using insert_next [OF Cons.prems(1) room, of q lg e] ih(1) by (simp add: recs new_record_def del: of_nat_Suc)
  moreover have "sq_contents db' = (sq_contents db)(lg := sq_contents db lg @ e # es)"
    using ih(3) by (simp add: inserted_contents)
  ultimately show ?case using ih(2,4,5) one(2) other by auto
qed

section \<open>The contract of the log\<close>

text \<open>What a driver does with the text of an aborted statement: it keeps it, with text around it.\<close>

definition keeps_text :: "sql_errors \<Rightarrow> bool" where
  "keeps_text q \<longleftrightarrow> (\<forall>m. \<exists>pre post. gerr_msg (sql_abort q m) = pre @ m @ post \<and> CHR ''_'' \<notin> set pre \<and>
     (\<forall>ch post'. post = ch # post' \<longrightarrow> \<not> is_digit ch))"

abbreviation no_errors :: sql_calls where
  "no_errors \<equiv> \<lparr>sc_ctx = None, sc_begin = None, sc_prepare = None, sc_commit = None, sc_next = (\<lambda>_. None), sc_row = (\<lambda>_. None)\<rparr>"

lemma scan_rows_all [simp]: "sc_next k = (\<lambda>_. None) \<Longrightarrow> sc_row k = (\<lambda>_. None) \<Longrightarrow> scan_rows txt k i rows = map Inr rows"
proof (induction rows arbitrary: i)
  case Nil
  then show ?case by (subst scan_rows.simps) simp
next
  case (Cons r rs)
  then show ?case by (subst scan_rows.simps) simp
qed

lemma abort_parsed:
  assumes "keeps_text q"
  shows "parse_conflict_error (Some (sql_abort q (conflict_error_prefix @ format_uint v))) = Some v"
proof -
  obtain pre post where "gerr_msg (sql_abort q (conflict_error_prefix @ format_uint v)) = pre @ (conflict_error_prefix @ format_uint v) @ post"
    "CHR ''_'' \<notin> set pre" "\<forall>ch post'. post = ch # post' \<longrightarrow> \<not> is_digit ch"
    using assms unfolding keeps_text_def by blast
  then show ?thesis by (intro parse_conflict_error_inverts [of _ pre v post]) simp_all
qed

lemma sqlite_append_ok:
  assumes "sq_wf db" and "es \<noteq> []" and "unat (sq_seq db) + length es < 2 ^ 63"
  shows "\<exists>db'. sqlite_append_events q no_errors db lg (CheckExact (of_nat (length (sq_contents db lg)))) es =
      (db', Inr (of_nat (length (sq_contents db lg) + length es))) \<and> sq_wf db' \<and>
    sq_contents db' = (sq_contents db)(lg := sq_contents db lg @ es) \<and> sq_other db' = sq_other db \<and>
    unat (sq_seq db') = unat (sq_seq db) + length es"
  using insert_all [OF assms(1,3), of q "of_nat (length (sq_contents db lg))" lg] assms(2)
  by (auto simp: sqlite_append_events_def sqlite_within_tx_def sqlite_append_in_tx_def Let_def)

lemma sqlite_append_conflict:
  assumes wf: "sq_wf db" and es: "es \<noteq> []" and q: "keeps_text q" and small: "unat x + 1 < 2 ^ 63"
    and x: "x \<noteq> of_nat (length (sq_contents db lg))"
  shows "sqlite_append_events q no_errors db lg (CheckExact x) es =
    (db, Inl (ErrWrap ''append events'' (ErrConflict x (of_nat (length (sq_contents db lg))))))"
proof -
  obtain e es' where cons: "es = e # es'" using es by (cases es) auto
  have recs: "to_records es lg x = new_record (x + 1) lg (raw_name e) (raw_data e) # to_records es' lg (x + 1)"
    by (simp add: cons to_records_Cons)
  have "unat (x + of_nat 1) = unat x + 1" using small by (intro unat_add_of_nat) simp
  then have hb: "\<not> high_bit (x + 1)" using small by (simp add: high_bit_def)
  have "x + 1 \<noteq> of_nat (Suc (length (sq_stream db lg)))" using x by (simp add: algebra_simps)
  from insert_other [OF wf this hb] abort_parsed [OF q] es show ?thesis
    by (simp add: sqlite_append_events_def sqlite_within_tx_def sqlite_append_in_tx_def Let_def recs new_record_def)
qed

lemma sqlite_read:
  assumes wf: "sq_wf db" and small: "\<not> high_bit (sel_from sel)" "\<not> high_bit (sel_to sel)"
  shows "sqlite_read_events q no_errors db lg sel =
    map Inr (filter (\<lambda>r. in_range sel (rec_version r)) (to_records (sq_contents db lg) lg 0))"
proof -
  let ?s = "sq_stream db lg" and ?rec = "\<lambda>m. new_record (mr_version m) lg (mr_name m) (mr_data m)"
  have vs: "map mr_version ?s = map (\<lambda>i. of_nat (Suc i)) [0..<length ?s]" using wf by (simp add: sq_wf_def)
  have len: "length ?s < 2 ^ 63" using sq_stream_bound [OF wf, of lg] by linarith
  have "sorted (map mr_version ?s)"
    unfolding vs sorted_iff_nth_mono using len
    by (auto simp: word_le_nat_alt unat_of_nat_u64 simp del: of_nat_Suc)
  then have "select_rows mr_version sel ?s = filter (\<lambda>m. in_range sel (mr_version m)) ?s"
    by (simp add: select_rows_def in_range_def filter_sort [symmetric] sort_key_id_if_sorted)
  moreover have recs: "map ?rec ?s = to_records (sq_contents db lg) lg 0"
  proof (intro nth_equalityI)
    fix i assume "i < length (map ?rec ?s)"
    then have i: "i < length ?s" by simp
    then have "mr_version (?s ! i) = of_nat (Suc i)" using arg_cong [OF vs, of "\<lambda>l. l ! i"] by simp
    with i show "map ?rec ?s ! i = to_records (sq_contents db lg) lg 0 ! i"
      by (simp add: to_records_nth sq_contents_def memory_record_to_record_def new_record_def)
  qed simp
  moreover have "filter (\<lambda>r. in_range sel (rec_version r)) (map ?rec ?s) = map ?rec (filter (\<lambda>m. in_range sel (mr_version m)) ?s)"
    by (simp add: filter_map o_def new_record_def)
  ultimately show ?thesis
    using small by (simp add: sqlite_read_events_def Let_def flip: sq_stream_def)
qed

text \<open>\<open>WithinTx\<close> of SQLite rolls back, whatever the body and the state are.\<close>

interpretation sqlite_tx: transactor "sqlite_within_tx k"
  by unfold_locales (auto simp: sqlite_within_tx_def split: option.split)

lemma new_sqlite_wf: "sq_wf (new_sqlite other)"
  by (simp add: sq_wf_def sq_stream_def new_sqlite_def)

section \<open>Properties\<close>

text \<open>
  The SQLite log does what the in-memory log does. On a table and a store with the same
  streams, neither pruned, and below \<open>2 ^ 63\<close>: an append succeeds in both or in neither, with the same new
  version or a conflict between the same two versions; afterwards the streams are again the same; and every read with
  bounds below \<open>2 ^ 63\<close> returns the same records.
\<close>

theorem sqlite_agrees_with_memory:
  assumes wf: "sq_wf db" "mem_wf (\<lambda>_. 0) mem" and same: "sq_contents db = mem_contents mem" and q: "keeps_text q"
    and es: "es \<noteq> []" and room: "unat (sq_seq db) + length es < 2 ^ 63" "mem_total mem + length es < 2 ^ 64"
    and small: "unat x + 1 < 2 ^ 63" "\<not> high_bit (sel_from sel)" "\<not> high_bit (sel_to sel)"
    and sql: "sqlite_append_events q no_errors db lg (CheckExact x) es = (db', r)"
    and ram: "mem_append_events None mem lg (CheckExact x) es = (mem', r')"
  shows "map_sum as_conflict id r = map_sum as_conflict id r' \<and> sq_contents db' = mem_contents mem' \<and> sq_wf db' \<and>
    sqlite_read_events q no_errors db' j sel = mem_read_events None mem' j sel"
proof -
  have len: "length (sq_contents db lg) = length (mem_contents mem lg)" by (simp only: same)
  have reads: "sqlite_read_events q no_errors d j sel = mem_read_events None m j sel"
    if "sq_wf d" "mem_wf (\<lambda>_. 0) m" "sq_contents d = mem_contents m" for d and m :: "'a memory"
    using sqlite_read [OF that(1) small(2,3)] memlog.read_contents [OF that(2)] that(3) by simp
  show ?thesis
  proof (cases "x = of_nat (length (sq_contents db lg))")
    case True
    then have v: "x = of_nat (length (mem_contents mem lg))" by (simp only: len)
    note m = memlog.append_result [OF wf(2) es room(2), of lg] memlog.append_contents [OF wf(2) es room(2), of lg]
      memlog.append_invar [OF wf(2) es room(2), of lg]
    have "r' = Inr (of_nat (length (mem_contents mem lg) + length es))" "mem_wf (\<lambda>_. 0) mem'"
      "mem_contents mem' = (mem_contents mem)(lg := mem_contents mem lg @ es)"
      using m ram unfolding v by simp_all
    moreover have "r = Inr (of_nat (length (sq_contents db lg) + length es))" "sq_wf db'"
      "sq_contents db' = (sq_contents db)(lg := sq_contents db lg @ es)"
      using sqlite_append_ok [OF wf(1) es room(1), of q lg] sql unfolding True by auto
    ultimately show ?thesis using reads [of db' mem'] by (simp only: len same map_sum.simps id_apply)
  next
    case False
    then have "x \<noteq> of_nat (length (mem_contents mem lg))" by (simp only: len) simp
    then obtain e where "mem' = mem" "r' = Inl e" "as_conflict e = Some (x, of_nat (length (mem_contents mem lg)))"
      using memlog.append_conflict [OF wf(2) es] ram by fastforce
    moreover have "db' = db" "r = Inl (ErrWrap ''append events'' (ErrConflict x (of_nat (length (sq_contents db lg)))))"
      using sqlite_append_conflict [OF wf(1) es q small(1) False] sql by auto
    ultimately show ?thesis using reads [OF wf same] wf(1) same by (simp only: len) simp
  qed
qed

text \<open>
  (C40) Pruning a stream up to its last version, as is recommended after a snapshot, divides
  the logs. The in-memory log still knows the version and accepts the next append. SQLite computes the version from the rows
  that are left, so it starts again at 0, and refuses every append that continues the stream.
\<close>

theorem pruned_stream_blocks_sqlite:
  assumes wf: "sq_wf db" "mem_wf (\<lambda>_. 0) mem" and same: "sq_contents db = mem_contents mem" and q: "keeps_text q"
    and n: "n = length (sq_contents db lg)" "0 < n" and es: "es \<noteq> []" and room: "n + 1 < 2 ^ 63"
  shows "\<exists>db'. sqlite_delete_up_to q no_errors db lg (of_nat n) = (db', None) \<and>
      sqlite_append_events q no_errors db' lg (CheckExact (of_nat n)) es =
        (db', Inl (ErrWrap ''append events'' (ErrConflict (of_nat n) 0))) \<and>
      snd (mem_append_events None (fst (mem_delete_up_to None mem lg (of_nat n))) lg (CheckExact (of_nat n)) es) =
        Inr (of_nat (n + length es))"
proof -
  define db' where "db' = db\<lparr>sq_rows := filter (\<lambda>m. \<not> (mr_log m = lg \<and> mr_version m \<le> of_nat n)) (sq_rows db)\<rparr>"
  have nb: "n < 2 ^ 63" using room by simp
  have del: "sqlite_delete_up_to q no_errors db lg (of_nat n) = (db', None)"
    using not_high_bit [OF nb] by (simp add: sqlite_delete_up_to_def Let_def db'_def)
  have vs: "map mr_version (sq_stream db lg) = map (\<lambda>i. of_nat (Suc i)) [0..<n]" using wf(1) n(1) by (simp add: sq_wf_def)
  have "mr_version m \<le> of_nat n" if "m \<in> set (sq_stream db lg)" for m
  proof -
    have "mr_version m \<in> set (map mr_version (sq_stream db lg))" using that by simp
    then have "mr_version m \<in> set (map (\<lambda>i. of_nat (Suc i)) [0..<n])" by (simp only: vs)
    then obtain i where "i < n" "mr_version m = of_nat (Suc i)" by (auto simp del: of_nat_Suc)
    with nb show ?thesis by (simp add: word_le_nat_alt unat_of_nat_u64 del: of_nat_Suc)
  qed
  then have "filter (\<lambda>m. mr_log m = lg) (sq_rows db') = []"
    by (auto simp: db'_def filter_empty_conv sq_stream_def)
  then have "max_version (sq_rows db') lg = 0" by (simp add: max_version_def)
  moreover have "\<not> high_bit (of_nat n + 1)" using not_high_bit [of "Suc n"] room by (simp add: add.commute)
  moreover have "(of_nat n :: u64) \<noteq> 0" using n(2) nb of_nat_u64_inj [of n 0] by simp
  ultimately have "insert_event q db' lg (of_nat n + 1) name data = (db', Some (sql_abort q (conflict_error_prefix @ format_uint 0)))"
    for name data by (simp add: insert_event_def Let_def)
  moreover obtain e es' where "es = e # es'" using es by (cases es) auto
  then have "to_records es lg (of_nat n) = new_record (of_nat n + 1) lg (raw_name e) (raw_data e) # to_records es' lg (of_nat n + 1)"
    using to_records_append [of "[e]" es' lg "of_nat n"] by (simp add: to_records_def)
  ultimately have "sqlite_append_events q no_errors db' lg (CheckExact (of_nat n)) es =
      (db', Inl (ErrWrap ''append events'' (ErrConflict (of_nat n) 0)))"
    using abort_parsed [OF q, of 0] es
    by (simp add: sqlite_append_events_def sqlite_within_tx_def sqlite_append_in_tx_def Let_def new_record_def)
  moreover have "log_version (mem_deleted mem lg (of_nat n)) lg = of_nat n"
    using mem_log_version_full [OF wf(2), of lg] n(1) by (simp only: log_version_deleted same)
  ultimately show ?thesis using del es by (simp add: mem_append_cases flip: mem_deleted_def)
qed

text \<open>What a save with events does inside of its transaction.\<close>

lemma tx_save_runs:
  assumes "root_uncommitted r \<noteq> []"
    and "raw_events_from_uncommitted (repo_codec repo) (repo_transformers repo) (root_uncommitted r) = Inr raws"
  shows "tx_save wtx append_in processor ident repo d r =
    (case wtx (\<lambda>d. case append_in d (ident (root_state r)) (CheckExact (root_version r - of_nat (length (root_uncommitted r)))) raws of
        (d1, Inl e) \<Rightarrow> (d1, Inl (ErrWrap ''append events in tx'' e))
      | (d1, Inr (v, _)) \<Rightarrow> (case processor of None \<Rightarrow> (d1, Inr (v, root_uncommitted r))
         | Some p \<Rightarrow> (case p d1 (r\<lparr>root_uncommitted := []\<rparr>) (root_uncommitted r) of (d2, Some e) \<Rightarrow> (d2, Inl (ErrWrap ''aggregate processor'' e))
            | (d2, None) \<Rightarrow> (d2, Inr (v, root_uncommitted r))))) d of
       (d1, Inl e) \<Rightarrow> (d1, r\<lparr>root_uncommitted := []\<rparr>, Inl (ErrWrap ''repo save'' (ErrWrap ''aggregate commit with tx'' e)))
     | (d1, Inr v) \<Rightarrow> (d1, r\<lparr>root_uncommitted := []\<rparr>, Inr v))"
  using assms
  by (simp add: tx_save_def commit_events_with_tx_def flush_uncommitted_events_def Let_def split: prod.split sum.split)

text \<open>
  (C32) A save through a transactional repository on SQLite is atomic: after an error
  the database is as it was, the log and the tables of the processor alike; after a success it is what the processor
  left after the append of the new events at the version of the root. The root loses its new events in either case.
\<close>

theorem transactional_save_all_or_nothing:
  assumes "tx_save (sqlite_within_tx k) append_in processor ident repo d r = (d', r', res)"
  shows "r' = r\<lparr>root_uncommitted := []\<rparr> \<and>
    (case res of
       Inl e \<Rightarrow> d' = d
     | Inr (v, es) \<Rightarrow> es = root_uncommitted r \<and>
        (if es = [] then d' = d \<and> v = root_version r
         else \<exists>raws d1 records. raw_events_from_uncommitted (repo_codec repo) (repo_transformers repo) es = Inr raws \<and>
           append_in d (ident (root_state r)) (CheckExact (root_version r - of_nat (length es))) raws = (d1, Inr (v, records)) \<and>
           (case processor of None \<Rightarrow> d' = d1 | Some p \<Rightarrow> p d1 r' es = (d', None))))"
proof (cases "root_uncommitted r = []")
  case True
  with assms show ?thesis by (auto simp: tx_save_def commit_events_with_tx_def flush_uncommitted_events_def)
next
  case False
  let ?r = "r\<lparr>root_uncommitted := []\<rparr>" and ?es = "root_uncommitted r"
  show ?thesis
  proof (cases "raw_events_from_uncommitted (repo_codec repo) (repo_transformers repo) ?es")
    case (Inl e)
    with False assms show ?thesis
      by (auto simp: tx_save_def commit_events_with_tx_def flush_uncommitted_events_def Let_def)
  next
    case (Inr raws)
    note raws = this
    define body where "body = (\<lambda>d. case append_in d (ident (root_state r)) (CheckExact (root_version r - of_nat (length ?es))) raws of
        (d1, Inl e) \<Rightarrow> (d1, Inl (ErrWrap ''append events in tx'' e))
      | (d1, Inr (v, _)) \<Rightarrow> (case processor of None \<Rightarrow> (d1, Inr (v, ?es))
         | Some p \<Rightarrow> (case p d1 ?r ?es of (d2, Some e) \<Rightarrow> (d2, Inl (ErrWrap ''aggregate processor'' e))
            | (d2, None) \<Rightarrow> (d2, Inr (v, ?es)))))"
    have save: "tx_save (sqlite_within_tx k) append_in processor ident repo d r =
        (case sqlite_within_tx k body d of
           (d1, Inl e) \<Rightarrow> (d1, ?r, Inl (ErrWrap ''repo save'' (ErrWrap ''aggregate commit with tx'' e)))
         | (d1, Inr v) \<Rightarrow> (d1, ?r, Inr v))"
      unfolding body_def by (rule tx_save_runs [OF False Inr])
    obtain d1 w where w: "sqlite_within_tx k body d = (d1, w)" by fastforce
    show ?thesis
    proof (cases w)
      case (Inl e)
      have "d1 = d" by (rule sqlite_tx.error_keeps_nothing [OF w [unfolded Inl]])
      moreover have "(d', r', res) = (d1, ?r, Inl (ErrWrap ''repo save'' (ErrWrap ''aggregate commit with tx'' e)))"
        unfolding assms [symmetric] save w Inl by simp
      ultimately show ?thesis by simp
    next
      case (Inr ves)
      have "body d = (d1, Inr ves)" by (rule sqlite_tx.success_keeps_all [OF w [unfolded Inr]])
      then have "snd ves = ?es \<and> (\<exists>d2 records. append_in d (ident (root_state r))
          (CheckExact (root_version r - of_nat (length ?es))) raws = (d2, Inr (fst ves, records)) \<and>
          (case processor of None \<Rightarrow> d1 = d2 | Some p \<Rightarrow> p d2 ?r ?es = (d1, None)))"
        unfolding body_def by (auto split: prod.splits sum.splits option.splits)
      moreover have "(d', r', res) = (d1, ?r, Inr ves)"
        unfolding assms [symmetric] save w Inr by simp
      ultimately show ?thesis using False raws by (cases ves) auto
    qed
  qed
qed

text \<open>
  On the in-memory log, which does not roll back, the same save is not atomic: when the
  processor fails, the save reports an error, but the events are in the log. And since the root has lost
  its new events, a second attempt to save it reports success at once.
\<close>

theorem memory_keeps_refused_save:
  assumes wf: "mem_wf (\<lambda>_. 0) mem" and new: "root_uncommitted r \<noteq> []"
    and ser: "raw_events_from_uncommitted (repo_codec repo) (repo_transformers repo) (root_uncommitted r) = Inr raws" "raws \<noteq> []"
    and ver: "root_version r - of_nat (length (root_uncommitted r)) = of_nat (length (mem_contents mem (ident (root_state r))))"
    and fails: "\<And>d r es. p d r es = (d, Some err)"
  shows "\<exists>mem' r' e. tx_save mem_within_tx (mem_append_in_tx None) (Some p) ident repo mem r = (mem', r', Inl e) \<and>
    mem_contents mem' = (mem_contents mem)(ident (root_state r) := mem_contents mem (ident (root_state r)) @ raws) \<and>
    tx_save mem_within_tx (mem_append_in_tx None) (Some p) ident repo mem' r' = (mem', r', Inr (root_version r, []))"
proof -
  let ?lg = "ident (root_state r)"
  have "mem_append_in_tx None mem ?lg (CheckExact (root_version r - of_nat (length (root_uncommitted r)))) raws =
      (mem_after mem ?lg raws, Inr (log_version mem ?lg + of_nat (length raws), to_records raws ?lg (log_version mem ?lg)))"
    using mem_log_version_full [OF wf, of ?lg] ver ser(2)
    by (simp add: mem_append_in_tx_def Let_def mem_after_def check_exact_def)
  with new ser(1) fails show ?thesis
    by (simp add: tx_save_def commit_events_with_tx_def flush_uncommitted_events_def Let_def mem_within_tx_def mem_contents_after)
qed

section \<open>Witnesses\<close>

definition demo_sql :: sql_errors where
  "demo_sql = \<lparr>sql_abort = (\<lambda>m. ErrMsg (''constraint failed: '' @ m)), sql_high_bit = ErrMsg ''high bit'', sql_full = ErrMsg ''full''\<rparr>"

lemma demo_sql_text: "keeps_text demo_sql"
  unfolding keeps_text_def demo_sql_def
  by (intro allI exI [of _ "''constraint failed: ''"] exI [of _ "[]"]) simp

definition one_raw :: "nat raw list" where
  "one_raw = [\<lparr>raw_name = ''added'', raw_data = [3]\<rparr>]"

lemma empty_contents: "sq_contents (new_sqlite other) = mem_contents new_memory"
  by (simp add: fun_eq_iff sq_contents_def sq_stream_def new_sqlite_def mem_contents_def)

theorem sqlite_agrees_with_memory_witness:
  "\<exists>(db' :: (nat, unit) sqlite) r mem' r'.
    sqlite_append_events demo_sql no_errors (new_sqlite ()) ''a'' (CheckExact 5) one_raw = (db', r) \<and>
    mem_append_events None new_memory ''a'' (CheckExact 5) one_raw = (mem', r') \<and>
    map_sum as_conflict id r = map_sum as_conflict id r' \<and>
    sqlite_read_events demo_sql no_errors db' ''a'' select_from_beginning = mem_read_events None mem' ''a'' select_from_beginning"
proof -
  obtain db' :: "(nat, unit) sqlite" and r where sql:
    "sqlite_append_events demo_sql no_errors (new_sqlite ()) ''a'' (CheckExact 5) one_raw = (db', r)" by fastforce
  obtain mem' :: "nat memory" and r' where ram:
    "mem_append_events None new_memory ''a'' (CheckExact 5) one_raw = (mem', r')" by fastforce
  have "one_raw \<noteq> []" "unat (sq_seq (new_sqlite () :: (nat, unit) sqlite)) + length one_raw < 2 ^ 63"
    "mem_total (new_memory :: nat memory) + length one_raw < 2 ^ 64" "unat (5 :: u64) + 1 < 2 ^ 63"
    "\<not> high_bit (sel_from select_from_beginning)" "\<not> high_bit (sel_to select_from_beginning)"
    by (simp_all add: one_raw_def new_sqlite_def mem_total_def high_bit_def select_from_beginning_def)
  from sqlite_agrees_with_memory [OF new_sqlite_wf new_memory_wf empty_contents demo_sql_text this sql ram, of "''a''"] sql ram
  show ?thesis by blast
qed

lemma one_stored:
  obtains db :: "(nat, unit) sqlite" and mem where "sq_wf db" "mem_wf (\<lambda>_. 0) mem" "sq_contents db = mem_contents mem"
    "length (sq_contents db ''a'') = 1"
proof -
  have len: "length (sq_contents (new_sqlite () :: (nat, unit) sqlite) ''a'') = 0" "length (mem_contents (new_memory :: nat memory) ''a'') = 0"
    by (simp_all add: sq_stream_def new_sqlite_def)
  have es: "one_raw \<noteq> []" "unat (sq_seq (new_sqlite () :: (nat, unit) sqlite)) + length one_raw < 2 ^ 63"
    "mem_total (new_memory :: nat memory) + length one_raw < 2 ^ 64"
    by (simp_all add: one_raw_def new_sqlite_def mem_total_def)
  obtain db :: "(nat, unit) sqlite" where "sq_wf db"
    "sq_contents db = (sq_contents (new_sqlite ()))(''a'' := sq_contents (new_sqlite () :: (nat, unit) sqlite) ''a'' @ one_raw)"
    using sqlite_append_ok [OF new_sqlite_wf es(1,2), of demo_sql "''a''"] by blast
  moreover note memlog.append_contents [OF new_memory_wf es(1,3), of "''a''"] memlog.append_invar [OF new_memory_wf es(1,3), of "''a''"]
  moreover have "length (((sq_contents (new_sqlite ()))(''a'' := sq_contents (new_sqlite () :: (nat, unit) sqlite) ''a'' @ one_raw)) ''a'') = 1"
    using len by (simp add: one_raw_def del: length_sq_contents)
  ultimately show thesis using that empty_contents by metis
qed

theorem pruned_stream_blocks_sqlite_witness:
  "\<exists>(db :: (nat, unit) sqlite) mem db'. sqlite_delete_up_to demo_sql no_errors db ''a'' 1 = (db', None) \<and>
    sqlite_append_events demo_sql no_errors db' ''a'' (CheckExact 1) one_raw =
      (db', Inl (ErrWrap ''append events'' (ErrConflict 1 0))) \<and>
    snd (mem_append_events None (fst (mem_delete_up_to None mem ''a'' 1)) ''a'' (CheckExact 1) one_raw) = Inr 2"
proof -
  obtain db :: "(nat, unit) sqlite" and mem where st: "sq_wf db" "mem_wf (\<lambda>_. 0) mem" "sq_contents db = mem_contents mem"
    "length (sq_contents db ''a'') = 1" by (rule one_stored)
  have "one_raw \<noteq> []" "length one_raw = 1" by (simp_all add: one_raw_def)
  with pruned_stream_blocks_sqlite [OF st(1-3) demo_sql_text st(4) [symmetric] _ this(1)] show ?thesis by simp blast
qed

definition counter_repo :: "(nat, nat, unit, nat) es_repo" where
  "counter_repo = \<lparr>repo_registry = Map.empty,
     repo_codec = \<lparr>ev_name = (\<lambda>_. ''added''), ev_ser = (\<lambda>n. Inr [n]), ev_de = (\<lambda>_ bs. Inr (hd bs))\<rparr>,
     repo_create = \<lparr>root_state = 0, root_uncommitted = [], root_version = 0\<rparr>, repo_transformers = []\<rparr>"

definition counter_root :: "(nat, nat) root" where
  "counter_root = \<lparr>root_state = 3, root_uncommitted = [3], root_version = 1\<rparr>"

lemma counter_raws: "raw_events_from_uncommitted (repo_codec counter_repo) (repo_transformers counter_repo) [3] = Inr one_raw"
  by (simp add: raw_events_from_uncommitted_def counter_repo_def one_raw_def)

theorem transactional_save_all_or_nothing_witness:
  "\<exists>r' e. tx_save (sqlite_within_tx no_errors) (sqlite_append_in_tx demo_sql no_errors)
     (Some (\<lambda>d r es. (d\<lparr>sq_other := 7 :: nat\<rparr>, Some (ErrMsg ''outbox'')))) (\<lambda>_. ''a'') counter_repo (new_sqlite 0) counter_root
     = (new_sqlite 0, r', Inl e)"
proof -
  let ?p = "\<lambda>d r es. (d\<lparr>sq_other := 7 :: nat\<rparr>, Some (ErrMsg ''outbox''))"
  obtain d' :: "(nat, nat) sqlite" and r' res where run: "tx_save (sqlite_within_tx no_errors) (sqlite_append_in_tx demo_sql no_errors)
     (Some ?p) (\<lambda>_. ''a'') counter_repo (new_sqlite 0) counter_root = (d', r', res)" using prod_cases3 by blast
  from transactional_save_all_or_nothing [OF this] have "\<exists>e. res = Inl e \<and> d' = new_sqlite 0"
    by (cases res) (auto simp: counter_root_def split: if_splits)
  with run show ?thesis by auto
qed

theorem memory_keeps_refused_save_witness:
  "\<exists>mem' r' e. tx_save mem_within_tx (mem_append_in_tx None) (Some (\<lambda>d r es. (d, Some (ErrMsg ''outbox'')))) (\<lambda>_. ''a'')
      counter_repo new_memory counter_root = (mem', r', Inl e) \<and>
    mem_contents mem' = (mem_contents new_memory)(''a'' := mem_contents new_memory ''a'' @ one_raw)"
proof -
  have "root_uncommitted counter_root \<noteq> []" "one_raw \<noteq> []"
    "raw_events_from_uncommitted (repo_codec counter_repo) (repo_transformers counter_repo) (root_uncommitted counter_root) = Inr one_raw"
    "root_version counter_root - of_nat (length (root_uncommitted counter_root)) = of_nat (length (mem_contents (new_memory :: nat memory) ''a''))"
    using counter_raws by (simp_all add: counter_root_def one_raw_def)
  from memory_keeps_refused_save [OF new_memory_wf this(1,3,2), of "\<lambda>_. ''a''" "\<lambda>d r es. (d, Some (ErrMsg ''outbox''))" "ErrMsg ''outbox''"] this(4)
  show ?thesis by auto
qed

end
