(* ===== verification/DF_Postgres.thy ===== *)
theory DF_Postgres
  imports DF_Database DF_Snapshot
begin

text \<open>
  The PostgreSQL event log \<open>eventlog/postgres.go\<close> and snapshot store \<open>snapshotstore/postgres.go\<close>: the
  options that build their statements, the tables, the trigger function, and the operations. The rows are those of the
  in-memory log; \<open>'o\<close> are the other tables. Sequences are outside of transactions. What the driver and the server put into
  their errors, the texts that the server refuses, and the conversion to \<open>JSONB\<close>, are parameters.
\<close>

section \<open>Options\<close>

datatype col_type = JSONB | BYTEA

text \<open>All statements are generated together: they name the table and the type of its \<open>data\<close>.\<close>

record pg_queries =
  pq_table :: string
  pq_type :: col_type

record pg_log =
  pl_bytea :: bool
  pl_queries :: "pg_queries option"

datatype pg_option = PgTableName string | PgUseBYTEA

definition pg_generate :: "string \<Rightarrow> pg_log \<Rightarrow> pg_queries" where
  "pg_generate name p = \<lparr>pq_table = name, pq_type = (if pl_bytea p then BYTEA else JSONB)\<rparr>"

fun apply_pg_option :: "pg_option \<Rightarrow> pg_log \<Rightarrow> pg_log" where
  "apply_pg_option (PgTableName name) p = p\<lparr>pl_queries := Some (pg_generate name p)\<rparr>"
| "apply_pg_option PgUseBYTEA p = p\<lparr>pl_bytea := True\<rparr>"

definition pg_configure :: "string \<Rightarrow> pg_option list \<Rightarrow> pg_queries" where
  "pg_configure name opts =
     (let p = fold apply_pg_option opts \<lparr>pl_bytea = False, pl_queries = None\<rparr> in
      case pl_queries p of None \<Rightarrow> pg_generate name p | Some q \<Rightarrow> q)"

section \<open>The database\<close>

record 'x pg_table =
  pt_type :: col_type
  pt_rows :: "'x memrec list"
  pt_seq :: version

text \<open>\<open>pg_function\<close>: the table that the one function \<open>chronicle_check_event_version\<close> reads.\<close>

record ('x, 'o) pg_db =
  pg_tables :: "string \<rightharpoonup> 'x pg_table"
  pg_function :: "string option"
  pg_triggers :: "string set"
  pg_other :: 'o

text \<open>
  \<open>ps_text s\<close> is the error for a text that is not valid in the encoding of the database,
  \<open>ps_jsonb\<close> what a \<open>JSONB\<close> column makes of its input: an error, or the bytes that are read back.
\<close>

record 'x pg_server =
  ps_sql :: sql_errors
  ps_text :: "string \<Rightarrow> gerr option"
  ps_jsonb :: "'x list \<Rightarrow> gerr + 'x list"
  ps_no_table :: gerr
  ps_no_function :: gerr
  ps_out_of_range :: gerr
  ps_unique :: gerr

record pg_setup =
  su_begin :: "gerr option"
  su_table :: "gerr option"
  su_function :: "gerr option"
  su_trigger :: "gerr option"
  su_commit :: "gerr option"

definition pg_create_table :: "pg_queries \<Rightarrow> ('x, 'o) pg_db \<Rightarrow> ('x, 'o) pg_db" where
  "pg_create_table q db =
     (case pg_tables db (pq_table q) of
        None \<Rightarrow> db\<lparr>pg_tables := (pg_tables db)(pq_table q \<mapsto> \<lparr>pt_type = pq_type q, pt_rows = [], pt_seq = 0\<rparr>)\<rparr>
      | Some _ \<Rightarrow> db)"

definition pg_create_function :: "pg_queries \<Rightarrow> ('x, 'o) pg_db \<Rightarrow> ('x, 'o) pg_db" where
  "pg_create_function q db = db\<lparr>pg_function := Some (pq_table q)\<rparr>"

definition pg_create_trigger :: "pg_queries \<Rightarrow> ('x, 'o) pg_db \<Rightarrow> ('x, 'o) pg_db" where
  "pg_create_trigger q db = db\<lparr>pg_triggers := insert (pq_table q) (pg_triggers db)\<rparr>"

definition new_postgres :: "pg_setup \<Rightarrow> pg_option list \<Rightarrow> ('x, 'o) pg_db \<Rightarrow> ('x, 'o) pg_db \<times> (gerr + pg_queries)" where
  "new_postgres su opts db =
     (let q = pg_configure ''chronicle_events'' opts in
      case su_begin su of Some e \<Rightarrow> (db, Inl (ErrWrap ''new postgres event log: begin setup transaction'' e)) | None \<Rightarrow>
      (case su_table su of Some e \<Rightarrow> (db, Inl (ErrWrap ''new postgres event log: create events table'' e)) | None \<Rightarrow>
      (case su_function su of Some e \<Rightarrow> (db, Inl (ErrWrap ''new postgres event log: create version check function'' e)) | None \<Rightarrow>
      (case su_trigger su of Some e \<Rightarrow> (db, Inl (ErrWrap ''new postgres event log: create version check trigger'' e)) | None \<Rightarrow>
      (case su_commit su of Some e \<Rightarrow> (db, Inl (ErrWrap ''new postgres event log: commit setup transaction'' e)) | None \<Rightarrow>
        (pg_create_trigger q (pg_create_function q (pg_create_table q db)), Inr q))))))"

text \<open>
  The trigger: the largest version of the log in the table of the function, 0 without rows, has to be the one
  before the new version; \<open>BIGINT\<close> does not hold \<open>2 ^ 63\<close>.
\<close>

definition pg_check :: "'x pg_server \<Rightarrow> ('x, 'o) pg_db \<Rightarrow> string \<Rightarrow> string \<Rightarrow> version \<Rightarrow> gerr option" where
  "pg_check ps db table lg v =
     (if table \<notin> pg_triggers db then None
      else
        (case pg_function db of
           None \<Rightarrow> Some (ps_no_function ps)
         | Some f \<Rightarrow>
            (case pg_tables db f of
               None \<Rightarrow> Some (ps_no_table ps)
             | Some t \<Rightarrow>
                (let latest = max_version (pt_rows t) lg in
                 if latest = 2 ^ 63 - 1 then Some (ps_out_of_range ps)
                 else if v \<noteq> latest + 1 then Some (sql_abort (ps_sql ps) (conflict_error_prefix @ format_uint latest))
                 else None))))"

text \<open>The values of an \<open>INSERT\<close>: its texts have to be valid, and the data takes the type of the column.\<close>

primrec pg_refused :: "'x pg_server \<Rightarrow> string list \<Rightarrow> gerr option" where
  "pg_refused ps [] = None"
| "pg_refused ps (s # ss) = (case ps_text ps s of Some e \<Rightarrow> Some e | None \<Rightarrow> pg_refused ps ss)"

definition pg_column :: "'x pg_server \<Rightarrow> col_type \<Rightarrow> 'x list \<Rightarrow> gerr + 'x list" where
  "pg_column ps ty data = (if ty = JSONB then ps_jsonb ps data else Inr data)"

definition pg_stored :: "'x pg_server \<Rightarrow> col_type \<Rightarrow> string \<Rightarrow> string \<Rightarrow> 'x list \<Rightarrow> gerr + 'x list" where
  "pg_stored ps ty lg name data =
     (case pg_refused ps [lg, name] of Some e \<Rightarrow> Inl e | None \<Rightarrow> pg_column ps ty data)"

text \<open>
  The \<open>INSERT\<close>: the arguments are converted, the sequence gives the global version, the trigger runs, and the pair of log and version
  is unique.
\<close>

definition pg_insert_event ::
    "'x pg_server \<Rightarrow> pg_queries \<Rightarrow> ('x, 'o) pg_db \<Rightarrow> string \<Rightarrow> version \<Rightarrow> string \<Rightarrow> 'x list \<Rightarrow> ('x, 'o) pg_db \<times> gerr option" where
  "pg_insert_event ps q db lg v name data =
     (if high_bit v then (db, Some (sql_high_bit (ps_sql ps)))
      else
        (case pg_tables db (pq_table q) of
           None \<Rightarrow> (db, Some (ps_no_table ps))
         | Some t \<Rightarrow>
            (case pg_stored ps (pt_type t) lg name data of
               Inl e \<Rightarrow> (db, Some e)
             | Inr stored \<Rightarrow>
                if pt_seq t = 2 ^ 63 - 1 then (db, Some (sql_full (ps_sql ps)))
                else
                  (let t1 = t\<lparr>pt_seq := pt_seq t + 1\<rparr>;
                       db1 = db\<lparr>pg_tables := (pg_tables db)(pq_table q \<mapsto> t1)\<rparr> in
                   case pg_check ps db1 (pq_table q) lg v of
                     Some e \<Rightarrow> (db1, Some e)
                   | None \<Rightarrow>
                      if list_ex (\<lambda>m. mr_log m = lg \<and> mr_version m = v) (pt_rows t) then (db1, Some (ps_unique ps))
                      else
                        (db\<lparr>pg_tables := (pg_tables db)(pq_table q \<mapsto> t1\<lparr>pt_rows := pt_rows t @
                           [\<lparr>mr_log = lg, mr_name = name, mr_data = stored, mr_version = v, mr_global = pt_seq t + 1\<rparr>]\<rparr>)\<rparr>, None)))))"

section \<open>Operations\<close>

fun pg_insert_records ::
    "'x pg_server \<Rightarrow> pg_queries \<Rightarrow> version \<Rightarrow> ('x, 'o) pg_db \<Rightarrow> 'x rec list \<Rightarrow> ('x, 'o) pg_db \<times> gerr option" where
  "pg_insert_records ps q x db [] = (db, None)"
| "pg_insert_records ps q x db (r # rs) =
     (case pg_insert_event ps q db (rec_log r) (rec_version r) (raw_name (rec_raw r)) (raw_data (rec_raw r)) of
        (db', Some e) \<Rightarrow>
          (case parse_conflict_error (Some e) of
             Some actual \<Rightarrow> (db', Some (ErrConflict x actual))
           | None \<Rightarrow> (db', Some (ErrWrap ''append in tx: exec statement'' e)))
      | (db', None) \<Rightarrow> pg_insert_records ps q x db' rs)"

definition pg_append_in_tx ::
    "'x pg_server \<Rightarrow> sql_calls \<Rightarrow> pg_queries \<Rightarrow> ('x, 'o) pg_db \<Rightarrow> string \<Rightarrow> check \<Rightarrow> 'x raw list
      \<Rightarrow> ('x, 'o) pg_db \<times> (gerr + version \<times> 'x rec list)" where
  "pg_append_in_tx ps k q db lg expected events =
     (case sc_ctx k of
        Some e \<Rightarrow> (db, Inl (ErrWrap ''append in tx'' e))
      | None \<Rightarrow>
         if events = [] then (db, Inl (ErrWrap ''append in tx'' ErrNoEvents))
         else
           (case expected of
              OtherCheck \<Rightarrow> (db, Inl (ErrWrap ''append in tx'' ErrUnsupportedCheck))
            | CheckExact x \<Rightarrow>
               (case sc_prepare k of
                  Some e \<Rightarrow> (db, Inl (ErrWrap ''append in tx: prepare statement'' e))
                | None \<Rightarrow>
                   (let records = to_records events lg x in
                    case pg_insert_records ps q x db records of
                      (db', Some e) \<Rightarrow> (db', Inl e)
                    | (db', None) \<Rightarrow> (db', Inr (x + of_nat (length events), records))))))"

text \<open>A rollback undoes the rows; the sequences keep what they gave away.\<close>

definition pg_rollback :: "('x, 'o) pg_db \<Rightarrow> ('x, 'o) pg_db \<Rightarrow> ('x, 'o) pg_db" where
  "pg_rollback db db' =
     db\<lparr>pg_tables := (\<lambda>name. case (pg_tables db name, pg_tables db' name) of
          (Some t, Some t') \<Rightarrow> Some (t\<lparr>pt_seq := pt_seq t'\<rparr>) | (old, _) \<Rightarrow> old)\<rparr>"

definition pg_within_tx :: "sql_calls \<Rightarrow> (('x, 'o) pg_db, 'r) within_tx" where
  "pg_within_tx k body d =
     (case sc_begin k of
        Some e \<Rightarrow> (d, Inl (ErrWrap ''within tx: begin transaction'' e))
      | None \<Rightarrow>
         (case body d of
            (d', Inl e) \<Rightarrow> (pg_rollback d d', Inl e)
          | (d', Inr r) \<Rightarrow>
             (case sc_commit k of
                Some e \<Rightarrow> (pg_rollback d d', Inl (ErrWrap ''within tx: commit transaction'' e))
              | None \<Rightarrow> (d', Inr r))))"

definition pg_append_events ::
    "'x pg_server \<Rightarrow> sql_calls \<Rightarrow> pg_queries \<Rightarrow> ('x, 'o) pg_db \<Rightarrow> string \<Rightarrow> check \<Rightarrow> 'x raw list \<Rightarrow> ('x, 'o) pg_db \<times> (gerr + version)" where
  "pg_append_events ps k q db lg expected events =
     (case pg_within_tx k
        (\<lambda>db. case pg_append_in_tx ps k q db lg expected events of
           (db', Inl e) \<Rightarrow> (db', Inl e) | (db', Inr (v, _)) \<Rightarrow> (db', Inr v)) db of
        (db', Inl e) \<Rightarrow> (db', Inl (ErrWrap ''append events'' e))
      | (db', Inr v) \<Rightarrow> (db', Inr v))"

definition pg_read_events ::
    "'x pg_server \<Rightarrow> sql_calls \<Rightarrow> pg_queries \<Rightarrow> ('x, 'o) pg_db \<Rightarrow> string \<Rightarrow> selector \<Rightarrow> 'x records" where
  "pg_read_events ps k q db lg sel =
     (case sc_ctx k of
        Some e \<Rightarrow> [Inl (ErrWrap ''read events: query context'' e)]
      | None \<Rightarrow>
         if high_bit (sel_from sel) \<or> high_bit (sel_to sel) then [Inl (ErrWrap ''read events: query context'' (sql_high_bit (ps_sql ps)))]
         else
           (case (pg_tables db (pq_table q), pg_refused ps [lg]) of
              (None, _) \<Rightarrow> [Inl (ErrWrap ''read events: query context'' (ps_no_table ps))]
            | (Some t, Some e) \<Rightarrow> [Inl (ErrWrap ''read events: query context'' e)]
            | (Some t, None) \<Rightarrow>
                scan_rows ''read events: rows error'' k 0
                  (map (\<lambda>m. new_record (mr_version m) lg (mr_name m) (mr_data m))
                    (select_rows mr_version sel (filter (\<lambda>m. mr_log m = lg) (pt_rows t))))))"

definition pg_read_all_events ::
    "'x pg_server \<Rightarrow> sql_calls \<Rightarrow> pg_queries \<Rightarrow> ('x, 'o) pg_db \<Rightarrow> selector \<Rightarrow> (gerr + 'x grec) list" where
  "pg_read_all_events ps k q db sel =
     (case sc_ctx k of
        Some e \<Rightarrow> [Inl (ErrWrap ''read all events: query context'' e)]
      | None \<Rightarrow>
         if high_bit (sel_from sel) \<or> high_bit (sel_to sel) then [Inl (ErrWrap ''read all events: query context'' (sql_high_bit (ps_sql ps)))]
         else
           (case pg_tables db (pq_table q) of
              None \<Rightarrow> [Inl (ErrWrap ''read all events: query context'' (ps_no_table ps))]
            | Some t \<Rightarrow>
                scan_rows ''read all events: rows error'' k 0
                  (map (\<lambda>m. new_global_record (mr_global m) (mr_version m) (mr_log m) (mr_name m) (mr_data m))
                    (select_rows mr_global sel (pt_rows t)))))"

definition pg_delete_up_to ::
    "'x pg_server \<Rightarrow> sql_calls \<Rightarrow> pg_queries \<Rightarrow> ('x, 'o) pg_db \<Rightarrow> string \<Rightarrow> version \<Rightarrow> ('x, 'o) pg_db \<times> gerr option" where
  "pg_delete_up_to ps k q db lg v =
     (let txt = ''dangerously delete events for log '' @ quote1 lg @ '' up to version '' @ format_uint v in
      case sc_ctx k of
        Some e \<Rightarrow> (db, Some (ErrWrap txt e))
      | None \<Rightarrow>
         if high_bit v then (db, Some (ErrWrap txt (sql_high_bit (ps_sql ps))))
         else
           (case (pg_tables db (pq_table q), pg_refused ps [lg]) of
              (None, _) \<Rightarrow> (db, Some (ErrWrap txt (ps_no_table ps)))
            | (Some t, Some e) \<Rightarrow> (db, Some (ErrWrap txt e))
            | (Some t, None) \<Rightarrow>
               (db\<lparr>pg_tables := (pg_tables db)(pq_table q \<mapsto>
                  t\<lparr>pt_rows := filter (\<lambda>m. \<not> (mr_log m = lg \<and> mr_version m \<le> v)) (pt_rows t)\<rparr>)\<rparr>, None)))"

section \<open>Snapshots\<close>

text \<open>A snapshot table has one row per log.\<close>

record 'y pg_snap_table =
  pn_type :: col_type
  pn_rows :: "string \<rightharpoonup> version \<times> 'y list"

type_synonym 'y pg_snaps = "string \<rightharpoonup> 'y pg_snap_table"

record ('t, 'y) pg_snap_store =
  pn_ser :: "'t \<Rightarrow> gerr + 'y list"
  pn_de :: "'y list \<Rightarrow> gerr + 't"
  pn_queries :: pg_queries

definition pg_snap_configure :: "pg_option list \<Rightarrow> pg_queries" where
  "pg_snap_configure opts = pg_configure ''chronicle_snapshots'' opts"

definition new_pg_snap_store ::
    "gerr option \<Rightarrow> ('t \<Rightarrow> gerr + 'y list) \<Rightarrow> ('y list \<Rightarrow> gerr + 't) \<Rightarrow> pg_option list \<Rightarrow> 'y pg_snaps
      \<Rightarrow> 'y pg_snaps \<times> (gerr + ('t, 'y) pg_snap_store)" where
  "new_pg_snap_store err ser de opts db =
     (let q = pg_snap_configure opts in
      case err of
        Some e \<Rightarrow> (db, Inl (ErrWrap ''new postgres snapshot store: create snapshots table'' e))
      | None \<Rightarrow>
         (case db (pq_table q) of
            None \<Rightarrow> db(pq_table q \<mapsto> \<lparr>pn_type = pq_type q, pn_rows = Map.empty\<rparr>)
          | Some _ \<Rightarrow> db,
          Inr \<lparr>pn_ser = ser, pn_de = de, pn_queries = q\<rparr>))"

definition pg_save_snapshot ::
    "'y pg_server \<Rightarrow> gerr option \<Rightarrow> ('s, 'e, 't) snapshotter \<Rightarrow> ('t, 'y) pg_snap_store \<Rightarrow> 'y pg_snaps \<Rightarrow> 't
      \<Rightarrow> 'y pg_snaps \<times> gerr option" where
  "pg_save_snapshot ps ctx sh st db t =
     (case ctx of
        Some e \<Rightarrow> (db, Some e)
      | None \<Rightarrow>
         (case pn_ser st t of
            Inl e \<Rightarrow> (db, Some (ErrWrap ''save snapshot: serialize'' e))
          | Inr data \<Rightarrow>
             if high_bit (sh_version sh t) then (db, Some (ErrWrap ''save snapshot: exec upsert'' (sql_high_bit (ps_sql ps))))
             else
               (case db (pq_table (pn_queries st)) of
                  None \<Rightarrow> (db, Some (ErrWrap ''save snapshot: exec upsert'' (ps_no_table ps)))
                | Some tab \<Rightarrow>
                   (case (case pg_refused ps [sh_id sh t] of Some e \<Rightarrow> Inl e | None \<Rightarrow> pg_column ps (pn_type tab) data) of
                      Inl e \<Rightarrow> (db, Some (ErrWrap ''save snapshot: exec upsert'' e))
                    | Inr stored \<Rightarrow>
                       (db(pq_table (pn_queries st) \<mapsto>
                          tab\<lparr>pn_rows := (pn_rows tab)(sh_id sh t \<mapsto> (sh_version sh t, stored))\<rparr>), None)))))"

definition pg_get_snapshot ::
    "'y pg_server \<Rightarrow> gerr option \<Rightarrow> ('t, 'y) pg_snap_store \<Rightarrow> 'y pg_snaps \<Rightarrow> string \<Rightarrow> gerr + 't option" where
  "pg_get_snapshot ps ctx st db lg =
     (case ctx of
        Some e \<Rightarrow> Inl e
      | None \<Rightarrow>
         (case db (pq_table (pn_queries st)) of
            None \<Rightarrow> Inl (ErrWrap ''get snapshot: query row'' (ps_no_table ps))
          | Some tab \<Rightarrow>
             if pg_refused ps [lg] \<noteq> None then Inl (ErrWrap ''get snapshot: query row'' (the (pg_refused ps [lg])))
             else (case pn_rows tab lg of
                None \<Rightarrow> Inr None
              | Some (_, data) \<Rightarrow>
                 (case pn_de st data of
                    Inl e \<Rightarrow> Inl (ErrWrap ''get snapshot: deserialize'' e)
                  | Inr t \<Rightarrow> Inr (Some t)))))"

section \<open>Lockstep with SQLite\<close>

text \<open>The table of a log as a SQLite database, and a log whose table, function and trigger belong together.\<close>

definition as_sqlite :: "'x pg_table \<Rightarrow> 'o \<Rightarrow> ('x, 'o) sqlite" where
  "as_sqlite t other = \<lparr>sq_rows = pt_rows t, sq_seq = pt_seq t, sq_other = other\<rparr>"

lemma as_sqlite_sel [simp]:
  "sq_rows (as_sqlite t other) = pt_rows t" "sq_seq (as_sqlite t other) = pt_seq t" "sq_other (as_sqlite t other) = other"
  by (simp_all add: as_sqlite_def)

definition pg_ready :: "pg_queries \<Rightarrow> ('x, 'o) pg_db \<Rightarrow> 'x pg_table \<Rightarrow> bool" where
  "pg_ready q db t \<longleftrightarrow>
     pg_tables db (pq_table q) = Some t \<and> pg_function db = Some (pq_table q) \<and> pq_table q \<in> pg_triggers db"

text \<open>Versions of the rows that leave room for \<open>n\<close> more, and events with the data that a column keeps.\<close>

definition versions_below :: "'x memrec list \<Rightarrow> nat \<Rightarrow> bool" where
  "versions_below rows n \<longleftrightarrow> n < 2 ^ 63 \<and> (\<forall>m \<in> set rows. unat (mr_version m) + n < 2 ^ 63)"

definition with_data :: "('x list \<Rightarrow> 'x list) \<Rightarrow> 'x raw \<Rightarrow> 'x raw" where
  "with_data nf e = e\<lparr>raw_data := nf (raw_data e)\<rparr>"

definition with_table :: "pg_queries \<Rightarrow> 'x pg_table \<Rightarrow> ('x, 'o) pg_db \<Rightarrow> ('x, 'o) pg_db" where
  "with_table q t db = db\<lparr>pg_tables := (pg_tables db)(pq_table q \<mapsto> t)\<rparr>"

lemma with_table_simps [simp]:
  "pg_tables (with_table q t db) = (pg_tables db)(pq_table q \<mapsto> t)" "pg_function (with_table q t db) = pg_function db"
  "pg_triggers (with_table q t db) = pg_triggers db" "pg_other (with_table q t db) = pg_other db"
  "with_table q t (with_table q t' db) = with_table q t db"
  by (simp_all add: with_table_def)

lemma with_table_same: "pg_tables db (pq_table q) = Some t \<Longrightarrow> with_table q t db = db"
  by (simp add: with_table_def fun_upd_idem)

lemma fold_max_le: "b \<le> fold max vs b \<and> (v \<in> set vs \<longrightarrow> v \<le> fold max vs (b :: u64))"
proof (induction vs arbitrary: b)
  case (Cons w vs)
  from Cons [of "max w b"] show ?case by auto
qed simp

lemma max_version_upper: "m \<in> set rows \<Longrightarrow> mr_log m = lg \<Longrightarrow> mr_version m \<le> max_version rows lg"
  using fold_max_le [of 0 "map mr_version (filter (\<lambda>m. mr_log m = lg) rows)" "mr_version m"] by (auto simp: max_version_def)

lemma max_version_below:
  assumes "versions_below rows n"
  shows "unat (max_version rows lg) + n < 2 ^ 63"
proof -
  have "fold max vs b \<in> insert b (set vs)" for vs and b :: u64
  proof (induction vs arbitrary: b)
    case (Cons v vs)
    from Cons [of "max v b"] show ?case by (auto simp: max_def split: if_splits)
  qed simp
  from this [of "map mr_version (filter (\<lambda>m. mr_log m = lg) rows)" 0] show ?thesis
    using assms by (auto simp: max_version_def versions_below_def)
qed

text \<open>One insertion: the same result, and the same rows unless it fails.\<close>

lemma pg_insert_lockstep:
  assumes ready: "pg_ready q db t" and rows: "versions_below (pt_rows t) (Suc n)" and room: "unat (pt_seq t) + 1 < 2 ^ 63"
    and stored: "pg_stored ps (pt_type t) lg name data = Inr d"
  obtains t' where "pg_insert_event ps q db lg v name data = (with_table q t' db, snd (insert_event (ps_sql ps) (as_sqlite t other) lg v name d))"
    and "pt_type t' = pt_type t"
    and "snd (insert_event (ps_sql ps) (as_sqlite t other) lg v name d) = None \<longrightarrow>
      as_sqlite t' other = fst (insert_event (ps_sql ps) (as_sqlite t other) lg v name d) \<and>
      versions_below (pt_rows t') n \<and> unat (pt_seq t') = unat (pt_seq t) + 1"
proof -
  let ?max = "max_version (pt_rows t) lg"
  have t: "pg_tables db (pq_table q) = Some t" using ready by (simp add: pg_ready_def)
  have seq: "pt_seq t \<noteq> 2 ^ 63 - 1"
  proof
    assume "pt_seq t = 2 ^ 63 - 1"
    then have "unat (pt_seq t) = 2 ^ 63 - 1" by simp
    with room show False by simp
  qed
  have umax: "unat ?max + Suc n < 2 ^ 63" by (rule max_version_below [OF rows])
  have range: "?max \<noteq> 2 ^ 63 - 1"
  proof
    assume "?max = 2 ^ 63 - 1"
    then have "unat ?max = 2 ^ 63 - 1" by simp
    with umax show False by simp
  qed
  show thesis
  proof (cases "high_bit v")
    case True
    show thesis by (rule that [of t]) (use True t in \<open>simp_all add: pg_insert_event_def insert_event_def with_table_same\<close>)
  next
    case False
    define t1 where "t1 = t\<lparr>pt_seq := pt_seq t + 1\<rparr>"
    have check: "pg_check ps (with_table q t1 db) (pq_table q) lg v =
        (if v \<noteq> ?max + 1 then Some (sql_abort (ps_sql ps) (conflict_error_prefix @ format_uint ?max)) else None)"
      using ready range by (simp add: pg_check_def pg_ready_def t1_def Let_def)
    show thesis
    proof (cases "v = ?max + 1")
      case False
      then show thesis using \<open>\<not> high_bit v\<close> t seq check stored
        by (intro that [of t1]) (simp_all add: pg_insert_event_def insert_event_def t1_def Let_def flip: with_table_def)
    next
      case True
      have "unat (?max + of_nat 1) = unat ?max + 1" using umax by (intro unat_add_of_nat) simp
      then have uv: "unat v = unat ?max + 1" by (simp add: True)
      then have "?max < v" by (simp add: word_less_nat_alt)
      then have fresh: "\<not> list_ex (\<lambda>m. mr_log m = lg \<and> mr_version m = v) (pt_rows t)"
        using max_version_upper [of _ "pt_rows t" lg] by (simp add: list_ex_iff) (metis leD)
      define row where "row = \<lparr>mr_log = lg, mr_name = name, mr_data = d, mr_version = v, mr_global = pt_seq t + 1\<rparr>"
      define t' where "t' = t1\<lparr>pt_rows := pt_rows t @ [row]\<rparr>"
      have pg: "pg_insert_event ps q db lg v name data = (with_table q t' db, None)"
        using False t seq check fresh True stored by (simp add: pg_insert_event_def t1_def t'_def row_def Let_def flip: with_table_def)
      have sq: "insert_event (ps_sql ps) (as_sqlite t other) lg v name d = (as_sqlite t' other, None)"
        using False seq by (simp add: insert_event_def Let_def True [symmetric]) (simp add: as_sqlite_def t'_def t1_def row_def)
      have "unat (pt_seq t + of_nat 1) = unat (pt_seq t) + 1" using room by (intro unat_add_of_nat) simp
      moreover have "versions_below (pt_rows t') n"
        using rows uv umax by (auto simp: versions_below_def t'_def row_def)
      ultimately show thesis using pg sq by (intro that [of t']) (simp_all add: t'_def t1_def)
    qed
  qed
qed

lemma pg_records_lockstep:
  assumes "pg_ready q db t" and "versions_below (pt_rows t) (length rs)" and "unat (pt_seq t) + length rs < 2 ^ 63"
    and "\<forall>r \<in> set rs. pg_stored ps (pt_type t) (rec_log r) (raw_name (rec_raw r)) (raw_data (rec_raw r)) = Inr (nf (raw_data (rec_raw r)))"
  shows "\<exists>t'. pg_insert_records ps q x db rs =
      (with_table q t' db, snd (insert_records (ps_sql ps) x (as_sqlite t other) (map (\<lambda>r. r\<lparr>rec_raw := with_data nf (rec_raw r)\<rparr>) rs))) \<and>
    pt_type t' = pt_type t \<and>
    (snd (insert_records (ps_sql ps) x (as_sqlite t other) (map (\<lambda>r. r\<lparr>rec_raw := with_data nf (rec_raw r)\<rparr>) rs)) = None \<longrightarrow>
      as_sqlite t' other = fst (insert_records (ps_sql ps) x (as_sqlite t other) (map (\<lambda>r. r\<lparr>rec_raw := with_data nf (rec_raw r)\<rparr>) rs)))"
  using assms
proof (induction rs arbitrary: db t)
  case Nil
  then show ?case using with_table_same [of db q t] by (intro exI [of _ t]) (simp add: pg_ready_def)
next
  case (Cons r rs)
  let ?lg = "rec_log r" and ?v = "rec_version r" and ?n = "raw_name (rec_raw r)" and ?d = "raw_data (rec_raw r)"
  have room: "unat (pt_seq t) + 1 < 2 ^ 63" and rows: "versions_below (pt_rows t) (Suc (length rs))"
    and stored: "pg_stored ps (pt_type t) ?lg ?n ?d = Inr (nf ?d)"
    using Cons.prems(2-4) by simp_all
  obtain t1 where one: "pg_insert_event ps q db ?lg ?v ?n ?d = (with_table q t1 db, snd (insert_event (ps_sql ps) (as_sqlite t other) ?lg ?v ?n (nf ?d)))"
    "pt_type t1 = pt_type t"
    "snd (insert_event (ps_sql ps) (as_sqlite t other) ?lg ?v ?n (nf ?d)) = None \<longrightarrow>
      as_sqlite t1 other = fst (insert_event (ps_sql ps) (as_sqlite t other) ?lg ?v ?n (nf ?d)) \<and>
      versions_below (pt_rows t1) (length rs) \<and> unat (pt_seq t1) = unat (pt_seq t) + 1"
    by (rule pg_insert_lockstep [OF Cons.prems(1) rows room stored])
  obtain sdb err where sq: "insert_event (ps_sql ps) (as_sqlite t other) ?lg ?v ?n (nf ?d) = (sdb, err)" by fastforce
  show ?case
  proof (cases err)
    case None
    then have t1: "as_sqlite t1 other = sdb" "versions_below (pt_rows t1) (length rs)" "unat (pt_seq t1) + length rs < 2 ^ 63"
      using one(3) sq Cons.prems(3) by auto
    have "pg_ready q (with_table q t1 db) t1" using Cons.prems(1) one(2) by (simp add: pg_ready_def)
    moreover have "\<forall>r \<in> set rs. pg_stored ps (pt_type t1) (rec_log r) (raw_name (rec_raw r)) (raw_data (rec_raw r)) = Inr (nf (raw_data (rec_raw r)))"
      using Cons.prems(4) one(2) by simp
    ultimately show ?thesis using Cons.IH [of "with_table q t1 db" t1] t1 one(1,2) sq None by (simp add: with_data_def)
  next
    case (Some e)
    then show ?thesis using one(1,2) sq by (auto simp: with_data_def split: option.splits)
  qed
qed

lemma records_with_data:
  "to_records (map (with_data nf) es) lg x = map (\<lambda>r. r\<lparr>rec_raw := with_data nf (rec_raw r)\<rparr>) (to_records es lg x)"
  by (rule nth_equalityI) (simp_all add: to_records_def new_record_def with_data_def)

lemma record_event: "r \<in> set (to_records es lg x) \<Longrightarrow> rec_log r = lg \<and> rec_raw r \<in> set es"
  by (auto simp: to_records_def new_record_def)

text \<open>After a rollback the rows are those before, whatever the sequence gave away.\<close>

lemma rollback_with_table:
  assumes "pg_tables db (pq_table q) = Some t"
  shows "pg_rollback db (with_table q t' db) = with_table q (t\<lparr>pt_seq := pt_seq t'\<rparr>) db"
  using assms by (auto simp: pg_rollback_def with_table_def fun_eq_iff split: option.split)

lemma pg_in_tx_lockstep:
  fixes ps :: "'x pg_server" and k :: sql_calls and lg :: string and x :: version and other :: 'o
  assumes ready: "pg_ready q db t" and rows: "versions_below (pt_rows t) (length es)" and room: "unat (pt_seq t) + length es < 2 ^ 63"
    and stored: "\<forall>e \<in> set es. pg_stored ps (pt_type t) lg (raw_name e) (raw_data e) = Inr (nf (raw_data e))"
  defines "S \<equiv> sqlite_append_in_tx (ps_sql ps) k (as_sqlite t other) lg (CheckExact x) (map (with_data nf) es)"
  shows "\<exists>t' res. pg_append_in_tx ps k q db lg (CheckExact x) es = (with_table q t' db, res) \<and> pt_type t' = pt_type t \<and>
    map_sum id fst res = map_sum id fst (snd S) \<and> (\<forall>v. snd S = Inr v \<longrightarrow> as_sqlite t' other = fst S)"
proof (cases "sc_ctx k = None \<and> es \<noteq> [] \<and> sc_prepare k = None")
  case True
  let ?rs = "to_records es lg x"
  let ?Q = "insert_records (ps_sql ps) x (as_sqlite t other) (to_records (map (with_data nf) es) lg x)"
  have "\<forall>r \<in> set ?rs. pg_stored ps (pt_type t) (rec_log r) (raw_name (rec_raw r)) (raw_data (rec_raw r)) = Inr (nf (raw_data (rec_raw r)))"
    using stored record_event by metis
  from pg_records_lockstep [OF ready _ _ this, of x other] rows room
  obtain t' where t': "pg_insert_records ps q x db ?rs = (with_table q t' db, snd ?Q)" "pt_type t' = pt_type t"
    "snd ?Q = None \<longrightarrow> as_sqlite t' other = fst ?Q"
    by (auto simp: records_with_data)
  obtain sdb err where "?Q = (sdb, err)" by fastforce
  with t' True show ?thesis
    by (intro exI [of _ t']) (cases err; simp add: S_def pg_append_in_tx_def sqlite_append_in_tx_def Let_def)
next
  case False
  then show ?thesis using ready with_table_same [of db q t]
    by (intro exI [of _ t]) (auto simp: S_def pg_ready_def pg_append_in_tx_def sqlite_append_in_tx_def split: option.splits)
qed

section \<open>Properties\<close>

text \<open>
  (C36) On a table with its own function, the PostgreSQL log does what the SQLite log does, with \<open>JSONB\<close> or \<open>BYTEA\<close> data and after
  any deletions, for events that the table accepts: an append gives the same result, and leaves the rows that SQLite has after the
  append of the events with the data as the column keeps it, so that reads return the same records. Only the sequence may
  differ, when the append fails: it does not return the global versions of a transaction that was rolled back.
\<close>

theorem postgres_agrees_with_sqlite:
  assumes ready: "pg_ready q db t" and rows: "versions_below (pt_rows t) (length es)" and room: "unat (pt_seq t) + length es < 2 ^ 63"
    and stored: "\<forall>e \<in> set es. pg_stored ps (pt_type t) lg (raw_name e) (raw_data e) = Inr (nf (raw_data e))" and j: "ps_text ps j = None"
    and pg: "pg_append_events ps k q db lg (CheckExact x) es = (db', r)"
    and sql: "sqlite_append_events (ps_sql ps) k (as_sqlite t (pg_other db)) lg (CheckExact x) (map (with_data nf) es) = (sdb', r')"
  shows "r = r' \<and> (\<exists>t'. pg_ready q db' t' \<and> pt_rows t' = sq_rows sdb' \<and> pg_other db' = sq_other sdb' \<and> (\<forall>v. r = Inr v \<longrightarrow> pt_seq t' = sq_seq sdb')) \<and>
    pg_read_events ps k q db' j sel = sqlite_read_events (ps_sql ps) k sdb' j sel"
proof -
  let ?o = "pg_other db"
  let ?S = "sqlite_append_in_tx (ps_sql ps) k (as_sqlite t ?o) lg (CheckExact x) (map (with_data nf) es)"
  have t: "pg_tables db (pq_table q) = Some t" using ready by (simp add: pg_ready_def)
  obtain t' res where t': "pg_append_in_tx ps k q db lg (CheckExact x) es = (with_table q t' db, res)" "map_sum id fst res = map_sum id fst (snd ?S)"
    "\<forall>v. snd ?S = Inr v \<longrightarrow> as_sqlite t' ?o = fst ?S"
    using pg_in_tx_lockstep [OF ready rows room stored, of k x ?o] by blast
  obtain s1 res' where sq: "?S = (s1, res')" by fastforce
  note defs = pg_append_events_def pg_within_tx_def sqlite_append_events_def sqlite_within_tx_def rollback_with_table [OF t]
  have "r = r' \<and> (\<exists>t2. db' = with_table q t2 db \<and> pt_rows t2 = sq_rows sdb' \<and> ?o = sq_other sdb' \<and> (\<forall>v. r = Inr v \<longrightarrow> pt_seq t2 = sq_seq sdb'))"
  proof (cases "sc_begin k")
    case (Some e)
    then have "r = r'" "r' = Inl (ErrWrap ''append events'' (ErrWrap ''within tx: begin transaction'' e))" "db' = db" "sdb' = as_sqlite t ?o"
      using pg sql by (simp_all add: defs)
    with with_table_same [OF t] show ?thesis by (intro conjI exI [of _ t]) simp_all
  next
    case begun: None
    let ?t2 = "t\<lparr>pt_seq := pt_seq t'\<rparr>"
    show ?thesis
    proof (cases "\<exists>v. r = Inr v")
      case True
      then have "r = r'" "db' = with_table q t' db" "sdb' = s1" "as_sqlite t' ?o = s1"
        using pg sql t' sq begun by (auto simp: defs split: sum.splits option.splits prod.splits)
      moreover from this have "pt_rows t' = sq_rows s1" "pt_seq t' = sq_seq s1" "?o = sq_other s1" by (auto simp: as_sqlite_def)
      ultimately show ?thesis by blast
    next
      case False
      then have "r = r'" "db' = with_table q ?t2 db" "sdb' = as_sqlite t ?o"
        using pg sql t'(1,2) sq begun by (auto simp: defs split: sum.splits option.splits prod.splits)
      with False show ?thesis by (intro conjI exI [of _ ?t2]) simp_all
    qed
  qed
  then show ?thesis
    using ready j by (auto simp: pg_ready_def pg_read_events_def sqlite_read_events_def Let_def split: option.split)
qed

text \<open>
  An event that the table does not accept fails the append, and an append that fails leaves the rows of every table.
\<close>

lemma failed_append_keeps_rows:
  assumes "pg_append_events ps k q db lg expected es = (db', Inl e)"
  shows "map_option pt_rows (pg_tables db' name) = map_option pt_rows (pg_tables db name)"
  using assms by (auto simp: pg_append_events_def pg_within_tx_def pg_rollback_def split: option.splits sum.splits prod.splits)

lemma records_need_stored:
  assumes "pg_insert_records ps q x db rs = (db', None)" and "pg_tables db (pq_table q) = Some t" and "r \<in> set rs"
  shows "\<exists>d. pg_stored ps (pt_type t) (rec_log r) (raw_name (rec_raw r)) (raw_data (rec_raw r)) = Inr d"
  using assms
proof (induction rs arbitrary: db t)
  case (Cons r0 rs)
  let ?ins = "pg_insert_event ps q db (rec_log r0) (rec_version r0) (raw_name (rec_raw r0)) (raw_data (rec_raw r0))"
  obtain db1 where one: "?ins = (db1, None)" and rest: "pg_insert_records ps q x db1 rs = (db', None)"
    using Cons.prems(1) by (auto split: prod.splits option.splits)
  obtain d where d: "pg_stored ps (pt_type t) (rec_log r0) (raw_name (rec_raw r0)) (raw_data (rec_raw r0)) = Inr d"
    using one Cons.prems(2) by (auto simp: pg_insert_event_def split: if_splits sum.splits)
  obtain t1 where t1: "pg_tables db1 (pq_table q) = Some t1" "pt_type t1 = pt_type t"
    using one Cons.prems(2) d by (auto simp: pg_insert_event_def Let_def split: if_splits option.splits)
  show ?case
  proof (cases "r = r0")
    case False
    then show ?thesis using Cons.IH [OF rest t1(1)] Cons.prems(3) t1(2) by simp
  qed (use d in blast)
qed simp

theorem refused_events_fail:
  assumes t: "pg_tables db (pq_table q) = Some t" and e: "e \<in> set es" "pg_stored ps (pt_type t) lg (raw_name e) (raw_data e) = Inl err"
  shows "\<exists>db' err'. pg_append_events ps k q db lg (CheckExact x) es = (db', Inl err') \<and>
    map_option pt_rows (pg_tables db' name) = map_option pt_rows (pg_tables db name)"
proof -
  obtain r where r: "r \<in> set (to_records es lg x)" "rec_raw r = e" "rec_log r = lg"
    using e(1) by (fastforce simp: to_records_def new_record_def in_set_conv_nth)
  have "snd (pg_insert_records ps q x db (to_records es lg x)) \<noteq> None"
    using records_need_stored [of ps q x db "to_records es lg x" _ t r] t e(2) r by (cases "pg_insert_records ps q x db (to_records es lg x)") auto
  then have "\<exists>err'. snd (pg_append_events ps k q db lg (CheckExact x) es) = Inl err'"
    by (auto simp: pg_append_events_def pg_within_tx_def pg_append_in_tx_def Let_def split: option.splits sum.splits prod.splits)
  then obtain db' err' where "pg_append_events ps k q db lg (CheckExact x) es = (db', Inl err')" by (metis prod.collapse)
  with failed_append_keeps_rows [OF this] show ?thesis by blast
qed

lemma configured_bytea: "pl_bytea (fold apply_pg_option opts p) \<longleftrightarrow> PgUseBYTEA \<in> set opts \<or> pl_bytea p"
proof (induction opts arbitrary: p)
  case (Cons opt opts)
  then show ?case by (cases opt) auto
qed simp

lemma configured_queries: "(\<forall>name. PgTableName name \<notin> set opts) \<Longrightarrow> pl_queries (fold apply_pg_option opts p) = pl_queries p"
proof (induction opts arbitrary: p)
  case (Cons opt opts)
  then show ?case by (cases opt) auto
qed simp

text \<open>
  The order of the options matters: the statements are those of the last table name, and their data is \<open>BYTEA\<close> only if
  the option for it came before that name. Without a name the default table takes all options into account.
\<close>

theorem postgres_option_order:
  assumes later: "\<forall>name. PgTableName name \<notin> set after"
  shows "pg_configure dflt (before @ PgTableName table # after) =
      \<lparr>pq_table = table, pq_type = (if PgUseBYTEA \<in> set before then BYTEA else JSONB)\<rparr> \<and>
    pg_configure dflt after = \<lparr>pq_table = dflt, pq_type = (if PgUseBYTEA \<in> set after then BYTEA else JSONB)\<rparr>"
  using configured_queries [OF later] by (simp add: pg_configure_def pg_generate_def configured_bytea Let_def)

text \<open>
  (C37) All logs of a database share one trigger function, which reads the table of the log that was opened last.
  After a second log is opened under another name, the first one refuses every append that continues a stream: the
  function finds no row of it in the other table, and reports version 0.
\<close>

theorem second_log_breaks_first:
  assumes first: "pg_tables db1 (pq_table q1) = Some t1" "pq_table q1 \<in> pg_triggers db1"
      "pg_stored ps (pt_type t1) lg (raw_name (hd es)) (raw_data (hd es)) = Inr d"
    and second: "new_postgres \<lparr>su_begin = None, su_table = None, su_function = None, su_trigger = None, su_commit = None\<rparr> opts db1 = (db2, Inr q2)"
    and names: "pq_table q2 \<noteq> pq_table q1" "pg_tables db1 (pq_table q2) = None"
    and ps: "keeps_text (ps_sql ps)" and x: "x \<noteq> 0" "unat x + 1 < 2 ^ 63" and seq: "pt_seq t1 \<noteq> 2 ^ 63 - 1" and es: "es \<noteq> []"
  shows "\<exists>db'. pg_append_events ps no_errors q1 db2 lg (CheckExact x) es = (db', Inl (ErrWrap ''append events'' (ErrConflict x 0))) \<and>
    pg_read_events ps no_errors q1 db' lg sel = pg_read_events ps no_errors q1 db1 lg sel"
proof -
  have db2: "pg_tables db2 (pq_table q1) = Some t1" "pg_tables db2 (pq_table q2) = Some \<lparr>pt_type = pq_type q2, pt_rows = [], pt_seq = 0\<rparr>"
    "pg_function db2 = Some (pq_table q2)" "pq_table q1 \<in> pg_triggers db2"
    using first second names by (auto simp: new_postgres_def Let_def pg_create_trigger_def pg_create_function_def pg_create_table_def)
  obtain e es' where cons: "es = e # es'" using es by (cases es) auto
  have recs: "to_records es lg x = new_record (x + 1) lg (raw_name e) (raw_data e) # to_records es' lg (x + 1)"
    by (simp add: cons to_records_Cons)
  have "unat (x + of_nat 1) = unat x + 1" using x(2) by (intro unat_add_of_nat) simp
  then have hb: "\<not> high_bit (x + 1)" using x(2) by (simp add: high_bit_def)
  define t1' where "t1' = t1\<lparr>pt_seq := pt_seq t1 + 1\<rparr>"
  have "pg_check ps (with_table q1 t1' db2) (pq_table q1) lg (x + 1) = Some (sql_abort (ps_sql ps) (conflict_error_prefix @ format_uint 0))"
    using db2 names(1) x(1) by (simp add: pg_check_def max_version_def Let_def)
  then have "pg_insert_event ps q1 db2 lg (x + 1) (raw_name e) (raw_data e) =
      (with_table q1 t1' db2, Some (sql_abort (ps_sql ps) (conflict_error_prefix @ format_uint 0)))"
    using hb db2(1) first(3) seq by (simp add: cons pg_insert_event_def Let_def t1'_def flip: with_table_def)
  then have "pg_append_events ps no_errors q1 db2 lg (CheckExact x) es =
      (with_table q1 (t1\<lparr>pt_seq := pt_seq t1'\<rparr>) db2, Inl (ErrWrap ''append events'' (ErrConflict x 0)))"
    using abort_parsed [OF ps, of 0] es
    by (simp add: pg_append_events_def pg_within_tx_def pg_append_in_tx_def Let_def recs new_record_def rollback_with_table [OF db2(1)])
  then show ?thesis using first(1) by (simp add: pg_read_events_def Let_def split: option.split)
qed

text \<open>
  On a \<open>BYTEA\<close> table with the snapshots of an in-memory store, valid identifiers and versions below \<open>2 ^ 63\<close>, saving succeeds in both stores or
  in neither, leaves them with the same snapshots, and reading gives the same snapshot, none, or an error in both.
\<close>

theorem postgres_snapshots_agree:
  assumes table: "db (pq_table (pn_queries pst)) = Some tab" "pn_type tab = BYTEA" "\<forall>i. ps_text ps i = None"
    and codec: "pn_ser pst = ss_ser st" "pn_de pst = ss_de st"
    and same: "\<forall>lg. map_option snd (pn_rows tab lg) = ss_snapshots st lg" and small: "\<not> high_bit (sh_version sh t)"
    and pg: "pg_save_snapshot ps ctx sh pst db t = (db', e)" and ram: "save_snapshot ctx sh st t = (st', e')"
  shows "(e = None \<longleftrightarrow> e' = None) \<and>
    (\<exists>tab'. db' (pq_table (pn_queries pst)) = Some tab' \<and> (\<forall>lg. map_option snd (pn_rows tab' lg) = ss_snapshots st' lg)) \<and>
    map_sum (\<lambda>_. ()) id (pg_get_snapshot ps ctx' pst db' lg) = map_sum (\<lambda>_. ()) id (get_snapshot ctx' st' lg)"
proof -
  have read: "map_sum (\<lambda>_. ()) id (pg_get_snapshot ps ctx' pst d lg) = map_sum (\<lambda>_. ()) id (get_snapshot ctx' s lg)"
    if "d (pq_table (pn_queries pst)) = Some tb" "\<forall>lg. map_option snd (pn_rows tb lg) = ss_snapshots s lg" "ss_de s = pn_de pst" for d s tb
  proof -
    have "ss_snapshots s lg = map_option snd (pn_rows tb lg)" using that(2) by simp
    then show ?thesis using that(1,3) table(3)
      by (cases "pn_rows tb lg") (auto simp: pg_get_snapshot_def get_snapshot_def split: option.split sum.split)
  qed
  show ?thesis
  proof (cases "ctx = None \<and> (\<exists>d. ss_ser st t = Inr d)")
    case True
    then obtain d where d: "ss_ser st t = Inr d" by blast
    let ?tab = "tab\<lparr>pn_rows := (pn_rows tab)(sh_id sh t \<mapsto> (sh_version sh t, d))\<rparr>"
    have "e = None" "e' = None" "db' = db(pq_table (pn_queries pst) \<mapsto> ?tab)" "st' = st\<lparr>ss_snapshots := (ss_snapshots st)(sh_id sh t \<mapsto> d)\<rparr>"
      using True d pg ram table codec small by (auto simp: pg_save_snapshot_def save_snapshot_def pg_column_def)
    then show ?thesis using read [of db' ?tab st'] same codec by simp
  next
    case False
    then have "(e = None) = (e' = None)" "db' = db" "st' = st"
      using pg ram codec by (auto simp: pg_save_snapshot_def save_snapshot_def split: option.splits sum.splits)
    then show ?thesis using read [of db tab st] table same codec by simp
  qed
qed

section \<open>Witnesses\<close>

definition demo_server :: "nat pg_server" where
  "demo_server = \<lparr>ps_sql = demo_sql, ps_text = (\<lambda>_. None), ps_jsonb = Inr, ps_no_table = ErrMsg ''relation does not exist'', ps_no_function = ErrMsg ''function does not exist'',
     ps_out_of_range = ErrMsg ''bigint out of range'', ps_unique = ErrMsg ''duplicate key value''\<rparr>"

abbreviation set_up :: pg_setup where
  "set_up \<equiv> \<lparr>su_begin = None, su_table = None, su_function = None, su_trigger = None, su_commit = None\<rparr>"

definition bytea_queries :: pg_queries where
  "bytea_queries = \<lparr>pq_table = ''chronicle_events'', pq_type = BYTEA\<rparr>"

definition empty_table :: "nat pg_table" where
  "empty_table = \<lparr>pt_type = BYTEA, pt_rows = [], pt_seq = 0\<rparr>"

definition one_log :: "(nat, unit) pg_db" where
  "one_log = fst (new_postgres set_up [PgUseBYTEA] \<lparr>pg_tables = Map.empty, pg_function = None, pg_triggers = {}, pg_other = ()\<rparr>)"

lemma one_log_ready: "pg_ready bytea_queries one_log empty_table"
  by (simp add: pg_ready_def one_log_def new_postgres_def pg_configure_def pg_generate_def Let_def pg_create_trigger_def
      pg_create_function_def pg_create_table_def bytea_queries_def empty_table_def)

text \<open>A server whose \<open>JSONB\<close> refuses empty data and keeps the last element only.\<close>

definition strict_server :: "nat pg_server" where
  "strict_server = demo_server\<lparr>ps_jsonb := \<lambda>bs. if bs = [] then Inl (ErrMsg ''invalid input syntax for type json'') else Inr [last bs]\<rparr>"

definition pruned_table :: "nat pg_table" where
  "pruned_table = \<lparr>pt_type = JSONB, pt_rows = [\<lparr>mr_log = ''a'', mr_name = ''added'', mr_data = [3], mr_version = 2, mr_global = 2\<rparr>], pt_seq = 2\<rparr>"

definition json_queries :: pg_queries where
  "json_queries = \<lparr>pq_table = ''chronicle_events'', pq_type = JSONB\<rparr>"

theorem postgres_agrees_with_sqlite_witness:
  "\<exists>db' sdb'. pg_append_events strict_server no_errors json_queries (with_table json_queries pruned_table one_log) ''a'' (CheckExact 2)
      [\<lparr>raw_name = ''added'', raw_data = [5, 7]\<rparr>] = (db', Inr 3) \<and>
    sqlite_append_events demo_sql no_errors (as_sqlite pruned_table ()) ''a'' (CheckExact 2) [\<lparr>raw_name = ''added'', raw_data = [7]\<rparr>] = (sdb', Inr 3) \<and>
    pg_read_events strict_server no_errors json_queries db' ''a'' select_from_beginning = sqlite_read_events demo_sql no_errors sdb' ''a'' select_from_beginning"
proof -
  let ?es = "[\<lparr>raw_name = ''added'', raw_data = [5, 7]\<rparr>] :: nat raw list" and ?db = "with_table json_queries pruned_table one_log"
  let ?nf = "\<lambda>bs :: nat list. [last bs]"
  have "pg_ready json_queries ?db pruned_table" using one_log_ready by (simp add: pg_ready_def json_queries_def bytea_queries_def)
  moreover have "versions_below (pt_rows pruned_table) (length ?es)" by (simp add: versions_below_def pruned_table_def)
  moreover have "unat (pt_seq pruned_table) + length ?es < 2 ^ 63" by (simp add: pruned_table_def)
  moreover have "\<forall>e \<in> set ?es. pg_stored strict_server (pt_type pruned_table) ''a'' (raw_name e) (raw_data e) = Inr (?nf (raw_data e))"
    by (simp add: pg_stored_def pg_column_def strict_server_def demo_server_def pruned_table_def)
  moreover have "ps_text strict_server ''a'' = None" by (simp add: strict_server_def demo_server_def)
  moreover obtain db' r where pg: "pg_append_events strict_server no_errors json_queries ?db ''a'' (CheckExact 2) ?es = (db', r)" by fastforce
  moreover obtain sdb' r' where sql: "sqlite_append_events (ps_sql strict_server) no_errors (as_sqlite pruned_table (pg_other ?db)) ''a'' (CheckExact 2)
      (map (with_data ?nf) ?es) = (sdb', r')" by fastforce
  ultimately have agree: "r = r'" "pg_read_events strict_server no_errors json_queries db' ''a'' select_from_beginning =
      sqlite_read_events (ps_sql strict_server) no_errors sdb' ''a'' select_from_beginning"
    using postgres_agrees_with_sqlite [of json_queries ?db pruned_table ?es strict_server "''a''" ?nf "''a''" no_errors 2 db' r sdb' r' select_from_beginning]
    by blast+
  have "r' = Inr 3" using sql
    by (simp add: sqlite_append_events_def sqlite_within_tx_def sqlite_append_in_tx_def to_records_def insert_event_def high_bit_def
        max_version_def pruned_table_def Let_def with_data_def new_record_def)
  with agree pg sql show ?thesis by (auto simp: strict_server_def demo_server_def with_data_def)
qed

theorem postgres_option_order_witness:
  "pg_configure ''chronicle_events'' [PgTableName ''t'', PgUseBYTEA] = \<lparr>pq_table = ''t'', pq_type = JSONB\<rparr> \<and>
    pg_configure ''chronicle_events'' [PgUseBYTEA] = \<lparr>pq_table = ''chronicle_events'', pq_type = BYTEA\<rparr>"
proof -
  have "\<forall>name. PgTableName name \<notin> set [PgUseBYTEA]" by simp
  from postgres_option_order [OF this, of "''chronicle_events''" "[]" "''t''"] show ?thesis by simp
qed

definition one_table :: "nat pg_table" where
  "one_table = \<lparr>pt_type = BYTEA, pt_rows = [\<lparr>mr_log = ''a'', mr_name = ''added'', mr_data = [3], mr_version = 1, mr_global = 1\<rparr>], pt_seq = 1\<rparr>"

definition snap_nat :: "(nat, nat, nat) snapshotter" where
  "snap_nat = \<lparr>sh_to = \<lambda>r. Inr (root_state r), sh_from = \<lambda>n. Inr \<lparr>root_state = n, root_uncommitted = [], root_version = 1\<rparr>, sh_id = \<lambda>_. ''a'', sh_version = \<lambda>_. 1\<rparr>"

lemma one_append:
  "pg_append_events demo_server no_errors bytea_queries one_log ''a'' (CheckExact 0) one_raw = (with_table bytea_queries one_table one_log, Inr 1)"
proof -
  have "pg_tables one_log ''chronicle_events'' = Some empty_table" "pg_function one_log = Some ''chronicle_events''" "''chronicle_events'' \<in> pg_triggers one_log"
    using one_log_ready by (simp_all add: pg_ready_def bytea_queries_def)
  then show ?thesis
    by (simp add: pg_append_events_def pg_within_tx_def pg_append_in_tx_def one_raw_def to_records_def pg_insert_event_def high_bit_def bytea_queries_def
        empty_table_def Let_def pg_check_def max_version_def one_table_def with_table_def pg_stored_def pg_column_def demo_server_def)
qed

theorem second_log_breaks_first_witness:
  "\<exists>db1 db2 q2 db'. pg_append_events demo_server no_errors bytea_queries one_log ''a'' (CheckExact 0) one_raw = (db1, Inr 1) \<and>
    new_postgres set_up [PgTableName ''other''] db1 = (db2, Inr q2) \<and>
    pg_append_events demo_server no_errors bytea_queries db2 ''a'' (CheckExact 1) one_raw = (db', Inl (ErrWrap ''append events'' (ErrConflict 1 0)))"
proof -
  define db1 where "db1 = with_table bytea_queries one_table one_log"
  obtain db2 q2 where new: "new_postgres set_up [PgTableName ''other''] db1 = (db2, Inr q2)" and q2: "pq_table q2 = ''other''"
    by (simp add: new_postgres_def pg_configure_def pg_generate_def Let_def)
  have "pg_tables db1 (pq_table bytea_queries) = Some one_table" "pq_table bytea_queries \<in> pg_triggers db1"
    "pg_stored demo_server (pt_type one_table) ''a'' (raw_name (hd one_raw)) (raw_data (hd one_raw)) = Inr [3]"
    using one_log_ready by (simp_all add: db1_def pg_ready_def one_table_def pg_stored_def pg_column_def demo_server_def one_raw_def)
  moreover have "pq_table q2 \<noteq> pq_table bytea_queries" "pg_tables db1 (pq_table q2) = None"
    using q2 by (simp_all add: db1_def bytea_queries_def one_log_def new_postgres_def pg_configure_def pg_generate_def Let_def
        pg_create_trigger_def pg_create_function_def pg_create_table_def)
  moreover have "keeps_text (ps_sql demo_server)" using demo_sql_text by (simp add: demo_server_def)
  moreover have "(1 :: u64) \<noteq> 0" "unat (1 :: u64) + 1 < 2 ^ 63" "pt_seq one_table \<noteq> 2 ^ 63 - 1" "one_raw \<noteq> []"
    by (simp_all add: one_table_def one_raw_def)
  ultimately have "\<exists>db'. pg_append_events demo_server no_errors bytea_queries db2 ''a'' (CheckExact 1) one_raw = (db', Inl (ErrWrap ''append events'' (ErrConflict 1 0)))"
    using second_log_breaks_first [of db1 bytea_queries one_table demo_server "''a''" one_raw "[3]" "[PgTableName ''other'']" db2 q2 1 select_from_beginning] new by blast
  with one_append new show ?thesis unfolding db1_def by blast
qed

theorem postgres_snapshots_agree_witness:
  "\<exists>db' st'. pg_save_snapshot demo_server None snap_nat \<lparr>pn_ser = \<lambda>n. Inr [n], pn_de = \<lambda>bs. Inr (hd bs), pn_queries = bytea_queries\<rparr>
      [''chronicle_events'' \<mapsto> \<lparr>pn_type = BYTEA, pn_rows = Map.empty\<rparr>] 7 = (db', None) \<and>
    save_snapshot None snap_nat (new_memory_store (\<lambda>n. Inr [n]) (\<lambda>bs. Inr (hd bs))) 7 = (st', None) \<and>
    pg_get_snapshot demo_server None \<lparr>pn_ser = \<lambda>n. Inr [n], pn_de = \<lambda>bs. Inr (hd bs), pn_queries = bytea_queries\<rparr> db' ''a'' = Inr (Some 7)"
proof -
  let ?pst = "\<lparr>pn_ser = \<lambda>n. Inr [n], pn_de = \<lambda>bs. Inr (hd bs), pn_queries = bytea_queries\<rparr> :: (nat, nat) pg_snap_store"
  let ?tab = "\<lparr>pn_type = BYTEA, pn_rows = Map.empty\<rparr> :: nat pg_snap_table"
  let ?st = "new_memory_store (\<lambda>n. Inr [n]) (\<lambda>bs. Inr (hd bs)) :: (nat, nat) snap_store"
  obtain db' e where pg: "pg_save_snapshot demo_server None snap_nat ?pst [''chronicle_events'' \<mapsto> ?tab] 7 = (db', e)" by fastforce
  obtain st' where ram: "save_snapshot None snap_nat ?st 7 = (st', None)" and get: "get_snapshot None st' ''a'' = Inr (Some 7)"
    by (simp add: save_snapshot_def new_memory_store_def get_snapshot_def snap_nat_def)
  have "[''chronicle_events'' \<mapsto> ?tab] (pq_table (pn_queries ?pst)) = Some ?tab" "pn_type ?tab = BYTEA" "\<forall>i. ps_text demo_server i = None" "pn_ser ?pst = ss_ser ?st" "pn_de ?pst = ss_de ?st"
    "\<forall>lg. map_option snd (pn_rows ?tab lg) = ss_snapshots ?st lg" "\<not> high_bit (sh_version snap_nat 7)"
    by (simp_all add: demo_server_def bytea_queries_def new_memory_store_def snap_nat_def high_bit_def)
  from postgres_snapshots_agree [OF this pg ram, of None "''a''"] pg ram get show ?thesis
    by (cases "pg_get_snapshot demo_server None ?pst db' ''a''") auto
qed

end
