(* ===== verification/Spec2Isabelle.thy ===== *)
theory Spec2Isabelle
  imports DF_Dispatch DF_Typing DF_Logger DF_Snapshot DF_PebbleLog DF_Postgres
begin

text \<open>
  A verification development for DurableFuture, an engine for durable workflows in Go. A workflow is a
  function that awaits activities; its history is a stream of events in NATS JetStream, and it
  survives a crash because it is run again from the start on its history, with the recorded outcomes
  in place of the activities. This development models the engine as it is written and shows what
  keeps it correct, and where it is not.

  \<^bold>\<open>The program.\<close> A client (\<open>sdk/internal/client.go\<close>) sends a start command. The server
  stores the input and publishes the start event
  (\<open>internal/server/handler/command/handler.go\<close>). Its projectors
  (\<open>internal/server/projection\<close>) turn events of the history into tasks: the start of a workflow
  and each outcome of an activity into a workflow task, each scheduled activity into an activity task,
  a retried one into a later one, a completion into a stored result. Workers
  (\<open>sdk/internal/worker_runtime.go\<close>) take the tasks: a workflow task loads the workflow, an
  event-sourced aggregate of the vendored library
  (\<open>internal/third_party/chronicle\<close>), runs the function against it
  (\<open>sdk/internal/context.go\<close>) and saves the new events; an activity task calls a function and
  records what became of it. The client waits for the result in the result bucket.

  \<^bold>\<open>Theories.\<close> In the order of the imports:

  \<^item> \<open>DF_Prelude\<close>: errors, decimal strings, string functions, lemmas on words and lists.
  \<^item> \<open>DF_Records\<close>, \<open>DF_Log\<close>: \<open>version\<close>, \<open>event\<close> of chronicle; the
    interface of an event log as a locale with its laws, and what follows from them.
  \<^item> \<open>DF_MemLog\<close>: \<open>eventlog/memory.go\<close>, an interpretation of that locale.
  \<^item> \<open>DF_Event\<close>, \<open>DF_Aggregate\<close>, \<open>DF_Repo\<close>: registries, transformers, the
    aggregate root, the event-sourced repository.
  \<^item> \<open>DF_Float\<close>, \<open>DF_Api\<close>: IEEE doubles with rounding; the data of \<open>api\<close>
    and the serializer as a record of functions.
  \<^item> \<open>DF_Context\<close>, \<open>DF_Program\<close>, \<open>DF_Replay\<close>: the workflow context and its
    \<open>Apply\<close>, a workflow as a program over its operations, replay on a longer history; what a
    serializer promises.
  \<^item> \<open>DF_Reference\<close>: the reference semantics of a workflow function on the recorded outcomes
    (\<open>follow\<close>), without the context, its counters and its events; the run of the context implements it.
  \<^item> \<open>DF_Snapshot\<close>: the decorators of a repository, snapshots and retries on conflicts.
  \<^item> \<open>DF_Serde\<close>, \<open>DF_Retry\<close>, \<open>DF_Worker\<close>: argument conversion, the retry
    decision, the handling of both kinds of task.
  \<^item> \<open>DF_Projection\<close>, \<open>DF_Command\<close>: the projectors; the command handler and the client.
  \<^item> \<open>DF_NatsLog\<close>: \<open>eventlog/nats.go\<close> and the conflict parser.
  \<^item> \<open>DF_System\<close>, \<open>DF_Engine\<close>: the engine as a step relation over the history, the
    tasks, the loaded workflows, the stored inputs and results, with its invariant; what holds in
    every reachable state.
  \<^item> \<open>DF_Dispatch\<close>: the goroutines of any number of workers, interleaved at their calls of the
    server, and the simulation that shows each interleaving to be a run of the engine.
  \<^item> \<open>DF_Text\<close>, \<open>DF_Conn\<close>: string functions of the Go library; the connections of
    server and SDK, and the bootstrap.
  \<^item> \<open>DF_Routing\<close>, \<open>DF_Receive\<close>: subjects, wildcards and streams; the receive loop.
  \<^item> \<open>DF_Live\<close>, \<open>DF_Examples\<close>: the progress and the end of workflows; the example workflows.
  \<^item> \<open>DF_Sdk\<close>: the public packages of the SDK, its errors and execution handles, the
    serializers, the handles of connections.
  \<^item> \<open>DF_Demo\<close>, \<open>DF_Serve\<close>: \<open>internal/server/handler/http\<close>; starting the
    projectors and the command processor, and the routes of the HTTP server.
  \<^item> \<open>DF_Programs\<close>, \<open>DF_Typing\<close>: what each scenario registers and starts, and the
    program of \<open>examples/cmd\<close>; the structs of the scenarios and values of a type.
  \<^item> \<open>DF_Transact\<close>, \<open>DF_Database\<close>: saving in a transaction, with the law of a
    transactor as a locale; the SQLite log, an interpretation of it.
  \<^item> \<open>DF_Keys\<close>, \<open>DF_Pebble\<close>, \<open>DF_PebbleStore\<close>, \<open>DF_PebbleLog\<close>: the keys of
    \<open>eventlog/pebble.go\<close> and their order, its operations over the calls of a key-value database, what the
    database holds after each of them, and the log seen from outside.
  \<^item> \<open>DF_Postgres\<close>: \<open>eventlog/postgres.go\<close> with its trigger function, in lockstep with SQLite, and
    \<open>snapshotstore/postgres.go\<close>.
  \<^item> \<open>DF_Config\<close>, \<open>DF_Logger\<close>: \<open>internal/server/config\<close>,
    \<open>internal/server/logger\<close>, \<open>internal/server/app/run.go\<close>, \<open>sdk/config\<close>.

  \<^bold>\<open>State.\<close> The log is a record of streams by id with a global list (\<open>memory\<close>); an
  aggregate is its root (version, uncommitted events) and its state; the state of a workflow
  is its identity and, for each activity name, the recorded outcomes and how many of them this run has
  consumed. A workflow function is a tree of its context operations (\<open>DF_Program\<close>), which is how
  a deterministic Go function looks to the context. Such a tree has no infinite path: a function that calls activities
  without end is not one. So no theorem takes its claim from that alone: those that say that a workflow ends ask for a bound on its
  calls. An activity is a function to a panic or to the values it returns, any values: that they fit its signature is a theorem. A panic is a value: the one that a pending future
  throws, or any other. Errors are the datatype \<open>gerr\<close> with the texts of the source. Versions,
  counters, durations and attempts are machine words; a backoff is a double.

  \<^bold>\<open>What is shown.\<close> Of the library: appends are checked against the version, nothing is lost or
  reordered, a saved aggregate is what a later load returns, with or without snapshots. Of a run: it implements the reference semantics, so that it
  schedules exactly the calls without a recorded outcome, a finished workflow finishes alike on every longer history, a workflow
  task extends the stream by what the reference says only; an activity task extends it by the verdict on what the activity returned.
  Of retries: decided exactly as the policy says, bounded by it from the failed attempt to the published task, spaced exponentially; and
  where the arithmetic goes wrong. Of the server: which event publishes which task, that the input is
  stored before its start event, that requests are settled once. Of the whole engine, by an invariant over
  every interleaving of its steps: histories are well formed, completions agree, a stored result is
  final. Of the workers: however their goroutines interleave, what they do is a run of that engine, and
  of two that start from the same version one saves. Of progress: a workflow that waits gets further once what it
  scheduled is answered, and one with a bound on its calls ends, after as many tasks as it has calls plus one. Of the set-up: the bootstrap refines an abstract update of
  streams and buckets, published tasks, retries too, reach the queue the workers read, every projector sees the
  whole history, only a posted crash request stops the server. Of the examples: they end, they register what they call,
  with arguments and results of the declared types; the outcomes of their program. Of transactions: all or nothing where the
  log rolls back. Of the logs on databases: the one on Pebble answers appends and reads like the one in memory, also for the
  index over all streams, the one on PostgreSQL like the one on SQLite, for every log whose table, function and trigger belong
  together and events that the table accepts, whose data is then what the column keeps; what it does not accept fails the append. Some theorems state
  defects: lost events after a failed save, reported as a success by the retries, the shared history stream, calls matched by completion
  order, namespaces, log levels and files, ignored configuration,
  errors that are retried although marked, a pruned stream that SQLite no longer extends, streams of which one name continues the other with a slash,
  a second append in one transaction, a second log in one database.

  \<^bold>\<open>Bounds and fuel.\<close> Loops over lists are structural. \<open>drop_codes\<close> is given the length of
  its text as fuel, which is enough (\<open>drop_codes_done\<close>). \<open>drive\<close>, \<open>attempt_loop\<close>
  count tasks and attempts; that a number suffices is what their theorems prove, as existence of a
  result. \<open>create_consumer\<close> has a measure. The loop of a worker and the watcher run over a list of
  rounds, the answers that the channel or the server gave.

  \<^bold>\<open>Parameters.\<close> The serializer, the snapshotter, the retry loop, the JetStream client, the environment reader, the exporter, the
  UUIDs, the clock and the textual formats of values are arguments. What a property needs of them is a
  hypothesis that states their documentation: the serializer decodes what it encoded up to a
  normalisation (\<open>normalising\<close>), JetStream stores the configurations it accepts
  (\<open>conforming\<close>) and its consumers (\<open>keeps_consumers\<close>), wildcards match tokens
  (\<open>wildcard_matching\<close>), a group of goroutines returns their first error (\<open>first_error\<close>), a
  decoded value has the type asked for (\<open>decodes_fitting\<close>), a driver keeps the text of an aborted
  statement (\<open>keeps_text\<close>), PostgreSQL accepts a text or value or refuses it (\<open>pg_stored\<close>), a key-value database is an ordered map that applies a batch at once
  (\<open>ordered_store\<close>), its values decode to what was encoded (\<open>json_faithful\<close>). Each has an instance in a witness. The order of Go maps is not modelled: where a result depends on it the map is
  a list in the order of iteration.

  \<^bold>\<open>Not modelled.\<close> Transactions of a database run one after another: the advisory locks of PostgreSQL and the mutex of
  Pebble, which order concurrent writers, are left out, and so are the engines of the databases. The
  serializers call libraries, whose encoding is a parameter. Locks, the scheduling of goroutines between two calls of the
  server, sockets, file servers, colours and exporters of the log, sleeping and the lines that only log are left
  out, and so are accessors that hand out a field, interface declarations and the examples and test helpers of the
  vendored library. In \<open>DF_System\<close> the history is the log of the library, not the JetStream log,
  whose shared-stream conflict would stop the engine (\<open>shared_stream_conflict\<close>); tasks may be
  delivered any number of times and in any order.
\<close>

end
